(* ===== verification/Bytes.thy ===== *)
theory Bytes
  imports Prelude
begin

unbundle bit_operations_syntax

text \<open>
  Bytes and fixed-size byte arrays: \<open>to_le_bytes\<close>/\<open>to_be_bytes\<close> and their inverses on machine
  words, \<open>[u8; N]\<close> as the type \<open>N bytes\<close> of byte lists of that length, \<open>str::as_bytes\<close>, and the
  hexadecimal printing and parsing the sources write by hand.
\<close>

type_synonym byte = "8 word"

lemma unat_byte_less: "unat (b :: byte) < 256"
  using unsigned_less [of b, where ?'a = nat] by simp

section \<open>Integers as bytes\<close>

definition to_le_bytes :: "'a::len word \<Rightarrow> byte list" where
  "to_le_bytes w = map (\<lambda>i. ucast (drop_bit (8 * i) w)) [0..<LENGTH('a) div 8]"

fun from_le_bytes :: "byte list \<Rightarrow> 'a::len word" where
  "from_le_bytes [] = 0"
| "from_le_bytes (b # bs) = ucast b OR push_bit 8 (from_le_bytes bs)"

definition to_be_bytes :: "'a::len word \<Rightarrow> byte list" where
  "to_be_bytes w = rev (to_le_bytes w)"

definition from_be_bytes :: "byte list \<Rightarrow> 'a::len word" where
  "from_be_bytes bs = from_le_bytes (rev bs)"

lemma length_to_le_bytes [simp]: "length (to_le_bytes (w :: 'a::len word)) = LENGTH('a) div 8"
  by (simp add: to_le_bytes_def)

lemma length_to_be_bytes [simp]: "length (to_be_bytes (w :: 'a::len word)) = LENGTH('a) div 8"
  by (simp add: to_be_bytes_def)

lemma bit_from_le_bytes:
  "bit (from_le_bytes bs :: 'a::len word) j \<longleftrightarrow>
     j < LENGTH('a) \<and> j < 8 * length bs \<and> bit (bs ! (j div 8)) (j mod 8)"
proof (induction bs arbitrary: j)
  case (Cons b bs)
  show ?case
  proof (cases "j < 8")
    case True
    then show ?thesis
      by (auto simp: bit_or_iff bit_push_bit_iff bit_ucast_iff)
  next
    case False
    then have "j div 8 = Suc ((j - 8) div 8)" "j mod 8 = (j - 8) mod 8"
      by (simp_all add: le_div_geq le_mod_geq)
    moreover have "\<not> bit b j"
      using False by (auto dest: bit_imp_le_length)
    ultimately show ?thesis
      using False Cons.IH [of "j - 8"]
      by (auto simp: bit_or_iff bit_push_bit_iff bit_ucast_iff)
  qed
qed simp

lemma bit_to_le_bytes_nth:
  fixes w :: "'a::len word"
  assumes "i < LENGTH('a) div 8"
  shows "bit (to_le_bytes w ! i) k \<longleftrightarrow> k < 8 \<and> bit w (8 * i + k)"
  using assms
  by (auto simp: to_le_bytes_def bit_ucast_iff bit_drop_bit_eq dest: bit_imp_le_length)

lemma from_to_le_bytes [simp]:
  fixes w :: "'a::len word"
  assumes "8 dvd LENGTH('a)"
  shows "from_le_bytes (to_le_bytes w) = w"
proof (rule bit_word_eqI)
  fix j assume j: "j < LENGTH('a)"
  then have "j div 8 < LENGTH('a) div 8"
    using assms by (auto elim!: dvdE)
  then show "bit (from_le_bytes (to_le_bytes w) :: 'a word) j \<longleftrightarrow> bit w j"
    using j assms by (auto simp: bit_from_le_bytes bit_to_le_bytes_nth)
qed

lemma to_from_le_bytes [simp]:
  assumes "8 dvd LENGTH('a::len)" and "length bs = LENGTH('a) div 8"
  shows "to_le_bytes (from_le_bytes bs :: 'a word) = bs"
proof (rule nth_equalityI)
  show "length (to_le_bytes (from_le_bytes bs :: 'a word)) = length bs"
    using assms by simp
next
  fix i assume "i < length (to_le_bytes (from_le_bytes bs :: 'a word))"
  then have i: "i < LENGTH('a) div 8" by simp
  show "to_le_bytes (from_le_bytes bs :: 'a word) ! i = bs ! i"
  proof (rule bit_word_eqI)
    fix k assume "k < LENGTH(8)"
    then have k: "k < 8" by simp
    have "8 * i + k < LENGTH('a)" "8 * i + k < 8 * length bs"
      using assms i k by (auto elim!: dvdE)
    moreover have "(8 * i + k) div 8 = i" "(8 * i + k) mod 8 = k"
      using k by simp_all
    ultimately show "bit (to_le_bytes (from_le_bytes bs :: 'a word) ! i) k \<longleftrightarrow> bit (bs ! i) k"
      using i k by (simp add: bit_to_le_bytes_nth bit_from_le_bytes)
  qed
qed

lemma from_to_be_bytes [simp]:
  "8 dvd LENGTH('a) \<Longrightarrow> from_be_bytes (to_be_bytes w) = (w :: 'a::len word)"
  by (simp add: from_be_bytes_def to_be_bytes_def)

lemma to_from_be_bytes [simp]:
  "8 dvd LENGTH('a) \<Longrightarrow> length bs = LENGTH('a) div 8 \<Longrightarrow>
     to_be_bytes (from_be_bytes bs :: 'a::len word) = bs"
  by (simp add: from_be_bytes_def to_be_bytes_def)

lemma to_le_bytes_inject:
  "8 dvd LENGTH('a) \<Longrightarrow> to_le_bytes v = to_le_bytes w \<longleftrightarrow> v = (w :: 'a::len word)"
  by (metis from_to_le_bytes)

lemma to_be_bytes_inject:
  "8 dvd LENGTH('a) \<Longrightarrow> to_be_bytes v = to_be_bytes w \<longleftrightarrow> v = (w :: 'a::len word)"
  by (metis from_to_be_bytes)

text \<open>A length written with \<open>as u32\<close>: exact below \<open>2^32\<close>, truncated above.\<close>

lemma of_nat_u32_inject:
  "m < 2 ^ 32 \<Longrightarrow> n < 2 ^ 32 \<Longrightarrow> (of_nat m :: u32) = of_nat n \<longleftrightarrow> m = n"
  by (simp add: word_of_nat_eq_iff take_bit_nat_eq_self)

section \<open>Fixed-size byte arrays\<close>

typedef (overloaded) ('n::len) bytes = "{bs :: byte list. length bs = LENGTH('n)}"
  morphisms bytes_list Bytes
  by (rule exI [of _ "replicate LENGTH('n) 0"]) simp

lemma bytes_abstype [code abstype]: "Bytes (bytes_list b) = b"
  by (rule bytes_list_inverse)

lemma length_bytes_list [simp]: "length (bytes_list (b :: 'n::len bytes)) = LENGTH('n)"
  using bytes_list [of b] by simp

lemma bytes_list_eq_iff: "bytes_list a = bytes_list b \<longleftrightarrow> a = b"
  by (rule bytes_list_inject)

text \<open>\<open>[b; N]\<close> and \<open>TryFrom<&[u8]> for [u8; N]\<close>.\<close>

definition fill :: "byte \<Rightarrow> 'n::len bytes" where
  "fill b = Bytes (replicate LENGTH('n) b)"

definition try_into :: "byte list \<Rightarrow> 'n::len bytes option" where
  "try_into bs = (if length bs = LENGTH('n) then Some (Bytes bs) else None)"

text \<open>An executable constructor: the first \<open>N\<close> bytes, zero-padded.\<close>

definition resize :: "byte list \<Rightarrow> 'n::len bytes" where
  "resize bs = Bytes (take LENGTH('n) (bs @ replicate LENGTH('n) 0))"

lemma bytes_list_fill [simp, code abstract]:
  "bytes_list (fill b :: 'n::len bytes) = replicate LENGTH('n) b"
  by (simp add: fill_def Bytes_inverse)

lemma fill_eq_iff [simp]: "(fill a :: 'n::len bytes) = fill b \<longleftrightarrow> a = b"
  by (auto simp: bytes_list_eq_iff [symmetric])

lemma bytes_list_resize [simp, code abstract]:
  "bytes_list (resize bs :: 'n::len bytes) = take LENGTH('n) (bs @ replicate LENGTH('n) 0)"
  by (simp add: resize_def Bytes_inverse)

lemma try_into_code [code]:
  "(try_into bs :: 'n::len bytes option) = (if length bs = LENGTH('n) then Some (resize bs) else None)"
  by (simp add: try_into_def resize_def)

lemma try_into_Some_iff: "try_into bs = Some a \<longleftrightarrow> bs = bytes_list (a :: 'n::len bytes)"
  by (auto simp: try_into_def Bytes_inverse bytes_list_inverse)

lemma try_into_None_iff: "(try_into bs :: 'n::len bytes option) = None \<longleftrightarrow> length bs \<noteq> LENGTH('n)"
  by (simp add: try_into_def)

lemma try_into_bytes_list [simp]: "try_into (bytes_list a) = Some a"
  by (simp add: try_into_Some_iff)

instantiation bytes :: (len) equal
begin

definition equal_bytes :: "'a bytes \<Rightarrow> 'a bytes \<Rightarrow> bool" where
  "equal_bytes a b \<longleftrightarrow> bytes_list a = bytes_list b"

instance
  by standard (simp add: equal_bytes_def bytes_list_eq_iff)

end

instantiation bytes :: (len) linorder
begin

definition less_eq_bytes :: "'a bytes \<Rightarrow> 'a bytes \<Rightarrow> bool" where
  "less_eq_bytes a b \<longleftrightarrow> bytes_list a \<le> bytes_list b"

definition less_bytes :: "'a bytes \<Rightarrow> 'a bytes \<Rightarrow> bool" where
  "less_bytes a b \<longleftrightarrow> bytes_list a < bytes_list b"

instance
  by standard (auto simp: less_eq_bytes_def less_bytes_def bytes_list_eq_iff [symmetric])

end

section \<open>Strings as bytes\<close>

definition as_bytes :: "string \<Rightarrow> byte list" where
  "as_bytes s = map of_char s"

lemma of_char_byte_inject: "(of_char c :: byte) = of_char d \<longleftrightarrow> c = d"
proof
  assume "(of_char c :: byte) = of_char d"
  then have "of_nat (of_char c) = (of_nat (of_char d) :: byte)"
    by (simp only: of_nat_of_char)
  then have "take_bit 8 (of_char c :: nat) = take_bit 8 (of_char d)"
    by (simp only: word_of_nat_eq_iff) simp
  then show "c = d"
    by (simp add: take_bit_eq_mod)
qed simp

lemma length_as_bytes [simp]: "length (as_bytes s) = length s"
  by (simp add: as_bytes_def)

lemma as_bytes_inject [simp]: "as_bytes s = as_bytes t \<longleftrightarrow> s = t"
  unfolding as_bytes_def
  by (rule inj_map_eq_map) (auto intro: injI simp: of_char_byte_inject)

section \<open>Hexadecimal\<close>

text \<open>\<open>write!("{byte:02x}")\<close> for each byte.\<close>

definition hex_char :: "byte \<Rightarrow> char" where
  "hex_char n = ''0123456789abcdef'' ! unat n"

definition hex_byte :: "byte \<Rightarrow> string" where
  "hex_byte b = [hex_char (drop_bit 4 b), hex_char (b AND 15)]"

definition to_hex :: "byte list \<Rightarrow> string" where
  "to_hex bs = concat (map hex_byte bs)"

lemma length_hex_byte [simp]: "length (hex_byte b) = 2"
  by (simp add: hex_byte_def)

lemma length_to_hex [simp]: "length (to_hex bs) = 2 * length bs"
  by (induction bs) (simp_all add: to_hex_def)

end
