(* ===== verification/Identity.thy ===== *)
theory Identity
  imports Bytes
begin

text \<open>
  Attribute sets and their canonical form (\<open>attr.rs\<close>, \<open>canon.rs\<close>). Normalization threads the
  byte budget through every string it visits; the encoder writes tag, 32-bit length, payload.
  Unicode normalization is the parameter \<open>nfc\<close> (the \<open>unicode_normalization\<close> crate); the
  only fact the theorems need of it is that it is idempotent.

  The central result is that the canonical form determines the normalized attribute set: the
  budget keeps every length field below \<open>2^32\<close>, so \<open>as u32\<close> never truncates, and the
  tag-length-payload encoding is then uniquely readable.
\<close>

section \<open>Data\<close>

datatype attribute_value =
    AString string
  | AI64 "64 word"
  | ABool bool
  | AListOfString "string list"
  | ARecord "(string \<times> attribute_value) list"

type_synonym attribute_set = "(string, attribute_value) btreemap"

datatype canonicalization_error =
    DuplicateName string
  | LimitExceeded
  | NonStringIdentity string

datatype canonicalization_version = V2

type_synonym canonical_form = "byte list"

section \<open>Normalization\<close>

definition MAX_IDENTITY_BYTES :: nat where
  "MAX_IDENTITY_BYTES = 16 * 1024 * 1024"

definition MAX_ATTRIBUTE_DEPTH :: nat where
  "MAX_ATTRIBUTE_DEPTH = 64"

definition normalize_text :: "(string \<Rightarrow> string) \<Rightarrow> string \<Rightarrow> string" where
  "normalize_text nfc s = nfc s"

definition charge :: "nat \<Rightarrow> nat \<Rightarrow> (nat, canonicalization_error) result" where
  "charge budget n = (if n \<le> budget then Ok (budget - n) else Err LimitExceeded)"

definition text_norm ::
  "(string \<Rightarrow> string) \<Rightarrow> string \<Rightarrow> nat \<Rightarrow> (string \<times> nat, canonicalization_error) result" where
  "text_norm nfc s budget =
     (if MAX_IDENTITY_BYTES < length s then Err LimitExceeded
      else let t = normalize_text nfc s
           in and_then (charge budget (length t + 5)) (\<lambda>budget. Ok (t, budget)))"

fun normalize_flat_loop ::
  "(string \<Rightarrow> string) \<Rightarrow> nat \<Rightarrow> (string \<times> string) list \<Rightarrow> (string, string) btreemap \<Rightarrow>
     ((string, string) btreemap, canonicalization_error) result" where
  "normalize_flat_loop nfc budget [] normalized = Ok normalized"
| "normalize_flat_loop nfc budget ((key, v) # rest) normalized =
     and_then (text_norm nfc key budget) (\<lambda>(key, budget).
       if bt_contains_key normalized key then Err (DuplicateName key)
       else and_then (text_norm nfc v budget) (\<lambda>(v, budget).
              normalize_flat_loop nfc budget rest (bt_insert key v normalized)))"

definition normalize_flat ::
  "(string \<Rightarrow> string) \<Rightarrow> (string, string) btreemap \<Rightarrow>
     ((string, string) btreemap, canonicalization_error) result" where
  "normalize_flat nfc m = normalize_flat_loop nfc MAX_IDENTITY_BYTES m []"

fun normalize_list ::
  "(string \<Rightarrow> string) \<Rightarrow> string list \<Rightarrow> nat \<Rightarrow> (string list \<times> nat, canonicalization_error) result" where
  "normalize_list nfc [] budget = Ok ([], budget)"
| "normalize_list nfc (s # items) budget =
     and_then (text_norm nfc s budget) (\<lambda>(t, budget).
       and_then (normalize_list nfc items budget) (\<lambda>(ts, budget). Ok (t # ts, budget)))"

text \<open>
  The inner function \<open>map\<close> of \<open>normalize_attributes\<close>: \<open>normalize_map\<close> is its depth guard,
  \<open>normalize_entries\<close> its loop with the accumulator \<open>out\<close>, \<open>normalize_value\<close> its match.
\<close>

function (sequential)
  normalize_value ::
    "(string \<Rightarrow> string) \<Rightarrow> nat \<Rightarrow> attribute_value \<Rightarrow> nat \<Rightarrow>
       (attribute_value \<times> nat, canonicalization_error) result" and
  normalize_map ::
    "(string \<Rightarrow> string) \<Rightarrow> nat \<Rightarrow> (string \<times> attribute_value) list \<Rightarrow> nat \<Rightarrow>
       (attribute_set \<times> nat, canonicalization_error) result" and
  normalize_entries ::
    "(string \<Rightarrow> string) \<Rightarrow> nat \<Rightarrow> (string \<times> attribute_value) list \<Rightarrow> attribute_set \<Rightarrow> nat \<Rightarrow>
       (attribute_set \<times> nat, canonicalization_error) result"
where
  "normalize_value nfc depth (AString s) budget =
     and_then (text_norm nfc s budget) (\<lambda>(t, budget). Ok (AString t, budget))"
| "normalize_value nfc depth (AI64 n) budget =
     and_then (charge budget 13) (\<lambda>budget. Ok (AI64 n, budget))"
| "normalize_value nfc depth (ABool b) budget =
     and_then (charge budget 6) (\<lambda>budget. Ok (ABool b, budget))"
| "normalize_value nfc depth (AListOfString items) budget =
     and_then (charge budget 9) (\<lambda>budget.
       and_then (normalize_list nfc items budget) (\<lambda>(ts, budget). Ok (AListOfString ts, budget)))"
| "normalize_value nfc depth (ARecord inner) budget =
     and_then (charge budget 5) (\<lambda>budget.
       and_then (normalize_map nfc (depth + 1) inner budget) (\<lambda>(m, budget). Ok (ARecord m, budget)))"
| "normalize_map nfc depth input budget =
     (if MAX_ATTRIBUTE_DEPTH < depth then Err LimitExceeded
      else normalize_entries nfc depth input [] budget)"
| "normalize_entries nfc depth [] out budget = Ok (out, budget)"
| "normalize_entries nfc depth ((key, v) # rest) out budget =
     and_then (text_norm nfc key budget) (\<lambda>(key, budget).
       if bt_contains_key out key then Err (DuplicateName key)
       else and_then (normalize_value nfc depth v budget) (\<lambda>(v, budget).
              normalize_entries nfc depth rest (bt_insert key v out) budget))"
  by pat_completeness auto

termination
  by (relation "measures
        [\<lambda>x. case x of Inl (_, _, v, _) \<Rightarrow> 2 * size v
                     | Inr (Inl (_, _, m, _)) \<Rightarrow> 2 * size_list (size_prod (\<lambda>_. 0) size) m + 1
                     | Inr (Inr (_, _, m, _, _)) \<Rightarrow> 2 * size_list (size_prod (\<lambda>_. 0) size) m]")
     auto

definition normalize_attributes ::
  "(string \<Rightarrow> string) \<Rightarrow> attribute_set \<Rightarrow> (attribute_set, canonicalization_error) result" where
  "normalize_attributes nfc attrs =
     and_then (normalize_map nfc 0 attrs MAX_IDENTITY_BYTES) (\<lambda>(m, budget). Ok m)"

section \<open>Canonical encoding\<close>

definition as_le_bytes :: "canonicalization_version \<Rightarrow> byte list" where
  "as_le_bytes v = (case v of V2 \<Rightarrow> to_le_bytes (2 :: u32))"

definition TAG_STRING :: byte where "TAG_STRING = 1"
definition TAG_I64 :: byte where "TAG_I64 = 2"
definition TAG_BOOL :: byte where "TAG_BOOL = 3"
definition TAG_LIST_OF_STRING :: byte where "TAG_LIST_OF_STRING = 4"
definition TAG_RECORD :: byte where "TAG_RECORD = 5"

text \<open>\<open>(bytes.len() as u32).to_le_bytes()\<close> followed by the bytes.\<close>

definition len_u32 :: "byte list \<Rightarrow> byte list" where
  "len_u32 bs = to_le_bytes (of_nat (length bs) :: u32) @ bs"

definition encode_string_raw :: "(string \<Rightarrow> string) \<Rightarrow> string \<Rightarrow> byte list" where
  "encode_string_raw nfc s = TAG_STRING # len_u32 (as_bytes (nfc s))"

definition encode_items :: "(string \<Rightarrow> string) \<Rightarrow> string list \<Rightarrow> byte list" where
  "encode_items nfc items = concat (map (\<lambda>item. len_u32 (as_bytes (nfc item))) items)"

fun encode_value :: "(string \<Rightarrow> string) \<Rightarrow> attribute_value \<Rightarrow> byte list"
and encode_map :: "(string \<Rightarrow> string) \<Rightarrow> (string \<times> attribute_value) list \<Rightarrow> byte list" where
  "encode_value nfc (AString s) = encode_string_raw nfc s"
| "encode_value nfc (AI64 n) = TAG_I64 # to_le_bytes (8 :: u32) @ to_le_bytes n"
| "encode_value nfc (ABool b) = TAG_BOOL # to_le_bytes (1 :: u32) @ [of_bool b]"
| "encode_value nfc (AListOfString items) =
     TAG_LIST_OF_STRING #
       len_u32 (to_le_bytes (of_nat (length items) :: u32) @ encode_items nfc items)"
| "encode_value nfc (ARecord inner) = TAG_RECORD # len_u32 (encode_map nfc inner)"
| "encode_map nfc [] = []"
| "encode_map nfc ((key, v) # rest) =
     encode_string_raw nfc key @ encode_value nfc v @ encode_map nfc rest"

definition canonicalize ::
  "(string \<Rightarrow> string) \<Rightarrow> canonicalization_version \<Rightarrow> attribute_set \<Rightarrow>
     (canonical_form, canonicalization_error) result" where
  "canonicalize nfc version attrs =
     and_then (normalize_attributes nfc attrs) (\<lambda>normalized. Ok (encode_map nfc normalized))"

section \<open>Normalized attribute sets and their cost\<close>

text \<open>
  The budget a normalized value uses up, and what being normalized at a nesting depth means:
  strings fixed by \<open>nfc\<close>, maps strictly sorted, depth within the limit.
\<close>

fun value_cost :: "attribute_value \<Rightarrow> nat"
and map_cost :: "(string \<times> attribute_value) list \<Rightarrow> nat" where
  "value_cost (AString s) = length s + 5"
| "value_cost (AI64 n) = 13"
| "value_cost (ABool b) = 6"
| "value_cost (AListOfString items) = 9 + sum_list (map (\<lambda>s. length s + 5) items)"
| "value_cost (ARecord m) = 5 + map_cost m"
| "map_cost [] = 0"
| "map_cost ((k, v) # m) = length k + 5 + value_cost v + map_cost m"

fun value_normal :: "(string \<Rightarrow> string) \<Rightarrow> nat \<Rightarrow> attribute_value \<Rightarrow> bool"
and entries_normal :: "(string \<Rightarrow> string) \<Rightarrow> nat \<Rightarrow> (string \<times> attribute_value) list \<Rightarrow> bool" where
  "value_normal nfc d (AString s) \<longleftrightarrow> nfc s = s"
| "value_normal nfc d (AI64 n) \<longleftrightarrow> True"
| "value_normal nfc d (ABool b) \<longleftrightarrow> True"
| "value_normal nfc d (AListOfString items) \<longleftrightarrow> (\<forall>s \<in> set items. nfc s = s)"
| "value_normal nfc d (ARecord m) \<longleftrightarrow>
     d + 1 \<le> MAX_ATTRIBUTE_DEPTH \<and> bt_sorted m \<and> entries_normal nfc (d + 1) m"
| "entries_normal nfc d [] \<longleftrightarrow> True"
| "entries_normal nfc d ((k, v) # m) \<longleftrightarrow> nfc k = k \<and> value_normal nfc d v \<and> entries_normal nfc d m"

definition set_normal :: "(string \<Rightarrow> string) \<Rightarrow> attribute_set \<Rightarrow> bool" where
  "set_normal nfc m \<longleftrightarrow> bt_sorted m \<and> entries_normal nfc 0 m \<and> map_cost m \<le> MAX_IDENTITY_BYTES"

text \<open>Normalization Form C is idempotent (Unicode Standard Annex 15).\<close>

definition nfc_idempotent :: "(string \<Rightarrow> string) \<Rightarrow> bool" where
  "nfc_idempotent nfc \<longleftrightarrow> (\<forall>s. nfc (nfc s) = nfc s)"

lemma charge_Ok_iff [simp]: "charge b n = Ok b' \<longleftrightarrow> b = b' + n"
  by (auto simp: charge_def)

lemma text_norm_Ok:
  "text_norm nfc s b = Ok (t, b') \<Longrightarrow> t = nfc s \<and> b = b' + (length t + 5)"
  by (auto simp: text_norm_def normalize_text_def Let_def split: if_splits)

lemma text_norm_normal:
  "nfc s = s \<Longrightarrow> length s + 5 \<le> b \<Longrightarrow> b \<le> MAX_IDENTITY_BYTES \<Longrightarrow>
     text_norm nfc s b = Ok (s, b - (length s + 5))"
  by (auto simp: text_norm_def normalize_text_def Let_def charge_def)

lemma map_cost_insert:
  "k \<notin> fst ` set m \<Longrightarrow> map_cost (bt_insert k v m) = length k + 5 + value_cost v + map_cost m"
  by (induction k v m rule: bt_insert.induct) auto

lemma map_cost_append [simp]: "map_cost (m @ n) = map_cost m + map_cost n"
  by (induction m) auto

lemma entries_normal_insert:
  "entries_normal nfc d m \<Longrightarrow> nfc k = k \<Longrightarrow> value_normal nfc d v \<Longrightarrow>
     entries_normal nfc d (bt_insert k v m)"
  by (induction k v m rule: bt_insert.induct) auto

lemma normalize_list_sound:
  assumes "nfc_idempotent nfc" and "normalize_list nfc items b = Ok (ts, b')"
  shows "(\<forall>t \<in> set ts. nfc t = t) \<and> b = b' + sum_list (map (\<lambda>s. length s + 5) ts)"
  using assms(2)
proof (induction items arbitrary: b ts b')
  case (Cons s items)
  then show ?case
    using assms(1) by (force simp: nfc_idempotent_def dest!: text_norm_Ok)
qed simp

lemma normalize_sound:
  shows "normalize_value nfc d v b = Ok (v', b') \<Longrightarrow> nfc_idempotent nfc \<Longrightarrow>
           value_normal nfc d v' \<and> b = b' + value_cost v'"
    and "normalize_map nfc d m b = Ok (m', b') \<Longrightarrow> nfc_idempotent nfc \<Longrightarrow>
           d \<le> MAX_ATTRIBUTE_DEPTH \<and> bt_sorted m' \<and> entries_normal nfc d m' \<and> b = b' + map_cost m'"
    and "normalize_entries nfc d m out b = Ok (m', b') \<Longrightarrow> nfc_idempotent nfc \<Longrightarrow>
           bt_sorted out \<Longrightarrow> entries_normal nfc d out \<Longrightarrow>
           bt_sorted m' \<and> entries_normal nfc d m' \<and> b + map_cost out = b' + map_cost m'"
proof (induction nfc d v b and nfc d m b and nfc d m out b
       arbitrary: v' b' and m' b' and m' b'
       rule: normalize_value_normalize_map_normalize_entries.induct)
  case (1 nfc depth s budget)
  then show ?case by (auto simp: nfc_idempotent_def dest!: text_norm_Ok)
next
  case (4 nfc depth items budget)
  then show ?case by (auto dest!: normalize_list_sound)
next
  case (5 nfc depth inner budget)
  from 5(2) obtain c m where c: "budget = c + 5"
    and m: "normalize_map nfc (depth + 1) inner c = Ok (m, b')" and v': "v' = ARecord m"
    by (auto split: prod.splits)
  have "charge budget 5 = Ok c" using c by simp
  from 5(1) [OF this m 5(3)] c v' show ?case by simp
next
  case (6 nfc depth input budget)
  then show ?case by (auto split: if_splits)
next
  case (8 nfc depth key v rest out budget)
  from 8(3) obtain k' b1 where k': "text_norm nfc key budget = Ok (k', b1)"
    by (auto split: prod.splits)
  then have k: "text_norm nfc key budget = Ok (nfc key, b1)" "budget = b1 + (length (nfc key) + 5)"
    using text_norm_Ok [OF k'] by auto
  from 8(3) k(1) obtain w b2 where
    fresh: "\<not> bt_contains_key out (nfc key)"
    and w: "normalize_value nfc depth v b1 = Ok (w, b2)"
    and rest: "normalize_entries nfc depth rest (bt_insert (nfc key) w out) b2 = Ok (m', b')"
    by (auto split: if_splits)
  have vw: "value_normal nfc depth w" "b1 = b2 + value_cost w"
    using 8(1) [OF k(1) refl fresh w 8(4)] by auto
  moreover have "entries_normal nfc depth (bt_insert (nfc key) w out)"
    using 8(4,6) vw(1) by (intro entries_normal_insert) (auto simp: nfc_idempotent_def)
  ultimately show ?case
    using 8(2) [OF k(1) refl fresh w refl rest 8(4)] 8(5) k(2) fresh
    by (auto simp: map_cost_insert bt_contains_key_iff)
qed auto

lemma normalize_list_complete:
  "\<forall>s \<in> set items. nfc s = s \<Longrightarrow> sum_list (map (\<lambda>s. length s + 5) items) \<le> b \<Longrightarrow>
     b \<le> MAX_IDENTITY_BYTES \<Longrightarrow>
     normalize_list nfc items b = Ok (items, b - sum_list (map (\<lambda>s. length s + 5) items))"
  by (induction items arbitrary: b) (auto simp: text_norm_normal)

lemma normalize_complete:
  shows "value_normal nfc d v \<Longrightarrow> value_cost v \<le> b \<Longrightarrow> b \<le> MAX_IDENTITY_BYTES \<Longrightarrow>
           normalize_value nfc d v b = Ok (v, b - value_cost v)"
    and "entries_normal nfc d m \<Longrightarrow> bt_sorted (out @ m) \<Longrightarrow> map_cost m \<le> b \<Longrightarrow> b \<le> MAX_IDENTITY_BYTES \<Longrightarrow>
           normalize_entries nfc d m out b = Ok (out @ m, b - map_cost m)"
proof (induction nfc d v and nfc d m arbitrary: b and out b rule: value_normal_entries_normal.induct)
  case (1 nfc d s)
  then show ?case by (auto simp: text_norm_normal)
next
  case (4 nfc d items)
  then show ?case by (auto simp: charge_def normalize_list_complete)
next
  case (5 nfc d m)
  then show ?case by (auto simp: charge_def)
next
  case (7 nfc d k v m)
  have key: "text_norm nfc k b = Ok (k, b - (length k + 5))"
    using 7 by (intro text_norm_normal) auto
  have v: "normalize_value nfc d v (b - (length k + 5)) = Ok (v, b - (length k + 5) - value_cost v)"
    using 7 by (intro 7(1)) auto
  have "k \<notin> fst ` set out" "bt_insert k v out = out @ [(k, v)]"
    using 7(4) by (auto simp: bt_sorted_append intro!: bt_insert_last)
  then have "normalize_entries nfc d ((k, v) # m) out b =
               normalize_entries nfc d m (out @ [(k, v)]) (b - (length k + 5) - value_cost v)"
    by (simp add: key v bt_contains_key_iff)
  also have "\<dots> = Ok ((out @ [(k, v)]) @ m, b - (length k + 5) - value_cost v - map_cost m)"
    using 7 by (intro 7(2)) auto
  finally show ?case by simp
qed (auto simp: charge_def)

lemma normalize_attributes_sound:
  assumes "nfc_idempotent nfc" and "normalize_attributes nfc a = Ok m"
  shows "set_normal nfc m"
  using assms normalize_sound(2) [of nfc 0 a MAX_IDENTITY_BYTES m]
  by (force simp: normalize_attributes_def set_normal_def split: prod.splits)

lemma normalize_attributes_complete:
  "set_normal nfc m \<Longrightarrow> normalize_attributes nfc m = Ok m"
  using normalize_complete(2) [of nfc 0 m "[]" MAX_IDENTITY_BYTES]
  by (simp add: normalize_attributes_def set_normal_def)

section \<open>Unique readability of the encoding\<close>

lemma length_len_u32 [simp]: "length (len_u32 bs) = 4 + length bs"
  by (simp add: len_u32_def)

lemma len_u32_append_inject:
  assumes "len_u32 a @ r = len_u32 b @ s" and "length a < 2 ^ 32" and "length b < 2 ^ 32"
  shows "a = b \<and> r = s"
proof -
  have "to_le_bytes (of_nat (length a) :: u32) @ a @ r = to_le_bytes (of_nat (length b) :: u32) @ b @ s"
    using assms(1) by (simp add: len_u32_def)
  then have "(of_nat (length a) :: u32) = of_nat (length b)" and ab: "a @ r = b @ s"
    by (auto simp: to_le_bytes_inject)
  then have "length a = length b"
    using assms(2,3) by (simp add: of_nat_u32_inject)
  with ab show ?thesis by simp
qed

lemma encode_string_raw_inject:
  assumes "encode_string_raw nfc s @ r = encode_string_raw nfc t @ q"
    and "length (encode_string_raw nfc s) < 2 ^ 32" and "length (encode_string_raw nfc t) < 2 ^ 32"
  shows "nfc s = nfc t \<and> r = q"
  using assms len_u32_append_inject [of "as_bytes (nfc s)" r "as_bytes (nfc t)" q]
  by (auto simp: encode_string_raw_def)

lemma length_encode_items:
  "length (encode_items nfc items) = sum_list (map (\<lambda>s. length (nfc s) + 4) items)"
  by (induction items) (auto simp: encode_items_def)

lemma length_items_le: "length items \<le> length (encode_items nfc items)"
  by (induction items) (auto simp: encode_items_def)

lemma encode_items_inject:
  assumes "encode_items nfc xs = encode_items nfc ys" and "length (encode_items nfc xs) < 2 ^ 32"
  shows "map nfc xs = map nfc ys"
  using assms
proof (induction xs arbitrary: ys)
  case Nil
  then show ?case by (cases ys) (auto simp: encode_items_def len_u32_def to_le_bytes_def)
next
  case (Cons x xs)
  then obtain y ys' where ys: "ys = y # ys'"
    by (cases ys) (auto simp: encode_items_def len_u32_def to_le_bytes_def)
  have enc: "encode_items nfc (z # zs) = len_u32 (as_bytes (nfc z)) @ encode_items nfc zs" for z zs
    by (simp add: encode_items_def)
  have eq: "len_u32 (as_bytes (nfc x)) @ encode_items nfc xs =
             len_u32 (as_bytes (nfc y)) @ encode_items nfc ys'"
    and xl: "length (encode_items nfc (x # xs)) < 2 ^ 32"
    and yl: "length (encode_items nfc (y # ys')) < 2 ^ 32"
    using Cons.prems ys by (simp_all add: enc)
  have "length (as_bytes (nfc x)) < 2 ^ 32" "length (as_bytes (nfc y)) < 2 ^ 32"
    using xl yl unfolding enc length_append length_len_u32 by linarith+
  then have "nfc x = nfc y \<and> encode_items nfc xs = encode_items nfc ys'"
    using len_u32_append_inject [OF eq] by simp
  with Cons.IH [of ys'] Cons.prems(2) ys show ?case by (simp add: enc)
qed

lemmas encode_tags = TAG_STRING_def TAG_I64_def TAG_BOOL_def TAG_LIST_OF_STRING_def TAG_RECORD_def

lemma encode_list_inject:
  assumes "encode_value nfc (AListOfString xs) @ r = encode_value nfc (AListOfString ys) @ s"
    and "length (encode_value nfc (AListOfString xs)) < 2 ^ 32"
    and "length (encode_value nfc (AListOfString ys)) < 2 ^ 32"
  shows "map nfc xs = map nfc ys \<and> r = s"
proof -
  define p where "p zs = to_le_bytes (of_nat (length zs) :: u32) @ encode_items nfc zs" for zs
  have enc: "encode_value nfc (AListOfString zs) = TAG_LIST_OF_STRING # len_u32 (p zs)" for zs
    by (simp add: p_def)
  have small: "length (p xs) < 2 ^ 32" "length (p ys) < 2 ^ 32"
    using assms(2,3) unfolding enc by simp_all
  have eq: "p xs = p ys" "r = s"
    using assms(1) len_u32_append_inject [OF _ small, of r s] unfolding enc by simp_all
  have items: "encode_items nfc xs = encode_items nfc ys"
    using eq(1) by (simp add: p_def)
  have "length (encode_items nfc xs) < 2 ^ 32"
    using small(1) by (simp add: p_def)
  from encode_items_inject [OF items this] eq(2) show ?thesis by simp
qed

lemma encode_inject:
  shows "encode_value nfc v @ r = encode_value nfc w @ s \<Longrightarrow> value_normal nfc d v \<Longrightarrow> value_normal nfc e w \<Longrightarrow>
           length (encode_value nfc v) < 2 ^ 32 \<Longrightarrow> length (encode_value nfc w) < 2 ^ 32 \<Longrightarrow>
           v = w \<and> r = s"
    and "encode_map nfc m = encode_map nfc n \<Longrightarrow> entries_normal nfc d m \<Longrightarrow> entries_normal nfc e n \<Longrightarrow>
           length (encode_map nfc m) < 2 ^ 32 \<Longrightarrow> m = n"
proof (induction nfc d v and nfc d m arbitrary: r w s e and n e
       rule: value_normal_entries_normal.induct)
  case (1 nfc d x)
  from 1(1) obtain y where w: "w = AString y"
    by (cases w) (simp_all add: encode_tags encode_string_raw_def)
  have "nfc x = nfc y \<and> r = s"
    using 1(1,4,5) unfolding w encode_value.simps by (rule encode_string_raw_inject)
  with 1(2,3) w show ?case by simp
next
  case (2 nfc d x)
  from 2(1) show ?case
    by (cases w) (simp_all add: encode_tags encode_string_raw_def to_le_bytes_inject)
next
  case (3 nfc d x)
  from 3(1) show ?case
    by (cases w) (simp_all add: encode_tags encode_string_raw_def of_bool_eq_iff)
next
  case (4 nfc d xs)
  from 4(1) obtain ys where w: "w = AListOfString ys"
    by (cases w) (simp_all add: encode_tags encode_string_raw_def)
  have "map nfc xs = map nfc ys \<and> r = s"
    using 4(1,4,5) unfolding w by (rule encode_list_inject)
  moreover have "map nfc xs = xs" "map nfc ys = ys"
    using 4(2,3) w by (simp_all add: map_idI)
  ultimately show ?case using w by simp
next
  case (5 nfc d m)
  from 5(2) obtain n where w: "w = ARecord n"
    by (cases w) (simp_all add: encode_tags encode_string_raw_def)
  have small: "length (encode_map nfc m) < 2 ^ 32" "length (encode_map nfc n) < 2 ^ 32"
    using 5(5,6) w by simp_all
  have mn: "encode_map nfc m = encode_map nfc n \<and> r = s"
    using 5(2) w by (intro len_u32_append_inject [OF _ small]) simp
  have "m = n"
    using 5(3,4) w 5(1) [OF conjunct1 [OF mn] _ _ small(1), of "e + 1"] by simp
  with mn w show ?case by simp
next
  case (6 nfc d)
  from 6(1) show ?case by (cases n) (auto simp: encode_string_raw_def)
next
  case (7 nfc d k v m)
  from 7(3) obtain l w n' where n: "n = (l, w) # n'"
    by (cases n) (auto simp: encode_string_raw_def)
  have eq: "encode_string_raw nfc k @ encode_value nfc v @ encode_map nfc m =
            encode_string_raw nfc l @ encode_value nfc w @ encode_map nfc n'"
    using 7(3) n by simp
  have small: "length (encode_map nfc ((k, v) # m)) < 2 ^ 32" "length (encode_map nfc ((l, w) # n')) < 2 ^ 32"
    using 7(3,6) n by simp_all
  have bounds: "length (encode_string_raw nfc k) < 2 ^ 32" "length (encode_string_raw nfc l) < 2 ^ 32"
    "length (encode_value nfc v) < 2 ^ 32" "length (encode_value nfc w) < 2 ^ 32"
    "length (encode_map nfc m) < 2 ^ 32"
    using small by simp_all
  have normal: "nfc k = k" "nfc l = l" "value_normal nfc d v" "value_normal nfc e w"
    "entries_normal nfc d m" "entries_normal nfc e n'"
    using 7(4,5) n by simp_all
  have rest: "k = l" "encode_value nfc v @ encode_map nfc m = encode_value nfc w @ encode_map nfc n'"
    using encode_string_raw_inject [OF eq bounds(1,2)] normal(1,2) by simp_all
  have vw: "v = w" "encode_map nfc m = encode_map nfc n'"
    using 7(1) [OF rest(2) normal(3,4) bounds(3,4)] by simp_all
  show ?case
    using 7(2) [OF vw(2) normal(5,6) bounds(5)] rest(1) vw(1) n by simp
qed

lemma length_encode_le_cost:
  shows "value_normal nfc d v \<Longrightarrow> length (encode_value nfc v) \<le> value_cost v"
    and "entries_normal nfc d m \<Longrightarrow> length (encode_map nfc m) \<le> map_cost m"
proof (induction nfc d v and nfc d m rule: value_normal_entries_normal.induct)
  case (4 nfc d items)
  then have "length (encode_items nfc items) \<le> sum_list (map (\<lambda>s. length s + 5) items)"
    by (induction items) (auto simp: length_encode_items)
  then show ?case by simp
qed (auto simp: encode_string_raw_def)

lemma set_normal_encode_small:
  assumes "set_normal nfc m"
  shows "length (encode_map nfc m) < 2 ^ 32"
proof -
  have "length (encode_map nfc m) \<le> map_cost m"
    using assms by (auto simp: set_normal_def intro: length_encode_le_cost)
  then show ?thesis
    using assms by (simp add: set_normal_def MAX_IDENTITY_BYTES_def)
qed

lemma encode_map_inject:
  assumes "set_normal nfc m" and "set_normal nfc n" and "encode_map nfc m = encode_map nfc n"
  shows "m = n"
  using assms encode_inject(2) [OF assms(3)] set_normal_encode_small [OF assms(1)]
  by (auto simp: set_normal_def)

lemma canonicalize_Ok_iff:
  "canonicalize nfc version a = Ok f \<longleftrightarrow>
     (\<exists>m. normalize_attributes nfc a = Ok m \<and> f = encode_map nfc m)"
  by (auto simp: canonicalize_def)

text \<open>
  Names survive normalization one for one: the loop only ends when every normalized name was
  new, so distinct names of the input keep distinct entries.
\<close>

lemma normalize_entries_names:
  "normalize_entries nfc d m out b = Ok (m', b') \<Longrightarrow>
     fst ` set m' = fst ` set out \<union> nfc ` fst ` set m \<and>
     distinct (map (nfc \<circ> fst) m) \<and> nfc ` fst ` set m \<inter> fst ` set out = {}"
proof (induction m arbitrary: out b)
  case (Cons p m)
  obtain k v where p: "p = (k, v)" by force
  from Cons.prems p obtain k' b1 where k': "text_norm nfc k b = Ok (k', b1)"
    by (auto split: prod.splits)
  then have k: "text_norm nfc k b = Ok (nfc k, b1)"
    using text_norm_Ok [OF k'] by simp
  from Cons.prems p k obtain w b2 where fresh: "nfc k \<notin> fst ` set out"
    and rest: "normalize_entries nfc d m (bt_insert (nfc k) w out) b2 = Ok (m', b')"
    by (auto simp: bt_contains_key_iff split: if_splits)
  show ?case
    using Cons.IH [OF rest] fresh p by auto
qed simp

lemma normalize_attributes_names:
  assumes "normalize_attributes nfc a = Ok m"
  shows "fst ` set m = nfc ` fst ` set a \<and> distinct (map (nfc \<circ> fst) a)"
proof -
  obtain b where "normalize_entries nfc 0 a [] MAX_IDENTITY_BYTES = Ok (m, b)"
    using assms by (auto simp: normalize_attributes_def split: if_splits)
  from normalize_entries_names [OF this] show ?thesis by simp
qed

section \<open>Properties\<close>

text \<open>
  C8: the canonical form determines the normalized attribute set. Two attribute sets with the
  same canonical bytes have the same normalization, nested records and lists included: no
  length field is ever truncated and no two normalized sets share an encoding.
\<close>

theorem canonicalize_injective:
  assumes "nfc_idempotent nfc"
    and "canonicalize nfc version a = Ok f" and "canonicalize nfc version b = Ok f"
  shows "normalize_attributes nfc a = normalize_attributes nfc b"
proof -
  obtain m n where "normalize_attributes nfc a = Ok m" "normalize_attributes nfc b = Ok n"
    and "encode_map nfc m = encode_map nfc n"
    using assms(2,3) by (auto simp: canonicalize_Ok_iff)
  with encode_map_inject [of nfc m n] normalize_attributes_sound [OF assms(1)] show ?thesis by simp
qed

definition kelvin_nfc :: "string \<Rightarrow> string" where
  "kelvin_nfc s = (if s = [CHR 0xE2, CHR 0x84, CHR 0xAA] then ''K'' else s)"

lemma kelvin_nfc_idempotent: "nfc_idempotent kelvin_nfc"
  by (simp add: nfc_idempotent_def kelvin_nfc_def)

theorem canonicalize_injective_witness:
  "normalize_attributes kelvin_nfc [([CHR 0xE2, CHR 0x84, CHR 0xAA], ARecord [(''a'', AI64 7)])] =
   normalize_attributes kelvin_nfc [(''K'', ARecord [(''a'', AI64 7)])]"
  by (rule canonicalize_injective [OF kelvin_nfc_idempotent, of V2 _
        "encode_map kelvin_nfc [(''K'', ARecord [(''a'', AI64 7)])]"])
     (simp_all add: canonicalize_def normalize_attributes_def kelvin_nfc_def text_norm_def
        normalize_text_def charge_def MAX_IDENTITY_BYTES_def MAX_ATTRIBUTE_DEPTH_def
        bt_contains_key_def)

text \<open>
  Normalization is a projection. Normalizing an already normalized set succeeds within the
  same limits, changes nothing and gives the same canonical form, so a stored normalized set
  derives the identity of the set it came from.
\<close>

theorem normalize_attributes_idempotent:
  assumes "nfc_idempotent nfc" and "normalize_attributes nfc a = Ok m"
  shows "normalize_attributes nfc m = Ok m \<and> canonicalize nfc version m = canonicalize nfc version a"
proof -
  have "normalize_attributes nfc m = Ok m"
    using normalize_attributes_sound [OF assms] by (rule normalize_attributes_complete)
  with assms(2) show ?thesis by (simp add: canonicalize_def)
qed

theorem normalize_attributes_idempotent_witness:
  "normalize_attributes kelvin_nfc [(''K'', ABool True)] = Ok [(''K'', ABool True)] \<and>
   canonicalize kelvin_nfc V2 [(''K'', ABool True)] =
     canonicalize kelvin_nfc V2 [([CHR 0xE2, CHR 0x84, CHR 0xAA], ABool True)]"
  by (rule normalize_attributes_idempotent [OF kelvin_nfc_idempotent])
     (simp add: normalize_attributes_def kelvin_nfc_def text_norm_def normalize_text_def charge_def
        MAX_IDENTITY_BYTES_def MAX_ATTRIBUTE_DEPTH_def bt_contains_key_def)

text \<open>
  No attribute is ever dropped or merged. A successful normalization has exactly the
  normalized names of the input, and two input names that normalize alike make it fail.
\<close>

theorem normalize_attributes_lossless:
  assumes "normalize_attributes nfc a = Ok m"
  shows "fst ` set m = nfc ` fst ` set a \<and> distinct (map (nfc \<circ> fst) a)"
  using assms by (rule normalize_attributes_names)

theorem normalize_attributes_lossless_witness:
  "fst ` set [(''K'', ABool True), (''k'', AI64 3)] =
     kelvin_nfc ` fst ` set [(''k'', AI64 3), ([CHR 0xE2, CHR 0x84, CHR 0xAA], ABool True)] \<and>
   distinct (map (kelvin_nfc \<circ> fst) [(''k'', AI64 3), ([CHR 0xE2, CHR 0x84, CHR 0xAA], ABool True)])"
  by (rule normalize_attributes_lossless)
     (simp add: normalize_attributes_def kelvin_nfc_def text_norm_def normalize_text_def charge_def
        MAX_IDENTITY_BYTES_def MAX_ATTRIBUTE_DEPTH_def bt_contains_key_def less_char_def)

end
