(* ===== verification/Lid.thy ===== *)
theory Lid
  imports Identity
begin

text \<open>
  Logical identifiers (\<open>lid.rs\<close>): derivation from the canonical form, printing as \<open>lid_\<close> and
  64 hexadecimal digits, parsing. The hash is the parameter \<open>blake3\<close> (the \<open>blake3\<close> crate);
  feeding a hasher twice hashes the concatenation.
\<close>

datatype lid = Lid (lid_bytes: "32 bytes")

instantiation lid :: linorder
begin

definition less_eq_lid :: "lid \<Rightarrow> lid \<Rightarrow> bool" where
  "less_eq_lid a b \<longleftrightarrow> lid_bytes a \<le> lid_bytes b"

definition less_lid :: "lid \<Rightarrow> lid \<Rightarrow> bool" where
  "less_lid a b \<longleftrightarrow> lid_bytes a < lid_bytes b"

instance
  by standard (auto simp: less_eq_lid_def less_lid_def intro: lid.expand)

end

datatype lid_parse_error = MissingPrefix | WrongLength nat | InvalidHex nat

definition LID_PREFIX :: string where
  "LID_PREFIX = ''lid_''"

definition derive :: "(byte list \<Rightarrow> 32 bytes) \<Rightarrow> canonicalization_version \<Rightarrow> canonical_form \<Rightarrow> lid" where
  "derive blake3 version form = Lid (blake3 (as_le_bytes version @ form))"

definition lid_to_hex :: "lid \<Rightarrow> string" where
  "lid_to_hex l = to_hex (bytes_list (lid_bytes l))"

definition display_lid :: "lid \<Rightarrow> string" where
  "display_lid l = LID_PREFIX @ to_hex (bytes_list (lid_bytes l))"

definition hex_digit :: "byte \<Rightarrow> byte option" where
  "hex_digit b =
     (if 0x30 \<le> b \<and> b \<le> 0x39 then Some (b - 0x30)
      else if 0x61 \<le> b \<and> b \<le> 0x66 then Some (b - 0x61 + 10)
      else if 0x41 \<le> b \<and> b \<le> 0x46 then Some (b - 0x41 + 10)
      else None)"

text \<open>The loop over \<open>chunks(2)\<close>; \<open>i\<close> is the chunk index.\<close>

fun parse_chunks :: "nat \<Rightarrow> byte list \<Rightarrow> (byte list, lid_parse_error) result" where
  "parse_chunks i (c # d # rest) =
     and_then (ok_or (InvalidHex (i * 2)) (hex_digit c)) (\<lambda>hi.
     and_then (ok_or (InvalidHex (i * 2 + 1)) (hex_digit d)) (\<lambda>lo.
     and_then (parse_chunks (Suc i) rest) (\<lambda>bs. Ok ((push_bit 4 hi OR lo) # bs))))"
| "parse_chunks i [] = Ok []"
| "parse_chunks i [c] = Err (InvalidHex (i * 2))"

definition lid_from_str :: "string \<Rightarrow> (lid, lid_parse_error) result" where
  "lid_from_str s =
     and_then (ok_or MissingPrefix (strip_prefix LID_PREFIX s)) (\<lambda>hex_part.
       if length hex_part \<noteq> 64 then Err (WrongLength (length hex_part))
       else and_then (parse_chunks 0 (as_bytes hex_part)) (\<lambda>bs. Ok (Lid (resize bs))))"

section \<open>Hexadecimal round trip\<close>

lemma hex_digit_table:
  "\<forall>k \<in> set [0..<16]. hex_digit (of_char (''0123456789abcdef'' ! k)) = Some (of_nat k)"
  by code_simp

lemma hex_digit_hex_char:
  assumes "unat n < 16"
  shows "hex_digit (of_char (hex_char n)) = Some n"
  using assms bspec [OF hex_digit_table, of "unat n"] by (simp add: hex_char_def)

lemma nibble_high: "unat (drop_bit 4 (b :: byte)) < 16"
proof -
  have "unat b < 256" by (rule unat_byte_less)
  then have "drop_bit 4 (unat b) < 16" by (simp add: drop_bit_eq_div)
  then show ?thesis by (simp only: unat_drop_bit_eq)
qed

lemma nibble_low: "unat (b AND 15 :: byte) < 16"
proof -
  have "b AND 15 = take_bit 4 b"
    by (simp add: take_bit_eq_mask mask_eq_exp_minus_1)
  moreover have "take_bit 4 (unat b) < 16"
    by (simp add: take_bit_eq_mod)
  ultimately show ?thesis by (simp only: unsigned_take_bit_eq)
qed

lemma nibbles_join: "push_bit 4 (drop_bit 4 b) OR (b AND 15) = (b :: byte)"
proof -
  have "b AND 15 = take_bit 4 b"
    by (simp add: take_bit_eq_mask mask_eq_exp_minus_1)
  moreover have "push_bit 4 (drop_bit 4 b) OR take_bit 4 b = b"
    by (rule bit_word_eqI) (auto simp: bit_or_iff bit_push_bit_iff bit_drop_bit_eq bit_take_bit_iff)
  ultimately show ?thesis by simp
qed

lemma parse_chunks_to_hex: "parse_chunks i (as_bytes (to_hex bs)) = Ok bs"
proof (induction bs arbitrary: i)
  case (Cons b bs)
  have "as_bytes (to_hex (b # bs)) =
          of_char (hex_char (drop_bit 4 b)) # of_char (hex_char (b AND 15)) # as_bytes (to_hex bs)"
    by (simp add: to_hex_def hex_byte_def as_bytes_def)
  then show ?case
    by (simp add: Cons.IH hex_digit_hex_char nibble_high nibble_low nibbles_join)
qed (simp add: to_hex_def as_bytes_def)

lemma resize_bytes_list [simp]: "resize (bytes_list b) = b"
  by (simp add: bytes_list_eq_iff [symmetric])

lemma lid_from_str_display: "lid_from_str (display_lid l) = Ok l"
proof -
  have "strip_prefix LID_PREFIX (display_lid l) = Some (to_hex (bytes_list (lid_bytes l)))"
    by (simp add: strip_prefix_Some_iff display_lid_def)
  then show ?thesis
    by (simp add: lid_from_str_def parse_chunks_to_hex)
qed

text \<open>Parsing accepts both letter cases; lower-casing the digits gives the printed form.\<close>

definition lower :: "byte \<Rightarrow> byte" where
  "lower b = (if 0x41 \<le> b \<and> b \<le> 0x46 then b + 0x20 else b)"

lemma hex_digit_lower_all:
  "\<forall>k \<in> set [48..<103]. hex_digit (lower (of_nat k)) = hex_digit (of_nat k) \<and>
     (case hex_digit (of_nat k) of None \<Rightarrow> True
      | Some n \<Rightarrow> unat n < 16 \<and> of_char (hex_char n) = lower (of_nat k))"
  by code_simp

lemma hex_digit_outside: "\<not> (48 \<le> unat b \<and> unat b < 103) \<Longrightarrow> hex_digit b = None \<and> lower b = b"
  by (auto simp: hex_digit_def lower_def word_le_nat_alt)

lemma hex_digit_inside:
  assumes "48 \<le> unat b \<and> unat b < 103"
  shows "hex_digit (lower b) = hex_digit b \<and>
    (case hex_digit b of None \<Rightarrow> True | Some n \<Rightarrow> unat n < 16 \<and> of_char (hex_char n) = lower b)"
proof -
  have "unat b \<in> set [48..<103]"
    using assms by (simp only: set_upt atLeastLessThan_iff)
  from bspec [OF hex_digit_lower_all this] show ?thesis by (cases "hex_digit b") simp_all
qed

lemma hex_digit_of_lower [simp]: "hex_digit (lower b) = hex_digit b"
  using hex_digit_outside [of b] hex_digit_inside [of b] by metis

lemma hex_digit_lower:
  assumes "hex_digit b = Some n"
  shows "unat n < 16 \<and> of_char (hex_char n) = lower b"
  using assms hex_digit_outside [of b] hex_digit_inside [of b] by fastforce

lemma parse_chunks_lower: "parse_chunks i (map lower cs) = parse_chunks i cs"
  by (induction i cs rule: parse_chunks.induct) (simp_all add: and_then_def split: result.splits)

lemma join_nibbles:
  assumes "unat hi < 16" and "unat (lo :: byte) < 16"
  shows "drop_bit 4 (push_bit 4 hi OR lo) = hi \<and> (push_bit 4 hi OR lo) AND 15 = lo"
proof -
  have hi: "take_bit 4 hi = hi" and lo: "take_bit 4 lo = lo"
    using assms by (simp_all add: word_unat_eq_iff unsigned_take_bit_eq take_bit_nat_eq_self)
  have bits: "bit hi n \<Longrightarrow> n < 4" "bit lo n \<Longrightarrow> n < 4" for n
    using hi lo by (metis bit_take_bit_iff)+
  have "drop_bit 4 (push_bit 4 hi OR lo) = hi"
    by (rule bit_word_eqI) (auto simp: bit_or_iff bit_push_bit_iff bit_drop_bit_eq dest: bits)
  moreover have "take_bit 4 (push_bit 4 hi OR lo) = lo"
    by (rule bit_word_eqI) (auto simp: bit_or_iff bit_push_bit_iff bit_take_bit_iff dest: bits)
  ultimately show ?thesis
    by (simp add: take_bit_eq_mask mask_eq_exp_minus_1)
qed

lemma parse_chunks_Ok:
  "parse_chunks i cs = Ok bs \<Longrightarrow> as_bytes (to_hex bs) = map lower cs"
proof (induction i cs arbitrary: bs rule: parse_chunks.induct)
  case (1 i c d rest)
  then obtain hi lo bs' where h: "hex_digit c = Some hi" "hex_digit d = Some lo"
    and r: "parse_chunks (Suc i) rest = Ok bs'" and bs: "bs = (push_bit 4 hi OR lo) # bs'"
    by auto
  have "as_bytes (to_hex bs') = map lower rest"
    using 1(1) [OF _ _ r] h by simp
  then show ?case
    using hex_digit_lower [OF h(1)] hex_digit_lower [OF h(2)] join_nibbles [of hi lo]
    by (simp add: bs to_hex_def hex_byte_def as_bytes_def)
qed (simp_all add: to_hex_def as_bytes_def)

lemma derive_eq_iff:
  "derive blake3 version f = derive blake3 version g \<longleftrightarrow>
     blake3 (as_le_bytes version @ f) = blake3 (as_le_bytes version @ g)"
  by (simp add: derive_def)

section \<open>Properties\<close>

text \<open>
  A logical identifier survives printing and parsing, and the parser accepts exactly the
  prefix followed by the 64 printed digits in either letter case.
\<close>

theorem lid_display_roundtrip:
  "lid_from_str (display_lid l) = Ok l \<and>
   (lid_from_str s = Ok l \<longleftrightarrow>
      (\<exists>h. s = LID_PREFIX @ h \<and> map lower (as_bytes h) = as_bytes (lid_to_hex l)))"
proof (intro conjI iffI lid_from_str_display)
  assume "lid_from_str s = Ok l"
  then obtain h bs where s: "s = LID_PREFIX @ h" and len: "length h = 64"
    and bs: "parse_chunks 0 (as_bytes h) = Ok bs" and l: "l = Lid (resize bs)"
    by (auto simp: lid_from_str_def strip_prefix_Some_iff split: if_splits)
  have hex: "as_bytes (to_hex bs) = map lower (as_bytes h)"
    using bs by (rule parse_chunks_Ok)
  have "length (as_bytes (to_hex bs)) = 64"
    unfolding hex using len by simp
  then have "length bs = 32" by simp
  then have "bytes_list (lid_bytes l) = bs"
    using l by simp
  then show "\<exists>h. s = LID_PREFIX @ h \<and> map lower (as_bytes h) = as_bytes (lid_to_hex l)"
    using s hex by (intro exI [of _ h]) (simp add: lid_to_hex_def)
next
  assume "\<exists>h. s = LID_PREFIX @ h \<and> map lower (as_bytes h) = as_bytes (lid_to_hex l)"
  then obtain h where h: "s = LID_PREFIX @ h" "map lower (as_bytes h) = as_bytes (lid_to_hex l)"
    by blast
  have "length h = 64"
    using arg_cong [OF h(2), of length] by (simp add: lid_to_hex_def)
  moreover have "parse_chunks 0 (as_bytes h) = Ok (bytes_list (lid_bytes l))"
    using parse_chunks_lower [of 0 "as_bytes h"] h(2) by (simp add: lid_to_hex_def parse_chunks_to_hex)
  ultimately show "lid_from_str s = Ok l"
    using h(1) strip_prefix_Some_iff [of LID_PREFIX s h] by (simp add: lid_from_str_def)
qed

text \<open>
  C19: equal identifiers mean equal identities or a hash collision that the two inputs exhibit:
  if two attribute sets derive the same identifier then their normalizations agree, or their
  two hash inputs are different and collide.
\<close>

theorem derive_binds_identity:
  assumes "nfc_idempotent nfc"
    and "canonicalize nfc version a = Ok f" and "canonicalize nfc version b = Ok g"
    and "derive blake3 version f = derive blake3 version g"
  shows "normalize_attributes nfc a = normalize_attributes nfc b \<or>
         (as_le_bytes version @ f \<noteq> as_le_bytes version @ g \<and>
          blake3 (as_le_bytes version @ f) = blake3 (as_le_bytes version @ g))"
proof (cases "f = g")
  case True
  obtain m n where "normalize_attributes nfc a = Ok m" "normalize_attributes nfc b = Ok n"
    and "encode_map nfc m = encode_map nfc n"
    using assms(2,3) True by (auto simp: canonicalize_Ok_iff)
  with encode_map_inject [of nfc m n] normalize_attributes_sound [OF assms(1)] show ?thesis by simp
next
  case False
  with assms(4) show ?thesis by (simp add: derive_eq_iff)
qed

theorem derive_binds_identity_witness:
  "normalize_attributes kelvin_nfc [(''K'', ABool True)] =
     normalize_attributes kelvin_nfc [([CHR 0xE2, CHR 0x84, CHR 0xAA], ABool True)]"
proof -
  have eq: "canonicalize kelvin_nfc V2 [(''K'', ABool True)] = Ok (encode_map kelvin_nfc [(''K'', ABool True)])"
    "canonicalize kelvin_nfc V2 [([CHR 0xE2, CHR 0x84, CHR 0xAA], ABool True)] =
       Ok (encode_map kelvin_nfc [(''K'', ABool True)])"
    by (simp_all add: canonicalize_def normalize_attributes_def kelvin_nfc_def text_norm_def
        normalize_text_def charge_def MAX_IDENTITY_BYTES_def MAX_ATTRIBUTE_DEPTH_def
        bt_contains_key_def)
  show ?thesis
    using derive_binds_identity [OF kelvin_nfc_idempotent eq refl, of "\<lambda>_. fill 0"] by simp
qed

end
