(* ===== verification/Key_State.thy ===== *)
theory Key_State
  imports Lid
begin

text \<open>
  The key lifecycle states (\<open>KeyState\<close> in \<open>key.rs\<close>) and the error type of the core crate
  (\<open>error.rs\<close>). Error payloads built with \<open>format!\<close> keep their fixed text; the interpolated
  numbers are left out.
\<close>

datatype key_state = Creating | Enabled | Disabled | Compromised | PendingDeletion | Destroyed

definition state_permits_encrypt :: "key_state \<Rightarrow> bool" where
  "state_permits_encrypt s = (case s of Enabled \<Rightarrow> True | _ \<Rightarrow> False)"

definition state_permits_decrypt :: "key_state \<Rightarrow> bool" where
  "state_permits_decrypt s = (case s of Enabled \<Rightarrow> True | Disabled \<Rightarrow> True | _ \<Rightarrow> False)"

definition state_permits_verify :: "key_state \<Rightarrow> bool" where
  "state_permits_verify s =
     (case s of Enabled \<Rightarrow> True | Disabled \<Rightarrow> True | Compromised \<Rightarrow> True | _ \<Rightarrow> False)"

definition state_permits_export :: "key_state \<Rightarrow> bool" where
  "state_permits_export s = (case s of Enabled \<Rightarrow> True | _ \<Rightarrow> False)"

fun valid_transitions :: "key_state \<Rightarrow> key_state list" where
  "valid_transitions Creating = [Enabled]"
| "valid_transitions Enabled = [Disabled, Compromised, PendingDeletion]"
| "valid_transitions Disabled = [Enabled, Compromised, PendingDeletion]"
| "valid_transitions Compromised = [PendingDeletion]"
| "valid_transitions PendingDeletion = [Disabled, Destroyed]"
| "valid_transitions Destroyed = []"

definition can_transition_to :: "key_state \<Rightarrow> key_state \<Rightarrow> bool" where
  "can_transition_to s target = (target \<in> set (valid_transitions s))"

fun display_key_state :: "key_state \<Rightarrow> string" where
  "display_key_state Creating = ''creating''"
| "display_key_state Enabled = ''enabled''"
| "display_key_state Disabled = ''disabled''"
| "display_key_state Compromised = ''compromised''"
| "display_key_state PendingDeletion = ''pending_deletion''"
| "display_key_state Destroyed = ''destroyed''"

lemmas state_permits_defs =
  state_permits_encrypt_def state_permits_decrypt_def state_permits_verify_def state_permits_export_def

section \<open>Key attributes\<close>

datatype key_usage = EncryptDecrypt | SignVerify | GenerateVerifyMac

datatype key_spec =
    Aes256
  | Aes128
  | Ed25519
  | RsaPkcs1v15Sha256 u32
  | RsaPssSha256 u32
  | EcdsaP256Sha256
  | EcdsaP384
  | Hmac256

datatype provider_class = Software | Pkcs11 | Kmip | InMemory | VaultTransit

datatype provider_ref = ProviderRef (provider_str: string)

datatype key_origin = KeyRack | External

datatype exportability = NonExportable | Exportable

record key_handle =
  key_id :: string
  handle_spec :: key_spec

section \<open>Errors\<close>

type_synonym uuid = "16 bytes"

datatype keyrack_error =
    InvalidIdentity canonicalization_error
  | KeyNotFound lid
  | DeletionDependencyRefused string string
  | KeyDestructionFenced lid
  | WrappingParentDestroyed
  | InvalidStateTransition lid key_state key_state
  | OperationNotPermitted lid key_state string
  | ImmutableTag string
  | EncryptionContextMismatch
  | OptimisticConcurrencyConflict lid u64 u64
  | MigrationIntentConflict uuid
  | DepthLimitExceeded u32
  | CycleDetected lid
  | Provider string
  | ProviderUnavailable string
  | Storage string
  | AuthorizationDenied string
  | CascadeDisableFailed string
  | Other string

text \<open>The lifecycle graph: \<open>Destroyed\<close> has no way out, and only \<open>Creating\<close> has no way in.\<close>

lemma can_transition_to_simps [simp]:
  "can_transition_to Creating t \<longleftrightarrow> t = Enabled"
  "can_transition_to Enabled t \<longleftrightarrow> t \<in> {Disabled, Compromised, PendingDeletion}"
  "can_transition_to Disabled t \<longleftrightarrow> t \<in> {Enabled, Compromised, PendingDeletion}"
  "can_transition_to Compromised t \<longleftrightarrow> t = PendingDeletion"
  "can_transition_to PendingDeletion t \<longleftrightarrow> t \<in> {Disabled, Destroyed}"
  "\<not> can_transition_to Destroyed t"
  by (auto simp: can_transition_to_def)

instantiation provider_ref :: linorder
begin

definition less_eq_provider_ref :: "provider_ref \<Rightarrow> provider_ref \<Rightarrow> bool" where
  "less_eq_provider_ref a b \<longleftrightarrow> provider_str a \<le> provider_str b"

definition less_provider_ref :: "provider_ref \<Rightarrow> provider_ref \<Rightarrow> bool" where
  "less_provider_ref a b \<longleftrightarrow> provider_str a < provider_str b"

instance
  by standard (auto simp: less_eq_provider_ref_def less_provider_ref_def intro: provider_ref.expand)

end

end
