(* ===== verification/Tags.thy ===== *)
theory Tags
  imports Key_State
begin

text \<open>
  Identity tags and user tags (\<open>tags.rs\<close>), and the deserialization of identity maps that keeps
  duplicate names visible (\<open>deserialize_flat\<close> in \<open>attr.rs\<close>).
\<close>

section \<open>Operations\<close>

datatype identity_tags = IdentityTags (tag_map: "(string, string) btreemap")

definition string_tag :: "string \<times> attribute_value \<Rightarrow> (string \<times> string, canonicalization_error) result" where
  "string_tag p = (case snd p of AString s \<Rightarrow> Ok (fst p, s) | _ \<Rightarrow> Err (NonStringIdentity (fst p)))"

definition from_attribute_set ::
  "(string \<Rightarrow> string) \<Rightarrow> attribute_set \<Rightarrow> (identity_tags, canonicalization_error) result" where
  "from_attribute_set nfc attrs =
     and_then (normalize_attributes nfc attrs) (\<lambda>normalized.
     and_then (try_map string_tag normalized) (\<lambda>ps. Ok (IdentityTags (bt_collect ps))))"

definition tags_from_map ::
  "(string \<Rightarrow> string) \<Rightarrow> (string, string) btreemap \<Rightarrow> (identity_tags, canonicalization_error) result" where
  "tags_from_map nfc m = from_attribute_set nfc (bt_collect (map (\<lambda>(k, v). (k, AString v)) m))"

definition identity_get :: "(string \<Rightarrow> string) \<Rightarrow> identity_tags \<Rightarrow> string \<Rightarrow> string option" where
  "identity_get nfc t key = map_of (tag_map t) (normalize_text nfc key)"

definition identity_contains_key :: "(string \<Rightarrow> string) \<Rightarrow> identity_tags \<Rightarrow> string \<Rightarrow> bool" where
  "identity_contains_key nfc t key = bt_contains_key (tag_map t) (normalize_text nfc key)"

datatype user_tags = UserTags (user_map: "(string, string) btreemap")

definition user_tags_new :: user_tags where
  "user_tags_new = UserTags []"

definition user_set :: "user_tags \<Rightarrow> string \<Rightarrow> string \<Rightarrow> user_tags" where
  "user_set t key v = UserTags (bt_insert key v (user_map t))"

definition user_remove :: "user_tags \<Rightarrow> string \<Rightarrow> user_tags \<times> string option" where
  "user_remove t key = (UserTags (bt_remove key (user_map t)), map_of (user_map t) key)"

definition user_get :: "user_tags \<Rightarrow> string \<Rightarrow> string option" where
  "user_get t key = map_of (user_map t) key"

definition validate_tag_mutation ::
  "(string \<Rightarrow> string) \<Rightarrow> identity_tags \<Rightarrow> string \<Rightarrow> (unit, keyrack_error) result" where
  "validate_tag_mutation nfc identity_tags tag_key =
     (if identity_contains_key nfc identity_tags tag_key then Err (ImmutableTag tag_key) else Ok ())"

text \<open>
  \<open>visit_map\<close> of the deserializer: the entries arrive in document order, duplicates included.
\<close>

fun visit_flat ::
  "(string \<Rightarrow> string) \<Rightarrow> (string \<times> string) list \<Rightarrow> (string, string) btreemap \<Rightarrow>
     ((string, string) btreemap, canonicalization_error) result" where
  "visit_flat nfc [] out = Ok out"
| "visit_flat nfc ((key, v) # rest) out =
     (let key = normalize_text nfc key
      in if bt_contains_key out key then Err (DuplicateName key)
         else visit_flat nfc rest (bt_insert key (normalize_text nfc v) out))"

definition deserialize_flat ::
  "(string \<Rightarrow> string) \<Rightarrow> (string \<times> string) list \<Rightarrow>
     ((string, string) btreemap, canonicalization_error) result" where
  "deserialize_flat nfc entries = and_then (visit_flat nfc entries []) (normalize_flat nfc)"

section \<open>Identity tags keep the whole identity\<close>

lemma string_tag_Ok_iff: "string_tag p = Ok (k, s) \<longleftrightarrow> p = (k, AString s)"
  by (cases p) (auto simp: string_tag_def split: attribute_value.splits)

lemma try_map_string_tag:
  "try_map string_tag m = Ok ps \<longleftrightarrow> m = map (\<lambda>(k, s). (k, AString s)) ps"
  unfolding try_map_Ok_iff
proof (induction m arbitrary: ps)
  case (Cons p m)
  show ?case
    by (cases ps) (auto simp: Cons.IH string_tag_Ok_iff)
qed auto

lemma bt_collect_sorted: "bt_sorted m \<Longrightarrow> bt_collect m = m"
proof -
  have "bt_sorted (n @ m) \<Longrightarrow> fold (\<lambda>(k, v) m. bt_insert k v m) m n = n @ m" for n
  proof (induction m arbitrary: n)
    case (Cons p m)
    obtain k v where p: "p = (k, v)" by force
    have "bt_insert k v n = n @ [(k, v)]"
      using Cons.prems p by (intro bt_insert_last) (auto simp: bt_sorted_append)
    then show ?case using Cons p by simp
  qed simp
  from this [of "[]"] show "bt_sorted m \<Longrightarrow> bt_collect m = m"
    by (simp add: bt_collect_def)
qed

lemma bt_sorted_map_values: "bt_sorted (map (\<lambda>(k, s). (k, f s)) ps) \<longleftrightarrow> bt_sorted ps"
  by (simp add: bt_sorted_def comp_def case_prod_beta)

definition tags_as_attributes :: "identity_tags \<Rightarrow> attribute_set" where
  "tags_as_attributes t = map (\<lambda>(k, s). (k, AString s)) (tag_map t)"

lemma from_attribute_set_Ok_iff:
  assumes "nfc_idempotent nfc"
  shows "from_attribute_set nfc a = Ok t \<longleftrightarrow> normalize_attributes nfc a = Ok (tags_as_attributes t)"
proof
  assume "from_attribute_set nfc a = Ok t"
  then obtain ps where n: "normalize_attributes nfc a = Ok (map (\<lambda>(k, s). (k, AString s)) ps)"
    and t: "t = IdentityTags (bt_collect ps)"
    by (auto simp: from_attribute_set_def try_map_string_tag)
  have "bt_sorted ps"
    using normalize_attributes_sound [OF assms n] by (simp add: set_normal_def bt_sorted_map_values)
  with n t show "normalize_attributes nfc a = Ok (tags_as_attributes t)"
    by (simp add: tags_as_attributes_def bt_collect_sorted)
next
  assume n: "normalize_attributes nfc a = Ok (tags_as_attributes t)"
  then have "bt_sorted (tag_map t)"
    using normalize_attributes_sound [OF assms n]
    by (simp add: set_normal_def tags_as_attributes_def bt_sorted_map_values)
  with n show "from_attribute_set nfc a = Ok t"
    by (simp add: from_attribute_set_def tags_as_attributes_def bt_collect_sorted
        iffD2 [OF try_map_string_tag refl])
qed

lemma tags_canonical_form:
  assumes "nfc_idempotent nfc" and "from_attribute_set nfc a = Ok t"
  shows "canonicalize nfc version (tags_as_attributes t) = canonicalize nfc version a"
proof -
  have n: "normalize_attributes nfc a = Ok (tags_as_attributes t)"
    using assms by (simp add: from_attribute_set_Ok_iff)
  then have "normalize_attributes nfc (tags_as_attributes t) = Ok (tags_as_attributes t)"
    using normalize_attributes_sound [OF assms(1) n] by (intro normalize_attributes_complete)
  with n show ?thesis by (simp add: canonicalize_def)
qed

lemma tags_sorted:
  assumes "nfc_idempotent nfc" and "from_attribute_set nfc a = Ok t"
  shows "bt_sorted (tag_map t)"
  using assms normalize_attributes_sound [of nfc a "tags_as_attributes t"]
  by (simp add: from_attribute_set_Ok_iff set_normal_def tags_as_attributes_def bt_sorted_map_values)

lemma identity_contains_key_iff:
  "identity_contains_key nfc t key \<longleftrightarrow> nfc key \<in> fst ` set (tag_map t)"
  by (simp add: identity_contains_key_def normalize_text_def bt_contains_key_iff)

section \<open>Properties\<close>

text \<open>
  Identity tags do not collapse identities. A set of attributes whose tags were derived has
  the canonical form of those tags read back as string attributes, so the stored tags determine
  the logical identifier.
\<close>

theorem identity_tags_determine_form:
  assumes "nfc_idempotent nfc" and "from_attribute_set nfc a = Ok t"
  shows "canonicalize nfc version (tags_as_attributes t) = canonicalize nfc version a"
  using assms by (rule tags_canonical_form)

lemmas normalize_eval =
  canonicalize_def normalize_attributes_def text_norm_def normalize_text_def charge_def
  MAX_IDENTITY_BYTES_def MAX_ATTRIBUTE_DEPTH_def bt_contains_key_def

theorem identity_tags_determine_form_witness:
  "canonicalize kelvin_nfc V2 (tags_as_attributes (IdentityTags [(''K'', ''v'')])) =
     canonicalize kelvin_nfc V2 [([CHR 0xE2, CHR 0x84, CHR 0xAA], AString ''v'')]"
  by (rule identity_tags_determine_form [OF kelvin_nfc_idempotent])
     (simp add: from_attribute_set_def normalize_eval kelvin_nfc_def string_tag_def bt_collect_def)

text \<open>
  The tag guard covers every spelling. A tag mutation is refused exactly when the
  normalized key is the normalized name of an attribute the identity was derived from.
\<close>

theorem validate_tag_mutation_guards_identity:
  assumes "nfc_idempotent nfc" and "from_attribute_set nfc a = Ok t"
  shows "validate_tag_mutation nfc t key = (if nfc key \<in> nfc ` fst ` set a then Err (ImmutableTag key) else Ok ())"
proof -
  have "normalize_attributes nfc a = Ok (tags_as_attributes t)"
    using assms by (simp add: from_attribute_set_Ok_iff)
  from normalize_attributes_names [OF this] have "fst ` set (tag_map t) = nfc ` fst ` set a"
    by (simp add: tags_as_attributes_def image_image case_prod_beta)
  then show ?thesis
    by (simp add: validate_tag_mutation_def identity_contains_key_iff)
qed

theorem validate_tag_mutation_guards_identity_witness:
  "validate_tag_mutation kelvin_nfc (IdentityTags [(''K'', ''v'')]) [CHR 0xE2, CHR 0x84, CHR 0xAA] =
     Err (ImmutableTag [CHR 0xE2, CHR 0x84, CHR 0xAA])"
proof -
  have "from_attribute_set kelvin_nfc [(''K'', AString ''v'')] = Ok (IdentityTags [(''K'', ''v'')])"
    by (simp add: from_attribute_set_def normalize_eval kelvin_nfc_def string_tag_def bt_collect_def)
  from validate_tag_mutation_guards_identity [OF kelvin_nfc_idempotent this] show ?thesis
    by (simp add: kelvin_nfc_def)
qed

end
