(* ===== verification/Header.thy ===== *)
theory Header
  imports Key_State
begin

text \<open>
  The encryption context (\<open>encryption_context.rs\<close>) and the self-describing ciphertext header
  (\<open>header.rs\<close>): an 80-byte prefix with the key identifier, the key version and the context hash.
\<close>

section \<open>Encryption context\<close>

definition ZERO_CONTEXT_HASH :: "32 bytes" where
  "ZERO_CONTEXT_HASH = fill 0"

datatype encryption_context = EncryptionContext (context_map: "(string, string) btreemap")

definition ec_new :: encryption_context where
  "ec_new = EncryptionContext []"

definition ec_insert :: "encryption_context \<Rightarrow> string \<Rightarrow> string \<Rightarrow> encryption_context" where
  "ec_insert c key v = EncryptionContext (bt_insert key v (context_map c))"

definition ec_pair :: "string \<times> string \<Rightarrow> byte list" where
  "ec_pair p = len_u32 (as_bytes (fst p)) @ len_u32 (as_bytes (snd p))"

definition ec_hash :: "(byte list \<Rightarrow> 32 bytes) \<Rightarrow> encryption_context \<Rightarrow> 32 bytes" where
  "ec_hash blake3 c =
     (if context_map c = [] then ZERO_CONTEXT_HASH
      else blake3 (concat (map ec_pair (context_map c))))"

definition to_aad_bytes :: "encryption_context \<Rightarrow> byte list" where
  "to_aad_bytes c = fold (\<lambda>p buf. buf @ ec_pair p) (context_map c) []"

section \<open>Ciphertext header\<close>

definition MAGIC :: "byte list" where
  "MAGIC = [0x4B, 0x52, 0x43, 0x4B]"

definition HEADER_VERSION :: u16 where
  "HEADER_VERSION = 1"

definition HEADER_SIZE :: nat where
  "HEADER_SIZE = 80"

record ciphertext_header =
  header_version :: u16
  header_lid :: lid
  key_version :: u64
  encryption_context_hash :: "32 bytes"

definition header_new :: "lid \<Rightarrow> u64 \<Rightarrow> 32 bytes \<Rightarrow> ciphertext_header" where
  "header_new l v h = \<lparr>header_version = HEADER_VERSION, header_lid = l, key_version = v,
     encryption_context_hash = h\<rparr>"

text \<open>\<open>buf[a..b].copy_from_slice(bs)\<close> and \<open>&buf[a..b]\<close>.\<close>

definition copy_from_slice :: "nat \<Rightarrow> byte list \<Rightarrow> byte list \<Rightarrow> byte list" where
  "copy_from_slice a bs buf = take a buf @ bs @ drop (a + length bs) buf"

definition slice :: "nat \<Rightarrow> nat \<Rightarrow> byte list \<Rightarrow> byte list" where
  "slice a b buf = take (b - a) (drop a buf)"

definition encode_header :: "ciphertext_header \<Rightarrow> byte list" where
  "encode_header h =
     (let buf = replicate HEADER_SIZE 0;
          buf = copy_from_slice 0 MAGIC buf;
          buf = copy_from_slice 4 (to_le_bytes (header_version h)) buf;
          buf = copy_from_slice 6 (bytes_list (lid_bytes (header_lid h))) buf;
          buf = copy_from_slice 38 (to_le_bytes (key_version h)) buf;
          buf = copy_from_slice 46 (bytes_list (encryption_context_hash h)) buf
      in buf)"

definition decode_header :: "byte list \<Rightarrow> (ciphertext_header, keyrack_error) result" where
  "decode_header buf =
     (if length buf < HEADER_SIZE then Err (Provider ''ciphertext too short for header'')
      else if slice 0 4 buf \<noteq> MAGIC then Err (Provider ''invalid ciphertext magic bytes'')
      else let version = from_le_bytes [buf ! 4, buf ! 5] in
        if version \<noteq> HEADER_VERSION then Err (Provider ''unsupported header version'')
        else Ok \<lparr>header_version = version,
                 header_lid = Lid (resize (slice 6 38 buf)),
                 key_version = from_le_bytes (slice 38 46 buf),
                 encryption_context_hash = resize (slice 46 78 buf)\<rparr>)"

definition has_encryption_context :: "ciphertext_header \<Rightarrow> bool" where
  "has_encryption_context h = (encryption_context_hash h \<noteq> ZERO_CONTEXT_HASH)"

definition build_aad :: "ciphertext_header \<Rightarrow> byte list \<Rightarrow> byte list" where
  "build_aad h ec_aad = encode_header h @ ec_aad"

definition wrap_payload :: "ciphertext_header \<Rightarrow> byte list \<Rightarrow> byte list" where
  "wrap_payload h payload = encode_header h @ payload"

definition unwrap_payload ::
  "byte list \<Rightarrow> (ciphertext_header \<times> byte list, keyrack_error) result" where
  "unwrap_payload blob = and_then (decode_header blob) (\<lambda>h. Ok (h, drop HEADER_SIZE blob))"

section \<open>Layout\<close>

lemma to_aad_bytes_eq: "to_aad_bytes c = concat (map ec_pair (context_map c))"
proof -
  have "fold (\<lambda>p buf. buf @ ec_pair p) m b = b @ concat (map ec_pair m)" for m b
    by (induction m arbitrary: b) simp_all
  then show ?thesis by (simp add: to_aad_bytes_def)
qed

lemma copy_into_zeros:
  "length pre = a \<Longrightarrow> copy_from_slice a bs (pre @ replicate n 0) = pre @ bs @ replicate (n - length bs) 0"
  by (simp add: copy_from_slice_def)

lemma encode_header_layout:
  "encode_header h = MAGIC @ to_le_bytes (header_version h) @ bytes_list (lid_bytes (header_lid h)) @
     to_le_bytes (key_version h) @ bytes_list (encryption_context_hash h) @ [0, 0]"
proof -
  have "copy_from_slice 0 MAGIC (replicate HEADER_SIZE 0) = MAGIC @ replicate 76 0"
    using copy_into_zeros [of "[]" 0 MAGIC HEADER_SIZE] by (simp add: HEADER_SIZE_def MAGIC_def)
  moreover have "replicate 2 (0 :: byte) = [0, 0]" by (simp add: numeral_2_eq_2)
  ultimately show ?thesis
    using copy_into_zeros [of MAGIC 4 "to_le_bytes (header_version h)" 76]
      copy_into_zeros [of "MAGIC @ to_le_bytes (header_version h)" 6
        "bytes_list (lid_bytes (header_lid h))" 74]
      copy_into_zeros [of "MAGIC @ to_le_bytes (header_version h) @ bytes_list (lid_bytes (header_lid h))" 38
        "to_le_bytes (key_version h)" 42]
      copy_into_zeros [of "MAGIC @ to_le_bytes (header_version h) @ bytes_list (lid_bytes (header_lid h)) @
        to_le_bytes (key_version h)" 46 "bytes_list (encryption_context_hash h)" 34]
    by (simp add: encode_header_def Let_def MAGIC_def)
qed

lemma length_encode_header [simp]: "length (encode_header h) = 80"
  by (simp add: encode_header_layout MAGIC_def)

lemma encode_header_inject: "encode_header g = encode_header h \<longleftrightarrow> g = h"
  by (auto simp: encode_header_layout to_le_bytes_inject bytes_list_eq_iff
      intro: ciphertext_header.equality lid.expand)

lemma header_slices:
  assumes "buf = encode_header h @ payload"
  shows "slice 0 4 buf = MAGIC" and "[buf ! 4, buf ! 5] = to_le_bytes (header_version h)"
    and "slice 6 38 buf = bytes_list (lid_bytes (header_lid h))"
    and "slice 38 46 buf = to_le_bytes (key_version h)"
    and "slice 46 78 buf = bytes_list (encryption_context_hash h)"
proof -
  have "[xs ! 0, xs ! 1] = xs" if "length xs = 2" for xs :: "byte list"
    using that by (auto simp: length_Suc_conv numeral_2_eq_2)
  from this [of "to_le_bytes (header_version h)"]
  show "[buf ! 4, buf ! 5] = to_le_bytes (header_version h)"
    by (simp add: assms encode_header_layout MAGIC_def nth_append)
qed (simp_all add: assms encode_header_layout MAGIC_def slice_def)

lemma decode_encode:
  assumes "header_version h = HEADER_VERSION"
  shows "decode_header (encode_header h @ payload) = Ok h"
  using assms header_slices [OF refl, of h payload]
  by (simp add: decode_header_def HEADER_SIZE_def Let_def)

lemma take_78_split:
  assumes "80 \<le> length buf"
  shows "take 78 buf = slice 0 4 buf @ [buf ! 4, buf ! 5] @ slice 6 38 buf @ slice 38 46 buf @ slice 46 78 buf"
proof -
  have pair: "[buf ! 4, buf ! 5] = slice 4 6 buf"
    using assms by (simp add: slice_def take_Suc_conv_app_nth numeral_2_eq_2)
  have join: "slice a b buf @ slice b c buf = slice a c buf" if "a \<le> b" "b \<le> c" for a b c
  proof -
    have "take (b - a) (drop a buf) @ take (c - b) (drop (b - a) (drop a buf)) = take (b - a + (c - b)) (drop a buf)"
      by (rule take_add [symmetric])
    then show ?thesis using that by (simp add: slice_def)
  qed
  show ?thesis
    unfolding pair by (simp add: join) (simp add: slice_def)
qed

lemma encode_header_take:
  "take 78 (encode_header h) = MAGIC @ to_le_bytes (header_version h) @ bytes_list (lid_bytes (header_lid h)) @
     to_le_bytes (key_version h) @ bytes_list (encryption_context_hash h)"
  by (simp add: encode_header_layout MAGIC_def)

lemma resize_list [simp]: "length bs = LENGTH('n) \<Longrightarrow> bytes_list (resize bs :: 'n::len bytes) = bs"
  by simp

lemma decode_header_Ok_iff:
  "decode_header buf = Ok h \<longleftrightarrow>
     80 \<le> length buf \<and> header_version h = HEADER_VERSION \<and> take 78 buf = take 78 (encode_header h)"
  (is "?L \<longleftrightarrow> ?R")
proof
  assume ?L
  then have len: "80 \<le> length buf" and m: "slice 0 4 buf = MAGIC"
    and v: "from_le_bytes [buf ! 4, buf ! 5] = HEADER_VERSION"
    and h: "h = \<lparr>header_version = HEADER_VERSION, header_lid = Lid (resize (slice 6 38 buf)),
                 key_version = from_le_bytes (slice 38 46 buf),
                 encryption_context_hash = resize (slice 46 78 buf)\<rparr>"
    by (auto simp: decode_header_def Let_def HEADER_SIZE_def split: if_splits)
  have "to_le_bytes HEADER_VERSION = [buf ! 4, buf ! 5]"
    unfolding v [symmetric] by (rule to_from_le_bytes) simp_all
  moreover have "length (slice 6 38 buf) = 32" "length (slice 38 46 buf) = 8" "length (slice 46 78 buf) = 32"
    using len by (simp_all add: slice_def)
  ultimately show ?R
    using len m by (simp add: h take_78_split encode_header_take)
next
  assume R: ?R
  then have eq: "slice 0 4 buf @ [buf ! 4, buf ! 5] @ slice 6 38 buf @ slice 38 46 buf @ slice 46 78 buf =
     MAGIC @ to_le_bytes (header_version h) @ bytes_list (lid_bytes (header_lid h)) @
     to_le_bytes (key_version h) @ bytes_list (encryption_context_hash h)"
    using take_78_split [of buf] encode_header_take [of h] by simp
  have "length (slice 0 4 buf) = length MAGIC" "length (slice 6 38 buf) = 32" "length (slice 38 46 buf) = 8"
    "length [buf ! 4, buf ! 5] = 2"
    using R by (auto simp: slice_def MAGIC_def)
  with eq have "slice 0 4 buf = MAGIC" "[buf ! 4, buf ! 5] = to_le_bytes (header_version h)"
    "slice 6 38 buf = bytes_list (lid_bytes (header_lid h))" "slice 38 46 buf = to_le_bytes (key_version h)"
    "slice 46 78 buf = bytes_list (encryption_context_hash h)"
    by (auto simp del: append.simps simp: append_eq_append_conv)
  with R show ?L
    by (simp add: decode_header_def HEADER_SIZE_def)
qed

lemma ec_pair_append_inject:
  assumes "ec_pair p @ r = ec_pair q @ s"
    and "length (fst p) < 2 ^ 32" "length (snd p) < 2 ^ 32" "length (fst q) < 2 ^ 32" "length (snd q) < 2 ^ 32"
  shows "p = q \<and> r = s"
proof -
  have eq: "len_u32 (as_bytes (fst p)) @ len_u32 (as_bytes (snd p)) @ r =
            len_u32 (as_bytes (fst q)) @ len_u32 (as_bytes (snd q)) @ s"
    using assms(1) by (simp add: ec_pair_def)
  have "as_bytes (fst p) = as_bytes (fst q) \<and>
        len_u32 (as_bytes (snd p)) @ r = len_u32 (as_bytes (snd q)) @ s"
    using assms by (intro len_u32_append_inject [OF eq]) simp_all
  moreover from this have "as_bytes (snd p) = as_bytes (snd q) \<and> r = s"
    using assms by (intro len_u32_append_inject) simp_all
  ultimately show ?thesis by (simp add: prod_eq_iff)
qed

definition ec_small :: "encryption_context \<Rightarrow> bool" where
  "ec_small c \<longleftrightarrow> (\<forall>(k, v) \<in> set (context_map c). length k < 2 ^ 32 \<and> length v < 2 ^ 32)"

lemma concat_ec_pair_inject:
  assumes "concat (map ec_pair m) = concat (map ec_pair n)"
    and "\<forall>(k, v) \<in> set m. length k < 2 ^ 32 \<and> length v < 2 ^ 32"
    and "\<forall>(k, v) \<in> set n. length k < 2 ^ 32 \<and> length v < 2 ^ 32"
  shows "m = n"
  using assms
proof (induction m arbitrary: n)
  case Nil
  then show ?case by (cases n) (auto simp: ec_pair_def len_u32_def to_le_bytes_def)
next
  case (Cons p m)
  then obtain q n' where n: "n = q # n'"
    by (cases n) (auto simp: ec_pair_def len_u32_def to_le_bytes_def)
  have "p = q \<and> concat (map ec_pair m) = concat (map ec_pair n')"
    using Cons.prems n by (intro ec_pair_append_inject) auto
  with Cons.IH [of n'] Cons.prems(2,3) n show ?case by simp
qed

section \<open>Properties\<close>

text \<open>
  Packing and unpacking a ciphertext are inverse, for every key, version, context hash and
  payload.
\<close>

theorem wrap_unwrap_roundtrip:
  "unwrap_payload (wrap_payload (header_new l v h) payload) = Ok (header_new l v h, payload)"
  by (simp add: unwrap_payload_def wrap_payload_def decode_encode header_new_def HEADER_SIZE_def)

text \<open>
  The header decoder accepts exactly the buffers of at least 80 bytes whose first 78 bytes
  are those of a version-1 header; the two reserved bytes are not looked at.
\<close>

theorem decode_header_accepts:
  "decode_header buf = Ok h \<longleftrightarrow>
     80 \<le> length buf \<and> header_version h = HEADER_VERSION \<and> take 78 buf = take 78 (encode_header h)"
  by (rule decode_header_Ok_iff)

text \<open>
  C20: the additional authenticated data binds the header and the encryption context. Equal
  authenticated data mean the same key, version, context hash and context, as long as the
  context's strings are shorter than \<open>2^32\<close> bytes.
\<close>

theorem build_aad_binds:
  assumes "ec_small c" and "ec_small d"
  shows "build_aad g (to_aad_bytes c) = build_aad h (to_aad_bytes d) \<longleftrightarrow> g = h \<and> c = d"
proof
  assume "build_aad g (to_aad_bytes c) = build_aad h (to_aad_bytes d)"
  then have "encode_header g = encode_header h \<and> to_aad_bytes c = to_aad_bytes d"
    by (simp add: build_aad_def append_eq_append_conv)
  then show "g = h \<and> c = d"
    using assms concat_ec_pair_inject [of "context_map c" "context_map d"]
    by (simp add: encode_header_inject to_aad_bytes_eq ec_small_def encryption_context.expand)
qed simp

theorem build_aad_binds_witness:
  "build_aad (header_new (Lid (fill 1)) 2 (fill 3)) (to_aad_bytes (EncryptionContext [(''a'', ''b'')])) \<noteq>
   build_aad (header_new (Lid (fill 1)) 2 (fill 3)) (to_aad_bytes (EncryptionContext [(''ab'', [])]))"
  using build_aad_binds [of "EncryptionContext [(''a'', ''b'')]" "EncryptionContext [(''ab'', [])]"
      "header_new (Lid (fill 1)) 2 (fill 3)" "header_new (Lid (fill 1)) 2 (fill 3)"]
  by (simp add: ec_small_def)

end
