(* ===== verification/Wrapping.thy ===== *)
theory Wrapping
  imports Key_State
begin

text \<open>
  Wrapping contexts and exact capability matching (\<open>wrapping.rs\<close>). Identifiers and non-zero
  versions are types of their own, as in the source: a value of them was validated when it was
  made. Fallible appends of the source (\<open>expect\<close> on a bounded length) are total here because
  the bound is a fact of the type or of the preceding validation.
\<close>

section \<open>Validated identifiers and versions\<close>

datatype wrapping_error =
    InvalidIdentifier
  | ZeroKeyVersion
  | UnsupportedContextVersion u16
  | InvalidParentSpec
  | InvalidKeySpec
  | InvalidPurpose
  | InvalidKeyFormat
  | InvalidPublicMaterialDigest
  | UnsupportedCapability

definition MAX_WRAPPING_IDENTIFIER_BYTES :: nat where
  "MAX_WRAPPING_IDENTIFIER_BYTES = 256"

definition is_ascii_graphic :: "byte \<Rightarrow> bool" where
  "is_ascii_graphic b \<longleftrightarrow> 0x21 \<le> b \<and> b \<le> 0x7E"

definition validate_identifier :: "string \<Rightarrow> (unit, wrapping_error) result" where
  "validate_identifier s =
     (if s = [] \<or> MAX_WRAPPING_IDENTIFIER_BYTES < length s \<or> \<not> list_all is_ascii_graphic (as_bytes s)
      then Err InvalidIdentifier else Ok ())"

typedef wrapping_identifier = "{s. is_ok (validate_identifier s)}"
  morphisms ident_str Ident
  by (rule exI [of _ "''x''"])
     (simp add: validate_identifier_def MAX_WRAPPING_IDENTIFIER_BYTES_def as_bytes_def is_ascii_graphic_def)

definition identifier_new :: "string \<Rightarrow> (wrapping_identifier, wrapping_error) result" where
  "identifier_new s = and_then (validate_identifier s) (\<lambda>_. Ok (Ident s))"

typedef nonzero_u64 = "{n :: u64. n \<noteq> 0}"
  morphisms nz_get NonZero
  by (rule exI [of _ 1]) simp

definition nonzero_new :: "u64 \<Rightarrow> nonzero_u64 option" where
  "nonzero_new n = (if n = 0 then None else Some (NonZero n))"

lemma ident_str_inject_iff: "ident_str a = ident_str b \<longleftrightarrow> a = b"
  by (rule ident_str_inject)

lemma identifier_new_ident_str [simp]: "identifier_new (ident_str i) = Ok i"
  using ident_str [of i] by (simp add: identifier_new_def is_ok_iff ident_str_inverse)

lemma identifier_new_Ok_iff: "identifier_new s = Ok i \<longleftrightarrow> s = ident_str i"
  using Ident_inverse [of s] ident_str [of i]
  by (auto simp: identifier_new_def is_ok_iff ident_str_inverse)

lemma identifier_bounds: "ident_str i \<noteq> []" "length (ident_str i) \<le> 256"
  using ident_str [of i]
  by (auto simp: validate_identifier_def MAX_WRAPPING_IDENTIFIER_BYTES_def split: if_splits)

lemma nz_get_nonzero [simp]: "nz_get n \<noteq> 0"
  using nz_get [of n] by simp

lemma nonzero_new_nz_get [simp]: "nonzero_new (nz_get n) = Some n"
  by (simp add: nonzero_new_def nz_get_inverse)

lemma nonzero_new_Some_iff: "nonzero_new n = Some z \<longleftrightarrow> n = nz_get z"
  using NonZero_inverse [of n] by (auto simp: nonzero_new_def nz_get_inverse)

lemma nz_get_inject_iff [simp]: "nz_get a = nz_get b \<longleftrightarrow> a = b"
  by (rule nz_get_inject)

instantiation wrapping_identifier :: equal
begin

definition equal_wrapping_identifier :: "wrapping_identifier \<Rightarrow> wrapping_identifier \<Rightarrow> bool" where
  "equal_wrapping_identifier a b \<longleftrightarrow> ident_str a = ident_str b"

instance
  by standard (simp add: equal_wrapping_identifier_def ident_str_inject_iff)

end

instantiation nonzero_u64 :: equal
begin

definition equal_nonzero_u64 :: "nonzero_u64 \<Rightarrow> nonzero_u64 \<Rightarrow> bool" where
  "equal_nonzero_u64 a b \<longleftrightarrow> nz_get a = nz_get b"

instance
  by standard (simp add: equal_nonzero_u64_def)

end

section \<open>Contexts\<close>

record versioned_key_id =
  vk_lid :: lid
  vk_version :: nonzero_u64

definition versioned_key_id_new :: "lid \<Rightarrow> u64 \<Rightarrow> (versioned_key_id, wrapping_error) result" where
  "versioned_key_id_new l v =
     and_then (ok_or ZeroKeyVersion (nonzero_new v)) (\<lambda>n. Ok \<lparr>vk_lid = l, vk_version = n\<rparr>)"

datatype wrapping_context_version = WV1

definition context_version_try_from :: "u16 \<Rightarrow> (wrapping_context_version, wrapping_error) result" where
  "context_version_try_from n = (if n = 1 then Ok WV1 else Err (UnsupportedContextVersion n))"

datatype wrapped_key_format = RawSecret | Pkcs8Der | ProviderNative wrapping_identifier

datatype wrapping_key_purpose = WEncryptDecrypt | WSignVerify | WGenerateVerifyMac | WWrapUnwrap

record wrapping_context =
  wc_version :: wrapping_context_version
  wc_child :: versioned_key_id
  wc_parent :: versioned_key_id
  wc_parent_spec :: key_spec
  wc_child_spec :: key_spec
  wc_key_format :: wrapped_key_format
  wc_purpose :: wrapping_key_purpose
  wc_provider_ref :: provider_ref
  wc_security_domain :: wrapping_identifier
  wc_mechanism :: wrapping_identifier
  wc_public_material_sha256 :: "32 bytes option"

definition is_asymmetric :: "key_spec \<Rightarrow> bool" where
  "is_asymmetric spec = (case spec of Aes256 \<Rightarrow> False | Aes128 \<Rightarrow> False | Hmac256 \<Rightarrow> False | _ \<Rightarrow> True)"

definition rsa_size_ok :: "key_spec \<Rightarrow> bool" where
  "rsa_size_ok spec = (case spec of
       RsaPkcs1v15Sha256 n \<Rightarrow> n \<in> {2048, 3072, 4096}
     | RsaPssSha256 n \<Rightarrow> n \<in> {2048, 3072, 4096}
     | _ \<Rightarrow> True)"

definition valid_purpose :: "key_spec \<Rightarrow> wrapping_key_purpose \<Rightarrow> bool" where
  "valid_purpose child purpose = (case child of
       Aes256 \<Rightarrow> purpose = WEncryptDecrypt \<or> purpose = WWrapUnwrap
     | Aes128 \<Rightarrow> purpose = WEncryptDecrypt \<or> purpose = WWrapUnwrap
     | Hmac256 \<Rightarrow> purpose = WGenerateVerifyMac
     | _ \<Rightarrow> purpose = WSignVerify)"

definition validate_profile ::
  "key_spec \<Rightarrow> key_spec \<Rightarrow> wrapped_key_format \<Rightarrow> wrapping_key_purpose \<Rightarrow> (unit, wrapping_error) result" where
  "validate_profile parent child format purpose =
     (if parent \<noteq> Aes256 \<and> parent \<noteq> Aes128 then Err InvalidParentSpec
      else if \<not> rsa_size_ok child then Err InvalidKeySpec
      else if \<not> valid_purpose child purpose then Err InvalidPurpose
      else case format of
          RawSecret \<Rightarrow> if is_asymmetric child then Err InvalidKeyFormat else Ok ()
        | Pkcs8Der \<Rightarrow> if \<not> is_asymmetric child then Err InvalidKeyFormat else Ok ()
        | ProviderNative _ \<Rightarrow> Ok ())"

definition validate_context :: "wrapping_context \<Rightarrow> (unit, wrapping_error) result" where
  "validate_context c =
     and_then (validate_identifier (provider_str (wc_provider_ref c))) (\<lambda>_.
     and_then (validate_profile (wc_parent_spec c) (wc_child_spec c) (wc_key_format c) (wc_purpose c)) (\<lambda>_.
     if is_asymmetric (wc_child_spec c) \<noteq> (wc_public_material_sha256 c \<noteq> None)
     then Err InvalidPublicMaterialDigest else Ok ()))"

definition CONTEXT_DOMAIN :: "byte list" where
  "CONTEXT_DOMAIN = as_bytes ''KeyRack:ParentWrappedContext'' @ [0]"

definition append_key_id :: "versioned_key_id \<Rightarrow> byte list" where
  "append_key_id i = bytes_list (lid_bytes (vk_lid i)) @ to_be_bytes (nz_get (vk_version i))"

definition append_identifier :: "string \<Rightarrow> byte list" where
  "append_identifier s = to_be_bytes (of_nat (length s) :: u16) @ as_bytes s"

fun append_spec :: "key_spec \<Rightarrow> byte list" where
  "append_spec Aes256 = [1]"
| "append_spec Aes128 = [2]"
| "append_spec Ed25519 = [3]"
| "append_spec (RsaPkcs1v15Sha256 n) = 4 # to_be_bytes n"
| "append_spec (RsaPssSha256 n) = 5 # to_be_bytes n"
| "append_spec EcdsaP256Sha256 = [6]"
| "append_spec EcdsaP384 = [7]"
| "append_spec Hmac256 = [8]"

definition format_bytes :: "wrapped_key_format \<Rightarrow> byte list" where
  "format_bytes f = (case f of RawSecret \<Rightarrow> [1] | Pkcs8Der \<Rightarrow> [2]
     | ProviderNative name \<Rightarrow> 3 # append_identifier (ident_str name))"

definition purpose_byte :: "wrapping_key_purpose \<Rightarrow> byte" where
  "purpose_byte p = (case p of WEncryptDecrypt \<Rightarrow> 1 | WSignVerify \<Rightarrow> 2
     | WGenerateVerifyMac \<Rightarrow> 3 | WWrapUnwrap \<Rightarrow> 4)"

definition digest_bytes :: "32 bytes option \<Rightarrow> byte list" where
  "digest_bytes d = (case d of None \<Rightarrow> [0] | Some digest \<Rightarrow> 1 # bytes_list digest)"

definition context_canonical_bytes :: "wrapping_context \<Rightarrow> (byte list, wrapping_error) result" where
  "context_canonical_bytes c =
     and_then (validate_context c) (\<lambda>_.
       Ok (CONTEXT_DOMAIN @
           (case wc_version c of WV1 \<Rightarrow> to_be_bytes (1 :: u16)) @
           append_key_id (wc_child c) @ append_key_id (wc_parent c) @
           append_spec (wc_parent_spec c) @ append_spec (wc_child_spec c) @
           format_bytes (wc_key_format c) @ [purpose_byte (wc_purpose c)] @
           append_identifier (provider_str (wc_provider_ref c)) @
           append_identifier (ident_str (wc_security_domain c)) @
           append_identifier (ident_str (wc_mechanism c)) @
           digest_bytes (wc_public_material_sha256 c)))"

definition context_sha256 ::
  "(byte list \<Rightarrow> 32 bytes) \<Rightarrow> wrapping_context \<Rightarrow> (32 bytes, wrapping_error) result" where
  "context_sha256 sha256 c = and_then (context_canonical_bytes c) (\<lambda>bs. Ok (sha256 bs))"

section \<open>Capabilities\<close>

datatype wrapping_operation = WGenerate | WOpen | WClose | WRewrap

datatype wrapped_key_lifecycle = SessionObject | JournaledTemporaryObject

record wrapping_capability =
  cap_parent_spec :: key_spec
  cap_child_spec :: key_spec
  cap_key_format :: wrapped_key_format
  cap_purpose :: wrapping_key_purpose
  cap_mechanism :: wrapping_identifier
  cap_context_version :: wrapping_context_version
  cap_operation :: wrapping_operation
  cap_lifecycle :: wrapped_key_lifecycle

definition requested ::
  "wrapping_context \<Rightarrow> wrapping_operation \<Rightarrow> wrapped_key_lifecycle \<Rightarrow> wrapping_capability" where
  "requested c operation lifecycle =
     \<lparr>cap_parent_spec = wc_parent_spec c, cap_child_spec = wc_child_spec c,
      cap_key_format = wc_key_format c, cap_purpose = wc_purpose c, cap_mechanism = wc_mechanism c,
      cap_context_version = wc_version c, cap_operation = operation, cap_lifecycle = lifecycle\<rparr>"

definition validate_capability :: "wrapping_capability \<Rightarrow> (unit, wrapping_error) result" where
  "validate_capability t =
     validate_profile (cap_parent_spec t) (cap_child_spec t) (cap_key_format t) (cap_purpose t)"

datatype wrapping_capabilities = WrappingCapabilities (tuples: "wrapping_capability list")

definition capabilities_new ::
  "wrapping_capability list \<Rightarrow> (wrapping_capabilities, wrapping_error) result" where
  "capabilities_new ts = and_then (try_map validate_capability ts) (\<lambda>_. Ok (WrappingCapabilities ts))"

definition require_capability ::
  "wrapping_capabilities \<Rightarrow> wrapping_capability \<Rightarrow> (unit, wrapping_error) result" where
  "require_capability caps req =
     and_then (validate_capability req) (\<lambda>_.
       if req \<in> set (tuples caps) then Ok () else Err UnsupportedCapability)"

end
