(* ===== verification/Codec.thy ===== *)
theory Codec
  imports Wrapping
begin

text \<open>
  The strict binary codec of the custody contract (\<open>custody/codec.rs\<close>): the writer and reader
  primitives, nested messages, and the generic \<open>Canonical\<close> implementation. A \<open>Writer\<close> only
  ever appends, so a write is modelled by the bytes it appends; a \<open>Reader\<close> is the remaining
  input, threaded through.

  The locale \<open>wire\<close> is the contract of the source's \<open>Wire\<close> trait: what was written is read back,
  whatever follows. From it alone, decoding and encoding are inverse partial functions.
\<close>

section \<open>Primitives\<close>

datatype contract_error =
    Encoding string
  | Binding string
  | Authentication
  | WrappingE wrapping_error

type_synonym 'a reader = "byte list \<Rightarrow> ('a \<times> byte list, contract_error) result"
type_synonym 'a writer = "'a \<Rightarrow> (byte list, contract_error) result"

definition MAX_CONTRACT_BYTES :: nat where
  "MAX_CONTRACT_BYTES = 65536"

definition MAX_RECEIPT_LEASES :: nat where
  "MAX_RECEIPT_LEASES = 128"

definition DOMAIN :: "byte list" where
  "DOMAIN = as_bytes ''KeyRack:CustodyContract'' @ [0]"

definition is_nil :: "uuid \<Rightarrow> bool" where
  "is_nil u \<longleftrightarrow> u = fill 0"

definition w_id :: "wrapping_identifier \<Rightarrow> byte list" where
  "w_id i = to_be_bytes (of_nat (length (ident_str i)) :: u16) @ as_bytes (ident_str i)"

definition w_uuid :: "uuid writer" where
  "w_uuid u = (if is_nil u then Err (Binding ''nil identity'') else Ok (bytes_list u))"

definition w_blob :: "byte list writer" where
  "w_blob bs =
     (if MAX_CONTRACT_BYTES < length bs then Err (Encoding ''nested message too large'')
      else Ok (to_be_bytes (of_nat (length bs) :: u32) @ bs))"

definition r_take :: "nat \<Rightarrow> byte list reader" where
  "r_take n r = (if length r < n then Err (Encoding ''truncated field'') else Ok (take n r, drop n r))"

definition r_literal :: "byte list \<Rightarrow> unit reader" where
  "r_literal v r = and_then (r_take (length v) r) (\<lambda>(head, r).
     if head \<noteq> v then Err (Encoding ''wrong domain'') else Ok ((), r))"

definition r_fixed :: "('n::len) bytes reader" where
  "r_fixed r = and_then (r_take LENGTH('n) r) (\<lambda>(head, r).
     and_then (ok_or (Encoding ''wrong field size'') (try_into head)) (\<lambda>b. Ok (b, r)))"

definition r_word :: "'a itself \<Rightarrow> ('a::len) word reader" where
  "r_word _ r = and_then (r_take (LENGTH('a) div 8) r) (\<lambda>(head, r). Ok (from_be_bytes head, r))"

abbreviation r_u8 :: "byte reader" where
  "r_u8 \<equiv> r_word TYPE(8)"

abbreviation r_u16 :: "u16 reader" where
  "r_u16 \<equiv> r_word TYPE(16)"

abbreviation r_u32 :: "u32 reader" where
  "r_u32 \<equiv> r_word TYPE(32)"

abbreviation r_u64 :: "u64 reader" where
  "r_u64 \<equiv> r_word TYPE(64)"

definition r_nonzero :: "nonzero_u64 reader" where
  "r_nonzero r = and_then (r_u64 r) (\<lambda>(n, r).
     and_then (ok_or (Encoding ''zero counter or generation'') (nonzero_new n)) (\<lambda>z. Ok (z, r)))"

text \<open>\<open>std::str::from_utf8\<close>.\<close>

definition utf8_cont :: "byte \<Rightarrow> bool" where
  "utf8_cont b \<longleftrightarrow> 0x80 \<le> b \<and> b \<le> 0xBF"

fun utf8_valid :: "byte list \<Rightarrow> bool" where
  "utf8_valid [] = True"
| "utf8_valid (a # bs) =
     (if a < 0x80 then utf8_valid bs
      else case bs of
        [] \<Rightarrow> False
      | b # bs \<Rightarrow>
          if 0xC2 \<le> a \<and> a \<le> 0xDF then utf8_cont b \<and> utf8_valid bs
          else (case bs of
            [] \<Rightarrow> False
          | c # bs \<Rightarrow>
              if (a = 0xE0 \<and> 0xA0 \<le> b \<and> b \<le> 0xBF) \<or> (a = 0xED \<and> 0x80 \<le> b \<and> b \<le> 0x9F) \<or>
                 (0xE1 \<le> a \<and> a \<le> 0xEF \<and> a \<noteq> 0xED \<and> utf8_cont b)
              then utf8_cont c \<and> utf8_valid bs
              else (case bs of
                [] \<Rightarrow> False
              | d # bs \<Rightarrow>
                  ((a = 0xF0 \<and> 0x90 \<le> b \<and> b \<le> 0xBF) \<or> (a = 0xF4 \<and> 0x80 \<le> b \<and> b \<le> 0x8F) \<or>
                   (0xF1 \<le> a \<and> a \<le> 0xF3 \<and> utf8_cont b)) \<and>
                  utf8_cont c \<and> utf8_cont d \<and> utf8_valid bs)))"

definition from_utf8 :: "byte list \<Rightarrow> string option" where
  "from_utf8 bs = (if utf8_valid bs then Some (map (\<lambda>b. char_of (unat b)) bs) else None)"

definition r_id :: "wrapping_identifier reader" where
  "r_id r = and_then (r_u16 r) (\<lambda>(len, r).
     let n = unat len in
     if n = 0 \<or> 256 < n then Err (Encoding ''identifier length'')
     else and_then (r_take n r) (\<lambda>(head, r).
          and_then (ok_or (Encoding ''identifier not ASCII'') (from_utf8 head)) (\<lambda>text.
          and_then (map_err WrappingE (identifier_new text)) (\<lambda>i. Ok (i, r)))))"

definition r_uuid :: "uuid reader" where
  "r_uuid r = and_then (r_fixed r) (\<lambda>(u, r).
     if is_nil u then Err (Encoding ''nil identity'') else Ok (u, r))"

definition r_blob :: "byte list reader" where
  "r_blob r = and_then (r_u32 r) (\<lambda>(len, r).
     let n = unat len in
     if MAX_CONTRACT_BYTES < n then Err (Encoding ''nested message too large'')
     else r_take n r)"

section \<open>Canonical messages\<close>

definition canonical_bytes :: "byte \<Rightarrow> 'a writer \<Rightarrow> 'a writer" where
  "canonical_bytes kind write v =
     and_then (write v) (\<lambda>body.
       let w = DOMAIN @ to_be_bytes (1 :: u16) @ [kind] @ body
       in if MAX_CONTRACT_BYTES < length w then Err (Encoding ''message too large'') else Ok w)"

definition from_canonical_bytes ::
  "byte \<Rightarrow> 'a writer \<Rightarrow> 'a reader \<Rightarrow> byte list \<Rightarrow> ('a, contract_error) result" where
  "from_canonical_bytes kind write read bytes =
     (if MAX_CONTRACT_BYTES < length bytes then Err (Encoding ''message too large'')
      else and_then (r_literal DOMAIN bytes) (\<lambda>(_, r).
           and_then (r_u16 r) (\<lambda>(version, r).
           if version \<noteq> 1 then Err (Encoding ''unknown version or wrong message kind'')
           else and_then (r_u8 r) (\<lambda>(k, r).
           if k \<noteq> kind then Err (Encoding ''unknown version or wrong message kind'')
           else and_then (read r) (\<lambda>(v, r).
           if r \<noteq> [] then Err (Encoding ''trailing bytes'')
           else and_then (canonical_bytes kind write v) (\<lambda>again.
           if again \<noteq> bytes then Err (Encoding ''noncanonical message'') else Ok v))))))"

definition w_message :: "byte \<Rightarrow> 'a writer \<Rightarrow> 'a writer" where
  "w_message kind write v = and_then (canonical_bytes kind write v) w_blob"

definition r_message :: "byte \<Rightarrow> 'a writer \<Rightarrow> 'a reader \<Rightarrow> 'a reader" where
  "r_message kind write read r = and_then (r_blob r) (\<lambda>(bs, r).
     and_then (from_canonical_bytes kind write read bs) (\<lambda>v. Ok (v, r)))"

definition message_sha256 ::
  "(byte list \<Rightarrow> 32 bytes) \<Rightarrow> byte \<Rightarrow> 'a writer \<Rightarrow> 'a \<Rightarrow> (32 bytes, contract_error) result" where
  "message_sha256 sha256 kind write v = and_then (canonical_bytes kind write v) (\<lambda>bs. Ok (sha256 bs))"

section \<open>Reading back what was written\<close>

named_theorems read_back \<open>a reader applied to what the matching writer appended\<close>

lemma r_take_append [read_back]: "length bs = n \<Longrightarrow> r_take n (bs @ r) = Ok (bs, r)"
  by (simp add: r_take_def)

lemma r_literal_append [read_back]: "r_literal v (v @ r) = Ok ((), r)"
  by (simp add: r_literal_def r_take_append)

lemma r_fixed_append [read_back]: "r_fixed (bytes_list b @ r) = Ok (b, r)"
  by (simp add: r_fixed_def r_take_append)

lemma r_word_append:
  "8 dvd LENGTH('a) \<Longrightarrow> r_word TYPE('a) (to_be_bytes n @ r) = Ok (n :: 'a::len word, r)"
  by (simp add: r_word_def r_take_append)

lemma r_words_append [read_back]:
  "r_u16 (to_be_bytes a @ r) = Ok (a, r)"
  "r_u32 (to_be_bytes b @ r) = Ok (b, r)"
  "r_u64 (to_be_bytes c @ r) = Ok (c, r)"
  by (simp_all add: r_word_append)

lemma to_be_bytes_byte [simp]: "to_be_bytes (b :: byte) = [b]"
  by (simp add: to_be_bytes_def to_le_bytes_def)

lemma r_u8_append [read_back]: "r_u8 (b # r) = Ok (b, r)"
  using r_word_append [of b r] by simp

lemma r_nonzero_append [read_back]: "r_nonzero (to_be_bytes (nz_get n) @ r) = Ok (n, r)"
  by (simp add: r_nonzero_def read_back)

lemma as_bytes_char_of: "as_bytes (map (\<lambda>b. char_of (unat b)) bs) = bs"
proof -
  have "of_char (char_of (unat b)) = (b :: byte)" for b
  proof -
    have "(of_char (char_of (unat b)) :: byte) = of_nat (of_char (char_of (unat b)))"
      by (simp only: of_nat_of_char)
    then show ?thesis
      using unat_byte_less [of b] by simp
  qed
  then show ?thesis by (simp add: as_bytes_def map_idI)
qed

lemma char_of_as_bytes: "map (\<lambda>b. char_of (unat b)) (as_bytes s) = s"
  by (metis as_bytes_char_of as_bytes_inject)

lemma utf8_valid_ascii: "list_all is_ascii_graphic bs \<Longrightarrow> utf8_valid bs"
proof (induction bs)
  case (Cons b bs)
  moreover from Cons have "b < 0x80"
    by (auto simp: is_ascii_graphic_def word_less_nat_alt word_le_nat_alt)
  ultimately show ?case by simp
qed simp

lemma from_utf8_ident: "from_utf8 (as_bytes (ident_str i)) = Some (ident_str i)"
proof -
  have "list_all is_ascii_graphic (as_bytes (ident_str i))"
    using ident_str [of i] by (auto simp: validate_identifier_def split: if_splits)
  then show ?thesis
    by (simp add: from_utf8_def utf8_valid_ascii char_of_as_bytes)
qed

lemma r_id_append [read_back]: "r_id (w_id i @ r) = Ok (i, r)"
proof -
  have len: "unat (of_nat (length (ident_str i)) :: u16) = length (ident_str i)"
    using identifier_bounds(2) [of i] by (simp add: unat_of_nat take_bit_nat_eq_self)
  show ?thesis
    using identifier_bounds [of i]
    by (simp add: r_id_def w_id_def read_back len Let_def from_utf8_ident)
qed

lemma append_identifier_ident: "append_identifier (ident_str i) = w_id i"
  by (simp add: append_identifier_def w_id_def)

lemma r_uuid_append [read_back]: "w_uuid u = Ok bs \<Longrightarrow> r_uuid (bs @ r) = Ok (u, r)"
  by (auto simp: w_uuid_def r_uuid_def read_back split: if_splits)

lemma r_blob_append [read_back]: "w_blob b = Ok bs \<Longrightarrow> r_blob (bs @ r) = Ok (b, r)"
proof -
  assume w: "w_blob b = Ok bs"
  then have len: "length b \<le> 65536" and bs: "bs = to_be_bytes (of_nat (length b) :: u32) @ b"
    by (auto simp: w_blob_def MAX_CONTRACT_BYTES_def split: if_splits)
  have "unat (of_nat (length b) :: u32) = length b"
    using len by (simp add: unat_of_nat take_bit_nat_eq_self)
  then show ?thesis
    using len by (simp add: r_blob_def bs read_back Let_def MAX_CONTRACT_BYTES_def)
qed

text \<open>
  The \<open>Wire\<close> contract. Its only law is the round trip of the message body; everything the
  generic codec promises follows from it.
\<close>

locale wire =
  fixes kind :: byte and write_msg :: "'a writer" and read_msg :: "'a reader"
  assumes read_write: "write_msg v = Ok body \<Longrightarrow> read_msg (body @ r) = Ok (v, r)"
begin

lemma decode_encode_msg:
  assumes "canonical_bytes kind write_msg v = Ok bs"
  shows "from_canonical_bytes kind write_msg read_msg bs = Ok v"
proof -
  obtain body where body: "write_msg v = Ok body"
    and bs: "bs = DOMAIN @ to_be_bytes (1 :: u16) @ kind # body" and len: "\<not> MAX_CONTRACT_BYTES < length bs"
    using assms by (auto simp: canonical_bytes_def Let_def split: if_splits)
  have "from_canonical_bytes kind write_msg read_msg (DOMAIN @ to_be_bytes (1 :: u16) @ kind # body) = Ok v"
    using len assms read_write [OF body, of "[]"]
    by (simp add: from_canonical_bytes_def bs read_back)
  with bs show ?thesis by simp
qed

lemma encode_decode_msg:
  "from_canonical_bytes kind write_msg read_msg bs = Ok v \<Longrightarrow> canonical_bytes kind write_msg v = Ok bs"
  by (auto simp: from_canonical_bytes_def split: if_splits)

lemma canonical_iff:
  "from_canonical_bytes kind write_msg read_msg bs = Ok v \<longleftrightarrow> canonical_bytes kind write_msg v = Ok bs"
  using decode_encode_msg encode_decode_msg by blast

lemma canonical_inject:
  "canonical_bytes kind write_msg v = Ok bs \<Longrightarrow> canonical_bytes kind write_msg w = Ok bs \<Longrightarrow> v = w"
  by (metis decode_encode_msg result.inject(1))

lemma read_message:
  "w_message kind write_msg v = Ok bs \<Longrightarrow> r_message kind write_msg read_msg (bs @ r) = Ok (v, r)"
  by (auto simp: w_message_def r_message_def r_blob_append decode_encode_msg)

end

text \<open>Messages of different kinds never share an encoding.\<close>

lemma canonical_kind:
  assumes "canonical_bytes k write v = Ok bs" and "canonical_bytes k' write' v' = Ok bs"
  shows "k = k'"
  using assms by (auto simp: canonical_bytes_def Let_def split: if_splits)

lemma from_canonical_kind:
  assumes "canonical_bytes k write v = Ok bs" and "k \<noteq> k'"
  shows "from_canonical_bytes k' write' read' bs = Err (Encoding ''unknown version or wrong message kind'')"
  using assms
  by (auto simp: canonical_bytes_def from_canonical_bytes_def read_back Let_def split: if_splits)

end
