(* ===== verification/Custody.thy ===== *)
theory Custody
  imports Codec
begin

text \<open>
  The custody contract (\<open>custody/mod.rs\<close>) and its twelve message formats (\<open>custody/codec.rs\<close>):
  profiles, contexts, material descriptors, requests, authority, leases, creation results,
  cleanup and revocation. Every message interprets the locale \<open>wire\<close>, which gives it one exact
  encoding; the checks of the contract are the source's, on the decoded values. SHA-256 is the
  parameter \<open>sha256\<close> (the \<open>sha2\<close> crate).
\<close>

section \<open>Data\<close>

datatype execution_boundary =
    ProviderSessionObject | ProviderJournaledTemporaryObject | TrustedHostWorkerMemory

record custody_profile =
  boundary :: execution_boundary
  profile_id :: wrapping_identifier

record custody_context =
  cc_wrapping :: wrapping_context
  cc_profile :: custody_profile

record custody_material_descriptor =
  md_context :: custody_context
  envelope_ref :: wrapping_identifier
  envelope_sha256 :: "32 bytes"

typedef executor_incarnation = "{b :: 32 bytes. b \<noteq> fill 0}"
  morphisms incarnation_bytes Incarnation
  by (rule exI [of _ "fill 1"]) simp

definition incarnation_new :: "32 bytes \<Rightarrow> (executor_incarnation, contract_error) result" where
  "incarnation_new b = (if b = fill 0 then Err (Binding ''zero executor incarnation'') else Ok (Incarnation b))"

record request_binding =
  rb_operation :: uuid
  rb_attempt :: uuid
  rb_executor :: executor_incarnation
  rb_context_sha256 :: "32 bytes"
  rb_request_sha256 :: "32 bytes"

datatype authority_scope = ContextScope "32 bytes" | SecurityDomain provider_ref wrapping_identifier

record authority_identity =
  issuer :: wrapping_identifier
  scope :: authority_scope
  generation :: nonzero_u64

datatype crypto_operation = GenerateWrapped | Encrypt | Decrypt

datatype clock_domain = UnixMilliseconds | ExecutorMonotonicMilliseconds executor_incarnation

record clock_reading =
  clock_domain_of :: clock_domain
  milliseconds :: u64

record validity =
  clock :: clock_domain
  not_before :: u64
  not_after :: u64

record authority_grant =
  ag_authority :: authority_identity
  ag_request :: request_binding
  ag_principal :: wrapping_identifier
  ag_operation :: crypto_operation
  ag_sequence :: nonzero_u64
  ag_validity :: validity
  ancestor_not_after :: u64

record lease_identity =
  li_executor :: executor_incarnation
  li_counter :: nonzero_u64

record lease_record =
  lr_lease :: lease_identity
  lr_context_sha256 :: "32 bytes"
  lr_authority :: authority_identity
  residency :: validity

datatype creation_outcome =
    ProviderSessionClosed wrapping_identifier
  | ProviderTemporaryObjectDestroyed wrapping_identifier
  | NativeWrappedOnlyGenerated

record creation_owner =
  owner_instance :: uuid
  owner_generation :: u64

record creation_result =
  cr_request :: request_binding
  cr_owner :: creation_owner
  cr_material_sha256 :: "32 bytes"
  cr_outcome :: creation_outcome

datatype lease_cleanup_reason = Released | ResidencyExpired | AuthorityFenced

record lease_cleanup_result =
  lc_record :: lease_record
  lc_reason :: lease_cleanup_reason

record revocation_command =
  rc_fence :: uuid
  rc_executor :: executor_incarnation
  rc_authority :: authority_identity
  rc_validity :: validity

datatype in_flight_disposition = Drained | FurtherReleaseBlocked

record revocation_result =
  rr_fence :: uuid
  rr_executor :: executor_incarnation
  rr_authority :: authority_identity
  rr_command_sha256 :: "32 bytes"
  rr_in_flight :: in_flight_disposition
  observed_leases :: "lease_identity list"

section \<open>Structural validation\<close>

definition validate_custody_context :: "custody_context \<Rightarrow> (unit, contract_error) result" where
  "validate_custody_context c =
     and_then (map_err WrappingE (context_canonical_bytes (cc_wrapping c))) (\<lambda>_.
       if vk_lid (wc_child (cc_wrapping c)) = vk_lid (wc_parent (cc_wrapping c))
       then Err (Binding ''self parent'') else Ok ())"

definition validate_request :: "request_binding \<Rightarrow> (unit, contract_error) result" where
  "validate_request r =
     (if is_nil (rb_operation r) \<or> is_nil (rb_attempt r)
      then Err (Binding ''nil request identity'') else Ok ())"

definition validate_validity :: "validity \<Rightarrow> (unit, contract_error) result" where
  "validate_validity v =
     (if not_after v \<le> not_before v then Err (Binding ''empty validity interval'') else Ok ())"

definition check_at :: "validity \<Rightarrow> clock_reading \<Rightarrow> (unit, contract_error) result" where
  "check_at v now =
     and_then (validate_validity v) (\<lambda>_.
       if clock v \<noteq> clock_domain_of now \<or> milliseconds now < not_before v \<or> not_after v \<le> milliseconds now
       then Err (Binding ''clock or validity mismatch'') else Ok ())"

definition check_executor :: "validity \<Rightarrow> executor_incarnation \<Rightarrow> (unit, contract_error) result" where
  "check_executor v executor =
     and_then (validate_validity v) (\<lambda>_.
       case clock v of
         UnixMilliseconds \<Rightarrow> Ok ()
       | ExecutorMonotonicMilliseconds i \<Rightarrow>
           if i \<noteq> executor then Err (Binding ''clock belongs to another incarnation'') else Ok ())"

definition scope_mismatch :: "authority_scope \<Rightarrow> 32 bytes \<Rightarrow> bool" where
  "scope_mismatch s d = (case s of ContextScope digest \<Rightarrow> digest \<noteq> d | SecurityDomain _ _ \<Rightarrow> False)"

definition validate_grant :: "authority_grant \<Rightarrow> (unit, contract_error) result" where
  "validate_grant g =
     and_then (validate_request (ag_request g)) (\<lambda>_.
     and_then (check_executor (ag_validity g) (rb_executor (ag_request g))) (\<lambda>_.
       if scope_mismatch (scope (ag_authority g)) (rb_context_sha256 (ag_request g))
       then Err (Binding ''grant scope/context mismatch'')
       else if ancestor_not_after g \<le> not_before (ag_validity g)
       then Err (Binding ''empty ancestor authority interval'') else Ok ()))"

section \<open>Message formats\<close>

definition unknown :: contract_error where
  "unknown = Encoding ''unknown enum tag''"

definition w_executor :: "executor_incarnation \<Rightarrow> byte list" where
  "w_executor i = bytes_list (incarnation_bytes i)"

definition r_executor :: "executor_incarnation reader" where
  "r_executor r = and_then (r_fixed r) (\<lambda>(b, r). and_then (incarnation_new b) (\<lambda>i. Ok (i, r)))"

definition w_validity :: "validity writer" where
  "w_validity v = and_then (validate_validity v) (\<lambda>_.
     Ok ((case clock v of
            UnixMilliseconds \<Rightarrow> [1]
          | ExecutorMonotonicMilliseconds i \<Rightarrow> 2 # w_executor i) @
         to_be_bytes (not_before v) @ to_be_bytes (not_after v)))"

definition r_clock :: "clock_domain reader" where
  "r_clock r = and_then (r_u8 r) (\<lambda>(tag, r).
     if tag = 1 then Ok (UnixMilliseconds, r)
     else if tag = 2 then and_then (r_executor r) (\<lambda>(i, r). Ok (ExecutorMonotonicMilliseconds i, r))
     else Err (Encoding ''unknown clock''))"

definition r_validity :: "validity reader" where
  "r_validity r =
     and_then (r_clock r) (\<lambda>(c, r).
     and_then (r_u64 r) (\<lambda>(nb, r).
     and_then (r_u64 r) (\<lambda>(na, r).
       let v = \<lparr>clock = c, not_before = nb, not_after = na\<rparr>
       in and_then (validate_validity v) (\<lambda>_. Ok (v, r)))))"

subsection \<open>Kind 1: custody profile\<close>

definition w_profile :: "custody_profile writer" where
  "w_profile p = Ok ((case boundary p of ProviderSessionObject \<Rightarrow> 1
       | ProviderJournaledTemporaryObject \<Rightarrow> 2 | TrustedHostWorkerMemory \<Rightarrow> 3) # w_id (profile_id p))"

definition r_profile :: "custody_profile reader" where
  "r_profile r =
     and_then (r_u8 r) (\<lambda>(tag, r).
     and_then (if tag = 1 then Ok ProviderSessionObject
               else if tag = 2 then Ok ProviderJournaledTemporaryObject
               else if tag = 3 then Ok TrustedHostWorkerMemory else Err unknown) (\<lambda>b.
     and_then (r_id r) (\<lambda>(i, r). Ok (\<lparr>boundary = b, profile_id = i\<rparr>, r))))"

subsection \<open>Kind 2: custody context\<close>

definition read_key :: "versioned_key_id reader" where
  "read_key r = and_then (r_fixed r) (\<lambda>(l, r). and_then (r_u64 r) (\<lambda>(v, r).
     and_then (map_err WrappingE (versioned_key_id_new (Lid l) v)) (\<lambda>k. Ok (k, r))))"

definition read_spec :: "key_spec reader" where
  "read_spec r = and_then (r_u8 r) (\<lambda>(tag, r).
     if tag = 1 then Ok (Aes256, r)
     else if tag = 2 then Ok (Aes128, r)
     else if tag = 3 then Ok (Ed25519, r)
     else if tag = 4 then and_then (r_u32 r) (\<lambda>(n, r). Ok (RsaPkcs1v15Sha256 n, r))
     else if tag = 5 then and_then (r_u32 r) (\<lambda>(n, r). Ok (RsaPssSha256 n, r))
     else if tag = 6 then Ok (EcdsaP256Sha256, r)
     else if tag = 7 then Ok (EcdsaP384, r)
     else if tag = 8 then Ok (Hmac256, r)
     else Err unknown)"

definition read_format :: "wrapped_key_format reader" where
  "read_format r = and_then (r_u8 r) (\<lambda>(tag, r).
     if tag = 1 then Ok (RawSecret, r)
     else if tag = 2 then Ok (Pkcs8Der, r)
     else if tag = 3 then and_then (r_id r) (\<lambda>(i, r). Ok (ProviderNative i, r))
     else Err unknown)"

definition read_purpose :: "wrapping_key_purpose reader" where
  "read_purpose r = and_then (r_u8 r) (\<lambda>(tag, r).
     if tag = 1 then Ok (WEncryptDecrypt, r)
     else if tag = 2 then Ok (WSignVerify, r)
     else if tag = 3 then Ok (WGenerateVerifyMac, r)
     else if tag = 4 then Ok (WWrapUnwrap, r)
     else Err unknown)"

definition read_digest :: "32 bytes option reader" where
  "read_digest r = and_then (r_u8 r) (\<lambda>(tag, r).
     if tag = 0 then Ok (None, r)
     else if tag = 1 then and_then (r_fixed r) (\<lambda>(d, r). Ok (Some d, r))
     else Err unknown)"

definition read_v1 :: "byte list \<Rightarrow> (wrapping_context, contract_error) result" where
  "read_v1 bytes =
     and_then (r_literal CONTEXT_DOMAIN bytes) (\<lambda>(_, r).
     and_then (r_u16 r) (\<lambda>(n, r).
     and_then (map_err WrappingE (context_version_try_from n)) (\<lambda>version.
     and_then (read_key r) (\<lambda>(child, r).
     and_then (read_key r) (\<lambda>(parent, r).
     and_then (read_spec r) (\<lambda>(parent_spec, r).
     and_then (read_spec r) (\<lambda>(child_spec, r).
     and_then (read_format r) (\<lambda>(key_format, r).
     and_then (read_purpose r) (\<lambda>(purpose, r).
     and_then (r_id r) (\<lambda>(provider, r).
     and_then (r_id r) (\<lambda>(security_domain, r).
     and_then (r_id r) (\<lambda>(mechanism, r).
     and_then (read_digest r) (\<lambda>(digest, r).
       let context = \<lparr>wc_version = version, wc_child = child, wc_parent = parent,
             wc_parent_spec = parent_spec, wc_child_spec = child_spec, wc_key_format = key_format,
             wc_purpose = purpose, wc_provider_ref = ProviderRef (ident_str provider),
             wc_security_domain = security_domain, wc_mechanism = mechanism,
             wc_public_material_sha256 = digest\<rparr>
       in if r \<noteq> [] then Err (Encoding ''noncanonical V1 context'')
          else and_then (map_err WrappingE (context_canonical_bytes context)) (\<lambda>again.
            if again \<noteq> bytes then Err (Encoding ''noncanonical V1 context'') else Ok context))))))))))))))"

definition w_context :: "custody_context writer" where
  "w_context c =
     and_then (validate_custody_context c) (\<lambda>_.
     and_then (map_err WrappingE (context_canonical_bytes (cc_wrapping c))) (\<lambda>bs.
     and_then (w_blob bs) (\<lambda>blob.
     and_then (w_message 1 w_profile (cc_profile c)) (\<lambda>p. Ok (blob @ p)))))"

definition r_context :: "custody_context reader" where
  "r_context r =
     and_then (r_blob r) (\<lambda>(bs, r).
     and_then (read_v1 bs) (\<lambda>wrapping.
     and_then (r_message 1 w_profile r_profile r) (\<lambda>(p, r).
       Ok (\<lparr>cc_wrapping = wrapping, cc_profile = p\<rparr>, r))))"

lemma incarnation_new_bytes [simp]: "incarnation_new (incarnation_bytes i) = Ok i"
  using incarnation_bytes [of i] by (simp add: incarnation_new_def incarnation_bytes_inverse)

lemma r_executor_append [read_back]: "r_executor (w_executor i @ r) = Ok (i, r)"
  by (simp add: r_executor_def w_executor_def read_back)

lemma r_validity_append [read_back]: "w_validity v = Ok bs \<Longrightarrow> r_validity (bs @ r) = Ok (v, r)"
  by (cases v; cases "clock v") (auto simp: w_validity_def; simp add: r_validity_def r_clock_def read_back Let_def)+

interpretation profile: wire 1 w_profile r_profile
  by unfold_locales
     (auto simp: w_profile_def split: execution_boundary.splits; simp add: r_profile_def read_back)

lemma read_key_append [read_back]: "read_key (append_key_id k @ r) = Ok (k, r)"
  by (simp add: read_key_def append_key_id_def read_back versioned_key_id_new_def)

lemma read_spec_append [read_back]: "read_spec (append_spec s @ r) = Ok (s, r)"
  by (cases s) (simp_all add: read_spec_def read_back)

lemma read_format_append [read_back]: "read_format (format_bytes f @ r) = Ok (f, r)"
  by (cases f) (simp_all add: read_format_def format_bytes_def read_back append_identifier_ident)

lemma read_purpose_append [read_back]: "read_purpose (purpose_byte p # r) = Ok (p, r)"
  by (cases p) (simp_all add: read_purpose_def purpose_byte_def read_back)

lemma read_digest_append [read_back]: "read_digest (digest_bytes d @ r) = Ok (d, r)"
  by (cases d) (simp_all add: read_digest_def digest_bytes_def read_back)

lemma read_digest_all [read_back]: "read_digest (digest_bytes d) = Ok (d, [])"
  using read_digest_append [of d "[]"] by simp

lemma read_v1_canonical:
  assumes "context_canonical_bytes c = Ok bs"
  shows "read_v1 bs = Ok c"
proof -
  have "is_ok (validate_identifier (provider_str (wc_provider_ref c)))"
    using assms by (auto simp: context_canonical_bytes_def validate_context_def)
  then obtain i where i: "provider_str (wc_provider_ref c) = ident_str i"
    using Ident_inverse by (metis mem_Collect_eq)
  then have p: "wc_provider_ref c = ProviderRef (ident_str i)"
    by (cases "wc_provider_ref c") simp
  have bs: "bs = CONTEXT_DOMAIN @ to_be_bytes (1 :: u16) @ append_key_id (wc_child c) @
        append_key_id (wc_parent c) @ append_spec (wc_parent_spec c) @ append_spec (wc_child_spec c) @
        format_bytes (wc_key_format c) @ purpose_byte (wc_purpose c) # w_id i @
        w_id (wc_security_domain c) @ w_id (wc_mechanism c) @ digest_bytes (wc_public_material_sha256 c)"
    using assms by (cases "wc_version c") (auto simp: context_canonical_bytes_def p append_identifier_ident)
  have c: "\<lparr>wc_version = WV1, wc_child = wc_child c, wc_parent = wc_parent c,
             wc_parent_spec = wc_parent_spec c, wc_child_spec = wc_child_spec c,
             wc_key_format = wc_key_format c, wc_purpose = wc_purpose c,
             wc_provider_ref = ProviderRef (ident_str i), wc_security_domain = wc_security_domain c,
             wc_mechanism = wc_mechanism c, wc_public_material_sha256 = wc_public_material_sha256 c\<rparr> = c"
    using p by (cases "wc_version c") (simp add: wrapping_context.equality)
  show ?thesis
    using assms by (simp add: read_v1_def bs read_back context_version_try_from_def c Let_def)
qed

lemma read_v1_Ok_iff: "read_v1 bs = Ok c \<longleftrightarrow> context_canonical_bytes c = Ok bs"
proof
  assume "read_v1 bs = Ok c"
  then show "context_canonical_bytes c = Ok bs"
    by (auto simp: read_v1_def Let_def split: if_splits)
qed (rule read_v1_canonical)

interpretation custody_ctx: wire 2 w_context r_context
  by unfold_locales
     (auto simp: w_context_def; simp add: r_context_def read_back read_v1_canonical profile.read_message)

subsection \<open>Kinds 3 to 5: material descriptor, request binding, authority identity\<close>

definition w_descriptor :: "custody_material_descriptor writer" where
  "w_descriptor d = and_then (w_message 2 w_context (md_context d)) (\<lambda>c.
     Ok (c @ w_id (envelope_ref d) @ bytes_list (envelope_sha256 d)))"

definition r_descriptor :: "custody_material_descriptor reader" where
  "r_descriptor r =
     and_then (r_message 2 w_context r_context r) (\<lambda>(c, r).
     and_then (r_id r) (\<lambda>(e, r).
     and_then (r_fixed r) (\<lambda>(h, r).
       Ok (\<lparr>md_context = c, envelope_ref = e, envelope_sha256 = h\<rparr>, r))))"

definition w_request :: "request_binding writer" where
  "w_request q =
     and_then (validate_request q) (\<lambda>_.
     and_then (w_uuid (rb_operation q)) (\<lambda>o1.
     and_then (w_uuid (rb_attempt q)) (\<lambda>o2.
       Ok (o1 @ o2 @ w_executor (rb_executor q) @ bytes_list (rb_context_sha256 q) @
           bytes_list (rb_request_sha256 q)))))"

definition r_request :: "request_binding reader" where
  "r_request r =
     and_then (r_uuid r) (\<lambda>(o1, r).
     and_then (r_uuid r) (\<lambda>(o2, r).
     and_then (r_executor r) (\<lambda>(e, r).
     and_then (r_fixed r) (\<lambda>(c, r).
     and_then (r_fixed r) (\<lambda>(q, r).
       Ok (\<lparr>rb_operation = o1, rb_attempt = o2, rb_executor = e, rb_context_sha256 = c,
            rb_request_sha256 = q\<rparr>, r))))))"

definition w_authority :: "authority_identity writer" where
  "w_authority a =
     and_then (case scope a of
         ContextScope digest \<Rightarrow> Ok (1 # bytes_list digest)
       | SecurityDomain p d \<Rightarrow>
           and_then (map_err WrappingE (identifier_new (provider_str p))) (\<lambda>i.
             Ok (2 # w_id i @ w_id d))) (\<lambda>s.
     Ok (w_id (issuer a) @ s @ to_be_bytes (nz_get (generation a))))"

definition r_scope :: "authority_scope reader" where
  "r_scope r = and_then (r_u8 r) (\<lambda>(tag, r).
     if tag = 1 then and_then (r_fixed r) (\<lambda>(d, r). Ok (ContextScope d, r))
     else if tag = 2 then
       and_then (r_id r) (\<lambda>(p, r). and_then (r_id r) (\<lambda>(d, r).
         Ok (SecurityDomain (ProviderRef (ident_str p)) d, r)))
     else Err unknown)"

definition r_authority :: "authority_identity reader" where
  "r_authority r =
     and_then (r_id r) (\<lambda>(i, r).
     and_then (r_scope r) (\<lambda>(s, r).
     and_then (r_nonzero r) (\<lambda>(g, r).
       Ok (\<lparr>issuer = i, scope = s, generation = g\<rparr>, r))))"

interpretation descriptor: wire 3 w_descriptor r_descriptor
  by unfold_locales
     (auto simp: w_descriptor_def; simp add: r_descriptor_def read_back custody_ctx.read_message)

interpretation request: wire 4 w_request r_request
  by unfold_locales (auto simp: w_request_def; simp add: r_request_def read_back)

interpretation authority: wire 5 w_authority r_authority
proof
  fix a body r assume "w_authority a = Ok body"
  then show "r_authority (body @ r) = Ok (a, r)"
  proof (cases "scope a")
    case (SecurityDomain p d)
    moreover obtain i where "p = ProviderRef (ident_str i)"
      using \<open>w_authority a = Ok body\<close> SecurityDomain
      by (cases p) (auto simp: w_authority_def identifier_new_Ok_iff)
    ultimately show ?thesis
      using \<open>w_authority a = Ok body\<close>
      by (auto simp: w_authority_def; simp add: r_authority_def r_scope_def read_back)
  qed (auto simp: w_authority_def; simp add: r_authority_def r_scope_def read_back)
qed

subsection \<open>Kinds 6 to 8: grants and leases\<close>

definition operation_byte :: "crypto_operation \<Rightarrow> byte" where
  "operation_byte p = (case p of GenerateWrapped \<Rightarrow> 1 | Encrypt \<Rightarrow> 2 | Decrypt \<Rightarrow> 3)"

definition r_operation :: "crypto_operation reader" where
  "r_operation r = and_then (r_u8 r) (\<lambda>(tag, r).
     if tag = 1 then Ok (GenerateWrapped, r)
     else if tag = 2 then Ok (Encrypt, r)
     else if tag = 3 then Ok (Decrypt, r)
     else Err unknown)"

definition w_grant :: "authority_grant writer" where
  "w_grant g =
     and_then (validate_grant g) (\<lambda>_.
     and_then (w_message 5 w_authority (ag_authority g)) (\<lambda>a.
     and_then (w_message 4 w_request (ag_request g)) (\<lambda>q.
     and_then (w_validity (ag_validity g)) (\<lambda>v.
       Ok (a @ q @ w_id (ag_principal g) @ operation_byte (ag_operation g) #
           to_be_bytes (nz_get (ag_sequence g)) @ v @ to_be_bytes (ancestor_not_after g))))))"

definition r_grant :: "authority_grant reader" where
  "r_grant r =
     and_then (r_message 5 w_authority r_authority r) (\<lambda>(a, r).
     and_then (r_message 4 w_request r_request r) (\<lambda>(q, r).
     and_then (r_id r) (\<lambda>(p, r).
     and_then (r_operation r) (\<lambda>(k, r).
     and_then (r_nonzero r) (\<lambda>(s, r).
     and_then (r_validity r) (\<lambda>(v, r).
     and_then (r_u64 r) (\<lambda>(n, r).
       Ok (\<lparr>ag_authority = a, ag_request = q, ag_principal = p, ag_operation = k, ag_sequence = s,
            ag_validity = v, ancestor_not_after = n\<rparr>, r))))))))"

definition w_lease :: "lease_identity writer" where
  "w_lease l = Ok (w_executor (li_executor l) @ to_be_bytes (nz_get (li_counter l)))"

definition r_lease :: "lease_identity reader" where
  "r_lease r = and_then (r_executor r) (\<lambda>(e, r). and_then (r_nonzero r) (\<lambda>(n, r).
     Ok (\<lparr>li_executor = e, li_counter = n\<rparr>, r)))"

definition w_lease_record :: "lease_record writer" where
  "w_lease_record l =
     and_then (check_executor (residency l) (li_executor (lr_lease l))) (\<lambda>_.
     if scope_mismatch (scope (lr_authority l)) (lr_context_sha256 l)
     then Err (Binding ''lease scope/context mismatch'')
     else and_then (w_message 7 w_lease (lr_lease l)) (\<lambda>i.
          and_then (w_message 5 w_authority (lr_authority l)) (\<lambda>a.
          and_then (w_validity (residency l)) (\<lambda>v.
            Ok (i @ bytes_list (lr_context_sha256 l) @ a @ v)))))"

definition r_lease_record :: "lease_record reader" where
  "r_lease_record r =
     and_then (r_message 7 w_lease r_lease r) (\<lambda>(i, r).
     and_then (r_fixed r) (\<lambda>(c, r).
     and_then (r_message 5 w_authority r_authority r) (\<lambda>(a, r).
     and_then (r_validity r) (\<lambda>(v, r).
       Ok (\<lparr>lr_lease = i, lr_context_sha256 = c, lr_authority = a, residency = v\<rparr>, r)))))"

lemma r_operation_append [read_back]: "r_operation (operation_byte p # r) = Ok (p, r)"
  by (cases p) (simp_all add: r_operation_def operation_byte_def read_back)

interpretation grant: wire 6 w_grant r_grant
  by unfold_locales
     (auto simp: w_grant_def;
      simp add: r_grant_def read_back authority.read_message request.read_message)

interpretation lease: wire 7 w_lease r_lease
  by unfold_locales (auto simp: w_lease_def; simp add: r_lease_def read_back)

interpretation lease_rec: wire 8 w_lease_record r_lease_record
  by unfold_locales
     (auto simp: w_lease_record_def split: if_splits;
      simp add: r_lease_record_def read_back authority.read_message lease.read_message)

subsection \<open>Kinds 9 to 12: creation result, cleanup, revocation\<close>

definition w_creation_result :: "creation_result writer" where
  "w_creation_result c =
     and_then (w_message 4 w_request (cr_request c)) (\<lambda>q.
     and_then (w_uuid (owner_instance (cr_owner c))) (\<lambda>u.
     if owner_generation (cr_owner c) = 0 then Err (Binding ''zero creation owner generation'')
     else Ok (q @ u @ to_be_bytes (owner_generation (cr_owner c)) @ bytes_list (cr_material_sha256 c) @
              (case cr_outcome c of
                 ProviderSessionClosed s \<Rightarrow> 1 # w_id s
               | ProviderTemporaryObjectDestroyed b \<Rightarrow> 2 # w_id b
               | NativeWrappedOnlyGenerated \<Rightarrow> [3]))))"

definition r_outcome :: "creation_outcome reader" where
  "r_outcome r = and_then (r_u8 r) (\<lambda>(tag, r).
     if tag = 1 then and_then (r_id r) (\<lambda>(s, r). Ok (ProviderSessionClosed s, r))
     else if tag = 2 then and_then (r_id r) (\<lambda>(b, r). Ok (ProviderTemporaryObjectDestroyed b, r))
     else if tag = 3 then Ok (NativeWrappedOnlyGenerated, r)
     else Err unknown)"

definition r_creation_result :: "creation_result reader" where
  "r_creation_result r =
     and_then (r_message 4 w_request r_request r) (\<lambda>(q, r).
     and_then (r_uuid r) (\<lambda>(u, r).
     and_then (r_nonzero r) (\<lambda>(g, r).
     and_then (r_fixed r) (\<lambda>(m, r).
     and_then (r_outcome r) (\<lambda>(k, r).
       Ok (\<lparr>cr_request = q, cr_owner = \<lparr>owner_instance = u, owner_generation = nz_get g\<rparr>,
            cr_material_sha256 = m, cr_outcome = k\<rparr>, r))))))"

definition reason_byte :: "lease_cleanup_reason \<Rightarrow> byte" where
  "reason_byte x = (case x of Released \<Rightarrow> 1 | ResidencyExpired \<Rightarrow> 2 | AuthorityFenced \<Rightarrow> 3)"

definition w_cleanup :: "lease_cleanup_result writer" where
  "w_cleanup c = and_then (w_message 8 w_lease_record (lc_record c)) (\<lambda>m.
     Ok (m @ [reason_byte (lc_reason c)]))"

definition r_cleanup :: "lease_cleanup_result reader" where
  "r_cleanup r =
     and_then (r_message 8 w_lease_record r_lease_record r) (\<lambda>(m, r).
     and_then (r_u8 r) (\<lambda>(tag, r).
     and_then (if tag = 1 then Ok Released else if tag = 2 then Ok ResidencyExpired
               else if tag = 3 then Ok AuthorityFenced else Err unknown) (\<lambda>x.
       Ok (\<lparr>lc_record = m, lc_reason = x\<rparr>, r))))"

definition w_command :: "revocation_command writer" where
  "w_command c =
     and_then (check_executor (rc_validity c) (rc_executor c)) (\<lambda>_.
     and_then (w_uuid (rc_fence c)) (\<lambda>u.
     and_then (w_message 5 w_authority (rc_authority c)) (\<lambda>a.
     and_then (w_validity (rc_validity c)) (\<lambda>v.
       Ok (u @ w_executor (rc_executor c) @ a @ v)))))"

definition r_command :: "revocation_command reader" where
  "r_command r =
     and_then (r_uuid r) (\<lambda>(u, r).
     and_then (r_executor r) (\<lambda>(e, r).
     and_then (r_message 5 w_authority r_authority r) (\<lambda>(a, r).
     and_then (r_validity r) (\<lambda>(v, r).
       Ok (\<lparr>rc_fence = u, rc_executor = e, rc_authority = a, rc_validity = v\<rparr>, r)))))"

text \<open>The loop over \<open>observed_leases\<close>, with the counter of the previous lease.\<close>

fun w_leases :: "executor_incarnation \<Rightarrow> u64 \<Rightarrow> lease_identity list writer" where
  "w_leases executor previous [] = Ok []"
| "w_leases executor previous (l # ls) =
     (if li_executor l \<noteq> executor \<or> nz_get (li_counter l) \<le> previous
      then Err (Binding ''leases must be unique, sorted and local'')
      else and_then (w_message 7 w_lease l) (\<lambda>m.
           and_then (w_leases executor (nz_get (li_counter l)) ls) (\<lambda>ms. Ok (m @ ms))))"

fun r_leases :: "nat \<Rightarrow> lease_identity list reader" where
  "r_leases 0 r = Ok ([], r)"
| "r_leases (Suc n) r =
     and_then (r_message 7 w_lease r_lease r) (\<lambda>(l, r).
     and_then (r_leases n r) (\<lambda>(ls, r). Ok (l # ls, r)))"

definition w_revocation :: "revocation_result writer" where
  "w_revocation c =
     and_then (w_uuid (rr_fence c)) (\<lambda>u.
     and_then (w_message 5 w_authority (rr_authority c)) (\<lambda>a.
     if MAX_RECEIPT_LEASES < length (observed_leases c) then Err (Binding ''too many observed leases'')
     else and_then (w_leases (rr_executor c) 0 (observed_leases c)) (\<lambda>ls.
       Ok (u @ w_executor (rr_executor c) @ a @ bytes_list (rr_command_sha256 c) @
           (case rr_in_flight c of Drained \<Rightarrow> 1 | FurtherReleaseBlocked \<Rightarrow> 2) #
           to_be_bytes (of_nat (length (observed_leases c)) :: u16) @ ls))))"

definition r_revocation :: "revocation_result reader" where
  "r_revocation r =
     and_then (r_uuid r) (\<lambda>(u, r).
     and_then (r_executor r) (\<lambda>(e, r).
     and_then (r_message 5 w_authority r_authority r) (\<lambda>(a, r).
     and_then (r_fixed r) (\<lambda>(h, r).
     and_then (r_u8 r) (\<lambda>(tag, r).
     and_then (if tag = 1 then Ok Drained else if tag = 2 then Ok FurtherReleaseBlocked
               else Err unknown) (\<lambda>d.
     and_then (r_u16 r) (\<lambda>(len, r).
       let n = unat len in
       if MAX_RECEIPT_LEASES < n then Err (Encoding ''too many observed leases'')
       else and_then (r_leases n r) (\<lambda>(ls, r).
         Ok (\<lparr>rr_fence = u, rr_executor = e, rr_authority = a, rr_command_sha256 = h,
              rr_in_flight = d, observed_leases = ls\<rparr>, r)))))))))"

lemma r_nonzero_nonzero: "n \<noteq> 0 \<Longrightarrow> r_nonzero (to_be_bytes n @ r) = Ok (NonZero n, r)"
  by (simp add: r_nonzero_def read_back nonzero_new_def)

interpretation creation_res: wire 9 w_creation_result r_creation_result
  by unfold_locales
     (auto simp: w_creation_result_def split: if_splits creation_outcome.splits;
      simp add: r_creation_result_def r_outcome_def read_back request.read_message
        r_nonzero_nonzero NonZero_inverse)

interpretation cleanup: wire 10 w_cleanup r_cleanup
  by unfold_locales
     (auto simp: w_cleanup_def reason_byte_def split: lease_cleanup_reason.splits;
      simp add: r_cleanup_def read_back lease_rec.read_message)

interpretation command: wire 11 w_command r_command
  by unfold_locales (auto simp: w_command_def; simp add: r_command_def read_back authority.read_message)

lemma r_leases_append [read_back]:
  "w_leases e p ls = Ok bs \<Longrightarrow> r_leases (length ls) (bs @ r) = Ok (ls, r)"
proof (induction ls arbitrary: p bs)
  case (Cons l ls)
  then obtain m ms where "w_message 7 w_lease l = Ok m" "bs = m @ ms"
    and "w_leases e (nz_get (li_counter l)) ls = Ok ms"
    by (auto split: if_splits)
  with Cons.IH show ?case by (simp add: lease.read_message)
qed simp

interpretation revocation: wire 12 w_revocation r_revocation
proof
  fix c body r assume w: "w_revocation c = Ok body"
  then have "length (observed_leases c) \<le> 128"
    by (auto simp: w_revocation_def MAX_RECEIPT_LEASES_def split: if_splits)
  then have "unat (of_nat (length (observed_leases c)) :: u16) = length (observed_leases c)"
    by (simp add: unat_of_nat take_bit_nat_eq_self)
  with w show "r_revocation (body @ r) = Ok (c, r)"
    by (auto simp: w_revocation_def split: if_splits in_flight_disposition.splits;
        simp add: r_revocation_def read_back authority.read_message)
qed

section \<open>Contract checks\<close>

definition require_profile :: "custody_context \<Rightarrow> custody_profile list \<Rightarrow> (unit, contract_error) result" where
  "require_profile c qualified =
     and_then (validate_custody_context c) (\<lambda>_.
       if cc_profile c \<notin> set qualified then Err (Binding ''unqualified custody profile'') else Ok ())"

definition custody_context_sha256 ::
  "(byte list \<Rightarrow> 32 bytes) \<Rightarrow> custody_context \<Rightarrow> (32 bytes, contract_error) result" where
  "custody_context_sha256 sha256 c = message_sha256 sha256 2 w_context c"

definition covers ::
  "(byte list \<Rightarrow> 32 bytes) \<Rightarrow> authority_scope \<Rightarrow> custody_context \<Rightarrow> (bool, contract_error) result" where
  "covers sha256 s c =
     and_then (validate_custody_context c) (\<lambda>_.
       case s of
         ContextScope digest \<Rightarrow> and_then (custody_context_sha256 sha256 c) (\<lambda>d. Ok (digest = d))
       | SecurityDomain p d \<Rightarrow>
           Ok (p = wc_provider_ref (cc_wrapping c) \<and> d = wc_security_domain (cc_wrapping c)))"

text \<open>
  The comparison in \<open>check_request\<close> is a short-circuiting disjunction whose last two operands can
  fail: the digest is computed only when the plain fields agree, the scope only when the digest does.
\<close>

definition check_request ::
  "(byte list \<Rightarrow> 32 bytes) \<Rightarrow> authority_grant \<Rightarrow> request_binding \<Rightarrow> custody_context \<Rightarrow>
     wrapping_identifier \<Rightarrow> crypto_operation \<Rightarrow> clock_reading \<Rightarrow> (unit, contract_error) result" where
  "check_request sha256 g expected c prin operation now =
     and_then (validate_grant g) (\<lambda>_.
     if (operation = Encrypt \<or> operation = Decrypt) \<and> wc_purpose (cc_wrapping c) \<noteq> WEncryptDecrypt
     then Err (Binding ''operation forbidden by key purpose'')
     else if ag_request g \<noteq> expected \<or> ag_principal g \<noteq> prin \<or> ag_operation g \<noteq> operation
     then Err (Binding ''authority request mismatch'')
     else and_then (custody_context_sha256 sha256 c) (\<lambda>digest.
     if rb_context_sha256 (ag_request g) \<noteq> digest then Err (Binding ''authority request mismatch'')
     else and_then (covers sha256 (scope (ag_authority g)) c) (\<lambda>covered.
     if \<not> covered then Err (Binding ''authority request mismatch'')
     else and_then (check_at (ag_validity g) now) (\<lambda>_.
     if ancestor_not_after g \<le> milliseconds now then Err (Binding ''ancestor authority expired'')
     else Ok ()))))"

definition check_context ::
  "(byte list \<Rightarrow> 32 bytes) \<Rightarrow> lease_record \<Rightarrow> custody_context \<Rightarrow> (unit, contract_error) result" where
  "check_context sha256 l c =
     and_then (canonical_bytes 8 w_lease_record l) (\<lambda>_.
     and_then (custody_context_sha256 sha256 c) (\<lambda>digest.
     if lr_context_sha256 l \<noteq> digest then Err (Binding ''lease context mismatch'')
     else and_then (covers sha256 (scope (lr_authority l)) c) (\<lambda>covered.
       if \<not> covered then Err (Binding ''lease context mismatch'') else Ok ())))"

definition outcome_compatible :: "creation_outcome \<Rightarrow> execution_boundary \<Rightarrow> bool" where
  "outcome_compatible k b = (case (k, b) of
       (ProviderSessionClosed _, ProviderSessionObject) \<Rightarrow> True
     | (ProviderTemporaryObjectDestroyed _, ProviderJournaledTemporaryObject) \<Rightarrow> True
     | (NativeWrappedOnlyGenerated, TrustedHostWorkerMemory) \<Rightarrow> True
     | _ \<Rightarrow> False)"

definition check_material ::
  "(byte list \<Rightarrow> 32 bytes) \<Rightarrow> creation_result \<Rightarrow> custody_material_descriptor \<Rightarrow>
     (unit, contract_error) result" where
  "check_material sha256 c m =
     and_then (canonical_bytes 9 w_creation_result c) (\<lambda>_.
     and_then (custody_context_sha256 sha256 (md_context m)) (\<lambda>digest.
     if rb_context_sha256 (cr_request c) \<noteq> digest then Err (Binding ''creation material mismatch'')
     else and_then (message_sha256 sha256 3 w_descriptor m) (\<lambda>md.
     if cr_material_sha256 c \<noteq> md then Err (Binding ''creation material mismatch'')
     else if \<not> outcome_compatible (cr_outcome c) (boundary (cc_profile (md_context m)))
     then Err (Binding ''creation outcome/profile mismatch'') else Ok ())))"

definition check_attempt ::
  "(byte list \<Rightarrow> 32 bytes) \<Rightarrow> creation_result \<Rightarrow> request_binding \<Rightarrow> creation_owner \<Rightarrow>
     custody_material_descriptor \<Rightarrow> (unit, contract_error) result" where
  "check_attempt sha256 c q owner m =
     (if cr_request c \<noteq> q \<or> cr_owner c \<noteq> owner
      then Err (Binding ''creation attempt/owner mismatch'') else check_material sha256 c m)"

definition check_command ::
  "(byte list \<Rightarrow> 32 bytes) \<Rightarrow> revocation_result \<Rightarrow> revocation_command \<Rightarrow> (unit, contract_error) result" where
  "check_command sha256 x c =
     and_then (canonical_bytes 12 w_revocation x) (\<lambda>_.
     if rr_fence x \<noteq> rc_fence c \<or> rr_executor x \<noteq> rc_executor c \<or> rr_authority x \<noteq> rc_authority c
     then Err (Binding ''fence command mismatch'')
     else and_then (message_sha256 sha256 11 w_command c) (\<lambda>digest.
       if rr_command_sha256 x \<noteq> digest then Err (Binding ''fence command mismatch'') else Ok ()))"

text \<open>
  Two messages with one digest are one message, or their two encodings collide under the hash.
\<close>

definition collides :: "(byte list \<Rightarrow> 32 bytes) \<Rightarrow> (byte list, 'e) result \<Rightarrow> (byte list, 'e) result \<Rightarrow> bool" where
  "collides h a b \<longleftrightarrow> (case (a, b) of (Ok x, Ok y) \<Rightarrow> x \<noteq> y \<and> h x = h y | _ \<Rightarrow> False)"

context wire
begin

lemma sha256_binds:
  assumes "message_sha256 h kind write_msg v = Ok d" and "message_sha256 h kind write_msg w = Ok d"
  shows "v = w \<or> collides h (canonical_bytes kind write_msg v) (canonical_bytes kind write_msg w)"
proof -
  obtain x y where "canonical_bytes kind write_msg v = Ok x" "canonical_bytes kind write_msg w = Ok y"
    and "h x = h y"
    using assms by (auto simp: message_sha256_def)
  then show ?thesis
    using canonical_inject [of v x w] by (cases "x = y") (simp_all add: collides_def)
qed

end

lemma check_request_Ok_iff:
  "check_request sha256 g expected c prin operation now = Ok () \<longleftrightarrow>
     validate_grant g = Ok () \<and> (operation = GenerateWrapped \<or> wc_purpose (cc_wrapping c) = WEncryptDecrypt) \<and>
     ag_request g = expected \<and> ag_principal g = prin \<and> ag_operation g = operation \<and>
     custody_context_sha256 sha256 c = Ok (rb_context_sha256 (ag_request g)) \<and>
     covers sha256 (scope (ag_authority g)) c = Ok True \<and>
     check_at (ag_validity g) now = Ok () \<and> milliseconds now < ancestor_not_after g"
  by (cases operation) (auto simp: check_request_def)

section \<open>Facts of the encodings\<close>

lemma w_leases_sorted:
  "w_leases e p ls = Ok bs \<Longrightarrow>
     sorted_wrt (<) (map (nz_get \<circ> li_counter) ls) \<and> (\<forall>l \<in> set ls. li_executor l = e \<and> p < nz_get (li_counter l))"
proof (induction ls arbitrary: p bs)
  case (Cons l ls)
  then obtain ms where l: "li_executor l = e" "p < nz_get (li_counter l)"
    and ms: "w_leases e (nz_get (li_counter l)) ls = Ok ms"
    by (auto split: if_splits)
  from Cons.IH [OF ms] l show ?case by (auto intro: less_trans)
qed simp

section \<open>A concrete request\<close>

definition sample_authority :: authority_identity where
  "sample_authority = \<lparr>issuer = Ident ''i'', scope = ContextScope (fill 7), generation = NonZero 1\<rparr>"

definition sample_request :: request_binding where
  "sample_request = \<lparr>rb_operation = fill 1, rb_attempt = fill 2, rb_executor = Incarnation (fill 3),
     rb_context_sha256 = fill 7, rb_request_sha256 = fill 5\<rparr>"

definition sample_grant :: authority_grant where
  "sample_grant = \<lparr>ag_authority = sample_authority, ag_request = sample_request,
     ag_principal = Ident ''p'', ag_operation = Encrypt, ag_sequence = NonZero 1,
     ag_validity = \<lparr>clock = UnixMilliseconds, not_before = 10, not_after = 20\<rparr>,
     ancestor_not_after = 15\<rparr>"

lemma ident_str_sample [simp]:
  "ident_str (Ident ''i'') = ''i''" "ident_str (Ident ''p'') = ''p''" "ident_str (Ident ''k'') = ''k''"
  by (simp_all add: Ident_inverse validate_identifier_def MAX_WRAPPING_IDENTIFIER_BYTES_def
      as_bytes_def is_ascii_graphic_def)

definition sample_wrapping :: wrapping_context where
  "sample_wrapping = \<lparr>wc_version = WV1, wc_child = \<lparr>vk_lid = Lid (fill 1), vk_version = NonZero 1\<rparr>,
     wc_parent = \<lparr>vk_lid = Lid (fill 2), vk_version = NonZero 1\<rparr>, wc_parent_spec = Aes256,
     wc_child_spec = Aes256, wc_key_format = RawSecret, wc_purpose = WEncryptDecrypt,
     wc_provider_ref = ProviderRef ''p'', wc_security_domain = Ident ''i'', wc_mechanism = Ident ''k'',
     wc_public_material_sha256 = None\<rparr>"

definition sample_context :: "wrapping_identifier \<Rightarrow> custody_context" where
  "sample_context i = \<lparr>cc_wrapping = sample_wrapping,
     cc_profile = \<lparr>boundary = ProviderSessionObject, profile_id = i\<rparr>\<rparr>"

definition sample_now :: clock_reading where
  "sample_now = \<lparr>clock_domain_of = UnixMilliseconds, milliseconds = 12\<rparr>"

lemmas sample_defs =
  sample_authority_def sample_request_def sample_grant_def sample_wrapping_def sample_context_def
  sample_now_def

lemmas custody_eval =
  check_request_def validate_grant_def validate_request_def is_nil_def check_executor_def check_at_def
  validate_validity_def scope_mismatch_def custody_context_sha256_def message_sha256_def
  canonical_bytes_def w_context_def validate_custody_context_def context_canonical_bytes_def
  validate_context_def validate_identifier_def validate_profile_def rsa_size_ok_def
  valid_purpose_def is_asymmetric_def MAX_WRAPPING_IDENTIFIER_BYTES_def as_bytes_def
  is_ascii_graphic_def append_key_id_def append_identifier_def format_bytes_def digest_bytes_def
  w_blob_def w_message_def w_profile_def w_id_def MAX_CONTRACT_BYTES_def DOMAIN_def CONTEXT_DOMAIN_def
  covers_def Let_def

lemma sample_check_request:
  assumes "i = Ident ''i'' \<or> i = Ident ''k''"
  shows "check_request (\<lambda>_. fill 7) sample_grant sample_request (sample_context i) (Ident ''p'') Encrypt sample_now = Ok ()"
  using assms by (auto simp: custody_eval sample_defs)

section \<open>Properties\<close>

text \<open>
  C21: every custody message has exactly one encoding. For each of the twelve kinds, decoding
  succeeds with a value exactly when the input is the encoding of that value: no trailing bytes,
  no alternative spelling, no value that fails its own validation.
\<close>

theorem custody_encodings_unique:
  "(from_canonical_bytes 1 w_profile r_profile bs = Ok v1 \<longleftrightarrow> canonical_bytes 1 w_profile v1 = Ok bs) \<and>
   (from_canonical_bytes 2 w_context r_context bs = Ok v2 \<longleftrightarrow> canonical_bytes 2 w_context v2 = Ok bs) \<and>
   (from_canonical_bytes 3 w_descriptor r_descriptor bs = Ok v3 \<longleftrightarrow> canonical_bytes 3 w_descriptor v3 = Ok bs) \<and>
   (from_canonical_bytes 4 w_request r_request bs = Ok v4 \<longleftrightarrow> canonical_bytes 4 w_request v4 = Ok bs) \<and>
   (from_canonical_bytes 5 w_authority r_authority bs = Ok v5 \<longleftrightarrow> canonical_bytes 5 w_authority v5 = Ok bs) \<and>
   (from_canonical_bytes 6 w_grant r_grant bs = Ok v6 \<longleftrightarrow> canonical_bytes 6 w_grant v6 = Ok bs) \<and>
   (from_canonical_bytes 7 w_lease r_lease bs = Ok v7 \<longleftrightarrow> canonical_bytes 7 w_lease v7 = Ok bs) \<and>
   (from_canonical_bytes 8 w_lease_record r_lease_record bs = Ok v8 \<longleftrightarrow>
      canonical_bytes 8 w_lease_record v8 = Ok bs) \<and>
   (from_canonical_bytes 9 w_creation_result r_creation_result bs = Ok v9 \<longleftrightarrow>
      canonical_bytes 9 w_creation_result v9 = Ok bs) \<and>
   (from_canonical_bytes 10 w_cleanup r_cleanup bs = Ok v10 \<longleftrightarrow> canonical_bytes 10 w_cleanup v10 = Ok bs) \<and>
   (from_canonical_bytes 11 w_command r_command bs = Ok v11 \<longleftrightarrow> canonical_bytes 11 w_command v11 = Ok bs) \<and>
   (from_canonical_bytes 12 w_revocation r_revocation bs = Ok v12 \<longleftrightarrow> canonical_bytes 12 w_revocation v12 = Ok bs)"
  by (intro conjI profile.canonical_iff custody_ctx.canonical_iff descriptor.canonical_iff
      request.canonical_iff authority.canonical_iff grant.canonical_iff lease.canonical_iff
      lease_rec.canonical_iff creation_res.canonical_iff cleanup.canonical_iff command.canonical_iff
      revocation.canonical_iff)

text \<open>
  An accepted grant is bound to one request, one principal, one operation and one context,
  inside its validity interval and below the ancestor ceiling. Two acceptances of one grant agree
  on all of them, unless the two contexts' encodings collide under SHA-256.
\<close>

theorem check_request_binds:
  assumes "check_request sha256 g q c p k now = Ok ()"
    and "check_request sha256 g q' d p' k' now' = Ok ()"
  shows "q = q' \<and> p = p' \<and> k = k' \<and>
         (c = d \<or> collides sha256 (canonical_bytes 2 w_context c) (canonical_bytes 2 w_context d)) \<and>
         not_before (ag_validity g) \<le> milliseconds now \<and> milliseconds now < not_after (ag_validity g) \<and>
         milliseconds now < ancestor_not_after g"
proof -
  have "c = d \<or> collides sha256 (canonical_bytes 2 w_context c) (canonical_bytes 2 w_context d)"
    using assms custody_ctx.sha256_binds [of sha256 c _ d]
    unfolding check_request_Ok_iff custody_context_sha256_def by metis
  with assms show ?thesis
    unfolding check_request_Ok_iff by (auto simp: check_at_def not_le split: if_splits)
qed

theorem check_request_binds_witness:
  "sample_context (Ident ''i'') = sample_context (Ident ''k'') \<or>
   collides (\<lambda>_. fill 7) (canonical_bytes 2 w_context (sample_context (Ident ''i'')))
     (canonical_bytes 2 w_context (sample_context (Ident ''k'')))"
  using check_request_binds [OF sample_check_request sample_check_request, of "Ident ''i''" "Ident ''k''"]
  by simp

text \<open>
  A decoded revocation receipt lists at most 128 leases, all of its own executor, with
  strictly increasing counters, so it names no lease twice.
\<close>

theorem revocation_receipt_leases:
  assumes "from_canonical_bytes 12 w_revocation r_revocation bs = Ok x"
  shows "length (observed_leases x) \<le> 128 \<and> sorted_wrt (<) (map (nz_get \<circ> li_counter) (observed_leases x)) \<and>
         (\<forall>l \<in> set (observed_leases x). li_executor l = rr_executor x) \<and> distinct (observed_leases x)"
proof -
  obtain body where "w_revocation x = Ok body"
    using revocation.encode_decode_msg [OF assms] by (auto simp: canonical_bytes_def)
  then obtain ls where ls: "w_leases (rr_executor x) 0 (observed_leases x) = Ok ls"
    and len: "length (observed_leases x) \<le> 128"
    by (auto simp: w_revocation_def MAX_RECEIPT_LEASES_def split: if_splits)
  have sorted: "sorted_wrt (<) (map (nz_get \<circ> li_counter) (observed_leases x))"
    using w_leases_sorted [OF ls] by simp
  then have "distinct (map (nz_get \<circ> li_counter) (observed_leases x))"
    by (simp only: strict_sorted_iff)
  then have "distinct (observed_leases x)" by (simp add: distinct_map)
  with sorted len w_leases_sorted [OF ls] show ?thesis by simp
qed

definition sample_revocation :: revocation_result where
  "sample_revocation = \<lparr>rr_fence = fill 1, rr_executor = Incarnation (fill 3), rr_authority = sample_authority,
     rr_command_sha256 = fill 4, rr_in_flight = Drained,
     observed_leases = [\<lparr>li_executor = Incarnation (fill 3), li_counter = NonZero 1\<rparr>,
                        \<lparr>li_executor = Incarnation (fill 3), li_counter = NonZero 5\<rparr>]\<rparr>"

lemma sample_revocation_encodes: "is_ok (canonical_bytes 12 w_revocation sample_revocation)"
  by (simp add: custody_eval sample_revocation_def sample_authority_def w_revocation_def w_authority_def
      w_uuid_def w_lease_def w_executor_def MAX_RECEIPT_LEASES_def NonZero_inverse word_le_nat_alt)

theorem revocation_receipt_leases_witness:
  "\<exists>bs. from_canonical_bytes 12 w_revocation r_revocation bs = Ok sample_revocation \<and>
        distinct (observed_leases sample_revocation)"
proof -
  obtain bs where "canonical_bytes 12 w_revocation sample_revocation = Ok bs"
    using sample_revocation_encodes by (auto simp: is_ok_iff)
  then have bs: "from_canonical_bytes 12 w_revocation r_revocation bs = Ok sample_revocation"
    by (rule revocation.decode_encode_msg)
  with revocation_receipt_leases [OF bs] show ?thesis by blast
qed

end
