(* ===== verification/Evidence.thy ===== *)
theory Evidence
  imports Custody
begin

text \<open>
  Signed custody evidence (\<open>custody/evidence.rs\<close>): the signing transcript, its authentication
  against a configured key, and the evidence message format, which is generic in the claims.
  Signature verification is the parameter \<open>verify\<close> (\<open>verify_strict\<close> of \<open>ed25519_dalek\<close>).

  The locale \<open>claims\<close> extends \<open>wire\<close> by the issuer a claim names; its five interpretations are the
  five sealed claim families of the source.
\<close>

section \<open>Operations\<close>

record 'a evidence =
  ev_issuer :: wrapping_identifier
  ev_key_id :: wrapping_identifier
  ev_claims :: 'a
  ev_signature :: "64 bytes"

record 'k evidence_key =
  ek_issuer :: wrapping_identifier
  ek_key_id :: wrapping_identifier
  ek_key :: 'k

definition EVIDENCE_DOMAIN :: "byte list" where
  "EVIDENCE_DOMAIN = as_bytes ''KeyRack:CustodyEvidenceSignature'' @ [0]"

definition signing_bytes ::
  "('a \<Rightarrow> wrapping_identifier option) \<Rightarrow> byte \<Rightarrow> 'a writer \<Rightarrow> 'a evidence \<Rightarrow>
     (byte list, contract_error) result" where
  "signing_bytes authority_issuer kind write e =
     (if (case authority_issuer (ev_claims e) of Some i \<Rightarrow> i \<noteq> ev_issuer e | None \<Rightarrow> False)
      then Err (Binding ''authority issuer/evidence signer mismatch'')
      else and_then (w_message kind write (ev_claims e)) (\<lambda>m.
        let w = EVIDENCE_DOMAIN @ to_be_bytes (1 :: u16) @ [1] @ w_id (ev_issuer e) @ w_id (ev_key_id e) @ m
        in if MAX_CONTRACT_BYTES < length w then Err (Encoding ''signature transcript too large'')
           else Ok w))"

definition authenticate ::
  "('k \<Rightarrow> byte list \<Rightarrow> 64 bytes \<Rightarrow> bool) \<Rightarrow> ('a \<Rightarrow> wrapping_identifier option) \<Rightarrow> byte \<Rightarrow> 'a writer \<Rightarrow>
     'a evidence \<Rightarrow> 'k evidence_key \<Rightarrow> ('a evidence, contract_error) result" where
  "authenticate verify authority_issuer kind write e trusted =
     (if ev_issuer e \<noteq> ek_issuer trusted \<or> ev_key_id e \<noteq> ek_key_id trusted then Err Authentication
      else and_then (signing_bytes authority_issuer kind write e) (\<lambda>transcript.
        if verify (ek_key trusted) transcript (ev_signature e) then Ok e else Err Authentication))"

definition w_evidence ::
  "('a \<Rightarrow> wrapping_identifier option) \<Rightarrow> byte \<Rightarrow> 'a writer \<Rightarrow> 'a evidence writer" where
  "w_evidence authority_issuer kind write e =
     and_then (signing_bytes authority_issuer kind write e) (\<lambda>_.
     and_then (w_message kind write (ev_claims e)) (\<lambda>m.
       Ok (1 # w_id (ev_issuer e) @ w_id (ev_key_id e) @ m @ bytes_list (ev_signature e))))"

definition r_evidence :: "byte \<Rightarrow> 'a writer \<Rightarrow> 'a reader \<Rightarrow> 'a evidence reader" where
  "r_evidence kind write read r =
     and_then (r_u8 r) (\<lambda>(algorithm, r).
     if algorithm \<noteq> 1 then Err (Encoding ''unknown signature algorithm'')
     else and_then (r_id r) (\<lambda>(i, r).
          and_then (r_id r) (\<lambda>(k, r).
          and_then (r_message kind write read r) (\<lambda>(c, r).
          and_then (r_fixed r) (\<lambda>(s, r).
            Ok (\<lparr>ev_issuer = i, ev_key_id = k, ev_claims = c, ev_signature = s\<rparr>, r))))))"

definition grant_issuer :: "authority_grant \<Rightarrow> wrapping_identifier option" where
  "grant_issuer g = Some (issuer (ag_authority g))"

definition command_issuer :: "revocation_command \<Rightarrow> wrapping_identifier option" where
  "command_issuer c = Some (issuer (rc_authority c))"

definition no_issuer :: "'a \<Rightarrow> wrapping_identifier option" where
  "no_issuer c = None"

section \<open>The claims contract\<close>

locale claims = wire kind write_msg read_msg
  for kind :: byte and write_msg :: "'a writer" and read_msg :: "'a reader" +
  fixes authority_issuer :: "'a \<Rightarrow> wrapping_identifier option"
begin

lemma evidence_read_write:
  "w_evidence authority_issuer kind write_msg e = Ok body \<Longrightarrow>
     r_evidence kind write_msg read_msg (body @ r) = Ok (e, r)"
  by (auto simp: w_evidence_def; simp add: r_evidence_def read_back read_message)

lemma signing_bytes_inject:
  assumes "signing_bytes authority_issuer kind write_msg e = Ok t"
    and "signing_bytes authority_issuer kind write_msg f = Ok t"
  shows "ev_issuer e = ev_issuer f \<and> ev_key_id e = ev_key_id f \<and> ev_claims e = ev_claims f"
proof -
  obtain m n where m: "w_message kind write_msg (ev_claims e) = Ok m"
    and n: "w_message kind write_msg (ev_claims f) = Ok n"
    and eq: "w_id (ev_issuer e) @ w_id (ev_key_id e) @ m = w_id (ev_issuer f) @ w_id (ev_key_id f) @ n"
    using assms by (auto simp: signing_bytes_def Let_def split: if_splits)
  have i: "ev_issuer e = ev_issuer f" "w_id (ev_key_id e) @ m = w_id (ev_key_id f) @ n"
    using arg_cong [OF eq, of r_id] by (simp_all add: read_back)
  have k: "ev_key_id e = ev_key_id f" "m = n"
    using arg_cong [OF i(2), of r_id] by (simp_all add: read_back)
  have "ev_claims e = ev_claims f"
    using read_message [OF m, of "[]"] read_message [OF n, of "[]"] k(2) by simp
  with i k show ?thesis by simp
qed

end

sublocale claims \<subseteq> evidence_wire: wire 13 "w_evidence authority_issuer kind write_msg"
    "r_evidence kind write_msg read_msg"
  by unfold_locales (rule evidence_read_write)

interpretation grant_claims: claims 6 w_grant r_grant grant_issuer
  by unfold_locales

interpretation creation_claims: claims 9 w_creation_result r_creation_result no_issuer
  by unfold_locales

interpretation cleanup_claims: claims 10 w_cleanup r_cleanup no_issuer
  by unfold_locales

interpretation command_claims: claims 11 w_command r_command command_issuer
  by unfold_locales

interpretation revocation_claims: claims 12 w_revocation r_revocation no_issuer
  by unfold_locales

text \<open>Transcripts of different claim families differ.\<close>

lemma w_message_kind:
  assumes "w_message k w v = Ok m" and "w_message k' w' v' = Ok m"
  shows "k = k'"
proof -
  obtain b b' where b: "canonical_bytes k w v = Ok b" "w_blob b = Ok m"
    and b': "canonical_bytes k' w' v' = Ok b'" "w_blob b' = Ok m"
    using assms by (auto simp: w_message_def)
  have "b = b'"
    using r_blob_append [OF b(2), of "[]"] r_blob_append [OF b'(2), of "[]"] by simp
  with b(1) b'(1) show ?thesis by (auto intro: canonical_kind)
qed

lemma signing_bytes_kind:
  assumes "signing_bytes ai k w e = Ok t" and "signing_bytes ai' k' w' e' = Ok t"
  shows "k = k'"
proof -
  obtain m n where m: "w_message k w (ev_claims e) = Ok m" and n: "w_message k' w' (ev_claims e') = Ok n"
    and eq: "w_id (ev_issuer e) @ w_id (ev_key_id e) @ m = w_id (ev_issuer e') @ w_id (ev_key_id e') @ n"
    using assms by (auto simp: signing_bytes_def Let_def split: if_splits)
  have k: "w_id (ev_key_id e) @ m = w_id (ev_key_id e') @ n"
    using arg_cong [OF eq, of r_id] by (simp add: read_back)
  have "m = n"
    using arg_cong [OF k, of r_id] by (simp add: read_back)
  with m n show ?thesis by (auto intro: w_message_kind)
qed

section \<open>Properties\<close>

text \<open>
  A signature over a grant covers the grant and nothing else. Evidence of any claim family
  with the signing transcript of a grant's evidence is grant evidence of the same signer, key
  and grant.
\<close>

theorem grant_transcript_binds:
  assumes "signing_bytes grant_issuer 6 w_grant e = Ok t"
  shows "(signing_bytes grant_issuer 6 w_grant f = Ok t \<longleftrightarrow>
           ev_issuer f = ev_issuer e \<and> ev_key_id f = ev_key_id e \<and> ev_claims f = ev_claims e) \<and>
         (signing_bytes ai kind wr g = Ok t \<longrightarrow> kind = 6)"
proof (intro conjI impI)
  have "signing_bytes grant_issuer 6 w_grant f = signing_bytes grant_issuer 6 w_grant e"
    if "ev_issuer f = ev_issuer e" "ev_key_id f = ev_key_id e" "ev_claims f = ev_claims e"
    unfolding signing_bytes_def that by (rule refl)
  then show "signing_bytes grant_issuer 6 w_grant f = Ok t \<longleftrightarrow>
           ev_issuer f = ev_issuer e \<and> ev_key_id f = ev_key_id e \<and> ev_claims f = ev_claims e"
    using assms grant_claims.signing_bytes_inject [of e t f] by auto
next
  assume "signing_bytes ai kind wr g = Ok t"
  with signing_bytes_kind [OF assms] show "kind = 6" by simp
qed

definition sample_evidence :: "64 bytes \<Rightarrow> authority_grant evidence" where
  "sample_evidence s = \<lparr>ev_issuer = Ident ''i'', ev_key_id = Ident ''k'', ev_claims = sample_grant,
     ev_signature = s\<rparr>"

lemma sample_signing: "is_ok (signing_bytes grant_issuer 6 w_grant (sample_evidence s))"
  by (simp add: signing_bytes_def sample_evidence_def sample_grant_def sample_authority_def
      sample_request_def grant_issuer_def w_message_def canonical_bytes_def w_grant_def
      validate_grant_def validate_request_def is_nil_def check_executor_def validate_validity_def
      scope_mismatch_def w_authority_def w_request_def w_uuid_def w_blob_def w_validity_def
      MAX_CONTRACT_BYTES_def w_id_def w_executor_def DOMAIN_def EVIDENCE_DOMAIN_def Let_def)

theorem grant_transcript_binds_witness:
  "\<exists>t. signing_bytes grant_issuer 6 w_grant (sample_evidence (fill 1)) = Ok t \<and>
       signing_bytes grant_issuer 6 w_grant (sample_evidence (fill 2)) = Ok t"
proof -
  obtain t where t: "signing_bytes grant_issuer 6 w_grant (sample_evidence (fill 1)) = Ok t"
    using sample_signing [of "fill 1"] by (auto simp: is_ok_iff)
  then have "signing_bytes grant_issuer 6 w_grant (sample_evidence (fill 2)) = Ok t"
    using grant_transcript_binds [OF t, of "sample_evidence (fill 2)" grant_issuer 6 w_grant "sample_evidence (fill 1)"]
    by (simp add: sample_evidence_def)
  with t show ?thesis by blast
qed

text \<open>
  Signed evidence has exactly one encoding, for each of the five claim families.
\<close>

theorem evidence_encoding_unique:
  "(from_canonical_bytes 13 (w_evidence grant_issuer 6 w_grant) (r_evidence 6 w_grant r_grant) bs = Ok e1 \<longleftrightarrow>
      canonical_bytes 13 (w_evidence grant_issuer 6 w_grant) e1 = Ok bs) \<and>
   (from_canonical_bytes 13 (w_evidence no_issuer 9 w_creation_result)
        (r_evidence 9 w_creation_result r_creation_result) bs = Ok e2 \<longleftrightarrow>
      canonical_bytes 13 (w_evidence no_issuer 9 w_creation_result) e2 = Ok bs) \<and>
   (from_canonical_bytes 13 (w_evidence no_issuer 10 w_cleanup) (r_evidence 10 w_cleanup r_cleanup) bs = Ok e3 \<longleftrightarrow>
      canonical_bytes 13 (w_evidence no_issuer 10 w_cleanup) e3 = Ok bs) \<and>
   (from_canonical_bytes 13 (w_evidence command_issuer 11 w_command) (r_evidence 11 w_command r_command) bs = Ok e4 \<longleftrightarrow>
      canonical_bytes 13 (w_evidence command_issuer 11 w_command) e4 = Ok bs) \<and>
   (from_canonical_bytes 13 (w_evidence no_issuer 12 w_revocation)
        (r_evidence 12 w_revocation r_revocation) bs = Ok e5 \<longleftrightarrow>
      canonical_bytes 13 (w_evidence no_issuer 12 w_revocation) e5 = Ok bs)"
  by (intro conjI grant_claims.evidence_wire.canonical_iff creation_claims.evidence_wire.canonical_iff
      cleanup_claims.evidence_wire.canonical_iff command_claims.evidence_wire.canonical_iff
      revocation_claims.evidence_wire.canonical_iff)

end
