(* ===== verification/Rules.thy ===== *)
theory Rules
  imports Tags "HOL-Library.Product_Lexorder"
begin

text \<open>
  The namespace rule engine (\<open>rule.rs\<close>): patterns with variables, specificity ranking, binding
  extraction, parent interpolation, and the registry with its static checks. YAML parsing is
  derived code: a configuration is the list of namespaces it yields. The static cycle check keys
  its visited set by the debug rendering of a pattern; the model uses the pattern itself, and an
  error message stops where the code would print a pattern.
\<close>

section \<open>Rules\<close>

type_synonym flat_map = "(string, string) btreemap"

definition DEFAULT_MAX_DEPTH :: u32 where
  "DEFAULT_MAX_DEPTH = 16"

datatype parent_ref = Root | Attachment | Pattern flat_map

record routing_rule =
  match_pattern :: flat_map
  rule_parent :: parent_ref
  rule_priority :: int
  rule_key_spec :: "key_spec option"

record namespace_def =
  ns_name :: string
  attachment :: "flat_map option"
  routing_rules :: "routing_rule list"
  ns_max_depth :: u32

definition is_var :: "string \<Rightarrow> bool" where
  "is_var v = (case v of [] \<Rightarrow> False | c # _ \<Rightarrow> c = CHR ''$'')"

type_synonym specificity = "u32 \<times> u32"

definition specificity :: "routing_rule \<Rightarrow> specificity" where
  "specificity r = fold (\<lambda>(k, v) (concrete, variable).
     if is_var v then (concrete, variable + 1) else (concrete + 1, variable)) (match_pattern r) (0, 0)"

definition normalize_pattern :: "(string \<Rightarrow> string) \<Rightarrow> flat_map \<Rightarrow> (flat_map, keyrack_error) result" where
  "normalize_pattern nfc m = map_err InvalidIdentity (normalize_flat nfc m)"

text \<open>The loop over the variables of a pattern; \<open>seen\<close> is the set of those met so far.\<close>

fun variables_ok :: "string list \<Rightarrow> string list \<Rightarrow> (unit, keyrack_error) result" where
  "variables_ok seen [] = Ok ()"
| "variables_ok seen (v # vs) =
     (if length v = 1 \<or> v \<in> set seen
      then Err (Other (''empty or duplicate normalized variable binding: '' @ v))
      else variables_ok (v # seen) vs)"

definition normalized_rule :: "(string \<Rightarrow> string) \<Rightarrow> routing_rule \<Rightarrow> (routing_rule, keyrack_error) result" where
  "normalized_rule nfc r =
     and_then (normalize_pattern nfc (match_pattern r)) (\<lambda>p.
     and_then (variables_ok [] (filter is_var (map snd p))) (\<lambda>_.
     case rule_parent r of
       Pattern parent \<Rightarrow> and_then (normalize_pattern nfc parent) (\<lambda>q.
         Ok (r\<lparr>match_pattern := p, rule_parent := Pattern q\<rparr>))
     | _ \<Rightarrow> Ok (r\<lparr>match_pattern := p\<rparr>)))"

definition entry_matches :: "flat_map \<Rightarrow> string \<times> string \<Rightarrow> bool" where
  "entry_matches attrs p = (case map_of attrs (fst p) of
       None \<Rightarrow> False | Some value \<Rightarrow> is_var (snd p) \<or> snd p = value)"

definition matches_normalized :: "routing_rule \<Rightarrow> flat_map \<Rightarrow> bool" where
  "matches_normalized r attrs = list_all (entry_matches attrs) (match_pattern r)"

definition rule_matches :: "(string \<Rightarrow> string) \<Rightarrow> routing_rule \<Rightarrow> flat_map \<Rightarrow> bool" where
  "rule_matches nfc r attrs = (case (normalized_rule nfc r, normalize_pattern nfc attrs) of
       (Ok rule, Ok attrs) \<Rightarrow> matches_normalized rule attrs
     | _ \<Rightarrow> False)"

definition captured :: "routing_rule \<Rightarrow> flat_map \<Rightarrow> flat_map" where
  "captured r attrs = bt_collect (map (\<lambda>(k, v). (v, the (map_of attrs k)))
     (filter (\<lambda>(k, v). is_var v) (match_pattern r)))"

definition extract_bindings :: "(string \<Rightarrow> string) \<Rightarrow> routing_rule \<Rightarrow> flat_map \<Rightarrow> flat_map" where
  "extract_bindings nfc r attrs = (case (normalized_rule nfc r, normalize_pattern nfc attrs) of
       (Ok rule, Ok attrs) \<Rightarrow> if \<not> matches_normalized rule attrs then [] else captured rule attrs
     | _ \<Rightarrow> [])"

text \<open>\<open>collect\<close> into \<open>Option<BTreeMap>\<close>: none as soon as one entry has no value.\<close>

fun interpolate :: "flat_map \<Rightarrow> (string \<times> string) list \<Rightarrow> (string \<times> string) list option" where
  "interpolate bindings [] = Some []"
| "interpolate bindings ((k, v) # rest) =
     (case (if is_var v then map_of bindings v else Some v) of
        None \<Rightarrow> None
      | Some w \<Rightarrow> (case interpolate bindings rest of None \<Rightarrow> None | Some ps \<Rightarrow> Some ((k, w) # ps)))"

definition resolve_parent :: "(string \<Rightarrow> string) \<Rightarrow> routing_rule \<Rightarrow> flat_map \<Rightarrow> flat_map option" where
  "resolve_parent nfc r bindings = (case normalized_rule nfc r of
       Err _ \<Rightarrow> None
     | Ok rule \<Rightarrow> (case normalize_pattern nfc bindings of
           Err _ \<Rightarrow> None
         | Ok bindings \<Rightarrow> (case rule_parent rule of
               Pattern parent \<Rightarrow> map_option bt_collect (interpolate bindings parent)
             | _ \<Rightarrow> None)))"

definition is_attachment_boundary :: "routing_rule \<Rightarrow> bool" where
  "is_attachment_boundary r = (rule_parent r = Attachment)"

definition is_root :: "routing_rule \<Rightarrow> bool" where
  "is_root r = (rule_parent r = Root)"

section \<open>Registry\<close>

datatype rule_registry = RuleRegistry (namespaces: "namespace_def list")

record rule_match =
  rm_rule :: routing_rule
  rm_namespace :: namespace_def
  rm_bindings :: flat_map

fun seen_patterns :: "flat_map list \<Rightarrow> routing_rule list \<Rightarrow> bool" where
  "seen_patterns seen [] = False"
| "seen_patterns seen (r # rs) =
     (match_pattern r \<in> set seen \<or> seen_patterns (match_pattern r # seen) rs)"

definition register :: "(string \<Rightarrow> string) \<Rightarrow> namespace_def \<Rightarrow> rule_registry \<Rightarrow> (rule_registry, keyrack_error) result" where
  "register nfc n g =
     (let n = n\<lparr>ns_name := normalize_text nfc (ns_name n)\<rparr> in
      if ns_name n = [] then Err (Other ''empty namespace name'')
      else if list_ex (\<lambda>m. ns_name m = ns_name n) (namespaces g)
      then Err (Other (''duplicate namespace: '' @ ns_name n))
      else if \<not> (1 \<le> ns_max_depth n \<and> ns_max_depth n \<le> 256)
      then Err (Other (''namespace '' @ ns_name n @ '': max_depth must be 1'' @ [CHR 0xE2, CHR 0x80, CHR 0x93] @
              ''256, got '' @ show_nat (unat (ns_max_depth n))))
      else and_then (case attachment n of
          None \<Rightarrow> Ok None
        | Some a \<Rightarrow> and_then (normalize_pattern nfc a) (\<lambda>b. Ok (Some b))) (\<lambda>a.
      and_then (try_map (normalized_rule nfc) (routing_rules n)) (\<lambda>rules.
        let n = n\<lparr>attachment := a, routing_rules := rules\<rparr> in
        if seen_patterns [] rules then Err (Other (''namespace '' @ ns_name n @ '': duplicate rule with pattern ''))
        else Ok (RuleRegistry (namespaces g @ [n])))))"

type_synonym rank = "specificity \<times> int"

definition rule_rank :: "routing_rule \<Rightarrow> rank" where
  "rule_rank r = (specificity r, rule_priority r)"

definition better :: "(rank \<times> routing_rule \<times> namespace_def) option \<Rightarrow> rank \<Rightarrow> bool" where
  "better best k = (case best of None \<Rightarrow> True | Some (b, _) \<Rightarrow> b < k)"

fun scan_rules ::
  "(string \<Rightarrow> string) \<Rightarrow> flat_map \<Rightarrow> namespace_def \<Rightarrow> routing_rule list \<Rightarrow>
     (rank \<times> routing_rule \<times> namespace_def) option \<Rightarrow> (rank \<times> routing_rule \<times> namespace_def) option" where
  "scan_rules nfc attrs n [] best = best"
| "scan_rules nfc attrs n (r # rs) best =
     scan_rules nfc attrs n rs
       (if rule_matches nfc r attrs \<and> better best (rule_rank r) then Some (rule_rank r, r, n) else best)"

fun scan_namespaces ::
  "(string \<Rightarrow> string) \<Rightarrow> flat_map \<Rightarrow> namespace_def list \<Rightarrow>
     (rank \<times> routing_rule \<times> namespace_def) option \<Rightarrow> (rank \<times> routing_rule \<times> namespace_def) option" where
  "scan_namespaces nfc attrs [] best = best"
| "scan_namespaces nfc attrs (n # ns) best =
     scan_namespaces nfc attrs ns (scan_rules nfc attrs n (routing_rules n) best)"

definition match_rule :: "(string \<Rightarrow> string) \<Rightarrow> rule_registry \<Rightarrow> flat_map \<Rightarrow> rule_match option" where
  "match_rule nfc g attrs = map_option (\<lambda>(_, r, n).
     \<lparr>rm_rule = r, rm_namespace = n, rm_bindings = extract_bindings nfc r attrs\<rparr>)
       (scan_namespaces nfc attrs (namespaces g) None)"

definition get_namespace :: "(string \<Rightarrow> string) \<Rightarrow> rule_registry \<Rightarrow> string \<Rightarrow> namespace_def option" where
  "get_namespace nfc g name = List.find (\<lambda>n. ns_name n = normalize_text nfc name) (namespaces g)"

text \<open>One start pattern of the static check: at most \<open>fuel\<close> hops, the source's \<open>0..256\<close>.\<close>

fun static_cycle :: "(string \<Rightarrow> string) \<Rightarrow> rule_registry \<Rightarrow> nat \<Rightarrow> flat_map list \<Rightarrow> flat_map \<Rightarrow> bool" where
  "static_cycle nfc g 0 visited current = False"
| "static_cycle nfc g (Suc fuel) visited current =
     (if current \<in> set visited then True
      else case match_rule nfc g current of
          None \<Rightarrow> False
        | Some m \<Rightarrow> (case rule_parent (rm_rule m) of
              Pattern _ \<Rightarrow> (case resolve_parent nfc (rm_rule m) (rm_bindings m) of
                  None \<Rightarrow> False
                | Some parent \<Rightarrow> static_cycle nfc g fuel (current # visited) parent)
            | _ \<Rightarrow> False))"

definition rule_static_cycle :: "(string \<Rightarrow> string) \<Rightarrow> rule_registry \<Rightarrow> routing_rule \<Rightarrow> bool" where
  "rule_static_cycle nfc g r = (case rule_parent r of
       Pattern parent \<Rightarrow> static_cycle nfc g 256 [match_pattern r] parent
     | _ \<Rightarrow> False)"

definition namespace_static_cycle :: "(string \<Rightarrow> string) \<Rightarrow> rule_registry \<Rightarrow> namespace_def \<Rightarrow> bool" where
  "namespace_static_cycle nfc g n = list_ex (rule_static_cycle nfc g) (routing_rules n)"

definition detect_static_cycles :: "(string \<Rightarrow> string) \<Rightarrow> rule_registry \<Rightarrow> (unit, keyrack_error) result" where
  "detect_static_cycles nfc g =
     (case List.find (namespace_static_cycle nfc g) (namespaces g) of
        Some n \<Rightarrow> Err (Other (''static cycle detected in namespace '' @ ns_name n))
      | None \<Rightarrow> Ok ())"

fun register_all :: "(string \<Rightarrow> string) \<Rightarrow> namespace_def list \<Rightarrow> rule_registry \<Rightarrow> (rule_registry, keyrack_error) result" where
  "register_all nfc [] g = Ok g"
| "register_all nfc (n # ns) g = and_then (register nfc n g) (register_all nfc ns)"

definition from_config :: "(string \<Rightarrow> string) \<Rightarrow> namespace_def list \<Rightarrow> (rule_registry, keyrack_error) result" where
  "from_config nfc config =
     and_then (register_all nfc config (RuleRegistry [])) (\<lambda>g.
     and_then (detect_static_cycles nfc g) (\<lambda>_. Ok g))"

section \<open>Normal patterns\<close>

text \<open>What normalization produces, and that it changes nothing on its own results.\<close>

definition flat_cost :: "flat_map \<Rightarrow> nat" where
  "flat_cost m = sum_list (map (\<lambda>(k, v). length k + 5 + (length v + 5)) m)"

definition flat_fixed :: "(string \<Rightarrow> string) \<Rightarrow> flat_map \<Rightarrow> bool" where
  "flat_fixed nfc m \<longleftrightarrow> bt_sorted m \<and> (\<forall>(k, v) \<in> set m. nfc k = k \<and> nfc v = v)"

definition flat_normal :: "(string \<Rightarrow> string) \<Rightarrow> flat_map \<Rightarrow> bool" where
  "flat_normal nfc m \<longleftrightarrow> flat_fixed nfc m \<and> flat_cost m \<le> MAX_IDENTITY_BYTES"

lemma flat_cost_simps [simp]:
  "flat_cost [] = 0"
  "flat_cost ((k, v) # m) = length k + 5 + (length v + 5) + flat_cost m"
  by (simp_all add: flat_cost_def)

lemma flat_cost_insert:
  "k \<notin> fst ` set m \<Longrightarrow> flat_cost (bt_insert k v m) = length k + 5 + (length v + 5) + flat_cost m"
  by (induction k v m rule: bt_insert.induct) auto

lemma flat_fixed_insert:
  "flat_fixed nfc m \<Longrightarrow> nfc k = k \<Longrightarrow> nfc v = v \<Longrightarrow> flat_fixed nfc (bt_insert k v m)"
  using set_bt_insert_subset [of k v m] by (auto simp: flat_fixed_def)

lemma normalize_flat_loop_sound:
  assumes "nfc_idempotent nfc" and "normalize_flat_loop nfc b m out = Ok n" and "flat_fixed nfc out"
  shows "flat_fixed nfc n \<and> flat_cost n \<le> flat_cost out + b"
  using assms(2,3)
proof (induction m arbitrary: b out)
  case (Cons p m)
  obtain k v where p: "p = (k, v)" by (cases p)
  from Cons.prems(1) obtain c d where fresh: "nfc k \<notin> fst ` set out"
    and b: "b = d + (length (nfc k) + 5 + (length (nfc v) + 5))"
    and rest: "normalize_flat_loop nfc d m (bt_insert (nfc k) (nfc v) out) = Ok n"
    by (auto simp: p bt_contains_key_iff split: if_splits dest!: text_norm_Ok)
  have "flat_fixed nfc (bt_insert (nfc k) (nfc v) out)"
    using assms(1) Cons.prems(2) by (simp add: flat_fixed_insert nfc_idempotent_def)
  from Cons.IH [OF rest this] show ?case
    by (simp add: flat_cost_insert [OF fresh] b)
qed simp

lemma text_norm_fixed:
  "nfc s = s \<Longrightarrow> b \<le> MAX_IDENTITY_BYTES \<Longrightarrow>
     text_norm nfc s b = (if length s + 5 \<le> b then Ok (s, b - (length s + 5)) else Err LimitExceeded)"
  by (auto simp: text_norm_def normalize_text_def Let_def charge_def)

lemma normalize_flat_loop_fixed:
  "flat_fixed nfc m \<Longrightarrow> bt_sorted (out @ m) \<Longrightarrow> b \<le> MAX_IDENTITY_BYTES \<Longrightarrow>
     normalize_flat_loop nfc b m out = (if flat_cost m \<le> b then Ok (out @ m) else Err LimitExceeded)"
proof (induction m arbitrary: b out)
  case (Cons p m)
  obtain k v where p: "p = (k, v)" by (cases p)
  have out: "bt_sorted out" "\<forall>a \<in> fst ` set out. a < k" and rest: "bt_sorted ((out @ [(k, v)]) @ m)"
    using Cons.prems(2) by (auto simp: p bt_sorted_append)
  have fixed: "nfc k = k" "nfc v = v" "flat_fixed nfc m"
    using Cons.prems(1) by (auto simp: p flat_fixed_def)
  have fresh: "\<not> bt_contains_key out k"
    using out by (auto simp: bt_contains_key_iff)
  show ?case
  proof (cases "length k + 5 + (length v + 5) \<le> b")
    case True
    have "b - (length k + 5) - (length v + 5) \<le> MAX_IDENTITY_BYTES" using Cons.prems(3) by simp
    from Cons.IH [OF fixed(3) rest this] True show ?thesis
      using Cons.prems(3) fresh by (auto simp: p text_norm_fixed fixed bt_insert_last [OF out])
  qed (use Cons.prems(3) fresh fixed in \<open>auto simp: p text_norm_fixed\<close>)
qed simp

lemma normalize_pattern_normal:
  assumes "nfc_idempotent nfc" and "normalize_pattern nfc m = Ok n"
  shows "flat_normal nfc n"
  using normalize_flat_loop_sound [OF assms(1), of MAX_IDENTITY_BYTES m "[]" n] assms(2)
  by (simp add: normalize_pattern_def normalize_flat_def flat_normal_def flat_fixed_def)

lemma normalize_pattern_fixed:
  "flat_fixed nfc m \<Longrightarrow> normalize_pattern nfc m =
     (if flat_cost m \<le> MAX_IDENTITY_BYTES then Ok m else Err (InvalidIdentity LimitExceeded))"
  using normalize_flat_loop_fixed [of nfc m "[]" MAX_IDENTITY_BYTES]
  by (auto simp: normalize_pattern_def normalize_flat_def flat_fixed_def)

lemma normalize_pattern_id [simp]: "flat_normal nfc m \<Longrightarrow> normalize_pattern nfc m = Ok m"
  by (simp add: normalize_pattern_fixed flat_normal_def)

lemma normalize_pattern_flat_fixed:
  "flat_fixed nfc m \<Longrightarrow> normalize_pattern nfc m = Ok n \<Longrightarrow> n = m"
  by (simp add: normalize_pattern_fixed split: if_splits)

lemma flat_normal_length: "flat_normal nfc m \<Longrightarrow> length m * 10 \<le> MAX_IDENTITY_BYTES"
proof -
  have "length m * 10 \<le> flat_cost m" by (induction m) auto
  then show "flat_normal nfc m \<Longrightarrow> ?thesis" by (simp add: flat_normal_def)
qed

section \<open>Normal rules\<close>

abbreviation variables :: "flat_map \<Rightarrow> string list" where
  "variables p \<equiv> filter is_var (map snd p)"

definition parent_normal :: "(string \<Rightarrow> string) \<Rightarrow> parent_ref \<Rightarrow> bool" where
  "parent_normal nfc q = (case q of Pattern p \<Rightarrow> flat_normal nfc p | _ \<Rightarrow> True)"

definition rule_normal :: "(string \<Rightarrow> string) \<Rightarrow> routing_rule \<Rightarrow> bool" where
  "rule_normal nfc r \<longleftrightarrow> flat_normal nfc (match_pattern r) \<and> parent_normal nfc (rule_parent r) \<and>
     distinct (variables (match_pattern r)) \<and> [CHR ''$''] \<notin> set (variables (match_pattern r))"

lemma is_var_length_1: "is_var v \<Longrightarrow> length v = Suc 0 \<longleftrightarrow> v = [CHR ''$'']"
  by (cases v) (auto simp: is_var_def)

lemma variables_ok_iff:
  "list_all is_var vs \<Longrightarrow> variables_ok seen vs = Ok u \<longleftrightarrow>
     distinct vs \<and> set vs \<inter> set seen = {} \<and> [CHR ''$''] \<notin> set vs"
  by (induction seen vs rule: variables_ok.induct) (auto simp: is_var_length_1 split: if_splits)

lemma variables_ok_pattern:
  "variables_ok [] (variables p) = Ok u \<longleftrightarrow> distinct (variables p) \<and> [CHR ''$''] \<notin> set (variables p)"
  using variables_ok_iff [of "variables p" "[]" u] by (auto simp: list_all_iff)

lemma normalized_rule_Ok:
  assumes "normalized_rule nfc r = Ok s"
  shows "normalize_pattern nfc (match_pattern r) = Ok (match_pattern s)"
    and "distinct (variables (match_pattern s))"
    and "[CHR ''$''] \<notin> set (variables (match_pattern s))"
    and "rule_priority s = rule_priority r"
    and "case rule_parent r of
           Pattern p \<Rightarrow> (\<exists>q. normalize_pattern nfc p = Ok q \<and> rule_parent s = Pattern q)
         | _ \<Rightarrow> rule_parent s = rule_parent r"
proof -
  obtain p where p: "normalize_pattern nfc (match_pattern r) = Ok p"
    using assms by (cases "normalize_pattern nfc (match_pattern r)") (simp_all add: normalized_rule_def)
  obtain u where u: "variables_ok [] (variables p) = Ok u"
    using assms by (cases "variables_ok [] (variables p)") (simp_all add: normalized_rule_def p)
  have s: "match_pattern s = p \<and> rule_priority s = rule_priority r \<and> (case rule_parent r of
           Pattern p \<Rightarrow> (\<exists>q. normalize_pattern nfc p = Ok q \<and> rule_parent s = Pattern q)
         | _ \<Rightarrow> rule_parent s = rule_parent r)"
    using assms by (auto simp: normalized_rule_def p u split: parent_ref.splits)
  note v = u [unfolded variables_ok_pattern]
  show "normalize_pattern nfc (match_pattern r) = Ok (match_pattern s)" using s p by simp
  show "distinct (variables (match_pattern s))" using s v by simp
  show "[CHR ''$''] \<notin> set (variables (match_pattern s))" using s v by simp
  show "rule_priority s = rule_priority r" using s by simp
  show "case rule_parent r of
           Pattern p \<Rightarrow> (\<exists>q. normalize_pattern nfc p = Ok q \<and> rule_parent s = Pattern q)
         | _ \<Rightarrow> rule_parent s = rule_parent r" using s by simp
qed

lemma normalized_rule_normal:
  assumes "nfc_idempotent nfc" and "normalized_rule nfc r = Ok s"
  shows "rule_normal nfc s"
proof -
  have "parent_normal nfc (rule_parent s)"
    using normalized_rule_Ok(5) [OF assms(2)] normalize_pattern_normal [OF assms(1)]
    by (cases "rule_parent r") (auto simp: parent_normal_def)
  then show ?thesis
    using normalized_rule_Ok(1-3) [OF assms(2)] normalize_pattern_normal [OF assms(1)]
    unfolding rule_normal_def by blast
qed

lemma normalized_rule_id [simp]:
  assumes "rule_normal nfc r"
  shows "normalized_rule nfc r = Ok r"
proof -
  have "variables_ok [] (variables (match_pattern r)) = Ok ()"
    using assms variables_ok_pattern by (simp add: rule_normal_def)
  with assms show ?thesis
    by (cases "rule_parent r") (simp_all add: normalized_rule_def rule_normal_def parent_normal_def)
qed

section \<open>Matching\<close>

lemma matches_normalized_iff:
  "bt_sorted (match_pattern r) \<Longrightarrow> matches_normalized r attrs \<longleftrightarrow>
     (\<forall>k v. map_of (match_pattern r) k = Some v \<longrightarrow>
        (\<exists>w. map_of attrs k = Some w \<and> (is_var v \<or> v = w)))"
  by (force simp: matches_normalized_def entry_matches_def list_all_iff bt_sorted_distinct
      map_of_eq_Some_iff split: option.splits)

lemma rule_matches_normal:
  "rule_normal nfc r \<Longrightarrow> rule_matches nfc r attrs \<longleftrightarrow>
     (\<exists>a. normalize_pattern nfc attrs = Ok a \<and> matches_normalized r a)"
  by (cases "normalize_pattern nfc attrs") (simp_all add: rule_matches_def)

definition all_rules :: "rule_registry \<Rightarrow> (routing_rule \<times> namespace_def) list" where
  "all_rules g = concat (map (\<lambda>n. map (\<lambda>r. (r, n)) (routing_rules n)) (namespaces g))"

text \<open>
  What the scan has found after a prefix of the rules: nothing when none matched, otherwise the
  first of the matching rules whose rank is maximal.
\<close>

definition first_best ::
  "(routing_rule \<Rightarrow> bool) \<Rightarrow> (routing_rule \<times> namespace_def) list \<Rightarrow> routing_rule \<times> namespace_def \<Rightarrow> bool" where
  "first_best P xs x \<longleftrightarrow> P (fst x) \<and> (\<exists>pre post. xs = pre @ x # post \<and>
     (\<forall>y \<in> set pre. P (fst y) \<longrightarrow> rule_rank (fst y) < rule_rank (fst x)) \<and>
     (\<forall>y \<in> set post. P (fst y) \<longrightarrow> rule_rank (fst y) \<le> rule_rank (fst x)))"

definition scanned ::
  "(routing_rule \<Rightarrow> bool) \<Rightarrow> (routing_rule \<times> namespace_def) list \<Rightarrow>
     (rank \<times> routing_rule \<times> namespace_def) option \<Rightarrow> bool" where
  "scanned P xs best = (case best of
       None \<Rightarrow> \<forall>y \<in> set xs. \<not> P (fst y)
     | Some (k, x) \<Rightarrow> k = rule_rank (fst x) \<and> first_best P xs x)"

lemma first_best_snoc:
  assumes "first_best P xs x" and "P (fst y) \<Longrightarrow> rule_rank (fst y) \<le> rule_rank (fst x)"
  shows "first_best P (xs @ [y]) x"
proof -
  from assms(1) obtain pre post where x: "xs = pre @ x # post" "P (fst x)"
    and "\<forall>y \<in> set pre. P (fst y) \<longrightarrow> rule_rank (fst y) < rule_rank (fst x)"
    and "\<forall>y \<in> set post. P (fst y) \<longrightarrow> rule_rank (fst y) \<le> rule_rank (fst x)"
    unfolding first_best_def by blast
  then show ?thesis
    using assms(2) unfolding first_best_def
    by (intro conjI x(2) exI [of _ pre] exI [of _ "post @ [y]"]) simp_all
qed

lemma first_best_le: "first_best P xs x \<Longrightarrow> y \<in> set xs \<Longrightarrow> P (fst y) \<Longrightarrow> rule_rank (fst y) \<le> rule_rank (fst x)"
  unfolding first_best_def by (metis Un_iff less_imp_le order_refl set_ConsD set_append)

lemma first_best_last:
  assumes "P (fst y)" and "\<And>x. x \<in> set xs \<Longrightarrow> P (fst x) \<Longrightarrow> rule_rank (fst x) < rule_rank (fst y)"
  shows "first_best P (xs @ [y]) y"
  using assms unfolding first_best_def by (intro conjI exI [of _ xs] exI [of _ "[]"]) auto

lemma scanned_step:
  assumes "scanned P xs best"
  shows "scanned P (xs @ [(r, n)])
     (if P r \<and> better best (rule_rank r) then Some (rule_rank r, r, n) else best)"
proof (cases best)
  case None
  then show ?thesis
    using assms first_best_last [of P "(r, n)" xs] by (auto simp: scanned_def better_def)
next
  case (Some b)
  then obtain k x where b: "best = Some (k, x)" by (cases b) auto
  then have k: "k = rule_rank (fst x)" and x: "first_best P xs x"
    using assms by (simp_all add: scanned_def)
  show ?thesis
  proof (cases "P r \<and> k < rule_rank r")
    case True
    then have "first_best P (xs @ [(r, n)]) (r, n)"
      using first_best_le [OF x] k by (intro first_best_last) (auto intro: le_less_trans)
    with True show ?thesis by (simp add: scanned_def better_def b)
  next
    case False
    then have "first_best P (xs @ [(r, n)]) x"
      using k by (intro first_best_snoc [OF x]) auto
    with False k show ?thesis by (auto simp: scanned_def better_def b)
  qed
qed

lemma scan_rules_scanned:
  "scanned (\<lambda>r. rule_matches nfc r attrs) xs best \<Longrightarrow>
     scanned (\<lambda>r. rule_matches nfc r attrs) (xs @ map (\<lambda>r. (r, n)) rs) (scan_rules nfc attrs n rs best)"
proof (induction rs arbitrary: xs best)
  case (Cons r rs)
  from Cons.IH [OF scanned_step [OF Cons.prems, of r n]] show ?case by simp
qed simp

lemma scan_namespaces_scanned:
  "scanned (\<lambda>r. rule_matches nfc r attrs) xs best \<Longrightarrow>
     scanned (\<lambda>r. rule_matches nfc r attrs)
       (xs @ concat (map (\<lambda>n. map (\<lambda>r. (r, n)) (routing_rules n)) ns)) (scan_namespaces nfc attrs ns best)"
proof (induction ns arbitrary: xs best)
  case (Cons n ns)
  from Cons.IH [OF scan_rules_scanned [OF Cons.prems, of n "routing_rules n"]] show ?case by simp
qed simp

lemma scan_all_scanned:
  "scanned (\<lambda>r. rule_matches nfc r attrs) (all_rules g) (scan_namespaces nfc attrs (namespaces g) None)"
  using scan_namespaces_scanned [of nfc attrs "[]" None "namespaces g"]
  by (simp add: scanned_def all_rules_def)

lemma first_best_unique:
  assumes "first_best P xs x" and "first_best P xs y"
  shows "x = y"
proof -
  from assms(1) obtain p q where x: "xs = p @ x # q" "P (fst x)"
      "\<forall>z \<in> set p. P (fst z) \<longrightarrow> rule_rank (fst z) < rule_rank (fst x)"
    unfolding first_best_def by auto
  from assms(2) obtain s t where y: "xs = s @ y # t" "P (fst y)"
      "\<forall>z \<in> set s. P (fst z) \<longrightarrow> rule_rank (fst z) < rule_rank (fst y)"
    unfolding first_best_def by auto
  have "x \<in> set xs" using x(1) by simp
  moreover have "y \<in> set xs" using y(1) by simp
  ultimately have "rule_rank (fst x) = rule_rank (fst y)"
    using first_best_le [OF assms(1)] first_best_le [OF assms(2)] x(2) y(2) by (meson order_antisym)
  then have fresh: "y \<notin> set p" "x \<notin> set s" using x(2,3) y(2,3) by auto
  have "p @ x # q = s @ y # t" using x(1) y(1) by simp
  then obtain us where "p = s @ us \<and> us @ x # q = y # t \<or> p @ us = s \<and> x # q = us @ y # t"
    unfolding append_eq_append_conv2 by blast
  with fresh show ?thesis by (cases us) auto
qed

section \<open>Bindings and interpolation\<close>

lemma map_of_bt_collect:
  assumes "distinct (map fst ps)"
  shows "map_of (bt_collect ps) = map_of ps"
proof -
  have "map_of (fold (\<lambda>(k, v) m. bt_insert k v m) ps m) = map_of m ++ map_of (rev ps)" for m
    by (induction ps arbitrary: m) (auto simp: map_add_def fun_eq_iff split: option.splits)
  from this [of "[]"] show ?thesis
    using assms map_of_inject_set [of "rev ps" ps] by (simp add: bt_collect_def rev_map [symmetric])
qed

lemma map_fst_captured_pairs:
  "map fst (map (\<lambda>(k, v). (v, the (map_of attrs k))) (filter (\<lambda>(k, v). is_var v) p)) = variables p"
  by (induction p) auto

lemma map_of_captured:
  assumes "bt_sorted (match_pattern r)" and "distinct (variables (match_pattern r))"
  shows "map_of (captured r attrs) x = Some w \<longleftrightarrow>
     (\<exists>k. map_of (match_pattern r) k = Some x \<and> is_var x \<and> w = the (map_of attrs k))"
proof -
  let ?ps = "map (\<lambda>(k, v). (v, the (map_of attrs k))) (filter (\<lambda>(k, v). is_var v) (match_pattern r))"
  have d: "distinct (map fst ?ps)" unfolding map_fst_captured_pairs by (rule assms(2))
  have "map_of (captured r attrs) x = Some w \<longleftrightarrow> (x, w) \<in> set ?ps"
    unfolding captured_def map_of_bt_collect [OF d] map_of_eq_Some_iff [OF d] ..
  also have "\<dots> \<longleftrightarrow> (\<exists>k. (k, x) \<in> set (match_pattern r) \<and> is_var x \<and> w = the (map_of attrs k))"
    by auto
  finally show ?thesis
    by (simp add: map_of_eq_Some_iff bt_sorted_distinct assms(1))
qed

lemma extract_bindings_normal:
  "rule_normal nfc r \<Longrightarrow> flat_normal nfc attrs \<Longrightarrow> matches_normalized r attrs \<Longrightarrow>
     extract_bindings nfc r attrs = captured r attrs"
  by (simp add: extract_bindings_def)

lemma flat_fixed_map_of:
  "flat_fixed nfc m \<longleftrightarrow> bt_sorted m \<and> (\<forall>k v. map_of m k = Some v \<longrightarrow> nfc k = k \<and> nfc v = v)"
  by (auto simp: flat_fixed_def bt_sorted_distinct map_of_eq_Some_iff)

lemma rule_normalD:
  assumes "rule_normal nfc r"
  shows "flat_fixed nfc (match_pattern r)" and "bt_sorted (match_pattern r)"
    and "distinct (variables (match_pattern r))"
  using assms by (auto simp: rule_normal_def flat_normal_def flat_fixed_def)

lemma captured_fixed:
  assumes r: "rule_normal nfc r" and a: "flat_fixed nfc attrs" and "matches_normalized r attrs"
  shows "flat_fixed nfc (captured r attrs)"
  unfolding flat_fixed_map_of
proof (intro conjI allI impI)
  show "bt_sorted (captured r attrs)" by (simp add: captured_def)
  fix x w assume "map_of (captured r attrs) x = Some w"
  then obtain k where k: "map_of (match_pattern r) k = Some x" and w: "w = the (map_of attrs k)"
    using map_of_captured rule_normalD(2,3) [OF r] by blast
  from k show "nfc x = x"
    using rule_normalD(1) [OF r] by (auto simp: flat_fixed_map_of)
  from k assms(3) obtain u where "map_of attrs k = Some u"
    using rule_normalD(2) [OF r] by (auto simp: matches_normalized_iff)
  with a w show "nfc w = w" by (auto simp: flat_fixed_map_of)
qed

lemma interpolate_eq:
  "interpolate bindings p =
     (if \<forall>(k, v) \<in> set p. is_var v \<longrightarrow> map_of bindings v \<noteq> None
      then Some (map (\<lambda>(k, v). (k, if is_var v then the (map_of bindings v) else v)) p) else None)"
  by (induction p) (auto split: option.splits if_splits)

lemma map_of_map_snd: "map_of (map (\<lambda>(k, v). (k, f v)) p) k = map_option f (map_of p k)"
  by (induction p) auto

lemma map_fst_map_snd: "map fst (map (\<lambda>(k, v). (k, f v)) p) = map fst p"
  by (induction p) auto

lemma resolve_parent_captured:
  assumes r: "rule_normal nfc r" and "flat_normal nfc attrs" and "matches_normalized r attrs"
    and q: "rule_parent r = Pattern q"
  shows "resolve_parent nfc r (extract_bindings nfc r attrs) =
     (if flat_cost (captured r attrs) \<le> MAX_IDENTITY_BYTES \<and>
         set (variables q) \<subseteq> set (variables (match_pattern r))
      then Some (map (\<lambda>(k, v). (k, if is_var v then the (map_of (captured r attrs) v) else v)) q)
      else None)"
proof -
  let ?f = "\<lambda>v. if is_var v then the (map_of (captured r attrs) v) else v"
  have fixed: "flat_fixed nfc (captured r attrs)"
    using assms by (intro captured_fixed) (simp_all add: flat_normal_def)
  have sorted: "bt_sorted q"
    using r q by (simp add: rule_normal_def parent_normal_def flat_normal_def flat_fixed_def)
  have bound: "map_of (captured r attrs) v \<noteq> None \<longleftrightarrow> v \<in> set (variables (match_pattern r))" if "is_var v" for v
  proof -
    have "map_of (captured r attrs) v \<noteq> None \<longleftrightarrow> (\<exists>k. map_of (match_pattern r) k = Some v)"
      using that map_of_captured [OF rule_normalD(2,3) [OF r]] by auto
    also have "\<dots> \<longleftrightarrow> v \<in> snd ` set (match_pattern r)"
      using map_of_eq_Some_iff [OF bt_sorted_distinct [OF rule_normalD(2) [OF r]]] by force
    finally show ?thesis using that by simp
  qed
  have "bt_collect (map (\<lambda>(k, v). (k, ?f v)) q) = map (\<lambda>(k, v). (k, ?f v)) q"
    using sorted by (intro bt_collect_sorted) (simp only: bt_sorted_def map_fst_map_snd)
  moreover have "(\<forall>(k, v) \<in> set q. is_var v \<longrightarrow> map_of (captured r attrs) v \<noteq> None) \<longleftrightarrow>
      set (variables q) \<subseteq> set (variables (match_pattern r))"
    using bound by (force simp del: not_None_eq)
  ultimately have "map_option bt_collect (interpolate (captured r attrs) q) =
      (if set (variables q) \<subseteq> set (variables (match_pattern r)) then Some (map (\<lambda>(k, v). (k, ?f v)) q) else None)"
    unfolding interpolate_eq by simp
  then show ?thesis
    using assms by (simp add: resolve_parent_def extract_bindings_normal normalize_pattern_fixed [OF fixed])
qed

section \<open>The registry invariant\<close>

definition namespace_wf :: "(string \<Rightarrow> string) \<Rightarrow> namespace_def \<Rightarrow> bool" where
  "namespace_wf nfc n \<longleftrightarrow> ns_name n \<noteq> [] \<and> nfc (ns_name n) = ns_name n \<and>
     1 \<le> ns_max_depth n \<and> ns_max_depth n \<le> 256 \<and>
     (\<forall>a. attachment n = Some a \<longrightarrow> flat_normal nfc a) \<and>
     (\<forall>r \<in> set (routing_rules n). rule_normal nfc r) \<and>
     distinct (map match_pattern (routing_rules n))"

definition registry_wf :: "(string \<Rightarrow> string) \<Rightarrow> rule_registry \<Rightarrow> bool" where
  "registry_wf nfc g \<longleftrightarrow> (\<forall>n \<in> set (namespaces g). namespace_wf nfc n) \<and> distinct (map ns_name (namespaces g))"

lemma seen_patterns_iff:
  "\<not> seen_patterns seen rs \<longleftrightarrow>
     distinct (map match_pattern rs) \<and> set (map match_pattern rs) \<inter> set seen = {}"
  by (induction seen rs rule: seen_patterns.induct) auto

lemma try_map_all:
  "try_map f xs = Ok ys \<Longrightarrow> (\<And>x y. f x = Ok y \<Longrightarrow> Q y) \<Longrightarrow> \<forall>y \<in> set ys. Q y"
  by (induction xs arbitrary: ys) auto

lemma register_wf:
  assumes nfc: "nfc_idempotent nfc" and g: "registry_wf nfc g" and "register nfc n g = Ok h"
  shows "registry_wf nfc h"
proof -
  let ?name = "normalize_text nfc (ns_name n)"
  have guards: "?name \<noteq> []" "\<forall>m \<in> set (namespaces g). ns_name m \<noteq> ?name"
      "1 \<le> ns_max_depth n" "ns_max_depth n \<le> 256"
    using assms(3) by (auto simp: register_def Let_def list_ex_iff split: if_splits)
  obtain a rules where a: "(case attachment n of None \<Rightarrow> Ok None
        | Some a \<Rightarrow> and_then (normalize_pattern nfc a) (\<lambda>b. Ok (Some b))) = Ok a"
    and rules: "try_map (normalized_rule nfc) (routing_rules n) = Ok rules" "\<not> seen_patterns [] rules"
    and h: "h = RuleRegistry (namespaces g @ [n\<lparr>ns_name := ?name, attachment := a, routing_rules := rules\<rparr>])"
    using assms(3) by (auto simp: register_def Let_def split: if_splits)
  have "\<forall>b. a = Some b \<longrightarrow> flat_normal nfc b"
    using a normalize_pattern_normal [OF nfc] by (auto split: option.splits)
  moreover have "\<forall>r \<in> set rules. rule_normal nfc r"
    using rules(1) normalized_rule_normal [OF nfc] by (rule try_map_all)
  moreover have "distinct (map match_pattern rules)"
    using rules(2) by (simp add: seen_patterns_iff)
  ultimately have "namespace_wf nfc (n\<lparr>ns_name := ?name, attachment := a, routing_rules := rules\<rparr>)"
    using guards nfc by (simp add: namespace_wf_def normalize_text_def nfc_idempotent_def)
  with g guards(2) show ?thesis by (auto simp: registry_wf_def h)
qed

lemma register_all_wf:
  "nfc_idempotent nfc \<Longrightarrow> registry_wf nfc g \<Longrightarrow> register_all nfc ns g = Ok h \<Longrightarrow> registry_wf nfc h"
  by (induction ns arbitrary: g) (auto dest: register_wf)

lemma all_rules_normal: "registry_wf nfc g \<Longrightarrow> (r, n) \<in> set (all_rules g) \<Longrightarrow> rule_normal nfc r"
  by (auto simp: all_rules_def registry_wf_def namespace_wf_def)

lemma match_rule_Some:
  assumes "match_rule nfc g attrs = Some m"
  shows "first_best (\<lambda>r. rule_matches nfc r attrs) (all_rules g) (rm_rule m, rm_namespace m)"
    and "rm_bindings m = extract_bindings nfc (rm_rule m) attrs"
  using assms scan_all_scanned [of nfc attrs g] by (auto simp: match_rule_def scanned_def)

lemma match_rule_None:
  "match_rule nfc g attrs = None \<longleftrightarrow> (\<forall>(r, n) \<in> set (all_rules g). \<not> rule_matches nfc r attrs)"
  using scan_all_scanned [of nfc attrs g]
  by (cases "scan_namespaces nfc attrs (namespaces g) None")
     (force simp: match_rule_def scanned_def first_best_def)+

lemma match_rule_member:
  assumes "match_rule nfc g attrs = Some m"
  shows "(rm_rule m, rm_namespace m) \<in> set (all_rules g)" and "rule_matches nfc (rm_rule m) attrs"
  using match_rule_Some(1) [OF assms] by (auto simp: first_best_def)

section \<open>A sample configuration\<close>

definition sample_root :: routing_rule where
  "sample_root = \<lparr>match_pattern = [(''type'', ''root'')], rule_parent = Root, rule_priority = 0, rule_key_spec = None\<rparr>"

definition sample_tenant :: routing_rule where
  "sample_tenant = \<lparr>match_pattern = [(''tenant'', ''$T'')], rule_parent = Pattern [(''of'', ''$T''), (''type'', ''root'')],
     rule_priority = 0, rule_key_spec = None\<rparr>"

definition sample_namespace :: namespace_def where
  "sample_namespace = \<lparr>ns_name = ''n'', attachment = None, routing_rules = [sample_root, sample_tenant], ns_max_depth = 16\<rparr>"

definition sample_registry :: rule_registry where
  "sample_registry = RuleRegistry [sample_namespace]"

lemmas sample_defs = sample_root_def sample_tenant_def sample_namespace_def sample_registry_def

lemma nfc_idempotent_id: "nfc_idempotent (\<lambda>s. s)"
  by (simp add: nfc_idempotent_def)

lemma sample_rules_normal: "rule_normal (\<lambda>s. s) sample_root" "rule_normal (\<lambda>s. s) sample_tenant"
  by (simp_all add: sample_defs rule_normal_def parent_normal_def flat_normal_def flat_fixed_def
      MAX_IDENTITY_BYTES_def is_var_def less_char_def)

lemma sample_registry_wf: "registry_wf (\<lambda>s. s) sample_registry"
  using sample_rules_normal
  by (simp add: registry_wf_def namespace_wf_def sample_namespace_def sample_registry_def)
     (simp add: sample_defs)

lemma sample_attrs_normal: "flat_normal (\<lambda>s. s) [(''tenant'', ''acme'')]"
  by (simp add: flat_normal_def flat_fixed_def MAX_IDENTITY_BYTES_def)

lemma sample_tenant_matches: "matches_normalized sample_tenant [(''tenant'', ''acme'')]"
  by (simp add: matches_normalized_def entry_matches_def sample_tenant_def is_var_def)

section \<open>Properties\<close>

text \<open>
  Every registered configuration is in normal form. Registering a namespace keeps the registry
  well formed: non-empty normalized distinct names, a depth limit between 1 and 256, normalized
  attachments, and rules with normalized patterns, distinct non-empty variables and no two equal
  patterns in a namespace. So does loading a whole configuration.
\<close>

theorem registry_stays_normal:
  assumes "nfc_idempotent nfc" and "registry_wf nfc g"
  shows "(\<forall>n h. register nfc n g = Ok h \<longrightarrow> registry_wf nfc h \<and> (\<exists>m. namespaces h = namespaces g @ [m])) \<and>
         (\<forall>config h. from_config nfc config = Ok h \<longrightarrow> registry_wf nfc h)"
proof (intro conjI allI impI)
  fix n h assume h: "register nfc n g = Ok h"
  then show "registry_wf nfc h" by (rule register_wf [OF assms])
  from h show "\<exists>m. namespaces h = namespaces g @ [m]"
    by (auto simp: register_def Let_def split: if_splits)
next
  fix config h assume "from_config nfc config = Ok h"
  moreover have "registry_wf nfc (RuleRegistry [])" by (simp add: registry_wf_def)
  ultimately show "registry_wf nfc h"
    using register_all_wf [OF assms(1)] by (auto simp: from_config_def)
qed

theorem registry_stays_normal_witness:
  "registry_wf (\<lambda>s. s) (RuleRegistry [sample_namespace\<lparr>ns_name := ''m''\<rparr>]) \<and>
   register (\<lambda>s. s) (sample_namespace\<lparr>ns_name := ''m''\<rparr>) (RuleRegistry []) =
     Ok (RuleRegistry [sample_namespace\<lparr>ns_name := ''m''\<rparr>])"
proof -
  have ok: "register (\<lambda>s. s) (sample_namespace\<lparr>ns_name := ''m''\<rparr>) (RuleRegistry []) =
     Ok (RuleRegistry [sample_namespace\<lparr>ns_name := ''m''\<rparr>])"
    using sample_rules_normal
    by (simp add: register_def sample_namespace_def normalize_text_def)
       (simp add: sample_defs)
  have "registry_wf (\<lambda>s. s) (RuleRegistry [])" by (simp add: registry_wf_def)
  from registry_stays_normal [OF nfc_idempotent_id this] ok show ?thesis by blast
qed

text \<open>
  C11: rule selection is the documented ranking. Nothing is selected exactly when no rule of any
  namespace matches; otherwise the selected rule is, in configuration order, the first of the
  matching rules with the highest rank: concrete entries, then variables, then priority.
\<close>

theorem match_rule_selects_first_best:
  "(match_rule nfc g attrs = None \<longleftrightarrow> (\<forall>(r, n) \<in> set (all_rules g). \<not> rule_matches nfc r attrs)) \<and>
   (\<forall>r n. first_best (\<lambda>r. rule_matches nfc r attrs) (all_rules g) (r, n) \<longleftrightarrow>
      match_rule nfc g attrs =
        Some \<lparr>rm_rule = r, rm_namespace = n, rm_bindings = extract_bindings nfc r attrs\<rparr>)"
proof (intro conjI allI)
  show "match_rule nfc g attrs = None \<longleftrightarrow> (\<forall>(r, n) \<in> set (all_rules g). \<not> rule_matches nfc r attrs)"
    by (rule match_rule_None)
next
  fix r n
  let ?m = "\<lparr>rm_rule = r, rm_namespace = n, rm_bindings = extract_bindings nfc r attrs\<rparr>"
  show "first_best (\<lambda>r. rule_matches nfc r attrs) (all_rules g) (r, n) \<longleftrightarrow> match_rule nfc g attrs = Some ?m"
  proof
    assume best: "first_best (\<lambda>r. rule_matches nfc r attrs) (all_rules g) (r, n)"
    then have "match_rule nfc g attrs \<noteq> None"
      unfolding match_rule_None first_best_def by fastforce
    then obtain m where m: "match_rule nfc g attrs = Some m" by auto
    then have "rm_rule m = r" and "rm_namespace m = n"
      using first_best_unique [OF match_rule_Some(1) best] by auto
    with m match_rule_Some(2) [OF m] show "match_rule nfc g attrs = Some ?m" by simp
  next
    assume "match_rule nfc g attrs = Some ?m"
    from match_rule_Some(1) [OF this]
    show "first_best (\<lambda>r. rule_matches nfc r attrs) (all_rules g) (r, n)" by simp
  qed
qed

theorem match_rule_selects_first_best_witness:
  "match_rule (\<lambda>s. s) sample_registry [(''tenant'', ''acme'')] =
     Some \<lparr>rm_rule = sample_tenant, rm_namespace = sample_namespace,
       rm_bindings = extract_bindings (\<lambda>s. s) sample_tenant [(''tenant'', ''acme'')]\<rparr>"
proof -
  have "\<not> rule_matches (\<lambda>s. s) sample_root [(''tenant'', ''acme'')]"
    using sample_rules_normal sample_attrs_normal
    by (simp add: rule_matches_def) (simp add: matches_normalized_def entry_matches_def sample_root_def)
  then have "first_best (\<lambda>r. rule_matches (\<lambda>s. s) r [(''tenant'', ''acme'')]) (all_rules sample_registry)
      (sample_tenant, sample_namespace)"
    using sample_rules_normal sample_attrs_normal sample_tenant_matches unfolding first_best_def
    by (intro conjI exI [of _ "[(sample_root, sample_namespace)]"] exI [of _ "[]"])
       (simp_all add: rule_matches_def all_rules_def sample_registry_def, simp add: sample_namespace_def)
  then show ?thesis using match_rule_selects_first_best by blast
qed

text \<open>
  C12: the parent of a matching key is its parent pattern with every variable replaced by the
  attribute it captured, and it exists exactly when every variable of the parent pattern is bound
  by the match pattern (and the captured bindings fit the identity budget). A missing variable is
  never passed on as a literal.
\<close>

theorem resolve_parent_substitutes:
  assumes "rule_normal nfc r" and "flat_normal nfc attrs" and "matches_normalized r attrs"
    and "rule_parent r = Pattern q" and "flat_cost (captured r attrs) \<le> MAX_IDENTITY_BYTES"
  shows "(resolve_parent nfc r (extract_bindings nfc r attrs) = None \<longleftrightarrow>
            (\<exists>v \<in> set (variables q). v \<notin> set (variables (match_pattern r)))) \<and>
         (\<forall>p. resolve_parent nfc r (extract_bindings nfc r attrs) = Some p \<longrightarrow>
            map fst p = map fst q \<and>
            (\<forall>k v. map_of q k = Some v \<longrightarrow> \<not> is_var v \<longrightarrow> map_of p k = Some v) \<and>
            (\<forall>k v. map_of q k = Some v \<longrightarrow> is_var v \<longrightarrow>
               (\<exists>j w. map_of (match_pattern r) j = Some v \<and> map_of attrs j = Some w \<and> map_of p k = Some w)))"
proof -
  let ?f = "\<lambda>v. if is_var v then the (map_of (captured r attrs) v) else v"
  note eq = resolve_parent_captured [OF assms(1-4)]
  note sorted = rule_normalD(2,3) [OF assms(1)]
  have bound: "\<exists>j w. map_of (match_pattern r) j = Some v \<and> map_of attrs j = Some w \<and> ?f v = w"
    if v: "v \<in> set (variables (match_pattern r))" for v
  proof -
    obtain j where j: "map_of (match_pattern r) j = Some v" "is_var v"
      using v by (auto simp: map_of_eq_Some_iff [OF bt_sorted_distinct [OF sorted(1)]])
    then obtain w where w: "map_of attrs j = Some w"
      using assms(3) by (auto simp: matches_normalized_iff [OF sorted(1)])
    then have "map_of (captured r attrs) v = Some w"
      using j map_of_captured [OF sorted] by auto
    with j w show ?thesis by auto
  qed
  have var: "v \<in> set (variables q)" if "map_of q k = Some v" "is_var v" for k v
    using that by (force dest: map_of_SomeD)
  have Some: "map fst p = map fst q \<and> map_of p k = map_option ?f (map_of q k) \<and>
      set (variables q) \<subseteq> set (variables (match_pattern r))"
    if "resolve_parent nfc r (extract_bindings nfc r attrs) = Some p" for p k
    using that eq by (auto simp: map_fst_map_snd map_of_map_snd split: if_splits simp del: map_map)
  show ?thesis
  proof (intro conjI allI impI)
    show "resolve_parent nfc r (extract_bindings nfc r attrs) = None \<longleftrightarrow>
        (\<exists>v \<in> set (variables q). v \<notin> set (variables (match_pattern r)))"
      unfolding eq subset_eq using assms(5) by (simp del: set_filter)
  next
    fix p assume p: "resolve_parent nfc r (extract_bindings nfc r attrs) = Some p"
    show "map fst p = map fst q" using Some [OF p] by blast
    fix k v assume k: "map_of q k = Some v"
    show "map_of p k = Some v" if "\<not> is_var v" using Some [OF p, of k] k that by simp
    assume v: "is_var v"
    have "v \<in> set (variables (match_pattern r))" using Some [OF p] var [OF k v] by blast
    from bound [OF this] Some [OF p, of k] k
    show "\<exists>j w. map_of (match_pattern r) j = Some v \<and> map_of attrs j = Some w \<and> map_of p k = Some w"
      by auto
  qed
qed

theorem resolve_parent_substitutes_witness:
  "resolve_parent (\<lambda>s. s) sample_tenant (extract_bindings (\<lambda>s. s) sample_tenant [(''tenant'', ''acme'')]) =
     Some [(''of'', ''acme''), (''type'', ''root'')] \<and>
   map_of [(''of'', ''acme''), (''type'', ''root'')] ''of'' = Some ''acme''"
proof -
  let ?a = "[(''tenant'', ''acme'')]"
  have q: "rule_parent sample_tenant = Pattern [(''of'', ''$T''), (''type'', ''root'')]"
    and m: "match_pattern sample_tenant = [(''tenant'', ''$T'')]" by (simp_all add: sample_tenant_def)
  have c: "captured sample_tenant ?a = [(''$T'', ''acme'')]"
    by (simp add: captured_def m is_var_def bt_collect_def)
  have "flat_cost (captured sample_tenant ?a) \<le> MAX_IDENTITY_BYTES"
    by (simp add: c MAX_IDENTITY_BYTES_def)
  note facts = resolve_parent_substitutes [OF sample_rules_normal(2) sample_attrs_normal sample_tenant_matches q this]
  from facts obtain p where p: "resolve_parent (\<lambda>s. s) sample_tenant (extract_bindings (\<lambda>s. s) sample_tenant ?a) = Some p"
    by (cases "resolve_parent (\<lambda>s. s) sample_tenant (extract_bindings (\<lambda>s. s) sample_tenant ?a)")
       (auto simp: m is_var_def)
  with facts have keys: "map fst p = [''of'', ''type'']" and pof: "map_of p ''of'' = Some ''acme''"
      and ptype: "map_of p ''type'' = Some ''root''"
    by (auto simp: m is_var_def split: if_splits)
  from keys obtain x y where "p = [(''of'', x), (''type'', y)]"
    by (auto simp: map_eq_Cons_conv)
  with pof ptype p show ?thesis by simp
qed

end
