(* ===== verification/Resolver.thy ===== *)
theory Resolver
  imports Rules
begin

text \<open>
  The dry resolver (\<open>resolver.rs\<close>): from an attribute set to the chain of identifiers up to its
  root key, with the depth guard and the cycle check. The loop is a terminating recursion; its
  specification is the relation \<open>walk\<close>, the path the rules define without any guard.
\<close>

record resolver_config =
  cfg_max_depth :: u32
  cfg_version :: canonicalization_version

definition default_resolver_config :: resolver_config where
  "default_resolver_config = \<lparr>cfg_max_depth = DEFAULT_MAX_DEPTH, cfg_version = V2\<rparr>"

text \<open>The libraries the resolver calls: Unicode normalization and BLAKE3.\<close>

record identity_env =
  env_nfc :: "string \<Rightarrow> string"
  env_hash :: "byte list \<Rightarrow> 32 bytes"

definition lid_from_flat_attrs ::
  "identity_env \<Rightarrow> flat_map \<Rightarrow> canonicalization_version \<Rightarrow> (lid, keyrack_error) result" where
  "lid_from_flat_attrs env attrs version =
     and_then (map_err InvalidIdentity
       (canonicalize (env_nfc env) version (bt_collect (map (\<lambda>(k, v). (k, AString v)) attrs)))) (\<lambda>form.
     Ok (derive (env_hash env) version form))"

text \<open>One turn of the loop after the identifier is recorded: \<open>Ok None\<close> leaves it at a root.\<close>

definition next_attrs :: "identity_env \<Rightarrow> rule_registry \<Rightarrow> flat_map \<Rightarrow> (flat_map option, keyrack_error) result" where
  "next_attrs env g attrs =
     and_then (ok_or (Other ''no rule matches attributes: '') (match_rule (env_nfc env) g attrs)) (\<lambda>m.
       if is_root (rm_rule m) then Ok None
       else if is_attachment_boundary (rm_rule m)
       then and_then (ok_or (Other (''namespace '' @ [CHR 0x27] @ ns_name (rm_namespace m) @ [CHR 0x27] @
                '' has attachment rule but no attachment context'')) (attachment (rm_namespace m)))
              (\<lambda>a. Ok (Some a))
       else and_then (ok_or (Other ''rule matched but produced no parent'')
                (resolve_parent (env_nfc env) (rm_rule m) (rm_bindings m))) (\<lambda>a. Ok (Some a)))"

function resolve_loop ::
  "identity_env \<Rightarrow> rule_registry \<Rightarrow> resolver_config \<Rightarrow> flat_map \<Rightarrow> u32 \<Rightarrow> lid set \<Rightarrow> lid list \<Rightarrow>
     (lid list, keyrack_error) result" where
  "resolve_loop env g config current depth visited chain =
     (if cfg_max_depth config \<le> depth then Err (DepthLimitExceeded (cfg_max_depth config))
      else and_then (lid_from_flat_attrs env current (cfg_version config)) (\<lambda>lid.
        if lid \<in> visited then Err (CycleDetected lid)
        else and_then (next_attrs env g current) (\<lambda>next_step. case next_step of
            None \<Rightarrow> Ok (chain @ [lid])
          | Some parent \<Rightarrow>
              resolve_loop env g config parent (depth + 1) (insert lid visited) (chain @ [lid]))))"
  by pat_completeness auto

lemma unat_Suc_below: "(d :: 'a::len word) < m \<Longrightarrow> unat (d + 1) = Suc (unat d)"
proof -
  have "unat m < 2 ^ LENGTH('a)" by (rule unsigned_less)
  moreover assume "d < m"
  ultimately have "Suc (unat d) < 2 ^ LENGTH('a)" unfolding word_less_nat_alt by linarith
  then show ?thesis by (simp add: unat_word_ariths)
qed

lemma Suc_below_le: "(d :: 'a::len word) < m \<Longrightarrow> d + 1 \<le> m"
  using unat_Suc_below [of d m] by (simp add: word_le_nat_alt word_less_nat_alt)

termination resolve_loop
  by (relation "measure (\<lambda>(env, g, config, current, depth, visited, chain). unat (cfg_max_depth config) - unat depth)")
     (auto simp: unat_Suc_below not_le word_less_nat_alt intro!: diff_less_mono2)

declare resolve_loop.simps [simp del]

definition resolve_chain ::
  "identity_env \<Rightarrow> rule_registry \<Rightarrow> flat_map \<Rightarrow> resolver_config \<Rightarrow> (lid list, keyrack_error) result" where
  "resolve_chain env g attrs config =
     and_then (map_err InvalidIdentity (normalize_flat (env_nfc env) attrs)) (\<lambda>current.
       resolve_loop env g config current 0 {} [])"

section \<open>The path the rules define\<close>

text \<open>\<open>walk env g v a ls b\<close>: from \<open>a\<close> the rules lead through keys with identifiers \<open>ls\<close> to \<open>b\<close>.\<close>

inductive walk ::
  "identity_env \<Rightarrow> rule_registry \<Rightarrow> canonicalization_version \<Rightarrow> flat_map \<Rightarrow> lid list \<Rightarrow> flat_map \<Rightarrow> bool"
  for env g v a where
  walk_start: "walk env g v a [] a"
| walk_step: "walk env g v a ls b \<Longrightarrow> lid_from_flat_attrs env b v = Ok l \<Longrightarrow>
     next_attrs env g b = Ok (Some c) \<Longrightarrow> walk env g v a (ls @ [l]) c"

inductive_cases walk_snocE: "walk env g v a (ls @ [l]) c"

text \<open>The walk is deterministic: a path of a given length has one end.\<close>

lemma walk_deterministic:
  "walk env g v a ls b \<Longrightarrow> walk env g v a ms c \<Longrightarrow> length ls = length ms \<Longrightarrow> ls = ms \<and> b = c"
proof (induction arbitrary: ms c rule: walk.induct)
  case walk_start
  then show ?case by (auto elim: walk.cases)
next
  case (walk_step ls b l d)
  from walk_step.prems(1) show ?case
  proof (cases rule: walk.cases)
    case (walk_step ns e k)
    then show ?thesis using walk_step.IH [of ns e] walk_step.prems walk_step.hyps by auto
  qed (use walk_step.prems in simp)
qed

lemma walk_prefix:
  "walk env g v a ls b \<Longrightarrow> n < length ls \<Longrightarrow>
     \<exists>c d. walk env g v a (take n ls) c \<and> lid_from_flat_attrs env c v = Ok (ls ! n) \<and>
       next_attrs env g c = Ok (Some d)"
proof (induction rule: walk.induct)
  case (walk_step ls b l c)
  then show ?case
  proof (cases "n < length ls")
    case False
    with walk_step.prems have "n = length ls" by simp
    with walk_step.hyps show ?thesis by auto
  qed (auto simp: nth_append)
qed simp

definition loop_state ::
  "identity_env \<Rightarrow> rule_registry \<Rightarrow> resolver_config \<Rightarrow> flat_map \<Rightarrow> flat_map \<Rightarrow> u32 \<Rightarrow> lid set \<Rightarrow> lid list \<Rightarrow> bool" where
  "loop_state env g config start current depth visited chain \<longleftrightarrow>
     walk env g (cfg_version config) start chain current \<and> visited = set chain \<and> distinct chain \<and>
     length chain = unat depth \<and> depth \<le> cfg_max_depth config"

lemma loop_state_step:
  assumes "loop_state env g config start current depth visited chain"
    and "depth < cfg_max_depth config" and "lid_from_flat_attrs env current (cfg_version config) = Ok l"
    and "l \<notin> visited" and "next_attrs env g current = Ok (Some parent)"
  shows "loop_state env g config start parent (depth + 1) (insert l visited) (chain @ [l])"
  using assms walk_step [of env g "cfg_version config" start chain current l parent]
  by (auto simp: loop_state_def unat_Suc_below Suc_below_le)

text \<open>What each result of the resolver says about the path.\<close>

definition resolves_to :: "identity_env \<Rightarrow> rule_registry \<Rightarrow> resolver_config \<Rightarrow> flat_map \<Rightarrow> lid list \<Rightarrow> bool" where
  "resolves_to env g config start ls \<longleftrightarrow>
     (\<exists>ms c l. ls = ms @ [l] \<and> walk env g (cfg_version config) start ms c \<and>
        lid_from_flat_attrs env c (cfg_version config) = Ok l \<and> next_attrs env g c = Ok None) \<and>
     distinct ls \<and> length ls \<le> unat (cfg_max_depth config)"

definition outcome_explained ::
  "identity_env \<Rightarrow> rule_registry \<Rightarrow> resolver_config \<Rightarrow> flat_map \<Rightarrow> (lid list, keyrack_error) result \<Rightarrow> bool" where
  "outcome_explained env g config start r = (case r of
       Ok ls \<Rightarrow> resolves_to env g config start ls
     | Err e \<Rightarrow> \<exists>ms c. walk env g (cfg_version config) start ms c \<and> distinct ms \<and>
         (e = DepthLimitExceeded (cfg_max_depth config) \<and> length ms = unat (cfg_max_depth config) \<or>
          length ms < unat (cfg_max_depth config) \<and>
          (lid_from_flat_attrs env c (cfg_version config) = Err e \<or> next_attrs env g c = Err e \<or>
           (\<exists>l \<in> set ms. lid_from_flat_attrs env c (cfg_version config) = Ok l \<and> e = CycleDetected l))))"

lemma explained_Err:
  assumes "loop_state env g config start current depth visited chain" and "depth < cfg_max_depth config"
    and "lid_from_flat_attrs env current (cfg_version config) = Err e \<or> next_attrs env g current = Err e \<or>
         (\<exists>l \<in> visited. lid_from_flat_attrs env current (cfg_version config) = Ok l \<and> e = CycleDetected l)"
  shows "outcome_explained env g config start (Err e)"
  unfolding outcome_explained_def result.case
  using assms by (intro exI [of _ chain] exI [of _ current]) (auto simp: loop_state_def word_less_nat_alt)

lemma explained_root:
  assumes "loop_state env g config start current depth visited chain" and "depth < cfg_max_depth config"
    and "lid_from_flat_attrs env current (cfg_version config) = Ok l" and "l \<notin> visited"
    and "next_attrs env g current = Ok None"
  shows "outcome_explained env g config start (Ok (chain @ [l]))"
  unfolding outcome_explained_def result.case resolves_to_def
  using assms by (intro conjI exI [of _ chain] exI [of _ current] exI [of _ l])
    (auto simp: loop_state_def word_less_nat_alt)

lemma explained_depth:
  assumes "loop_state env g config start current depth visited chain" and "cfg_max_depth config \<le> depth"
  shows "outcome_explained env g config start (Err (DepthLimitExceeded (cfg_max_depth config)))"
  unfolding outcome_explained_def result.case
  using assms by (intro exI [of _ chain] exI [of _ current]) (auto simp: loop_state_def)

lemma resolve_loop_explained:
  "loop_state env g config start current depth visited chain \<Longrightarrow>
     outcome_explained env g config start (resolve_loop env g config current depth visited chain)"
proof (induction env g config current depth visited chain rule: resolve_loop.induct)
  case (1 env g config current depth visited chain)
  note state = 1(2)
  note unfold = resolve_loop.simps [of env g config current depth visited chain]
  show ?case
  proof (cases "cfg_max_depth config \<le> depth")
    case True
    with explained_depth [OF state] show ?thesis by (simp add: unfold)
  next
    case False
    then have below: "depth < cfg_max_depth config" by simp
    note stop = explained_Err [OF state below]
    consider (refused) e where "resolve_loop env g config current depth visited chain = Err e"
        "lid_from_flat_attrs env current (cfg_version config) = Err e \<or> next_attrs env g current = Err e \<or>
         (\<exists>l \<in> visited. lid_from_flat_attrs env current (cfg_version config) = Ok l \<and> e = CycleDetected l)"
      | (turn) l n where "lid_from_flat_attrs env current (cfg_version config) = Ok l" "l \<notin> visited"
        "next_attrs env g current = Ok n"
    proof (cases "lid_from_flat_attrs env current (cfg_version config)")
      case (Ok l)
      then show thesis
        using refused [of "CycleDetected l"] refused turn [of l] False
        by (cases "l \<in> visited"; cases "next_attrs env g current") (simp_all add: unfold)
    qed (use refused False in \<open>simp add: unfold\<close>)
    then show ?thesis
    proof cases
      case (turn l n)
      show ?thesis
      proof (cases n)
        case None
        with explained_root [OF state below] False turn show ?thesis by (simp add: unfold)
      next
        case (Some parent)
        with turn loop_state_step [OF state below]
        have "loop_state env g config start parent (depth + 1) (insert l visited) (chain @ [l])" by simp
        from 1(1) [OF False turn Some this] Some False turn show ?thesis by (simp add: unfold)
      qed
    qed (simp add: stop)
  qed
qed

lemma walk_stops_at_root:
  assumes "walk env g v a ks c" and "next_attrs env g c = Ok None" and "walk env g v a ms b"
  shows "length ms \<le> length ks"
proof (rule ccontr)
  assume "\<not> length ms \<le> length ks"
  then have n: "length ks < length ms" by simp
  from walk_prefix [OF assms(3) n] obtain d e
    where "walk env g v a (take (length ks) ms) d" "next_attrs env g d = Ok (Some e)" by blast
  with walk_deterministic [OF assms(1)] n assms(2) show False by fastforce
qed

lemma resolves_to_unique:
  assumes "resolves_to env g config a ls" and "resolves_to env g config a ms"
  shows "ls = ms"
proof -
  from assms(1) obtain ks c l where ks: "ls = ks @ [l]" "walk env g (cfg_version config) a ks c"
      "lid_from_flat_attrs env c (cfg_version config) = Ok l" "next_attrs env g c = Ok None"
    unfolding resolves_to_def by blast
  from assms(2) obtain js d m where js: "ms = js @ [m]" "walk env g (cfg_version config) a js d"
      "lid_from_flat_attrs env d (cfg_version config) = Ok m" "next_attrs env g d = Ok None"
    unfolding resolves_to_def by blast
  have "length ks = length js"
    using walk_stops_at_root [OF ks(2,4) js(2)] walk_stops_at_root [OF js(2,4) ks(2)] by simp
  with walk_deterministic [OF ks(2) js(2)] ks js show ?thesis by simp
qed

text \<open>A path that reaches a root within the bound without repeating excludes every error.\<close>

lemma resolves_to_no_error:
  assumes "resolves_to env g config a ls"
  shows "\<not> outcome_explained env g config a (Err e)"
proof
  assume "outcome_explained env g config a (Err e)"
  then obtain ms c where ms: "walk env g (cfg_version config) a ms c"
    and cases: "e = DepthLimitExceeded (cfg_max_depth config) \<and> length ms = unat (cfg_max_depth config) \<or>
      (lid_from_flat_attrs env c (cfg_version config) = Err e \<or> next_attrs env g c = Err e \<or>
       (\<exists>l \<in> set ms. lid_from_flat_attrs env c (cfg_version config) = Ok l))"
    unfolding outcome_explained_def result.case by blast
  from assms obtain ks d l where ks: "ls = ks @ [l]" "walk env g (cfg_version config) a ks d"
      "lid_from_flat_attrs env d (cfg_version config) = Ok l" "next_attrs env g d = Ok None"
    and bound: "distinct ls" "length ls \<le> unat (cfg_max_depth config)"
    unfolding resolves_to_def by blast
  have le: "length ms \<le> length ks" by (rule walk_stops_at_root [OF ks(2,4) ms])
  have "ms = take (length ms) ls \<and> lid_from_flat_attrs env c (cfg_version config) = Ok (ls ! length ms) \<and>
      (\<exists>n. next_attrs env g c = Ok n)"
  proof (cases "length ms = length ks")
    case True
    with walk_deterministic [OF ms ks(2)] ks show ?thesis by simp
  next
    case False
    with le have n: "length ms < length ks" by simp
    from walk_prefix [OF ks(2) n] obtain p q where p: "walk env g (cfg_version config) a (take (length ms) ks) p"
        "lid_from_flat_attrs env p (cfg_version config) = Ok (ks ! length ms)" "next_attrs env g p = Ok (Some q)"
      by blast
    with walk_deterministic [OF ms p(1)] n show ?thesis by (simp add: ks(1) nth_append)
  qed
  then have prefix: "ms = take (length ms) ls" "lid_from_flat_attrs env c (cfg_version config) = Ok (ls ! length ms)"
      "\<exists>n. next_attrs env g c = Ok n" by auto
  have "ls ! length ms \<notin> set (take (length ms) ls)"
    using distinct_take [OF bound(1), of "Suc (length ms)"] le
    by (simp add: ks(1) take_Suc_conv_app_nth del: take_append)
  with cases prefix bound(2) le show False by (auto simp: ks(1))
qed

lemma resolve_chain_loop:
  "normalize_pattern (env_nfc env) attrs = Ok a \<Longrightarrow>
     resolve_chain env g attrs config = resolve_loop env g config a 0 {} []"
  by (simp add: resolve_chain_def normalize_pattern_def)

lemma resolve_chain_explained:
  assumes "normalize_pattern (env_nfc env) attrs = Ok a"
  shows "outcome_explained env g config a (resolve_chain env g attrs config)"
proof -
  have "loop_state env g config a a 0 {} []" by (simp add: loop_state_def walk_start)
  from resolve_loop_explained [OF this] show ?thesis by (simp add: resolve_chain_loop [OF assms])
qed

section \<open>Properties\<close>

text \<open>
  C4: the resolver computes the path the rules define. For normalizable attributes it returns a
  chain exactly when that path reaches a root key without repeating an identifier within the
  depth limit, and then it returns the identifiers of that path, leaf first. It always returns.
\<close>

theorem resolve_chain_refines_walk:
  assumes "normalize_pattern (env_nfc env) attrs = Ok a"
  shows "resolve_chain env g attrs config = Ok ls \<longleftrightarrow> resolves_to env g config a ls"
proof
  assume "resolve_chain env g attrs config = Ok ls"
  with resolve_chain_explained [OF assms, of g config] show "resolves_to env g config a ls"
    by (simp add: outcome_explained_def)
next
  assume ls: "resolves_to env g config a ls"
  show "resolve_chain env g attrs config = Ok ls"
  proof (cases "resolve_chain env g attrs config")
    case (Ok ms)
    with resolve_chain_explained [OF assms, of g config] ls show ?thesis
      using resolves_to_unique by (auto simp: outcome_explained_def)
  next
    case (Err e)
    with resolve_chain_explained [OF assms, of g config] resolves_to_no_error [OF ls] show ?thesis by simp
  qed
qed

text \<open>Hash stand-in of the examples: the length of the input.\<close>

definition sample_env :: identity_env where
  "sample_env = \<lparr>env_nfc = (\<lambda>s. s), env_hash = (\<lambda>bs. fill (of_nat (length bs)))\<rparr>"

definition sample_lid :: "nat \<Rightarrow> lid" where
  "sample_lid n = Lid (fill (of_nat n))"

lemma sample_lids:
  "lid_from_flat_attrs sample_env [(''tenant'', ''acme'')] V2 = Ok (sample_lid 24)"
  "lid_from_flat_attrs sample_env [(''of'', ''acme''), (''type'', ''root'')] V2 = Ok (sample_lid 38)"
  by (simp_all add: lid_from_flat_attrs_def sample_env_def sample_lid_def bt_collect_def normalize_eval derive_def
      encode_string_raw_def len_u32_def encode_tags as_le_bytes_def less_char_def)

lemma sample_next:
  "next_attrs sample_env sample_registry [(''tenant'', ''acme'')] = Ok (Some [(''of'', ''acme''), (''type'', ''root'')])"
  "next_attrs sample_env sample_registry [(''of'', ''acme''), (''type'', ''root'')] = Ok None"
  by (simp_all add: next_attrs_def sample_env_def sample_defs match_rule_def rule_matches_def
      normalized_rule_def normalize_pattern_def normalize_flat_def normalize_eval is_var_def matches_normalized_def
      entry_matches_def extract_bindings_def captured_def bt_collect_def resolve_parent_def better_def
      is_root_def is_attachment_boundary_def less_char_def)

theorem resolve_chain_refines_walk_witness:
  "resolve_chain sample_env sample_registry [(''tenant'', ''acme'')] default_resolver_config =
     Ok [sample_lid 24, sample_lid 38]"
proof -
  have n: "normalize_pattern (env_nfc sample_env) [(''tenant'', ''acme'')] = Ok [(''tenant'', ''acme'')]"
    using sample_attrs_normal by (simp add: sample_env_def)
  have "walk sample_env sample_registry V2 [(''tenant'', ''acme'')] ([] @ [sample_lid 24])
      [(''of'', ''acme''), (''type'', ''root'')]"
    by (rule walk_step [OF walk_start sample_lids(1) sample_next(1)])
  moreover have "distinct [sample_lid 24, sample_lid 38]"
    by (simp add: sample_lid_def fill_eq_iff)
  ultimately have "resolves_to sample_env sample_registry default_resolver_config [(''tenant'', ''acme'')]
      [sample_lid 24, sample_lid 38]"
    using sample_lids(2) sample_next(2) unfolding resolves_to_def
    by (auto simp: default_resolver_config_def DEFAULT_MAX_DEPTH_def intro!: exI [of _ "[sample_lid 24]"])
  with resolve_chain_refines_walk [OF n] show ?thesis by blast
qed

text \<open>
  The two guards fail only for the reason they name. The depth error means the path has at
  least as many distinct keys as the limit and is still not at a root; the cycle error names an
  identifier the path really meets twice, at positions before the limit.
\<close>

theorem resolve_chain_errors_are_real:
  assumes "normalize_pattern (env_nfc env) attrs = Ok a"
  shows "(\<forall>d. resolve_chain env g attrs config = Err (DepthLimitExceeded d) \<longrightarrow>
            d = cfg_max_depth config \<and>
            (\<exists>ms c. walk env g (cfg_version config) a ms c \<and> distinct ms \<and> length ms = unat d)) \<and>
         (\<forall>l. resolve_chain env g attrs config = Err (CycleDetected l) \<longrightarrow>
            (\<exists>ms c. walk env g (cfg_version config) a ms c \<and> distinct ms \<and> l \<in> set ms \<and>
               length ms < unat (cfg_max_depth config) \<and>
               lid_from_flat_attrs env c (cfg_version config) = Ok l))"
proof -
  have lid: "lid_from_flat_attrs env c v = Err e \<Longrightarrow> \<exists>i. e = InvalidIdentity i" for c v e
    by (cases "canonicalize (env_nfc env) v (bt_collect (map (\<lambda>(k, v). (k, AString v)) c))")
       (auto simp: lid_from_flat_attrs_def)
  have nxt: "next_attrs env g c = Err e \<Longrightarrow> \<exists>s. e = Other s" for c e
    by (auto simp: next_attrs_def and_then_def ok_or_def split: option.splits if_splits)
  note explained = resolve_chain_explained [OF assms, of g config]
  show ?thesis
    using explained lid nxt by (auto simp: outcome_explained_def) blast+
qed

theorem resolve_chain_errors_are_real_witness:
  "resolve_chain sample_env sample_registry [(''tenant'', ''acme'')] \<lparr>cfg_max_depth = 1, cfg_version = V2\<rparr> =
     Err (DepthLimitExceeded 1) \<and>
   (\<exists>ms c. walk sample_env sample_registry V2 [(''tenant'', ''acme'')] ms c \<and> distinct ms \<and> length ms = 1)"
proof -
  let ?c = "\<lparr>cfg_max_depth = 1, cfg_version = V2\<rparr>"
  have n: "normalize_pattern (env_nfc sample_env) [(''tenant'', ''acme'')] = Ok [(''tenant'', ''acme'')]"
    using sample_attrs_normal by (simp add: sample_env_def)
  have e: "resolve_chain sample_env sample_registry [(''tenant'', ''acme'')] ?c = Err (DepthLimitExceeded 1)"
    unfolding resolve_chain_loop [OF n]
    by (simp add: resolve_loop.simps sample_lids sample_next)
  with resolve_chain_errors_are_real [OF n, of sample_registry ?c] show ?thesis by auto
qed

section \<open>The limit of a namespace\<close>

text \<open>
  The resolver reads one limit, the one of its configuration: replacing the \<open>max_depth\<close> of every
  namespace changes no result.
\<close>

definition set_depths :: "(namespace_def \<Rightarrow> u32) \<Rightarrow> rule_registry \<Rightarrow> rule_registry" where
  "set_depths f g = RuleRegistry (map (\<lambda>n. n\<lparr>ns_max_depth := f n\<rparr>) (namespaces g))"

abbreviation redepth ::
  "(namespace_def \<Rightarrow> u32) \<Rightarrow> (rank \<times> routing_rule \<times> namespace_def) option \<Rightarrow>
     (rank \<times> routing_rule \<times> namespace_def) option" where
  "redepth f best \<equiv> map_option (\<lambda>(k, r, n). (k, r, n\<lparr>ns_max_depth := f n\<rparr>)) best"

lemma better_redepth [simp]: "better (redepth f best) k = better best k"
  by (auto simp: better_def split: option.splits)

lemma scan_rules_redepth:
  "scan_rules nfc attrs (n\<lparr>ns_max_depth := f n\<rparr>) rs (redepth f best) = redepth f (scan_rules nfc attrs n rs best)"
proof (induction rs arbitrary: best)
  case (Cons r rs)
  show ?case
    using Cons.IH [of "Some (rule_rank r, r, n)"] Cons.IH [of best] by simp
qed simp

lemma scan_namespaces_redepth:
  "scan_namespaces nfc attrs (map (\<lambda>n. n\<lparr>ns_max_depth := f n\<rparr>) ns) (redepth f best) =
     redepth f (scan_namespaces nfc attrs ns best)"
  by (induction ns arbitrary: best) (simp_all add: scan_rules_redepth)

lemma next_attrs_set_depths [simp]: "next_attrs env (set_depths f g) attrs = next_attrs env g attrs"
  using scan_namespaces_redepth [of "env_nfc env" attrs f "namespaces g" None]
  by (cases "scan_namespaces (env_nfc env) attrs (namespaces g) None")
     (auto simp: next_attrs_def match_rule_def set_depths_def)

lemma resolve_loop_set_depths:
  "resolve_loop env (set_depths f g) config current depth visited chain =
     resolve_loop env g config current depth visited chain"
proof (induction env g config current depth visited chain rule: resolve_loop.induct)
  case (1 env g config current depth visited chain)
  show ?case
    unfolding resolve_loop.simps [of env _ config current]
    by (auto intro!: and_then_cong 1 split: option.splits)
qed

theorem resolve_chain_ignores_namespace_depth:
  "resolve_chain env (set_depths f g) attrs config = resolve_chain env g attrs config"
  by (simp add: resolve_chain_def resolve_loop_set_depths)

end
