(* ===== verification/Lint.thy ===== *)
theory Lint
  imports Resolver
begin

text \<open>
  The offline rule linter (\<open>lint.rs\<close>): its diagnostics, and what each one says about matching and
  parent resolution. A dash of a message is the ASCII one.
\<close>

datatype severity = SevError | SevWarning | SevInfo

record lint_diagnostic =
  diag_severity :: severity
  diag_namespace :: string
  diag_rule_index :: "nat option"
  diag_code :: string
  diag_message :: string

definition severity_tag :: "lint_diagnostic \<Rightarrow> string" where
  "severity_tag d = (case diag_severity d of
     SevError \<Rightarrow> ''ERROR'' | SevWarning \<Rightarrow> ''WARN'' | SevInfo \<Rightarrow> ''INFO'')"

definition display_diagnostic :: "lint_diagnostic \<Rightarrow> string" where
  "display_diagnostic d =
     (case diag_rule_index d of
        Some i \<Rightarrow> diag_namespace d @ ''[rule '' @ show_nat i @ '']''
      | None \<Rightarrow> diag_namespace d) @
     '': ['' @ severity_tag d @ ''] '' @ diag_message d @ '' ('' @ diag_code d @ '')''"

abbreviation diagnostic ::
  "severity \<Rightarrow> namespace_def \<Rightarrow> nat option \<Rightarrow> string \<Rightarrow> string \<Rightarrow> lint_diagnostic" where
  "diagnostic sev n i code msg \<equiv>
     \<lparr>diag_severity = sev, diag_namespace = ns_name n, diag_rule_index = i, diag_code = code, diag_message = msg\<rparr>"

definition check_empty_namespace :: "namespace_def \<Rightarrow> lint_diagnostic list" where
  "check_empty_namespace n = (if routing_rules n = [] then
     [diagnostic SevWarning n None ''W001'' ''namespace has no routing rules''] else [])"

definition check_depth_budget :: "namespace_def \<Rightarrow> lint_diagnostic list" where
  "check_depth_budget n =
     (if ns_max_depth n < 3 then
        [diagnostic SevWarning n None ''W002'' (''max_depth='' @ show_nat (unat (ns_max_depth n)) @
           '' is unusually low - most hierarchies need at least 3 levels'')]
      else if 64 < ns_max_depth n then
        [diagnostic SevWarning n None ''W003'' (''max_depth='' @ show_nat (unat (ns_max_depth n)) @
           '' is unusually high - deep hierarchies impact cascade-disable latency'')]
      else [])"

definition check_missing_attachment :: "namespace_def \<Rightarrow> lint_diagnostic list" where
  "check_missing_attachment n =
     (if list_ex is_attachment_boundary (routing_rules n) \<and> attachment n = None then
        [diagnostic SevError n None ''E001''
           ''namespace has an _attachment_ boundary rule but no attachment context defined'']
      else [])"

definition check_unbound_variables :: "namespace_def \<Rightarrow> nat \<Rightarrow> routing_rule \<Rightarrow> lint_diagnostic list" where
  "check_unbound_variables n idx r = (case rule_parent r of
       Pattern parent \<Rightarrow>
         (let bound_vars = set (filter is_var (map snd (match_pattern r)))
          in map (\<lambda>(key, v). diagnostic SevError n (Some idx) ''E002''
                 (''parent pattern key '' @ [CHR 0x22] @ key @ [CHR 0x22] @ '' references unbound variable '' @
                  [CHR 0x22] @ v @ [CHR 0x22] @ '' - it must be captured by the match pattern''))
               (filter (\<lambda>(key, v). is_var v \<and> v \<notin> bound_vars) parent))
     | _ \<Rightarrow> [])"

definition could_overlap :: "routing_rule \<Rightarrow> routing_rule \<Rightarrow> bool" where
  "could_overlap a b = list_all (\<lambda>(key, va). case map_of (match_pattern b) key of
       Some vb \<Rightarrow> \<not> (\<not> is_var va \<and> \<not> is_var vb \<and> va \<noteq> vb)
     | None \<Rightarrow> True) (match_pattern a)"

definition subsumes :: "routing_rule \<Rightarrow> routing_rule \<Rightarrow> bool" where
  "subsumes dominator candidate = list_all (\<lambda>(key, dval). case map_of (match_pattern candidate) key of
       None \<Rightarrow> False
     | Some cval \<Rightarrow> is_var dval \<or> (\<not> is_var cval \<and> dval = cval)) (match_pattern dominator)"

text \<open>The pair loops run over the indices, in the order of the source.\<close>

definition check_ambiguous_rules :: "namespace_def \<Rightarrow> lint_diagnostic list" where
  "check_ambiguous_rules n = (let rules = routing_rules n in
     concat (map (\<lambda>i. concat (map (\<lambda>j.
       let a = rules ! i; b = rules ! j in
       if rule_rank a \<noteq> rule_rank b then []
       else if rule_parent a = rule_parent b then []
       else if could_overlap a b then
         [diagnostic SevWarning n (Some i) ''W004'' (''rule '' @ show_nat i @ '' and rule '' @ show_nat j @
            '' have equal specificity and priority but different parents - matching is ambiguous for overlapping inputs'')]
       else []) [i + 1..<length rules])) [0..<length rules]))"

definition shadows :: "routing_rule list \<Rightarrow> nat \<Rightarrow> nat \<Rightarrow> bool" where
  "shadows rules i j \<longleftrightarrow> i \<noteq> j \<and> \<not> rule_rank (rules ! j) \<le> rule_rank (rules ! i) \<and> subsumes (rules ! j) (rules ! i)"

definition check_unreachable_rules :: "namespace_def \<Rightarrow> lint_diagnostic list" where
  "check_unreachable_rules n = (let rules = routing_rules n in
     concat (map (\<lambda>i. case List.find (shadows rules i) [0..<length rules] of
         None \<Rightarrow> []
       | Some j \<Rightarrow> [diagnostic SevWarning n (Some i) ''W005'' (''rule '' @ show_nat i @
           '' is unreachable - completely shadowed by higher-specificity rule '' @ show_nat j)])
       [0..<length rules]))"

definition check_rules_unbound :: "namespace_def \<Rightarrow> lint_diagnostic list" where
  "check_rules_unbound n = concat (map (\<lambda>i. check_unbound_variables n i (routing_rules n ! i)) [0..<length (routing_rules n)])"

definition lint_namespace :: "namespace_def \<Rightarrow> lint_diagnostic list" where
  "lint_namespace n = check_empty_namespace n @ check_depth_budget n @ check_missing_attachment n @
     check_rules_unbound n @ check_ambiguous_rules n @ check_unreachable_rules n"

definition lint :: "rule_registry \<Rightarrow> lint_diagnostic list" where
  "lint g = concat (map lint_namespace (namespaces g))"

section \<open>Patterns as sets of inputs\<close>

lemma bt_set_map_of: "bt_sorted m \<Longrightarrow> (k, v) \<in> set m \<longleftrightarrow> map_of m k = Some v"
  by (simp add: bt_sorted_distinct map_of_eq_Some_iff)

lemma subsumes_iff:
  assumes "bt_sorted (match_pattern d)"
  shows "subsumes d c \<longleftrightarrow> (\<forall>k v. map_of (match_pattern d) k = Some v \<longrightarrow>
     (\<exists>w. map_of (match_pattern c) k = Some w \<and> (is_var v \<or> \<not> is_var w \<and> v = w)))"
  unfolding subsumes_def list_all_iff
  using bt_set_map_of [OF assms] by (fastforce split: option.splits)

lemma could_overlap_iff:
  assumes "bt_sorted (match_pattern a)"
  shows "could_overlap a b \<longleftrightarrow> (\<forall>k v w. map_of (match_pattern a) k = Some v \<longrightarrow>
     map_of (match_pattern b) k = Some w \<longrightarrow> is_var v \<or> is_var w \<or> v = w)"
  unfolding could_overlap_def list_all_iff
  using bt_set_map_of [OF assms] by (fastforce split: option.splits)

text \<open>Attributes that match both of two patterns that agree on their concrete entries.\<close>

definition concrete_at :: "routing_rule \<Rightarrow> string \<Rightarrow> string option" where
  "concrete_at r k = (case map_of (match_pattern r) k of
     Some v \<Rightarrow> if is_var v then None else Some v | None \<Rightarrow> None)"

definition common_input :: "routing_rule \<Rightarrow> routing_rule \<Rightarrow> flat_map" where
  "common_input a b = bt_collect (map (\<lambda>k. (k, case concrete_at a k of
       Some v \<Rightarrow> v
     | None \<Rightarrow> (case concrete_at b k of Some w \<Rightarrow> w | None \<Rightarrow> [])))
       (map fst (match_pattern a) @ map fst (match_pattern b)))"

lemma map_of_bt_collect_keys:
  "map_of (bt_collect (map (\<lambda>k. (k, f k)) ks)) k = (if k \<in> set ks then Some (f k) else None)"
proof -
  have "map_of (fold (\<lambda>(k, v) m. bt_insert k v m) (map (\<lambda>k. (k, f k)) ks) m) k =
      (if k \<in> set ks then Some (f k) else map_of m k)" for m
    by (induction ks arbitrary: m) auto
  from this [of "[]"] show ?thesis by (simp add: bt_collect_def)
qed

lemma map_of_key: "map_of m k = Some v \<Longrightarrow> k \<in> fst ` set m"
  by (force dest: map_of_SomeD)

lemma common_input_matches:
  assumes "bt_sorted (match_pattern a)" and "bt_sorted (match_pattern b)" and "could_overlap a b"
  shows "matches_normalized a (common_input a b) \<and> matches_normalized b (common_input a b)"
  using assms(3) unfolding could_overlap_iff [OF assms(1)] matches_normalized_iff [OF assms(1)]
    matches_normalized_iff [OF assms(2)] common_input_def map_of_bt_collect_keys concrete_at_def
  by (fastforce simp: map_of_key split: option.splits)

lemma subsumes_matches:
  assumes "bt_sorted (match_pattern d)" and "bt_sorted (match_pattern c)"
    and "subsumes d c" and "matches_normalized c attrs"
  shows "matches_normalized d attrs"
  using assms(3,4)
  unfolding subsumes_iff [OF assms(1)] matches_normalized_iff [OF assms(1)] matches_normalized_iff [OF assms(2)]
  by metis

section \<open>Specificity counts\<close>

definition concrete_keys :: "routing_rule \<Rightarrow> string set" where
  "concrete_keys r = fst ` {p \<in> set (match_pattern r). \<not> is_var (snd p)}"

definition variable_keys :: "routing_rule \<Rightarrow> string set" where
  "variable_keys r = fst ` {p \<in> set (match_pattern r). is_var (snd p)}"

lemma specificity_lengths:
  "specificity r = (of_nat (length (filter (\<lambda>p. \<not> is_var (snd p)) (match_pattern r))),
                    of_nat (length (filter (\<lambda>p. is_var (snd p)) (match_pattern r))))"
proof -
  have "fold (\<lambda>(k, v) (concrete, variable).
       if is_var v then (concrete, variable + 1) else (concrete + 1, variable)) p (c, d) =
     (c + of_nat (length (filter (\<lambda>p. \<not> is_var (snd p)) p)), d + of_nat (length (filter (\<lambda>p. is_var (snd p)) p)))"
    for p :: flat_map and c d :: u32
    by (induction p arbitrary: c d) auto
  then show ?thesis by (simp add: specificity_def)
qed

lemma card_keys_filter:
  "bt_sorted m \<Longrightarrow> length (filter P m) = card (fst ` {p \<in> set m. P p})"
proof -
  assume "bt_sorted m"
  then have "distinct (map fst (filter P m))" by (simp add: bt_sorted_distinct distinct_map_filter)
  from distinct_card [OF this] show ?thesis by simp
qed

lemma specificity_card:
  assumes "rule_normal nfc r"
  shows "specificity r = (of_nat (card (concrete_keys r)), of_nat (card (variable_keys r)))"
    and "card (concrete_keys r) < 2 ^ 32" and "card (variable_keys r) < 2 ^ 32"
proof -
  have sorted: "bt_sorted (match_pattern r)" by (rule rule_normalD(2) [OF assms])
  have "length (match_pattern r) * 10 \<le> MAX_IDENTITY_BYTES"
    using assms flat_normal_length by (auto simp: rule_normal_def)
  then have "length (match_pattern r) < 2 ^ 32" by (simp add: MAX_IDENTITY_BYTES_def)
  moreover have "length (filter P (match_pattern r)) \<le> length (match_pattern r)" for P by simp
  ultimately have "length (filter P (match_pattern r)) < 2 ^ 32" for P by (meson le_less_trans)
  then show "card (concrete_keys r) < 2 ^ 32" "card (variable_keys r) < 2 ^ 32"
    unfolding concrete_keys_def variable_keys_def card_keys_filter [OF sorted, symmetric] by blast+
  show "specificity r = (of_nat (card (concrete_keys r)), of_nat (card (variable_keys r)))"
    by (simp add: specificity_lengths concrete_keys_def variable_keys_def card_keys_filter [OF sorted])
qed

lemma key_iff:
  assumes "bt_sorted (match_pattern r)"
  shows "k \<in> concrete_keys r \<longleftrightarrow> (\<exists>v. map_of (match_pattern r) k = Some v \<and> \<not> is_var v)"
    and "k \<in> variable_keys r \<longleftrightarrow> (\<exists>v. map_of (match_pattern r) k = Some v \<and> is_var v)"
  unfolding concrete_keys_def variable_keys_def
  using bt_set_map_of [OF assms] by force+

text \<open>
  A rule that subsumes another has at most its specificity, so only a higher priority at equal
  specificity lets it outrank the other; then the two patterns have the same shape.
\<close>

lemma outranking_subsumption:
  assumes d: "rule_normal nfc d" and c: "rule_normal nfc c" and sub: "subsumes d c"
    and rank: "\<not> rule_rank d \<le> rule_rank c"
  shows "specificity d = specificity c" and "rule_priority c < rule_priority d"
    and "concrete_keys d = concrete_keys c" and "variable_keys d = variable_keys c"
proof -
  note sorted = rule_normalD(2) [OF d] rule_normalD(2) [OF c]
  note sub = sub [unfolded subsumes_iff [OF sorted(1)]]
  note dspec = specificity_card [OF d] and cspec = specificity_card [OF c]
  have fin: "finite (concrete_keys c)" "finite (variable_keys c)"
    by (simp_all add: concrete_keys_def variable_keys_def)
  have conc: "concrete_keys d \<subseteq> concrete_keys c"
    using sub by (fastforce simp: key_iff(1) [OF sorted(1)] key_iff(1) [OF sorted(2)])
  have le: "specificity c \<le> specificity d"
    using rank by (auto simp: rule_rank_def)
  have word: "(of_nat m :: u32) \<le> of_nat n \<longleftrightarrow> m \<le> n" "(of_nat m :: u32) < of_nat n \<longleftrightarrow> m < n"
    if "m < 2 ^ 32" "n < 2 ^ 32" for m n
    using that by (simp_all add: word_le_nat_alt word_less_nat_alt unsigned_of_nat take_bit_nat_eq_self)
  have "card (concrete_keys c) \<le> card (concrete_keys d)"
    using le by (auto simp: dspec(1) cspec(1) word [OF cspec(2) dspec(2)])
  with conc fin(1) show eq: "concrete_keys d = concrete_keys c" by (metis card_seteq)
  have "k \<in> variable_keys c" if k: "k \<in> variable_keys d" for k
  proof -
    from k obtain v where v: "map_of (match_pattern d) k = Some v" "is_var v" by (auto simp: key_iff(2) [OF sorted(1)])
    with sub obtain w where w: "map_of (match_pattern c) k = Some w" by blast
    have "k \<notin> concrete_keys d" using v by (auto simp: key_iff(1) [OF sorted(1)])
    with w show ?thesis by (auto simp: eq key_iff [OF sorted(2)])
  qed
  then have var: "variable_keys d \<subseteq> variable_keys c" by blast
  have "card (variable_keys c) \<le> card (variable_keys d)"
    using le by (simp add: dspec(1) cspec(1) eq word [OF cspec(3) dspec(3)])
  with var fin(2) show eqv: "variable_keys d = variable_keys c" by (metis card_seteq)
  show "specificity d = specificity c" by (simp add: dspec(1) cspec(1) eq eqv)
  with rank show "rule_priority c < rule_priority d" by (simp add: rule_rank_def)
qed

section \<open>Properties\<close>

text \<open>
  C24: the unreachable-rule warning is sound. A rule it reports is never selected, whatever the
  attributes. Some rule of the namespace shadows it, and every rule that does has exactly the same
  shape (the same keys, concrete and variable at the same places, hence equal specificity) and a
  higher priority: a rule of higher specificity never shadows another one.
\<close>

theorem unreachable_rule_never_selected:
  assumes "registry_wf nfc g" and "n \<in> set (namespaces g)"
    and "d \<in> set (check_unreachable_rules n)" and "diag_rule_index d = Some i"
  shows "i < length (routing_rules n) \<and>
         (\<forall>attrs m. match_rule nfc g attrs = Some m \<longrightarrow>
            (rm_rule m, rm_namespace m) \<noteq> (routing_rules n ! i, n)) \<and>
         (\<exists>j < length (routing_rules n). shadows (routing_rules n) i j) \<and>
         (\<forall>j < length (routing_rules n). shadows (routing_rules n) i j \<longrightarrow>
            concrete_keys (routing_rules n ! j) = concrete_keys (routing_rules n ! i) \<and>
            variable_keys (routing_rules n ! j) = variable_keys (routing_rules n ! i) \<and>
            specificity (routing_rules n ! j) = specificity (routing_rules n ! i) \<and>
            rule_priority (routing_rules n ! i) < rule_priority (routing_rules n ! j))"
proof -
  let ?rs = "routing_rules n"
  obtain j where ij: "i < length ?rs" "List.find (shadows ?rs i) [0..<length ?rs] = Some j"
    using assms(3,4) by (auto simp: check_unreachable_rules_def Let_def dest: sym split: option.splits)
  then have j: "j < length ?rs" "shadows ?rs i j"
    by (auto simp: find_Some_iff)
  have normal: "rule_normal nfc (?rs ! i)" "rule_normal nfc (?rs ! j)"
    using assms(1,2) ij j by (auto simp: registry_wf_def namespace_wf_def)
  note sorted = rule_normalD(2) [OF normal(1)] rule_normalD(2) [OF normal(2)]
  from j have sub: "subsumes (?rs ! j) (?rs ! i)" and rank: "\<not> rule_rank (?rs ! j) \<le> rule_rank (?rs ! i)"
    by (auto simp: shadows_def)
  have "(?rs ! j, n) \<in> set (all_rules g)" using assms(2) j by (force simp: all_rules_def)
  moreover have "rule_matches nfc (?rs ! i) attrs \<Longrightarrow> rule_matches nfc (?rs ! j) attrs" for attrs
    using subsumes_matches [OF sorted(2,1) sub]
    by (auto simp: rule_matches_normal [OF normal(1)] rule_matches_normal [OF normal(2)])
  ultimately have "(rm_rule m, rm_namespace m) \<noteq> (?rs ! i, n)" if m: "match_rule nfc g attrs = Some m" for attrs m
    using match_rule_member(2) [OF m] first_best_le [OF match_rule_Some(1) [OF m], of "(?rs ! j, n)"] rank
    by auto
  moreover have "concrete_keys (?rs ! k) = concrete_keys (?rs ! i) \<and> variable_keys (?rs ! k) = variable_keys (?rs ! i) \<and>
      specificity (?rs ! k) = specificity (?rs ! i) \<and> rule_priority (?rs ! i) < rule_priority (?rs ! k)"
    if k: "k < length ?rs" "shadows ?rs i k" for k
  proof -
    have "rule_normal nfc (?rs ! k)"
      using assms(1,2) k(1) by (auto simp: registry_wf_def namespace_wf_def)
    with outranking_subsumption [OF _ normal(1), of "?rs ! k"] k(2) show ?thesis by (simp add: shadows_def)
  qed
  ultimately show ?thesis using ij(1) j by blast
qed

definition shadowed_namespace :: namespace_def where
  "shadowed_namespace = sample_namespace\<lparr>routing_rules := [sample_tenant,
     sample_tenant\<lparr>match_pattern := [(''tenant'', ''$U'')], rule_parent := Root, rule_priority := 1\<rparr>]\<rparr>"

theorem unreachable_rule_never_selected_witness:
  "\<forall>attrs b. match_rule (\<lambda>s. s) (RuleRegistry [shadowed_namespace]) attrs \<noteq>
     Some \<lparr>rm_rule = sample_tenant, rm_namespace = shadowed_namespace, rm_bindings = b\<rparr>"
proof -
  let ?g = "RuleRegistry [shadowed_namespace]" and ?n = shadowed_namespace
  have wf: "registry_wf (\<lambda>s. s) ?g"
    by (simp add: registry_wf_def namespace_wf_def shadowed_namespace_def sample_defs rule_normal_def parent_normal_def
        flat_normal_def flat_fixed_def MAX_IDENTITY_BYTES_def is_var_def less_char_def)
  have n: "?n \<in> set (namespaces ?g)" by simp
  have "map diag_rule_index (check_unreachable_rules ?n) = [Some 0]"
    by (simp add: check_unreachable_rules_def Let_def shadowed_namespace_def sample_defs shadows_def rule_rank_def
        specificity_def subsumes_def is_var_def upt_rec)
  then obtain d where d: "d \<in> set (check_unreachable_rules ?n)" "diag_rule_index d = Some 0" by auto
  have "routing_rules ?n ! 0 = sample_tenant" by (simp add: shadowed_namespace_def)
  with conjunct1 [OF conjunct2 [OF unreachable_rule_never_selected [OF wf n d]]] show ?thesis by fastforce
qed

text \<open>
  The overlap check behind the ambiguity warning is exact, not only conservative: it holds
  for two sorted patterns exactly when some attributes match both.
\<close>

theorem could_overlap_exact:
  assumes "bt_sorted (match_pattern a)" and "bt_sorted (match_pattern b)"
  shows "could_overlap a b \<longleftrightarrow>
    (\<exists>attrs. bt_sorted attrs \<and> matches_normalized a attrs \<and> matches_normalized b attrs)"
proof
  assume "could_overlap a b"
  with common_input_matches [OF assms]
  show "\<exists>attrs. bt_sorted attrs \<and> matches_normalized a attrs \<and> matches_normalized b attrs"
    by (auto simp: common_input_def intro!: exI [of _ "common_input a b"])
next
  assume "\<exists>attrs. bt_sorted attrs \<and> matches_normalized a attrs \<and> matches_normalized b attrs"
  then show "could_overlap a b"
    unfolding could_overlap_iff [OF assms(1)] matches_normalized_iff [OF assms(1)] matches_normalized_iff [OF assms(2)]
    by (metis option.inject)
qed

theorem could_overlap_exact_witness:
  "\<not> (\<exists>attrs. bt_sorted attrs \<and> matches_normalized sample_root attrs \<and>
      matches_normalized (sample_root\<lparr>match_pattern := [(''type'', ''tenant'')]\<rparr>) attrs)"
proof -
  have "\<not> could_overlap sample_root (sample_root\<lparr>match_pattern := [(''type'', ''tenant'')]\<rparr>)"
    by (simp add: could_overlap_def sample_root_def is_var_def)
  moreover have "bt_sorted (match_pattern sample_root)"
    and "bt_sorted (match_pattern (sample_root\<lparr>match_pattern := [(''type'', ''tenant'')]\<rparr>))"
    by (simp_all add: sample_root_def)
  ultimately show ?thesis using could_overlap_exact by blast
qed

lemma unbound_variables_iff:
  assumes "rule_parent r = Pattern q"
  shows "check_unbound_variables n i r = [] \<longleftrightarrow> set (variables q) \<subseteq> set (variables (match_pattern r))"
  using assms by (force simp: check_unbound_variables_def filter_empty_conv image_iff subset_iff)

lemma unbound_variables_severity: "d \<in> set (check_unbound_variables n i r) \<Longrightarrow> diag_severity d = SevError"
  by (auto simp: check_unbound_variables_def split: parent_ref.splits)

definition lint_clean :: "rule_registry \<Rightarrow> bool" where
  "lint_clean g \<longleftrightarrow> list_all (\<lambda>d. diag_severity d \<noteq> SevError) (lint g)"

lemma lint_clean_namespace:
  assumes "lint_clean g" and "n \<in> set (namespaces g)"
  shows "list_ex is_attachment_boundary (routing_rules n) \<Longrightarrow> attachment n \<noteq> None"
    and "r \<in> set (routing_rules n) \<Longrightarrow> rule_parent r = Pattern q \<Longrightarrow>
           set (variables q) \<subseteq> set (variables (match_pattern r))"
proof -
  have clean: "diag_severity d \<noteq> SevError" if "d \<in> set (lint_namespace n)" for d
    using assms that by (auto simp: lint_clean_def lint_def list_all_iff)
  show "attachment n \<noteq> None" if "list_ex is_attachment_boundary (routing_rules n)"
    using clean that by (fastforce simp: lint_namespace_def check_missing_attachment_def)
  show "set (variables q) \<subseteq> set (variables (match_pattern r))"
    if r: "r \<in> set (routing_rules n)" and q: "rule_parent r = Pattern q"
  proof -
    from r obtain i where i: "i < length (routing_rules n)" "r = routing_rules n ! i"
      by (auto simp: in_set_conv_nth)
    then have "set (check_unbound_variables n i r) \<subseteq> set (lint_namespace n)"
      by (auto simp: lint_namespace_def check_rules_unbound_def)
    then have "check_unbound_variables n i r = []"
      using clean unbound_variables_severity by (metis last_in_set subsetD)
    then show ?thesis by (simp only: unbound_variables_iff [OF q])
  qed
qed

text \<open>
  C23: a configuration without lint errors never strands a key. In a well-formed registry for
  which the linter reports no error, once a rule is selected for normalized attributes, the next
  step of the resolver succeeds: a root, the attachment of the namespace or an interpolated parent
  (as long as the captured values fit the identity budget).
\<close>

theorem lint_clean_resolves:
  assumes "registry_wf (env_nfc env) g" and "lint_clean g" and "flat_normal (env_nfc env) attrs"
    and "match_rule (env_nfc env) g attrs = Some m"
    and "flat_cost (rm_bindings m) \<le> MAX_IDENTITY_BYTES"
  shows "\<exists>next_step. next_attrs env g attrs = Ok next_step \<and>
           (next_step = None \<longleftrightarrow> rule_parent (rm_rule m) = Root)"
proof -
  note member = match_rule_member [OF assms(4)]
  have ns: "rm_namespace m \<in> set (namespaces g)" "rm_rule m \<in> set (routing_rules (rm_namespace m))"
    using member(1) by (auto simp: all_rules_def)
  have normal: "rule_normal (env_nfc env) (rm_rule m)" by (rule all_rules_normal [OF assms(1) member(1)])
  have matches: "matches_normalized (rm_rule m) attrs"
    using member(2) assms(3) by (simp add: rule_matches_normal [OF normal])
  have bindings: "rm_bindings m = extract_bindings (env_nfc env) (rm_rule m) attrs"
    by (rule match_rule_Some(2) [OF assms(4)])
  show ?thesis
  proof (cases "rule_parent (rm_rule m)")
    case Attachment
    then have "list_ex is_attachment_boundary (routing_rules (rm_namespace m))"
      using ns(2) by (auto simp: list_ex_iff is_attachment_boundary_def)
    from lint_clean_namespace(1) [OF assms(2) ns(1) this] Attachment show ?thesis
      by (auto simp: next_attrs_def assms(4) is_root_def is_attachment_boundary_def)
  next
    case (Pattern q)
    note sub = lint_clean_namespace(2) [OF assms(2) ns Pattern]
    have "flat_cost (captured (rm_rule m) attrs) \<le> MAX_IDENTITY_BYTES"
      using assms(5) by (simp add: bindings extract_bindings_normal [OF normal assms(3) matches])
    with sub resolve_parent_captured [OF normal assms(3) matches Pattern]
    have "resolve_parent (env_nfc env) (rm_rule m) (rm_bindings m) \<noteq> None" by (simp add: bindings)
    with Pattern show ?thesis
      by (auto simp: next_attrs_def assms(4) is_root_def is_attachment_boundary_def)
  qed (simp add: next_attrs_def assms(4) is_root_def)
qed

theorem lint_clean_resolves_witness:
  "\<exists>next_step. next_attrs sample_env sample_registry [(''tenant'', ''acme'')] = Ok next_step \<and> next_step \<noteq> None"
proof -
  have clean: "lint_clean sample_registry"
    by (simp add: lint_clean_def lint_def lint_namespace_def sample_defs check_empty_namespace_def check_depth_budget_def
        check_missing_attachment_def is_attachment_boundary_def check_rules_unbound_def check_unbound_variables_def
        check_ambiguous_rules_def check_unreachable_rules_def shadows_def subsumes_def could_overlap_def Let_def
        rule_rank_def specificity_def is_var_def upt_rec)
  let ?m = "\<lparr>rm_rule = sample_tenant, rm_namespace = sample_namespace, rm_bindings = [(''$T'', ''acme'')]\<rparr>"
  have m: "match_rule (env_nfc sample_env) sample_registry [(''tenant'', ''acme'')] = Some ?m"
    by (simp add: sample_env_def sample_defs match_rule_def rule_matches_def
      normalized_rule_def normalize_pattern_def normalize_flat_def normalize_eval is_var_def matches_normalized_def
      entry_matches_def extract_bindings_def captured_def bt_collect_def better_def less_char_def)
  have wf: "registry_wf (env_nfc sample_env) sample_registry"
    and attrs: "flat_normal (env_nfc sample_env) [(''tenant'', ''acme'')]"
    using sample_registry_wf sample_attrs_normal by (simp_all add: sample_env_def)
  have "flat_cost (rm_bindings ?m) \<le> MAX_IDENTITY_BYTES" by (simp add: MAX_IDENTITY_BYTES_def)
  from lint_clean_resolves [OF wf clean attrs m this] show ?thesis by (auto simp: sample_tenant_def)
qed

end
