(* ===== verification/Material.thy ===== *)
theory Material
  imports Codec
begin

text \<open>
  Durable key material and its compatibility codec (\<open>material.rs\<close>), and key versions
  (\<open>KeyVersionRecord\<close> in \<open>key.rs\<close>). Serialization is modelled between the record and the
  field-level wire structures of the source (\<open>VersionWire\<close>, \<open>WrappedWire\<close>, \<open>FormatWire\<close>); turning
  those structures into JSON text is derived code. A field of a wire structure is absent or
  present, as the source's \<open>Field\<close> is. Timestamps are integers.
\<close>

section \<open>Material\<close>

type_synonym timestamp = int

record parent_wrapped_material =
  pw_provider_ref :: provider_ref
  pw_security_domain :: wrapping_identifier
  pw_parent :: versioned_key_id
  pw_context_version :: wrapping_context_version
  pw_key_format :: wrapped_key_format
  pw_mechanism :: wrapping_identifier
  pw_material_ref :: wrapping_identifier

datatype key_material =
    ProviderResident key_handle "provider_ref option"
  | ParentWrapped parent_wrapped_material

definition parent_wrapped_new ::
  "provider_ref \<Rightarrow> wrapping_identifier \<Rightarrow> versioned_key_id \<Rightarrow> wrapping_context_version \<Rightarrow>
     wrapped_key_format \<Rightarrow> wrapping_identifier \<Rightarrow> wrapping_identifier \<Rightarrow>
     (parent_wrapped_material, wrapping_error) result" where
  "parent_wrapped_new p d parent v f m r =
     and_then (identifier_new (provider_str p)) (\<lambda>_.
       Ok \<lparr>pw_provider_ref = p, pw_security_domain = d, pw_parent = parent, pw_context_version = v,
           pw_key_format = f, pw_mechanism = m, pw_material_ref = r\<rparr>)"

record key_version_record =
  version_number :: u64
  material :: key_material
  kv_created_at :: timestamp
  is_primary :: bool

definition version_provider_resident ::
  "u64 \<Rightarrow> key_handle \<Rightarrow> provider_ref option \<Rightarrow> timestamp \<Rightarrow> bool \<Rightarrow> key_version_record" where
  "version_provider_resident n h p created primary =
     \<lparr>version_number = n, material = ProviderResident h p, kv_created_at = created, is_primary = primary\<rparr>"

definition version_provider_ref :: "key_version_record \<Rightarrow> provider_ref option" where
  "version_provider_ref v = (case material v of
       ProviderResident _ p \<Rightarrow> p
     | ParentWrapped m \<Rightarrow> Some (pw_provider_ref m))"

definition resident_handle :: "key_version_record \<Rightarrow> (key_handle, keyrack_error) result" where
  "resident_handle v = (case material v of
       ProviderResident h _ \<Rightarrow> Ok h
     | ParentWrapped _ \<Rightarrow>
         Err (Provider ''parent-wrapped material is not supported by this operation''))"

definition set_resident_handle :: "key_version_record \<Rightarrow> key_handle \<Rightarrow> (key_version_record, keyrack_error) result" where
  "set_resident_handle v h = (case material v of
       ProviderResident _ p \<Rightarrow> Ok (v\<lparr>material := ProviderResident h p\<rparr>)
     | ParentWrapped _ \<Rightarrow>
         Err (Provider ''parent-wrapped material is not supported by this operation''))"

section \<open>Wire structures\<close>

datatype 'a field = Missing | Present 'a

datatype format_kind = KRawSecret | KPkcs8Der | KProviderNative

record format_wire =
  fw_kind :: format_kind
  fw_name :: "string field"

datatype material_kind = KParentWrapped

record wrapped_wire =
  ww_kind :: material_kind
  ww_format_version :: u16
  ww_provider_ref :: provider_ref
  ww_security_domain :: string
  ww_parent_lid :: "32 bytes"
  ww_parent_version :: u64
  ww_context_version :: u16
  ww_key_format :: format_wire
  ww_mechanism :: string
  ww_material_ref :: string

record version_wire =
  vw_version_number :: u64
  vw_key_handle :: "key_handle field"
  vw_provider_ref :: "provider_ref option field"
  vw_material :: "wrapped_wire field"
  vw_created_at :: timestamp
  vw_is_primary :: bool

datatype codec_error = MissingField string | Custom string | CustomWrapping wrapping_error

definition MATERIAL_FORMAT_VERSION :: u16 where
  "MATERIAL_FORMAT_VERSION = 1"

definition format_to_wire :: "wrapped_key_format \<Rightarrow> format_wire" where
  "format_to_wire f = (case f of
       RawSecret \<Rightarrow> \<lparr>fw_kind = KRawSecret, fw_name = Missing\<rparr>
     | Pkcs8Der \<Rightarrow> \<lparr>fw_kind = KPkcs8Der, fw_name = Missing\<rparr>
     | ProviderNative name \<Rightarrow> \<lparr>fw_kind = KProviderNative, fw_name = Present (ident_str name)\<rparr>)"

definition format_from_wire :: "format_wire \<Rightarrow> (wrapped_key_format, wrapping_error) result" where
  "format_from_wire w = (case (fw_kind w, fw_name w) of
       (KRawSecret, Missing) \<Rightarrow> Ok RawSecret
     | (KPkcs8Der, Missing) \<Rightarrow> Ok Pkcs8Der
     | (KProviderNative, Present name) \<Rightarrow> and_then (identifier_new name) (\<lambda>i. Ok (ProviderNative i))
     | _ \<Rightarrow> Err InvalidKeyFormat)"

definition wrapped_to_wire :: "parent_wrapped_material \<Rightarrow> wrapped_wire" where
  "wrapped_to_wire m =
     \<lparr>ww_kind = KParentWrapped, ww_format_version = MATERIAL_FORMAT_VERSION,
      ww_provider_ref = pw_provider_ref m, ww_security_domain = ident_str (pw_security_domain m),
      ww_parent_lid = lid_bytes (vk_lid (pw_parent m)),
      ww_parent_version = nz_get (vk_version (pw_parent m)),
      ww_context_version = (case pw_context_version m of WV1 \<Rightarrow> 1),
      ww_key_format = format_to_wire (pw_key_format m), ww_mechanism = ident_str (pw_mechanism m),
      ww_material_ref = ident_str (pw_material_ref m)\<rparr>"

definition serialize_version :: "key_version_record \<Rightarrow> (version_wire, codec_error) result" where
  "serialize_version v = (case material v of
       ParentWrapped m \<Rightarrow>
         if version_number v = 0 then Err (CustomWrapping ZeroKeyVersion)
         else Ok \<lparr>vw_version_number = version_number v, vw_key_handle = Missing, vw_provider_ref = Missing,
                  vw_material = Present (wrapped_to_wire m), vw_created_at = kv_created_at v,
                  vw_is_primary = is_primary v\<rparr>
     | ProviderResident h p \<Rightarrow>
         Ok \<lparr>vw_version_number = version_number v, vw_key_handle = Present h, vw_provider_ref = Present p,
             vw_material = Missing, vw_created_at = kv_created_at v, vw_is_primary = is_primary v\<rparr>)"

definition wrapped_from_wire :: "wrapped_wire \<Rightarrow> (parent_wrapped_material, codec_error) result" where
  "wrapped_from_wire w = map_err CustomWrapping (
     and_then (identifier_new (ww_security_domain w)) (\<lambda>d.
     and_then (versioned_key_id_new (Lid (ww_parent_lid w)) (ww_parent_version w)) (\<lambda>parent.
     and_then (context_version_try_from (ww_context_version w)) (\<lambda>v.
     and_then (format_from_wire (ww_key_format w)) (\<lambda>f.
     and_then (identifier_new (ww_mechanism w)) (\<lambda>m.
     and_then (identifier_new (ww_material_ref w)) (\<lambda>r.
       parent_wrapped_new (ww_provider_ref w) d parent v f m r)))))))"

definition material_from_wire :: "version_wire \<Rightarrow> (key_material, codec_error) result" where
  "material_from_wire w = (case vw_material w of
       Missing \<Rightarrow> (case vw_key_handle w of
           Missing \<Rightarrow> Err (MissingField ''key_handle'')
         | Present h \<Rightarrow>
             Ok (ProviderResident h (case vw_provider_ref w of Missing \<Rightarrow> None | Present p \<Rightarrow> p)))
     | Present m \<Rightarrow>
         if vw_key_handle w \<noteq> Missing \<or> vw_provider_ref w \<noteq> Missing
         then Err (Custom ''material conflicts with legacy key_handle/provider_ref fields'')
         else if ww_format_version m \<noteq> MATERIAL_FORMAT_VERSION
         then Err (Custom ''unsupported material format version'')
         else if vw_version_number w = 0 then Err (CustomWrapping ZeroKeyVersion)
         else and_then (wrapped_from_wire m) (\<lambda>x. Ok (ParentWrapped x)))"

definition deserialize_version :: "version_wire \<Rightarrow> (key_version_record, codec_error) result" where
  "deserialize_version w = and_then (material_from_wire w) (\<lambda>m.
     Ok \<lparr>version_number = vw_version_number w, material = m, kv_created_at = vw_created_at w,
         is_primary = vw_is_primary w\<rparr>)"

section \<open>Round trips\<close>

text \<open>
  What \<open>ParentWrappedMaterial::new\<close> establishes beyond the field types: the provider name is a
  valid identifier. The fields are private, so every value of the program has it.
\<close>

definition material_wf :: "key_material \<Rightarrow> bool" where
  "material_wf m = (case m of ProviderResident _ _ \<Rightarrow> True
     | ParentWrapped p \<Rightarrow> is_ok (identifier_new (provider_str (pw_provider_ref p))))"

lemma format_from_to_wire [simp]: "format_from_wire (format_to_wire f) = Ok f"
  by (cases f) (simp_all add: format_from_wire_def format_to_wire_def)

lemma format_to_from_wire: "format_from_wire w = Ok f \<Longrightarrow> format_to_wire f = w"
  by (cases w; cases "fw_kind w"; cases "fw_name w")
     (auto simp: format_from_wire_def format_to_wire_def identifier_new_Ok_iff)

lemma format_to_wire_inject [simp]: "format_to_wire f = format_to_wire g \<longleftrightarrow> f = g"
  by (metis format_from_to_wire result.inject(1))

lemma context_version_try_from_Ok: "context_version_try_from n = Ok v \<longleftrightarrow> n = 1 \<and> v = WV1"
  by (auto simp: context_version_try_from_def)

lemma wrapped_to_wire_inject [simp]: "wrapped_to_wire m = wrapped_to_wire n \<longleftrightarrow> m = n"
proof
  assume "wrapped_to_wire m = wrapped_to_wire n"
  then have "vk_lid (pw_parent m) = vk_lid (pw_parent n)" "vk_version (pw_parent m) = vk_version (pw_parent n)"
    and "pw_provider_ref m = pw_provider_ref n" "pw_security_domain m = pw_security_domain n"
    "pw_key_format m = pw_key_format n" "pw_mechanism m = pw_mechanism n" "pw_material_ref m = pw_material_ref n"
    by (auto simp: wrapped_to_wire_def ident_str_inject_iff intro: lid.expand)
  moreover have "pw_context_version m = pw_context_version n"
    by (cases "pw_context_version m"; cases "pw_context_version n") simp
  ultimately show "m = n"
    by (intro parent_wrapped_material.equality versioned_key_id.equality) simp_all
qed simp

lemma wrapped_from_to_wire:
  assumes "is_ok (identifier_new (provider_str (pw_provider_ref m)))"
  shows "wrapped_from_wire (wrapped_to_wire m) = Ok m"
proof -
  have v: "pw_context_version m = WV1" by (cases "pw_context_version m") simp
  obtain i where "identifier_new (provider_str (pw_provider_ref m)) = Ok i"
    using assms by (auto simp: is_ok_iff)
  with v show ?thesis
    by (cases m) (simp add: wrapped_from_wire_def wrapped_to_wire_def versioned_key_id_new_def
        context_version_try_from_def parent_wrapped_new_def)
qed

lemma wrapped_to_from_wire:
  assumes "wrapped_from_wire w = Ok m" and "ww_format_version w = MATERIAL_FORMAT_VERSION"
  shows "wrapped_to_wire m = w \<and> is_ok (identifier_new (provider_str (pw_provider_ref m)))"
proof -
  have "ww_kind w = KParentWrapped" by (cases "ww_kind w") simp
  with assms show ?thesis
    by (cases w) (auto simp: wrapped_from_wire_def wrapped_to_wire_def identifier_new_Ok_iff
        context_version_try_from_Ok versioned_key_id_new_def nonzero_new_Some_iff
        parent_wrapped_new_def format_to_from_wire)
qed

lemma serialize_inject:
  assumes "serialize_version v = Ok x" and "serialize_version w = Ok x"
  shows "v = w"
  using assms
  by (cases v; cases w; cases "material v"; cases "material w")
     (auto simp: serialize_version_def split: if_splits)

lemma deserialize_serialize:
  assumes "serialize_version v = Ok w" and "material_wf (material v)"
  shows "deserialize_version w = Ok v"
proof (cases "material v")
  case (ProviderResident h p)
  with assms(1) show ?thesis
    by (cases v) (auto simp: serialize_version_def deserialize_version_def material_from_wire_def)
next
  case (ParentWrapped m)
  then have "wrapped_from_wire (wrapped_to_wire m) = Ok m"
    using assms(2) by (simp add: material_wf_def wrapped_from_to_wire)
  moreover have "ww_format_version (wrapped_to_wire m) = MATERIAL_FORMAT_VERSION"
    by (simp add: wrapped_to_wire_def)
  ultimately show ?thesis
    using assms(1) ParentWrapped
    by (cases v) (auto simp: serialize_version_def deserialize_version_def material_from_wire_def
        split: if_splits)
qed

lemma serialize_deserialize:
  assumes "deserialize_version w = Ok v"
  shows "material_wf (material v)"
    and "serialize_version v = Ok (case vw_material w of Present _ \<Rightarrow> w
       | Missing \<Rightarrow> w\<lparr>vw_provider_ref := Present (version_provider_ref v)\<rparr>)"
proof -
  obtain m where m: "material_from_wire w = Ok m"
    and v: "v = \<lparr>version_number = vw_version_number w, material = m, kv_created_at = vw_created_at w,
                 is_primary = vw_is_primary w\<rparr>"
    using assms by (auto simp: deserialize_version_def)
  show "material_wf (material v)"
    using m v by (auto simp: material_from_wire_def material_wf_def wrapped_to_from_wire
        split: field.splits if_splits)
  show "serialize_version v = Ok (case vw_material w of Present _ \<Rightarrow> w
       | Missing \<Rightarrow> w\<lparr>vw_provider_ref := Present (version_provider_ref v)\<rparr>)"
    using m v wrapped_to_from_wire
    by (cases w) (auto simp: material_from_wire_def serialize_version_def version_provider_ref_def
        split: field.splits if_splits)
qed

section \<open>Properties\<close>

text \<open>
  The persistence codec of a key version is faithful. What is serialized is read back
  unchanged; what is read is valid and serializes to the same fields, except that an absent legacy
  provider binding is written out explicitly. Wrapped material is never read as resident.
\<close>

theorem version_codec_roundtrip:
  "(serialize_version v = Ok w \<and> material_wf (material v) \<longleftrightarrow>
      deserialize_version w = Ok v \<and>
      (vw_material w = Missing \<longrightarrow> vw_provider_ref w = Present (version_provider_ref v)))"
proof
  assume A: "serialize_version v = Ok w \<and> material_wf (material v)"
  then have "deserialize_version w = Ok v" by (simp add: deserialize_serialize)
  moreover have "vw_material w = Missing \<longrightarrow> vw_provider_ref w = Present (version_provider_ref v)"
    using A by (auto simp: serialize_version_def version_provider_ref_def split: key_material.splits if_splits)
  ultimately show "deserialize_version w = Ok v \<and>
      (vw_material w = Missing \<longrightarrow> vw_provider_ref w = Present (version_provider_ref v))" by blast
next
  assume B: "deserialize_version w = Ok v \<and>
      (vw_material w = Missing \<longrightarrow> vw_provider_ref w = Present (version_provider_ref v))"
  then show "serialize_version v = Ok w \<and> material_wf (material v)"
    using serialize_deserialize [of w v] by (cases "vw_material w") auto
qed

definition sample_version_wire :: version_wire where
  "sample_version_wire = \<lparr>vw_version_number = 3, vw_key_handle = Present \<lparr>key_id = ''h'', handle_spec = Aes256\<rparr>,
     vw_provider_ref = Present None, vw_material = Missing, vw_created_at = 0, vw_is_primary = True\<rparr>"

definition sample_version :: key_version_record where
  "sample_version = version_provider_resident 3 \<lparr>key_id = ''h'', handle_spec = Aes256\<rparr> None 0 True"

theorem version_codec_roundtrip_witness:
  "deserialize_version sample_version_wire = Ok sample_version"
  using version_codec_roundtrip [of sample_version sample_version_wire]
  by (simp add: sample_version_def sample_version_wire_def version_provider_resident_def
      serialize_version_def material_wf_def)

end
