(* ===== verification/Key_Record.thy ===== *)
theory Key_Record
  imports Material Tags
begin

text \<open>
  The key record and its guarded mutations (\<open>KeyRecord\<close> in \<open>key.rs\<close>): the lifecycle transition with
  the compromise latch, the exportability transition with the export latch. A method on
  \<open>&mut self\<close> returns its result and the new record; \<open>Utc::now()\<close> is the argument \<open>now\<close>. The
  optimistic-concurrency counter is a 64-bit word, whose increment wraps as in a release build.
\<close>

section \<open>Record and queries\<close>

record key_record =
  kr_lid :: lid
  kr_canonicalization_version :: canonicalization_version
  parent_lid :: "lid option"
  occ_version :: u64
  current_key_version :: u64
  kr_state :: key_state
  was_compromised :: bool
  kr_key_usage :: key_usage
  kr_key_spec :: key_spec
  kr_origin :: key_origin
  kr_provider_class :: provider_class
  kr_provider_ref :: "provider_ref option"
  kr_exportability :: exportability
  first_exported_at :: "timestamp option"
  owner_principal_id :: "string option"
  kr_identity_tags :: identity_tags
  kr_user_tags :: user_tags
  kr_created_at :: timestamp
  updated_at :: timestamp
  scheduled_deletion_at :: "timestamp option"
  description :: string
  key_versions :: "key_version_record list"

definition has_compromise_history :: "key_record \<Rightarrow> bool" where
  "has_compromise_history r \<longleftrightarrow> was_compromised r \<or> kr_state r = Compromised"

definition permits_encrypt :: "key_record \<Rightarrow> bool" where
  "permits_encrypt r \<longleftrightarrow> \<not> has_compromise_history r \<and> state_permits_encrypt (kr_state r)"

definition permits_decrypt :: "key_record \<Rightarrow> bool" where
  "permits_decrypt r \<longleftrightarrow> \<not> has_compromise_history r \<and> state_permits_decrypt (kr_state r)"

definition permits_export :: "key_record \<Rightarrow> bool" where
  "permits_export r \<longleftrightarrow> \<not> has_compromise_history r \<and> state_permits_export (kr_state r)"

definition get_version :: "key_record \<Rightarrow> u64 \<Rightarrow> key_version_record option" where
  "get_version r n = List.find (\<lambda>v. version_number v = n) (key_versions r)"

definition primary_version :: "key_record \<Rightarrow> key_version_record option" where
  "primary_version r = List.find (\<lambda>v. version_number v = current_key_version r) (key_versions r)"

definition is_resident :: "key_version_record \<Rightarrow> bool" where
  "is_resident v = (case material v of ProviderResident _ _ \<Rightarrow> True | ParentWrapped _ \<Rightarrow> False)"

definition has_legacy_parent_semantics :: "key_record \<Rightarrow> bool" where
  "has_legacy_parent_semantics r \<longleftrightarrow> parent_lid r \<noteq> None \<and> list_ex is_resident (key_versions r)"

definition effective_provider_ref :: "key_record \<Rightarrow> u64 \<Rightarrow> provider_ref option" where
  "effective_provider_ref r n =
     (case Option.bind (get_version r n) version_provider_ref of
        Some p \<Rightarrow> Some p
      | None \<Rightarrow> kr_provider_ref r)"

section \<open>Mutations\<close>

definition transition_to ::
  "timestamp \<Rightarrow> key_state \<Rightarrow> key_record \<Rightarrow> (key_state, key_state \<times> key_state) result \<times> key_record" where
  "transition_to now target r =
     (let from = kr_state r in
      if can_transition_to from target \<and> \<not> (target = Enabled \<and> has_compromise_history r)
      then (Ok target,
            r\<lparr>was_compromised := has_compromise_history r \<or> target = Compromised,
              kr_state := target, occ_version := occ_version r + 1, updated_at := now\<rparr>)
      else (Err (from, target), r))"

definition transition_exportability ::
  "timestamp \<Rightarrow> exportability \<Rightarrow> key_record \<Rightarrow> (exportability, string) result \<times> key_record" where
  "transition_exportability now target r =
     (let changed = r\<lparr>kr_exportability := target, occ_version := occ_version r + 1, updated_at := now\<rparr> in
      if kr_exportability r = target then (Ok target, r)
      else case (kr_exportability r, target) of
          (NonExportable, Exportable) \<Rightarrow> (Ok target, changed)
        | (Exportable, NonExportable) \<Rightarrow>
            if first_exported_at r \<noteq> None
            then (Err ''cannot revoke exportability: key material has already been exported'', r)
            else (Ok target, changed)
        | _ \<Rightarrow> (Err ''invalid exportability transition'', r))"

definition mark_exported :: "timestamp \<Rightarrow> key_record \<Rightarrow> key_record" where
  "mark_exported now r =
     (if first_exported_at r = None
      then r\<lparr>first_exported_at := Some now, occ_version := occ_version r + 1, updated_at := now\<rparr>
      else r)"

text \<open>
  \<open>serde_json::to_value\<close> of a record: the derived fields, and the versions through their own
  serializer. Two records with equal values are compared by \<open>same_json\<close> in \<open>creation.rs\<close> and
  \<open>destruction.rs\<close>.
\<close>

definition record_value :: "key_record \<Rightarrow> (key_record \<times> version_wire list, codec_error) result" where
  "record_value r = and_then (try_map serialize_version (key_versions r)) (\<lambda>vs.
     Ok (r\<lparr>key_versions := []\<rparr>, vs))"

lemma record_value_inject:
  assumes "record_value r = Ok x" and "record_value s = Ok x"
  shows "r = s"
proof -
  obtain vs where vs: "try_map serialize_version (key_versions r) = Ok vs"
    "try_map serialize_version (key_versions s) = Ok vs" and rest: "r\<lparr>key_versions := []\<rparr> = s\<lparr>key_versions := []\<rparr>"
    using assms by (auto simp: record_value_def)
  have "key_versions r = key_versions s"
    using serialize_inject vs by (rule try_map_inject)
  moreover have "r = (r\<lparr>key_versions := []\<rparr>)\<lparr>key_versions := key_versions r\<rparr>"
    and "s = (s\<lparr>key_versions := []\<rparr>)\<lparr>key_versions := key_versions s\<rparr>"
    by simp_all
  ultimately show ?thesis using rest by metis
qed

section \<open>The record state machine\<close>

text \<open>Every call a client can make on a record, whether it is accepted or refused.\<close>

inductive key_step :: "key_record \<Rightarrow> key_record \<Rightarrow> bool" where
  transition: "key_step r (snd (transition_to now target r))"
| exportability: "key_step r (snd (transition_exportability now e r))"
| exported: "key_step r (mark_exported now r)"

inductive_cases key_stepE: "key_step r r'"

definition key_reach :: "key_record \<Rightarrow> key_record \<Rightarrow> bool" where
  "key_reach r r' = key_step\<^sup>*\<^sup>* r r'"

lemmas mutation_defs =
  transition_to_def transition_exportability_def mark_exported_def has_compromise_history_def Let_def

lemma key_step_compromise:
  "key_step r r' \<Longrightarrow> has_compromise_history r \<Longrightarrow>
     has_compromise_history r' \<and> (kr_state r' = Enabled \<longrightarrow> kr_state r = Enabled)"
  by (erule key_stepE) (auto simp: mutation_defs split: exportability.splits)

lemma key_step_exported:
  "key_step r r' \<Longrightarrow> first_exported_at r = Some t \<Longrightarrow>
     first_exported_at r' = Some t \<and> (kr_exportability r = Exportable \<longrightarrow> kr_exportability r' = Exportable)"
  by (erule key_stepE) (auto simp: mutation_defs split: exportability.splits)

lemma key_step_destroyed: "key_step r r' \<Longrightarrow> kr_state r = Destroyed \<Longrightarrow> kr_state r' = Destroyed"
  by (erule key_stepE) (auto simp: mutation_defs split: exportability.splits)

lemma key_step_frame:
  "key_step r r' \<Longrightarrow> kr_lid r' = kr_lid r \<and> parent_lid r' = parent_lid r \<and> key_versions r' = key_versions r \<and>
     kr_identity_tags r' = kr_identity_tags r"
  by (erule key_stepE) (auto simp: mutation_defs split: exportability.splits)

lemma key_step_occ: "key_step r r' \<Longrightarrow> r' = r \<or> occ_version r' = occ_version r + 1"
  by (erule key_stepE) (auto simp: mutation_defs split: exportability.splits)

lemma key_step_state:
  "key_step r r' \<Longrightarrow> kr_state r' = kr_state r \<or> can_transition_to (kr_state r) (kr_state r')"
  by (erule key_stepE) (auto simp: mutation_defs split: exportability.splits)

lemma key_reach_induct [consumes 1, case_names refl step]:
  assumes "key_reach r r'" and "P r" and "\<And>s s'. key_reach r s \<Longrightarrow> key_step s s' \<Longrightarrow> P s \<Longrightarrow> P s'"
  shows "P r'"
  using assms unfolding key_reach_def by (induction rule: rtranclp_induct) auto

lemma key_reach_step: "key_reach r s \<Longrightarrow> key_step s s' \<Longrightarrow> key_reach r s'"
  by (simp add: key_reach_def rtranclp.rtrancl_into_rtrancl)

lemma key_reach_compromise:
  "key_reach r r' \<Longrightarrow> has_compromise_history r \<Longrightarrow>
     has_compromise_history r' \<and> (kr_state r' = Enabled \<longrightarrow> kr_state r = Enabled)"
  by (induction rule: key_reach_induct) (auto dest: key_step_compromise)

lemma compromised_refuses:
  "has_compromise_history r \<Longrightarrow> \<not> permits_encrypt r \<and> \<not> permits_decrypt r \<and> \<not> permits_export r \<and>
     transition_to now Enabled r = (Err (kr_state r, Enabled), r)"
  by (simp add: permits_encrypt_def permits_decrypt_def permits_export_def transition_to_def)

lemma key_reach_exported:
  "key_reach r r' \<Longrightarrow> first_exported_at r = Some t \<Longrightarrow>
     first_exported_at r' = Some t \<and> (kr_exportability r = Exportable \<longrightarrow> kr_exportability r' = Exportable)"
  by (induction rule: key_reach_induct) (auto dest: key_step_exported)

lemma key_reach_state: "key_reach r r' \<Longrightarrow> can_transition_to\<^sup>*\<^sup>* (kr_state r) (kr_state r')"
proof (induction rule: key_reach_induct)
  case (step s s')
  then show ?case
    using key_step_state [of s s'] by (metis rtranclp.rtrancl_into_rtrancl)
qed simp

lemma lifecycle_from_destroyed: "can_transition_to\<^sup>*\<^sup>* s t \<Longrightarrow> s = Destroyed \<Longrightarrow> t = Destroyed"
  by (induction rule: rtranclp_induct) auto

lemma lifecycle_to_creating: "can_transition_to\<^sup>*\<^sup>* s t \<Longrightarrow> t = Creating \<Longrightarrow> s = Creating"
proof (induction rule: rtranclp_induct)
  case (step t u)
  then show ?case by (cases t) auto
qed simp

section \<open>Properties\<close>

text \<open>A concrete record, for the witnesses.\<close>

definition sample_record :: "key_state \<Rightarrow> key_record" where
  "sample_record s = \<lparr>kr_lid = Lid (fill 1), kr_canonicalization_version = V2, parent_lid = None,
     occ_version = 4, current_key_version = 3, kr_state = s, was_compromised = False,
     kr_key_usage = EncryptDecrypt, kr_key_spec = Aes256, kr_origin = KeyRack,
     kr_provider_class = Software, kr_provider_ref = None, kr_exportability = Exportable,
     first_exported_at = Some 9, owner_principal_id = None, kr_identity_tags = IdentityTags [],
     kr_user_tags = UserTags [], kr_created_at = 0, updated_at = 0, scheduled_deletion_at = None,
     description = [], key_versions = [sample_version]\<rparr>"

text \<open>
  C7: compromise is permanent. Whatever sequence of calls follows, accepted or refused, a key with
  compromise history keeps it, refuses encryption, decryption and export, and refuses every
  attempt to enable it, deletion and its cancellation included. Verification is not refused: it
  depends on the state alone.
\<close>

theorem compromise_is_permanent:
  assumes "key_reach r r'" and "has_compromise_history r"
  shows "has_compromise_history r' \<and> \<not> permits_encrypt r' \<and> \<not> permits_decrypt r' \<and> \<not> permits_export r' \<and>
         transition_to now Enabled r' = (Err (kr_state r', Enabled), r')"
  using key_reach_compromise [OF assms] compromised_refuses by simp

theorem compromise_is_permanent_witness:
  "has_compromise_history (snd (transition_to 7 Disabled (snd (transition_to 6 PendingDeletion (sample_record Compromised))))) \<and>
   \<not> permits_decrypt (snd (transition_to 7 Disabled (snd (transition_to 6 PendingDeletion (sample_record Compromised)))))"
proof -
  have "key_reach (sample_record Compromised)
          (snd (transition_to 7 Disabled (snd (transition_to 6 PendingDeletion (sample_record Compromised)))))"
    by (rule key_reach_step [OF key_reach_step [OF _ transition] transition]) (simp add: key_reach_def)
  from compromise_is_permanent [OF this] show ?thesis
    by (simp add: has_compromise_history_def sample_record_def)
qed

text \<open>
  The export latch is permanent. Once material was exported, the first export time never
  changes and an exportable key never becomes non-exportable again.
\<close>

theorem export_latch_is_permanent:
  assumes "key_reach r r'" and "first_exported_at r = Some t"
  shows "first_exported_at r' = Some t \<and> (kr_exportability r = Exportable \<longrightarrow> kr_exportability r' = Exportable)"
  using assms by (rule key_reach_exported)

theorem export_latch_is_permanent_witness:
  "kr_exportability (snd (transition_exportability 5 NonExportable (sample_record Enabled))) = Exportable"
proof -
  have "key_reach (sample_record Enabled) (snd (transition_exportability 5 NonExportable (sample_record Enabled)))"
    by (rule key_reach_step [OF _ exportability]) (simp add: key_reach_def)
  from export_latch_is_permanent [OF this, of 9] show ?thesis
    by (simp add: sample_record_def)
qed

text \<open>
  C22: the lifecycle is the documented graph. Any sequence of calls moves the state along the
  edges of \<open>valid_transitions\<close>: destroyed is final and creating is never re-entered. A single call
  either leaves the record as it was or advances the concurrency counter by one, and never
  touches identity, parent or versions.
\<close>

theorem lifecycle_graph:
  "(key_reach r r' \<longrightarrow> can_transition_to\<^sup>*\<^sup>* (kr_state r) (kr_state r') \<and>
      (kr_state r = Destroyed \<longrightarrow> kr_state r' = Destroyed) \<and> (kr_state r' = Creating \<longrightarrow> kr_state r = Creating)) \<and>
   (key_step r r' \<longrightarrow> (r' = r \<or> occ_version r' = occ_version r + 1) \<and> kr_lid r' = kr_lid r \<and>
      parent_lid r' = parent_lid r \<and> key_versions r' = key_versions r)"
  using key_reach_state [of r r'] key_step_occ [of r r'] key_step_frame [of r r']
    lifecycle_from_destroyed [of "kr_state r" "kr_state r'"] lifecycle_to_creating [of "kr_state r" "kr_state r'"]
  by blast

theorem lifecycle_graph_witness:
  "can_transition_to\<^sup>*\<^sup>* Enabled Disabled \<and>
   occ_version (snd (transition_to 1 Disabled (sample_record Enabled))) = 5"
proof -
  have step: "key_step (sample_record Enabled) (snd (transition_to 1 Disabled (sample_record Enabled)))"
    by (rule transition)
  then have "key_reach (sample_record Enabled) (snd (transition_to 1 Disabled (sample_record Enabled)))"
    by (simp add: key_reach_def r_into_rtranclp)
  with step lifecycle_graph [of "sample_record Enabled" "snd (transition_to 1 Disabled (sample_record Enabled))"]
  show ?thesis
    by (simp add: transition_to_def sample_record_def has_compromise_history_def)
qed

end
