(* ===== verification/Provider_Registry.thy ===== *)
theory Provider_Registry
  imports Key_Record "HOL-Library.AList"
begin

text \<open>
  The provider registries (\<open>registry.rs\<close>): which configured backend serves a key version. A
  provider is an opaque value. A \<open>HashMap\<close> is an association list read through its lookup only;
  a Rust panic (\<open>expect\<close>) is \<^term>\<open>None\<close>. The read-write lock of the dynamic registry makes every call
  atomic; a poisoned lock needs a panic inside a critical section, and these have none.
\<close>

record 'p provider_entry =
  entry_provider :: 'p
  entry_class :: provider_class

type_synonym 'p providers = "(provider_ref \<times> 'p provider_entry) list"

record 'p registry =
  reg_providers :: "'p providers"
  reg_default :: provider_ref

definition unknown_provider :: "provider_ref \<Rightarrow> keyrack_error" where
  "unknown_provider name = ProviderUnavailable (''unknown provider '' @ [CHR 0x27] @ provider_str name @ [CHR 0x27])"

text \<open>\<open>collect\<close> into a \<open>HashMap\<close>: a later entry of the same name replaces an earlier one.\<close>

definition collect_providers :: "'p providers \<Rightarrow> 'p providers" where
  "collect_providers ps = fold (\<lambda>(name, entry) m. AList.update name entry m) ps []"

definition registry_new :: "'p providers \<Rightarrow> provider_ref \<Rightarrow> ('p registry, keyrack_error) result" where
  "registry_new ps dflt =
     (let providers = collect_providers ps in
      if providers = [] then Err (Other ''provider registry must contain at least one provider'')
      else if map_of providers dflt = None
      then Err (Other (''default provider '' @ [CHR 0x27] @ provider_str dflt @ [CHR 0x27] @
             '' is not among the configured providers''))
      else Ok \<lparr>reg_providers = providers, reg_default = dflt\<rparr>)"

definition registry_single :: "'p \<Rightarrow> provider_class \<Rightarrow> 'p registry" where
  "registry_single p c =
     \<lparr>reg_providers = AList.update (ProviderRef ''default'') \<lparr>entry_provider = p, entry_class = c\<rparr> [],
      reg_default = ProviderRef ''default''\<rparr>"

definition registry_entries :: "'p registry \<Rightarrow> 'p providers" where
  "registry_entries g = reg_providers g"

definition registry_resolve :: "'p registry \<Rightarrow> provider_ref \<Rightarrow> ('p provider_entry, keyrack_error) result" where
  "registry_resolve g name = ok_or (unknown_provider name) (map_of (reg_providers g) name)"

definition registry_default_entry :: "'p registry \<Rightarrow> 'p provider_entry option" where
  "registry_default_entry g = map_of (reg_providers g) (reg_default g)"

text \<open>The default methods of the trait \<open>ProviderRegistry\<close>, over the methods an implementation gives.\<close>

definition trait_contains ::
  "('r \<Rightarrow> provider_ref \<Rightarrow> ('p provider_entry, keyrack_error) result) \<Rightarrow> 'r \<Rightarrow> provider_ref \<Rightarrow> bool" where
  "trait_contains resolve g name = is_ok (resolve g name)"

definition resolve_for_version ::
  "('r \<Rightarrow> provider_ref \<Rightarrow> ('p provider_entry, keyrack_error) result) \<Rightarrow> ('r \<Rightarrow> 'p provider_entry option) \<Rightarrow>
     'r \<Rightarrow> key_record \<Rightarrow> u64 \<Rightarrow> ('p provider_entry, keyrack_error) result option" where
  "resolve_for_version resolve default_entry g r n = (case get_version r n of
       None \<Rightarrow> Some (Err (KeyNotFound (kr_lid r)))
     | Some v \<Rightarrow> (case (case version_provider_ref v of Some p \<Rightarrow> Some p | None \<Rightarrow> kr_provider_ref r) of
           Some name \<Rightarrow> Some (resolve g name)
         | None \<Rightarrow> map_option Ok (default_entry g)))"

definition resolve_for_primary ::
  "('r \<Rightarrow> provider_ref \<Rightarrow> ('p provider_entry, keyrack_error) result) \<Rightarrow> ('r \<Rightarrow> 'p provider_entry option) \<Rightarrow>
     'r \<Rightarrow> key_record \<Rightarrow> ('p provider_entry, keyrack_error) result option" where
  "resolve_for_primary resolve default_entry g r =
     resolve_for_version resolve default_entry g r (current_key_version r)"

definition static_register :: "'p registry \<Rightarrow> provider_ref \<Rightarrow> 'p provider_entry \<Rightarrow> ('p registry, keyrack_error) result" where
  "static_register g name e = Err (Other ''provider registry is static; runtime registration is not supported'')"

definition static_remove :: "'p registry \<Rightarrow> provider_ref \<Rightarrow> ('p registry, keyrack_error) result" where
  "static_remove g name = Err (Other ''provider registry is static; runtime removal is not supported'')"

definition dynamic_register :: "'p registry \<Rightarrow> provider_ref \<Rightarrow> 'p provider_entry \<Rightarrow> ('p registry, keyrack_error) result" where
  "dynamic_register g name e = Ok (g\<lparr>reg_providers := AList.update name e (reg_providers g)\<rparr>)"

definition dynamic_remove :: "'p registry \<Rightarrow> provider_ref \<Rightarrow> ('p registry, keyrack_error) result" where
  "dynamic_remove g name =
     (if name = reg_default g then Err (Other ''cannot remove the default provider'')
      else Ok (g\<lparr>reg_providers := AList.delete name (reg_providers g)\<rparr>))"

definition dynamic_contains :: "'p registry \<Rightarrow> provider_ref \<Rightarrow> bool" where
  "dynamic_contains g name \<longleftrightarrow> map_of (reg_providers g) name \<noteq> None"

section \<open>The registry interface\<close>

text \<open>
  What the service relies on: the default name always resolves, to the entry handed out for
  unbound keys, registration is last-write-wins, and removal never touches the default.
\<close>

locale provider_registry =
  fixes wf :: "'r \<Rightarrow> bool"
    and resolve_entry :: "'r \<Rightarrow> provider_ref \<Rightarrow> ('p provider_entry, keyrack_error) result"
    and default_entry :: "'r \<Rightarrow> 'p provider_entry option"
    and default_name :: "'r \<Rightarrow> provider_ref"
    and register_entry :: "'r \<Rightarrow> provider_ref \<Rightarrow> 'p provider_entry \<Rightarrow> ('r, keyrack_error) result"
    and remove_entry :: "'r \<Rightarrow> provider_ref \<Rightarrow> ('r, keyrack_error) result"
  assumes default_resolves: "wf g \<Longrightarrow> \<exists>e. default_entry g = Some e \<and> resolve_entry g (default_name g) = Ok e"
    and unknown_error: "resolve_entry g n = Err x \<Longrightarrow> x = unknown_provider n"
    and register_law: "wf g \<Longrightarrow> register_entry g n e = Ok h \<Longrightarrow>
       wf h \<and> default_name h = default_name g \<and> resolve_entry h n = Ok e \<and>
       (\<forall>m. m \<noteq> n \<longrightarrow> resolve_entry h m = resolve_entry g m)"
    and remove_law: "wf g \<Longrightarrow> remove_entry g n = Ok h \<Longrightarrow>
       wf h \<and> default_name h = default_name g \<and> n \<noteq> default_name g \<and>
       (\<forall>m. m \<noteq> n \<longrightarrow> resolve_entry h m = resolve_entry g m)"
begin

lemma step_keeps_default:
  assumes "wf g" and "register_entry g n e = Ok h \<or> remove_entry g n = Ok h"
  shows "wf h \<and> default_name h = default_name g"
  using assms register_law remove_law by blast

lemma version_lookup:
  assumes "wf g"
  shows "\<exists>x. resolve_for_version resolve_entry default_entry g r n = Some x \<and>
     (case get_version r n of
        None \<Rightarrow> x = Err (KeyNotFound (kr_lid r))
      | Some v \<Rightarrow> x = resolve_entry g (case effective_provider_ref r n of Some p \<Rightarrow> p | None \<Rightarrow> default_name g))"
  using default_resolves [OF assms]
  by (auto simp: resolve_for_version_def effective_provider_ref_def split: option.splits)

lemma version_lookup_error:
  assumes "wf g" and "get_version r n = Some v" and "resolve_for_version resolve_entry default_entry g r n = Some (Err x)"
  shows "\<exists>p. effective_provider_ref r n = Some p \<and> x = unknown_provider p"
  using version_lookup [OF assms(1), of r n] default_resolves [OF assms(1)] assms(2,3) unknown_error
  by (auto split: option.splits)

end

definition registry_wf_default :: "'p registry \<Rightarrow> bool" where
  "registry_wf_default g \<longleftrightarrow> map_of (reg_providers g) (reg_default g) \<noteq> None"

interpretation static_reg: provider_registry registry_wf_default registry_resolve registry_default_entry
  reg_default static_register static_remove
  by unfold_locales
     (auto simp: registry_wf_default_def registry_default_entry_def registry_resolve_def static_register_def
        static_remove_def ok_or_def split: option.splits)

interpretation dynamic_reg: provider_registry registry_wf_default registry_resolve registry_default_entry
  reg_default dynamic_register dynamic_remove
  by unfold_locales
     (auto simp: registry_wf_default_def registry_default_entry_def registry_resolve_def dynamic_register_def
        dynamic_remove_def ok_or_def update_conv' delete_conv' split: option.splits if_splits)

section \<open>Runs of the dynamic registry\<close>

inductive registry_run :: "'p registry \<Rightarrow> 'p registry \<Rightarrow> bool" where
  run_refl: "registry_run g g"
| run_register: "registry_run g h \<Longrightarrow> dynamic_register h n e = Ok k \<Longrightarrow> registry_run g k"
| run_remove: "registry_run g h \<Longrightarrow> dynamic_remove h n = Ok k \<Longrightarrow> registry_run g k"

lemma registry_run_wf:
  "registry_run g h \<Longrightarrow> registry_wf_default g \<Longrightarrow> registry_wf_default h \<and> reg_default h = reg_default g"
  by (induction rule: registry_run.induct) (auto dest: dynamic_reg.step_keeps_default)

lemma collect_providers_map_of: "map_of (collect_providers ps) = map_of (rev ps)"
proof -
  have "map_of (fold (\<lambda>(name, entry) m. AList.update name entry m) ps m) = map_of m ++ map_of (rev ps)" for m
    by (induction ps arbitrary: m) (auto simp: update_conv' map_add_def fun_eq_iff split: option.splits)
  from this [of "[]"] show ?thesis by (simp add: collect_providers_def)
qed

lemma registry_new_wf: "registry_new ps dflt = Ok g \<Longrightarrow> registry_wf_default g \<and> reg_default g = dflt"
  by (auto simp: registry_new_def registry_wf_default_def Let_def split: if_splits)

lemma contains_agree: "trait_contains registry_resolve g name \<longleftrightarrow> dynamic_contains g name"
  by (cases "map_of (reg_providers g) name") (simp_all add: trait_contains_def registry_resolve_def dynamic_contains_def)

section \<open>Properties\<close>

text \<open>
  Provider lookup never panics and never silently substitutes. In a registry built at start-up
  and then changed by any registrations and removals, looking up the backend of a key version
  returns; a version that exists resolves to exactly its effective binding (its own, else the
  record's, else the configured default), and the only failure is that this very name is unknown.
\<close>

theorem version_lookup_total:
  assumes "registry_new ps dflt = Ok g" and "registry_run g h"
  shows "\<exists>x. resolve_for_version registry_resolve registry_default_entry h r n = Some x \<and>
     (case get_version r n of
        None \<Rightarrow> x = Err (KeyNotFound (kr_lid r))
      | Some v \<Rightarrow>
          (let name = (case effective_provider_ref r n of Some p \<Rightarrow> p | None \<Rightarrow> dflt) in
           x = (case map_of (reg_providers h) name of
                  Some e \<Rightarrow> Ok e | None \<Rightarrow> Err (unknown_provider name)) \<and>
           (name = dflt \<longrightarrow> is_ok x)))"
proof -
  have wf: "registry_wf_default h" "reg_default h = dflt"
    using registry_new_wf [OF assms(1)] registry_run_wf [OF assms(2)] by auto
  then have "\<exists>e. map_of (reg_providers h) dflt = Some e" by (auto simp: registry_wf_default_def)
  with dynamic_reg.version_lookup [OF wf(1), of r n] show ?thesis
    unfolding wf(2) registry_resolve_def Let_def
    by (auto simp: ok_or_def split: option.splits)
qed

theorem version_lookup_total_witness:
  "\<exists>g h. registry_new [(ProviderRef ''a'', \<lparr>entry_provider = (1 :: nat), entry_class = Software\<rparr>)] (ProviderRef ''a'') = Ok g \<and>
     dynamic_register g (ProviderRef ''b'') \<lparr>entry_provider = 2, entry_class = Kmip\<rparr> = Ok h \<and>
     resolve_for_version registry_resolve registry_default_entry h (sample_record Enabled) 7 =
       Some (Err (KeyNotFound (Lid (fill 1))))"
proof -
  let ?ps = "[(ProviderRef ''a'', \<lparr>entry_provider = (1 :: nat), entry_class = Software\<rparr>)]"
  let ?g = "\<lparr>reg_providers = ?ps, reg_default = ProviderRef ''a''\<rparr>"
  have new: "registry_new ?ps (ProviderRef ''a'') = Ok ?g"
    by (simp add: registry_new_def collect_providers_def)
  obtain h where h: "dynamic_register ?g (ProviderRef ''b'') \<lparr>entry_provider = 2, entry_class = Kmip\<rparr> = Ok h"
    by (simp add: dynamic_register_def)
  have "get_version (sample_record Enabled) 7 = None" "kr_lid (sample_record Enabled) = Lid (fill 1)"
    by (simp_all add: get_version_def sample_record_def sample_version_def version_provider_resident_def)
  with version_lookup_total [OF new run_register [OF run_refl h], of "sample_record Enabled" 7] new h
  show ?thesis by auto
qed

end
