(* ===== verification/Provider_Routing.thy ===== *)
theory Provider_Routing
  imports Provider_Registry "HOL-Library.Sublist"
begin

text \<open>
  Which backend a new key is bound to: the operator's routing rules (\<open>routing.rs\<close>) and the policy
  that combines them with the caller's wishes (\<open>resolve_create_provider\<close> and \<open>explain_routing\<close> in
  the service's \<open>domain.rs\<close>). Error messages are built in full because \<open>explain_routing\<close> reads them
  back; the debug rendering of a list of names is a parameter.
\<close>

section \<open>Routing rules\<close>

datatype rule_action = Route provider_ref | Delegate "provider_ref list" | DelegateAny

record provider_rule =
  match_tags :: "(string, string) btreemap"
  rule_action :: rule_action

datatype route_outcome =
    Pinned provider_ref
  | Delegated "provider_ref list"
  | DelegatedAny
  | Default provider_ref

record provider_router =
  router_rules :: "provider_rule list"
  router_default :: provider_ref

fun normalize_rules ::
  "(string \<Rightarrow> string) \<Rightarrow> provider_rule list \<Rightarrow> (provider_rule list, keyrack_error) result" where
  "normalize_rules nfc [] = Ok []"
| "normalize_rules nfc (r # rs) =
     and_then (map_err InvalidIdentity (normalize_flat nfc (match_tags r))) (\<lambda>m.
     and_then (normalize_rules nfc rs) (\<lambda>rs. Ok (r\<lparr>match_tags := m\<rparr> # rs)))"

definition with_rules ::
  "(string \<Rightarrow> string) \<Rightarrow> provider_rule list \<Rightarrow> provider_ref \<Rightarrow> (provider_router, keyrack_error) result" where
  "with_rules nfc rules dflt =
     and_then (normalize_rules nfc rules) (\<lambda>rules. Ok \<lparr>router_rules = rules, router_default = dflt\<rparr>)"

definition router_new ::
  "(string \<Rightarrow> string) \<Rightarrow> ((string, string) btreemap \<times> provider_ref) list \<Rightarrow> provider_ref \<Rightarrow>
     (provider_router, keyrack_error) result" where
  "router_new nfc rules dflt =
     with_rules nfc (map (\<lambda>(m, p). \<lparr>match_tags = m, rule_action = Route p\<rparr>) rules) dflt"

definition tags_match :: "(string \<Rightarrow> string) \<Rightarrow> identity_tags \<Rightarrow> provider_rule \<Rightarrow> bool" where
  "tags_match nfc tags r = list_all (\<lambda>(k, v). identity_get nfc tags k = Some v) (match_tags r)"

definition action_outcome :: "rule_action \<Rightarrow> route_outcome" where
  "action_outcome a = (case a of
     Route p \<Rightarrow> Pinned p | Delegate ps \<Rightarrow> Delegated ps | DelegateAny \<Rightarrow> DelegatedAny)"

fun evaluate_rules :: "(string \<Rightarrow> string) \<Rightarrow> identity_tags \<Rightarrow> provider_ref \<Rightarrow> provider_rule list \<Rightarrow> route_outcome" where
  "evaluate_rules nfc tags dflt [] = Default dflt"
| "evaluate_rules nfc tags dflt (r # rs) =
     (if tags_match nfc tags r then action_outcome (rule_action r) else evaluate_rules nfc tags dflt rs)"

definition evaluate :: "(string \<Rightarrow> string) \<Rightarrow> provider_router \<Rightarrow> identity_tags \<Rightarrow> route_outcome" where
  "evaluate nfc g tags = evaluate_rules nfc tags (router_default g) (router_rules g)"

definition select :: "(string \<Rightarrow> string) \<Rightarrow> provider_router \<Rightarrow> identity_tags \<Rightarrow> provider_ref" where
  "select nfc g tags = (case evaluate nfc g tags of
     Pinned p \<Rightarrow> p | Default p \<Rightarrow> p | Delegated _ \<Rightarrow> router_default g | DelegatedAny \<Rightarrow> router_default g)"

definition has_rules :: "provider_router \<Rightarrow> bool" where
  "has_rules g \<longleftrightarrow> router_rules g \<noteq> []"

fun evaluate_indexed ::
  "(string \<Rightarrow> string) \<Rightarrow> identity_tags \<Rightarrow> provider_ref \<Rightarrow> nat \<Rightarrow> provider_rule list \<Rightarrow> route_outcome \<times> nat option" where
  "evaluate_indexed nfc tags dflt i [] = (Default dflt, None)"
| "evaluate_indexed nfc tags dflt i (r # rs) =
     (if tags_match nfc tags r then (action_outcome (rule_action r), Some i)
      else evaluate_indexed nfc tags dflt (Suc i) rs)"

definition evaluate_with_index ::
  "(string \<Rightarrow> string) \<Rightarrow> provider_router \<Rightarrow> identity_tags \<Rightarrow> route_outcome \<times> nat option" where
  "evaluate_with_index nfc g tags = evaluate_indexed nfc tags (router_default g) 0 (router_rules g)"

section \<open>Errors of the service\<close>

datatype domain_error =
    NotFound string
  | InvalidArgument string
  | FailedPrecondition string
  | PermissionDenied string
  | DomainProviderUnavailable string
  | Internal string
  | Core keyrack_error

text \<open>\<open>Display\<close>; the text of a core error is a parameter.\<close>

definition display_domain_error :: "(keyrack_error \<Rightarrow> string) \<Rightarrow> domain_error \<Rightarrow> string" where
  "display_domain_error display_core e = (case e of
     NotFound msg \<Rightarrow> ''not found: '' @ msg
   | InvalidArgument msg \<Rightarrow> ''invalid argument: '' @ msg
   | FailedPrecondition msg \<Rightarrow> ''failed precondition: '' @ msg
   | PermissionDenied msg \<Rightarrow> ''permission denied: '' @ msg
   | DomainProviderUnavailable msg \<Rightarrow> ''provider unavailable: '' @ msg
   | Internal msg \<Rightarrow> ''internal: '' @ msg
   | Core c \<Rightarrow> display_core c)"

text \<open>\<open>From<KeyRackError>\<close>.\<close>

definition domain_from :: "(keyrack_error \<Rightarrow> string) \<Rightarrow> keyrack_error \<Rightarrow> domain_error" where
  "domain_from display_core e = (case e of
     KeyNotFound _ \<Rightarrow> NotFound (display_core e)
   | Storage msg \<Rightarrow> if sublist ''not found'' msg then NotFound (display_core e) else Internal (display_core e)
   | DeletionDependencyRefused _ _ \<Rightarrow> FailedPrecondition (display_core e)
   | OperationNotPermitted _ _ _ \<Rightarrow> FailedPrecondition (display_core e)
   | ImmutableTag _ \<Rightarrow> InvalidArgument (display_core e)
   | InvalidIdentity _ \<Rightarrow> InvalidArgument (display_core e)
   | EncryptionContextMismatch \<Rightarrow> InvalidArgument (display_core e)
   | DepthLimitExceeded _ \<Rightarrow> InvalidArgument (display_core e)
   | CycleDetected _ \<Rightarrow> InvalidArgument (display_core e)
   | ProviderUnavailable _ \<Rightarrow> DomainProviderUnavailable (display_core e)
   | OptimisticConcurrencyConflict _ _ _ \<Rightarrow> Core e
   | InvalidStateTransition _ _ _ \<Rightarrow> Core e
   | KeyDestructionFenced _ \<Rightarrow> Core e
   | MigrationIntentConflict _ \<Rightarrow> Core e
   | WrappingParentDestroyed \<Rightarrow> Core e
   | _ \<Rightarrow> Internal (display_core e))"

section \<open>The provider of a new key\<close>

definition quoted :: "string \<Rightarrow> string" where
  "quoted s = [CHR 0x27] @ s @ [CHR 0x27]"

definition non_empty :: "string option \<Rightarrow> string option" where
  "non_empty x = (case x of Some s \<Rightarrow> if s = [] then None else Some s | None \<Rightarrow> None)"

definition reconcile_backend :: "string option \<Rightarrow> string option \<Rightarrow> (string option, domain_error) result" where
  "reconcile_backend hsm_connection_id backend_id = (case (non_empty backend_id, non_empty hsm_connection_id) of
     (Some bid, Some hid) \<Rightarrow>
       if bid \<noteq> hid then Err (FailedPrecondition (''backend_id '' @ quoted bid @ '' and hsm_connection_id '' @ quoted hid @
         '' disagree; use backend_id only (hsm_connection_id is deprecated)''))
       else Ok (Some bid)
   | (Some bid, None) \<Rightarrow> Ok (Some bid)
   | (None, Some hid) \<Rightarrow> Ok (Some hid)
   | (None, None) \<Rightarrow> Ok None)"

definition not_registered :: "string \<Rightarrow> domain_error" where
  "not_registered caller_id = FailedPrecondition (''backend_id '' @ quoted caller_id @ '' is not a registered provider'')"

definition apply_outcome ::
  "(string list \<Rightarrow> string) \<Rightarrow> provider_router \<Rightarrow> (provider_ref \<Rightarrow> bool) \<Rightarrow> route_outcome \<Rightarrow> string option \<Rightarrow>
     (provider_ref, domain_error) result" where
  "apply_outcome debug g contains outcome effective_backend = (case outcome of
     Pinned pinned \<Rightarrow> (case effective_backend of
         Some caller_id \<Rightarrow>
           if caller_id \<noteq> provider_str pinned then Err (FailedPrecondition (''routing policy pins provider '' @
             quoted (provider_str pinned) @ '' but backend_id '' @ quoted caller_id @
             '' was requested (route rules are authoritative)''))
           else Ok pinned
       | None \<Rightarrow> Ok pinned)
   | Delegated allowed_set \<Rightarrow> (case effective_backend of
         Some caller_id \<Rightarrow>
           let pref = ProviderRef caller_id in
           if \<not> contains pref then Err (not_registered caller_id)
           else if pref \<notin> set allowed_set
           then Err (PermissionDenied (''backend_id '' @ quoted caller_id @
             '' is not permitted by the delegate rule (allowed: '' @ debug (map provider_str allowed_set) @ '')''))
           else Ok pref
       | None \<Rightarrow> Ok (router_default g))
   | DelegatedAny \<Rightarrow> (case effective_backend of
         Some caller_id \<Rightarrow>
           let pref = ProviderRef caller_id in
           if \<not> contains pref then Err (not_registered caller_id) else Ok pref
       | None \<Rightarrow> Ok (router_default g))
   | Default default_provider \<Rightarrow> (case effective_backend of
         Some caller_id \<Rightarrow>
           let pref = ProviderRef caller_id in
           if \<not> contains pref then Err (not_registered caller_id)
           else if has_rules g \<and> pref \<noteq> default_provider
           then Err (PermissionDenied (''backend_id '' @ quoted caller_id @
             '' is not authorized: no routing rule matched and no delegate permits caller selection''))
           else Ok pref
       | None \<Rightarrow> Ok default_provider))"

definition selected_via :: "route_outcome \<Rightarrow> string option \<Rightarrow> string" where
  "selected_via outcome effective_backend = (case outcome of
     Pinned _ \<Rightarrow> ''route pin''
   | Delegated _ \<Rightarrow> ''delegate selection''
   | DelegatedAny \<Rightarrow> ''delegate selection''
   | Default _ \<Rightarrow> if effective_backend \<noteq> None then ''backend_id'' else ''routing policy'')"

definition resolve_create_provider ::
  "(string \<Rightarrow> string) \<Rightarrow> (string list \<Rightarrow> string) \<Rightarrow> provider_router \<Rightarrow> (provider_ref \<Rightarrow> bool) \<Rightarrow> identity_tags \<Rightarrow>
     string option \<Rightarrow> string option \<Rightarrow> string option \<Rightarrow> (provider_ref, domain_error) result" where
  "resolve_create_provider nfc debug g contains tags requested_provider hsm_connection_id backend_id =
     and_then (reconcile_backend hsm_connection_id backend_id) (\<lambda>effective_backend.
       let outcome = evaluate nfc g tags in
       and_then (apply_outcome debug g contains outcome effective_backend) (\<lambda>resolved.
         case non_empty requested_provider of
           Some req \<Rightarrow>
             if req \<noteq> provider_str resolved then Err (FailedPrecondition (''requested provider '' @ quoted req @
               '' but '' @ selected_via outcome effective_backend @ '' selected '' @ quoted (provider_str resolved)))
             else Ok resolved
         | None \<Rightarrow> Ok resolved))"

datatype explain_outcome = EOrouted | EOdelegated | EOdefault | EOdenied | EOclash

record explain_result =
  explained :: explain_outcome
  selected_backend_id :: string
  matched_rule_index :: int
  deny_reason :: string
  policy_configured :: bool

definition is_clash :: "string \<Rightarrow> bool" where
  "is_clash msg \<longleftrightarrow> sublist ''disagree'' msg \<or> sublist ''but backend_id'' msg \<or> sublist ''but route pin'' msg \<or>
     (sublist ''requested provider'' msg \<and> sublist ''selected'' msg)"

text \<open>The \<open>usize\<close> index cast to \<open>i32\<close>; a rule list has far fewer than \<open>2^31\<close> entries.\<close>

definition rule_index :: "nat option \<Rightarrow> int" where
  "rule_index i = (case i of Some i \<Rightarrow> signed_take_bit 31 (int i) | None \<Rightarrow> -1)"

definition explain_routing ::
  "(string \<Rightarrow> string) \<Rightarrow> (string list \<Rightarrow> string) \<Rightarrow> (keyrack_error \<Rightarrow> string) \<Rightarrow> provider_router \<Rightarrow> (provider_ref \<Rightarrow> bool) \<Rightarrow>
     identity_tags \<Rightarrow> string option \<Rightarrow> string option \<Rightarrow> string option \<Rightarrow> explain_result" where
  "explain_routing nfc debug display_core g contains tags requested_provider hsm_connection_id backend_id =
     (let (raw_outcome, i) = evaluate_with_index nfc g tags in
      case resolve_create_provider nfc debug g contains tags requested_provider hsm_connection_id backend_id of
        Ok resolved \<Rightarrow>
          \<lparr>explained = (case i of
               Some _ \<Rightarrow> (case raw_outcome of
                   Pinned _ \<Rightarrow> EOrouted | Delegated _ \<Rightarrow> EOdelegated | DelegatedAny \<Rightarrow> EOdelegated | Default _ \<Rightarrow> EOdefault)
             | None \<Rightarrow> EOdefault),
           selected_backend_id = provider_str resolved, matched_rule_index = rule_index i,
           deny_reason = [], policy_configured = has_rules g\<rparr>
      | Err e \<Rightarrow>
          (let msg = display_domain_error display_core e in
           \<lparr>explained = (if is_clash msg then EOclash else EOdenied),
            selected_backend_id = [], matched_rule_index = rule_index i,
            deny_reason = msg, policy_configured = has_rules g\<rparr>))"

section \<open>First match\<close>

definition first_match :: "(string \<Rightarrow> string) \<Rightarrow> identity_tags \<Rightarrow> provider_rule list \<Rightarrow> nat \<Rightarrow> bool" where
  "first_match nfc tags rules i \<longleftrightarrow>
     i < length rules \<and> tags_match nfc tags (rules ! i) \<and> (\<forall>j < i. \<not> tags_match nfc tags (rules ! j))"

definition no_match :: "(string \<Rightarrow> string) \<Rightarrow> identity_tags \<Rightarrow> provider_rule list \<Rightarrow> bool" where
  "no_match nfc tags rules \<longleftrightarrow> (\<forall>r \<in> set rules. \<not> tags_match nfc tags r)"

lemma first_match_Cons:
  "first_match nfc tags (r # rs) i \<longleftrightarrow>
     (if tags_match nfc tags r then i = 0 else \<exists>k. i = Suc k \<and> first_match nfc tags rs k)"
  by (cases i) (auto simp: first_match_def nth_Cons split: nat.splits)

lemma first_match_unique: "first_match nfc tags rules i \<Longrightarrow> first_match nfc tags rules j \<Longrightarrow> i = j"
  by (metis first_match_def linorder_neqE_nat)

lemma first_match_or_none: "no_match nfc tags rules \<longleftrightarrow> (\<nexists>i. first_match nfc tags rules i)"
  by (induction rules) (auto simp: no_match_def first_match_Cons first_match_def [of nfc tags "[]"])

lemma evaluate_indexed_eq:
  "evaluate_indexed nfc tags dflt n rules = (out, x) \<longleftrightarrow>
     (\<exists>i. first_match nfc tags rules i \<and> out = action_outcome (rule_action (rules ! i)) \<and> x = Some (n + i)) \<or>
     no_match nfc tags rules \<and> out = Default dflt \<and> x = None"
  by (induction rules arbitrary: n)
     (auto simp: first_match_Cons no_match_def first_match_def [of nfc tags "[]"])

lemma evaluate_with_index_fst: "fst (evaluate_with_index nfc g tags) = evaluate nfc g tags"
proof -
  have "fst (evaluate_indexed nfc tags dflt n rules) = evaluate_rules nfc tags dflt rules" for dflt n rules
    by (induction rules arbitrary: n) auto
  then show ?thesis by (simp add: evaluate_with_index_def evaluate_def)
qed

lemma evaluate_with_index_first_match:
  assumes "first_match nfc tags (router_rules g) i"
  shows "evaluate_with_index nfc g tags = (action_outcome (rule_action (router_rules g ! i)), Some i)"
  unfolding evaluate_with_index_def by (rule evaluate_indexed_eq [THEN iffD2]) (use assms in auto)

lemma evaluate_with_index_no_match:
  assumes "no_match nfc tags (router_rules g)"
  shows "evaluate_with_index nfc g tags = (Default (router_default g), None)"
  unfolding evaluate_with_index_def by (rule evaluate_indexed_eq [THEN iffD2]) (use assms in auto)

lemmas evaluate_first_match = arg_cong [OF evaluate_with_index_first_match, of _ _ _ _ fst, unfolded evaluate_with_index_fst fst_conv]
lemmas evaluate_no_match = arg_cong [OF evaluate_with_index_no_match, of _ _ _ fst, unfolded evaluate_with_index_fst fst_conv]

section \<open>Properties\<close>

text \<open>What the first matching rule lets a caller have, when they ask for \<open>wish\<close>.\<close>

definition rule_allows :: "provider_router \<Rightarrow> (provider_ref \<Rightarrow> bool) \<Rightarrow> rule_action \<Rightarrow> string option \<Rightarrow> provider_ref \<Rightarrow> bool" where
  "rule_allows g contains action wish p = (case action of
       Route q \<Rightarrow> p = q \<and> (wish = None \<or> wish = Some (provider_str q))
     | Delegate ps \<Rightarrow> wish = None \<and> p = router_default g \<or> wish = Some (provider_str p) \<and> contains p \<and> p \<in> set ps
     | DelegateAny \<Rightarrow> wish = None \<and> p = router_default g \<or> wish = Some (provider_str p) \<and> contains p)"

lemma apply_action_Ok:
  "apply_outcome debug g contains (action_outcome a) wish = Ok p \<longleftrightarrow> rule_allows g contains a wish p"
  by (cases a; cases wish; cases p)
     (auto simp: apply_outcome_def action_outcome_def rule_allows_def Let_def split: if_splits)

lemma apply_default_Ok:
  "apply_outcome debug g contains (Default d) wish = Ok p \<longleftrightarrow>
     wish = None \<and> p = d \<or> wish = Some (provider_str p) \<and> contains p \<and> (has_rules g \<longrightarrow> p = d)"
  by (cases wish; cases p) (auto simp: apply_outcome_def Let_def split: if_splits)

text \<open>
  C25: the backend of a new key obeys the operator's policy. A provider is returned exactly when the
  caller's identifiers agree, it is what the first matching rule allows (a pin is never overridden,
  a delegation goes to the default or to a registered provider of its set that the caller named), or,
  when no rule matches, the default or, only if no rule is configured at all, any registered
  provider the caller named. A pin and an unnamed default are returned without a look at the
  registry.
\<close>

theorem create_provider_policy:
  "resolve_create_provider nfc debug g contains tags asked hsm backend = Ok p \<longleftrightarrow>
     (\<exists>wish. reconcile_backend hsm backend = Ok wish \<and>
        ((\<exists>i. first_match nfc tags (router_rules g) i \<and>
             rule_allows g contains (rule_action (router_rules g ! i)) wish p) \<or>
         (no_match nfc tags (router_rules g) \<and>
            (wish = None \<and> p = router_default g \<or>
             wish = Some (provider_str p) \<and> contains p \<and> (has_rules g \<longrightarrow> p = router_default g))))) \<and>
     (non_empty asked = None \<or> non_empty asked = Some (provider_str p))"
proof -
  have assertion: "resolve_create_provider nfc debug g contains tags asked hsm backend = Ok p \<longleftrightarrow>
      (\<exists>wish. reconcile_backend hsm backend = Ok wish \<and>
         apply_outcome debug g contains (evaluate nfc g tags) wish = Ok p) \<and>
      (non_empty asked = None \<or> non_empty asked = Some (provider_str p))"
    by (cases "non_empty asked") (auto simp: resolve_create_provider_def Let_def split: if_splits)
  show ?thesis
  proof (cases "no_match nfc tags (router_rules g)")
    case True
    then have "\<nexists>i. first_match nfc tags (router_rules g) i" by (simp add: first_match_or_none)
    with True show ?thesis
      unfolding assertion by (simp add: evaluate_no_match apply_default_Ok)
  next
    case False
    then obtain i where i: "first_match nfc tags (router_rules g) i" by (auto simp: first_match_or_none)
    then have "(\<exists>j. first_match nfc tags (router_rules g) j \<and> rule_allows g contains (rule_action (router_rules g ! j)) wish p) \<longleftrightarrow>
        rule_allows g contains (rule_action (router_rules g ! i)) wish p" for wish
      by (blast dest: first_match_unique)
    with False show ?thesis
      unfolding assertion by (simp add: evaluate_first_match [OF i] apply_action_Ok)
  qed
qed

definition sample_router :: provider_router where
  "sample_router = \<lparr>router_rules = [\<lparr>match_tags = [(''tier'', ''gold'')], rule_action = Delegate [ProviderRef ''hsm'']\<rparr>],
     router_default = ProviderRef ''soft''\<rparr>"

theorem create_provider_policy_witness:
  "resolve_create_provider (\<lambda>s. s) concat sample_router (\<lambda>p. True) (IdentityTags [(''tier'', ''gold'')]) None None (Some ''hsm'') =
     Ok (ProviderRef ''hsm'') \<and>
   resolve_create_provider (\<lambda>s. s) concat sample_router (\<lambda>p. True) (IdentityTags []) None None (Some ''hsm'') \<noteq>
     Ok (ProviderRef ''hsm'')"
proof
  let ?gold = "IdentityTags [(''tier'', ''gold'')]"
  have "first_match (\<lambda>s. s) ?gold (router_rules sample_router) 0"
    by (simp add: first_match_def sample_router_def tags_match_def identity_get_def normalize_text_def)
  moreover have "rule_allows sample_router (\<lambda>p. True) (rule_action (router_rules sample_router ! 0)) (Some ''hsm'') (ProviderRef ''hsm'')"
    by (simp add: rule_allows_def sample_router_def)
  moreover have wish: "reconcile_backend None (Some ''hsm'') = Ok (Some ''hsm'')"
    by (simp add: reconcile_backend_def non_empty_def)
  moreover have "non_empty None = None" by (simp add: non_empty_def)
  ultimately show "resolve_create_provider (\<lambda>s. s) concat sample_router (\<lambda>p. True) ?gold None None (Some ''hsm'') =
     Ok (ProviderRef ''hsm'')"
    unfolding create_provider_policy by blast
  have "\<not> first_match (\<lambda>s. s) (IdentityTags []) (router_rules sample_router) i" for i
    by (cases i) (simp_all add: first_match_def sample_router_def tags_match_def identity_get_def)
  with wish show "resolve_create_provider (\<lambda>s. s) concat sample_router (\<lambda>p. True) (IdentityTags []) None None (Some ''hsm'') \<noteq>
     Ok (ProviderRef ''hsm'')"
    unfolding create_provider_policy by (auto simp: has_rules_def sample_router_def)
qed

text \<open>
  The routing explanation cannot drift from the real decision. It reports a denial or a clash
  exactly when creation would fail, and otherwise the very provider creation would use and the
  index of the first matching rule.
\<close>

theorem explain_agrees_with_create:
  fixes nfc debug core g contains tags asked hsm backend
  defines "x \<equiv> explain_routing nfc debug core g contains tags asked hsm backend"
    and "r \<equiv> resolve_create_provider nfc debug g contains tags asked hsm backend"
  shows "(explained x \<in> {EOdenied, EOclash} \<longleftrightarrow> \<not> is_ok r) \<and>
         (case r of Ok p \<Rightarrow> selected_backend_id x = provider_str p \<and> deny_reason x = []
                  | Err e \<Rightarrow> selected_backend_id x = [] \<and> deny_reason x = display_domain_error core e) \<and>
         (explained x = EOrouted \<longleftrightarrow> is_ok r \<and> (\<exists>i q. first_match nfc tags (router_rules g) i \<and>
            rule_action (router_rules g ! i) = Route q)) \<and>
         ((\<exists>i. first_match nfc tags (router_rules g) i \<and> matched_rule_index x = rule_index (Some i)) \<or>
          (no_match nfc tags (router_rules g) \<and> matched_rule_index x = -1))"
proof (cases "no_match nfc tags (router_rules g)")
  case True
  then have none: "\<not> first_match nfc tags (router_rules g) i" for i using first_match_or_none by blast
  show ?thesis
    unfolding x_def r_def explain_routing_def evaluate_with_index_no_match [OF True]
    using True none by (auto simp: Let_def rule_index_def split: result.splits)
next
  case False
  then obtain i where i: "first_match nfc tags (router_rules g) i" by (auto simp: first_match_or_none)
  then have "(\<exists>j q. first_match nfc tags (router_rules g) j \<and> rule_action (router_rules g ! j) = Route q) \<longleftrightarrow>
      (\<exists>q. rule_action (router_rules g ! i) = Route q)"
    by (blast dest: first_match_unique)
  then show ?thesis
    unfolding x_def r_def explain_routing_def evaluate_with_index_first_match [OF i]
    using False i by (auto simp: Let_def action_outcome_def split: result.splits rule_action.splits)
qed

text \<open>
  The classification reads the error message, which contains the caller's own text: an
  unregistered backend whose name contains a key word of the classification is reported as a
  clash although no two inputs conflict.
\<close>

lemma sublist_middle: "sublist x y \<Longrightarrow> sublist x (a @ y @ b)"
  by (meson sublist_appendI sublist_order.order_trans)

theorem explain_clash_by_name:
  assumes "no_match nfc tags (router_rules g)" and "\<not> contains (ProviderRef b)" and "sublist ''disagree'' b" and "b \<noteq> []"
  shows "explained (explain_routing nfc debug core g contains tags None None (Some b)) = EOclash"
proof -
  have wish: "reconcile_backend None (Some b) = Ok (Some b)"
    using assms(4) by (simp add: reconcile_backend_def non_empty_def)
  have r: "resolve_create_provider nfc debug g contains tags None None (Some b) = Err (not_registered b)"
    using assms(2) by (simp add: resolve_create_provider_def wish evaluate_no_match [OF assms(1)] apply_outcome_def)
  have "sublist ''disagree'' (display_domain_error core (not_registered b))"
    using sublist_middle [OF assms(3), of "''failed precondition: backend_id '' @ [CHR 0x27]" "[CHR 0x27] @ '' is not a registered provider''"]
    by (simp add: not_registered_def display_domain_error_def quoted_def)
  then show ?thesis
    by (simp add: explain_routing_def evaluate_with_index_no_match [OF assms(1)] r Let_def is_clash_def)
qed

end
