(* ===== verification/Creation.thy ===== *)
theory Creation
  imports Key_Record Custody
begin

text \<open>
  The journal of parent-wrapped key creation (\<open>creation.rs\<close>): immutable intent, one-shot provider
  dispatch, staged envelope, verified closure, publication. The parts the source takes from other
  crates are the fields of \<open>creation_env\<close>: printing a UUID, JSON text of a serialized request,
  BLAKE3. Methods on \<open>&mut self\<close> change the journal only after their last check, so they are
  modelled by the new journal on success; an error leaves the journal as it was.
\<close>

section \<open>Requests\<close>

definition MAX_CREATION_ENVELOPE_BYTES :: nat where
  "MAX_CREATION_ENVELOPE_BYTES = 65536"

definition MAX_CREATION_PAGE_SIZE :: u32 where
  "MAX_CREATION_PAGE_SIZE = 100"

record creation_request =
  cq_operation :: uuid
  cq_attempt :: uuid
  cq_owner :: creation_owner
  cq_correlation :: string
  cq_record :: key_record
  expected_key_occ :: "u64 option"
  expected_parent_occ :: u64
  cq_parent_spec :: key_spec
  context_bytes :: "byte list"

type_synonym request_json = "creation_request \<times> version_wire list"

record creation_env =
  uuid_display :: "uuid \<Rightarrow> string"
  json_to_vec :: "request_json \<Rightarrow> byte list"
  env_blake3 :: "byte list \<Rightarrow> 32 bytes"

definition creation_correlation :: "creation_env \<Rightarrow> uuid \<Rightarrow> uuid \<Rightarrow> string" where
  "creation_correlation env operation attempt =
     ''kr-a2-'' @ uuid_display env operation @ ''-'' @ uuid_display env attempt"

definition invalid :: "string \<Rightarrow> keyrack_error" where
  "invalid message = Storage (''A2 creation: '' @ message)"

definition request_material :: "creation_request \<Rightarrow> (parent_wrapped_material, keyrack_error) result" where
  "request_material q =
     and_then (ok_or (invalid ''missing proposed version'') (primary_version (cq_record q))) (\<lambda>v.
       case material v of
         ParentWrapped m \<Rightarrow> Ok m
       | ProviderResident _ _ \<Rightarrow> Err (invalid ''proposed version is not wrapped''))"

definition request_child :: "creation_request \<Rightarrow> (versioned_key_id, keyrack_error) result" where
  "request_child q =
     map_err (\<lambda>_. invalid ''zero child version'')
       (versioned_key_id_new (kr_lid (cq_record q)) (current_key_version (cq_record q)))"

definition request_context :: "creation_request \<Rightarrow> (wrapping_context, keyrack_error) result" where
  "request_context q =
     and_then (request_material q) (\<lambda>m.
     and_then (request_child q) (\<lambda>child.
       Ok \<lparr>wc_version = pw_context_version m, wc_child = child, wc_parent = pw_parent m,
           wc_parent_spec = cq_parent_spec q, wc_child_spec = kr_key_spec (cq_record q),
           wc_key_format = pw_key_format m, wc_purpose = WEncryptDecrypt,
           wc_provider_ref = pw_provider_ref m, wc_security_domain = pw_security_domain m,
           wc_mechanism = pw_mechanism m, wc_public_material_sha256 = None\<rparr>))"

text \<open>The loop over the version history; \<open>seen\<close> is the set of version numbers met so far.\<close>

fun history_ok :: "u64 \<Rightarrow> u64 list \<Rightarrow> key_version_record list \<Rightarrow> bool" where
  "history_ok current seen [] = True"
| "history_ok current seen (v # vs) =
     (version_number v \<noteq> 0 \<and> version_number v \<notin> set seen \<and>
      is_primary v = (version_number v = current) \<and> history_ok current (version_number v # seen) vs)"

definition identity_ok :: "creation_request \<Rightarrow> bool" where
  "identity_ok q \<longleftrightarrow> \<not> (is_nil (cq_operation q) \<or> is_nil (cq_attempt q) \<or>
     is_nil (owner_instance (cq_owner q)) \<or> owner_generation (cq_owner q) = 0 \<or>
     i64_max < owner_generation (cq_owner q))"

definition record_ok :: "creation_request \<Rightarrow> parent_wrapped_material \<Rightarrow> bool" where
  "record_ok q m \<longleftrightarrow> (let r = cq_record q in
     \<not> (kr_state r \<noteq> Enabled \<or> has_compromise_history r \<or> kr_exportability r \<noteq> NonExportable \<or>
        first_exported_at r \<noteq> None \<or> scheduled_deletion_at r \<noteq> None \<or>
        kr_key_usage r \<noteq> EncryptDecrypt \<or> \<not> (kr_key_spec r = Aes128 \<or> kr_key_spec r = Aes256) \<or>
        kr_lid r = vk_lid (pw_parent m) \<or> parent_lid r \<noteq> Some (vk_lid (pw_parent m)) \<or>
        occ_version r = 0 \<or> i64_max < occ_version r \<or> i64_max < expected_parent_occ q \<or>
        (case expected_key_occ q of Some v \<Rightarrow> i64_max \<le> v | None \<Rightarrow> False)))"

definition validate_creation :: "creation_env \<Rightarrow> creation_request \<Rightarrow> (unit, keyrack_error) result" where
  "validate_creation env q =
     (if \<not> identity_ok q then Err (invalid ''invalid operation or owner identity'')
      else and_then (map_err (\<lambda>_. invalid ''invalid correlation'') (identifier_new (cq_correlation q))) (\<lambda>_.
        if cq_correlation q \<noteq> creation_correlation env (cq_operation q) (cq_attempt q)
        then Err (invalid ''correlation must bind operation and attempt'')
        else and_then (request_material q) (\<lambda>m.
        if \<not> record_ok q m then Err (invalid ''unsupported creation record'')
        else if \<not> history_ok (current_key_version (cq_record q)) [] (key_versions (cq_record q))
        then Err (invalid ''invalid version history'')
        else and_then (request_context q) (\<lambda>c.
        and_then (map_err (\<lambda>_. invalid ''invalid context'') (context_canonical_bytes c)) (\<lambda>expected.
        if context_bytes q \<noteq> expected then Err (invalid ''context does not match proposed material'')
        else Ok ())))))"

definition request_value :: "creation_request \<Rightarrow> (request_json, keyrack_error) result" where
  "request_value q =
     map_err (\<lambda>_. invalid ''intent serialization failed'')
       (and_then (record_value (cq_record q)) (\<lambda>(r, vs). Ok (q\<lparr>cq_record := r\<rparr>, vs)))"

definition fingerprint :: "creation_env \<Rightarrow> creation_request \<Rightarrow> (32 bytes, keyrack_error) result" where
  "fingerprint env q =
     and_then (validate_creation env q) (\<lambda>_.
     and_then (request_value q) (\<lambda>v. Ok (env_blake3 env (json_to_vec env v))))"

definition same_json :: "key_record \<Rightarrow> key_record \<Rightarrow> (bool, keyrack_error) result" where
  "same_json l r =
     and_then (map_err (\<lambda>_. invalid ''serialization failed'') (record_value l)) (\<lambda>x.
     and_then (map_err (\<lambda>_. invalid ''serialization failed'') (record_value r)) (\<lambda>y. Ok (x = y)))"

definition max_version :: "key_version_record list \<Rightarrow> u64" where
  "max_version vs = fold max (map version_number vs) 0"

definition parent_eligible :: "creation_request \<Rightarrow> parent_wrapped_material \<Rightarrow> key_record \<Rightarrow> bool" where
  "parent_eligible q m parent \<longleftrightarrow>
     \<not> (kr_lid parent \<noteq> vk_lid (pw_parent m) \<or> occ_version parent \<noteq> expected_parent_occ q \<or>
        kr_state parent \<noteq> Enabled \<or> has_compromise_history parent \<or>
        scheduled_deletion_at parent \<noteq> None \<or> kr_key_spec parent \<noteq> cq_parent_spec q)"

definition proposed_record :: "creation_request \<Rightarrow> key_record \<Rightarrow> u64 \<Rightarrow> u64 \<Rightarrow> key_version_record \<Rightarrow> key_record" where
  "proposed_record q current occ next_version v =
     current\<lparr>occ_version := occ, current_key_version := next_version,
       updated_at := updated_at (cq_record q),
       key_versions := map (\<lambda>x. x\<lparr>is_primary := False\<rparr>) (key_versions current) @ [v]\<rparr>"

definition validate_child ::
  "creation_request \<Rightarrow> key_record option \<Rightarrow> (unit, keyrack_error) result" where
  "validate_child q current = (case (expected_key_occ q, current) of
       (None, None) \<Rightarrow>
         if occ_version (cq_record q) = 1 \<and> current_key_version (cq_record q) = 1 \<and>
            length (key_versions (cq_record q)) = 1
         then Ok () else Err (invalid ''child reservation or OCC conflict'')
     | (Some expected, Some cur) \<Rightarrow>
         if occ_version cur \<noteq> expected then Err (invalid ''child reservation or OCC conflict'')
         else and_then (ok_or (invalid ''version overflow'') (checked_add (max_version (key_versions cur)) 1)) (\<lambda>next_version.
           if current_key_version (cq_record q) \<noteq> next_version \<or> kr_state cur \<noteq> Enabled \<or> has_compromise_history cur
           then Err (invalid ''invalid new version'')
           else and_then (ok_or (invalid ''OCC overflow'') (checked_add expected 1)) (\<lambda>occ.
                and_then (ok_or (invalid ''missing version'') (primary_version (cq_record q))) (\<lambda>v.
                and_then (same_json (proposed_record q cur occ next_version v) (cq_record q)) (\<lambda>same.
                  if \<not> same then Err (invalid ''creation changes unrelated key fields or history'')
                  else Ok ()))))
     | _ \<Rightarrow> Err (invalid ''child reservation or OCC conflict''))"

definition validate_records ::
  "creation_env \<Rightarrow> creation_request \<Rightarrow> key_record option \<Rightarrow> key_record \<Rightarrow> (unit, keyrack_error) result" where
  "validate_records env q current parent =
     and_then (validate_creation env q) (\<lambda>_.
     and_then (request_material q) (\<lambda>m.
     if \<not> parent_eligible q m parent then Err (invalid ''parent snapshot is no longer eligible'')
     else if nz_get (vk_version (pw_parent m)) \<noteq> current_key_version parent
     then Err (invalid (''new version must wrap under the parent'' @ [CHR 0x27] @ ''s current version''))
     else and_then (ok_or (invalid ''parent version missing'')
                     (get_version parent (nz_get (vk_version (pw_parent m))))) (\<lambda>pv.
       case material pv of
         ProviderResident h (Some provider) \<Rightarrow>
           if provider \<noteq> pw_provider_ref m \<or> handle_spec h \<noteq> cq_parent_spec q
           then Err (invalid ''parent binding mismatch'')
           else validate_child q current
       | _ \<Rightarrow> Err (invalid ''requires explicitly bound resident parent''))))"

section \<open>Bindings and closures\<close>

record creation_binding =
  cb_operation :: uuid
  cb_attempt :: uuid
  cb_owner :: creation_owner
  cb_correlation :: string
  cb_fingerprint :: "32 bytes"

definition binding_of :: "creation_env \<Rightarrow> creation_request \<Rightarrow> (creation_binding, keyrack_error) result" where
  "binding_of env q = and_then (fingerprint env q) (\<lambda>f.
     Ok \<lparr>cb_operation = cq_operation q, cb_attempt = cq_attempt q, cb_owner = cq_owner q,
         cb_correlation = cq_correlation q, cb_fingerprint = f\<rparr>)"

definition require_binding ::
  "creation_env \<Rightarrow> creation_binding \<Rightarrow> creation_request \<Rightarrow> (unit, keyrack_error) result" where
  "require_binding env b q = and_then (binding_of env q) (\<lambda>c.
     if b \<noteq> c then Err (invalid ''this effect belongs to another creation operation, attempt or owner'')
     else Ok ())"

datatype closure_fact = SessionClosed string | TemporaryObjectDestroyed string

record closure_claim =
  intent_fingerprint :: "32 bytes"
  claim_envelope_digest :: "32 bytes"
  fact :: closure_fact

definition claim_target :: "closure_fact \<Rightarrow> string" where
  "claim_target f = (case f of SessionClosed s \<Rightarrow> s | TemporaryObjectDestroyed b \<Rightarrow> b)"

definition validate_for ::
  "creation_env \<Rightarrow> closure_claim \<Rightarrow> creation_request \<Rightarrow> (unit, keyrack_error) result" where
  "validate_for env c q =
     and_then (fingerprint env q) (\<lambda>f.
     if intent_fingerprint c \<noteq> f then Err (invalid ''closure target mismatch'')
     else and_then (map_err (\<lambda>_. invalid ''invalid closure target'') (identifier_new (claim_target (fact c))))
            (\<lambda>_. Ok ()))"

definition envelope_length_ok :: "byte list \<Rightarrow> bool" where
  "envelope_length_ok e \<longleftrightarrow> e \<noteq> [] \<and> length e \<le> MAX_CREATION_ENVELOPE_BYTES"

text \<open>The provider integration's verifier is the parameter \<open>verifier\<close>, a trait object in the source.\<close>

datatype verified_closure = VerifiedClosure (verified_claim: closure_claim)

definition verify_closure ::
  "creation_env \<Rightarrow> (creation_request \<Rightarrow> closure_claim \<Rightarrow> (unit, keyrack_error) result) \<Rightarrow>
     creation_request \<Rightarrow> byte list \<Rightarrow> closure_claim \<Rightarrow> (verified_closure, keyrack_error) result" where
  "verify_closure env verifier q envelope c =
     and_then (validate_for env c q) (\<lambda>_.
     if \<not> envelope_length_ok envelope \<or> claim_envelope_digest c \<noteq> env_blake3 env envelope
     then Err (invalid ''closure envelope mismatch'')
     else and_then (verifier q c) (\<lambda>_. Ok (VerifiedClosure c)))"

section \<open>The journal\<close>

datatype creation_phase = Reserved | Staged | Resolved | Committed

record creation_journal =
  cj_request :: creation_request
  dispatch_started :: bool
  revision :: u64
  phase :: creation_phase
  cj_envelope_digest :: "32 bytes option"
  closure :: "closure_claim option"
  committed_record :: "key_record option"

definition phase_as_str :: "creation_phase \<Rightarrow> string" where
  "phase_as_str p = (case p of Reserved \<Rightarrow> ''reserved'' | Staged \<Rightarrow> ''staged''
     | Resolved \<Rightarrow> ''resolved'' | Committed \<Rightarrow> ''committed'')"

definition journal_reserved :: "creation_env \<Rightarrow> creation_request \<Rightarrow> (creation_journal, keyrack_error) result" where
  "journal_reserved env q = and_then (validate_creation env q) (\<lambda>_.
     Ok \<lparr>cj_request = q, dispatch_started = False, revision = 1, phase = Reserved,
         cj_envelope_digest = None, closure = None, committed_record = None\<rparr>)"

definition phase_revision :: "creation_phase \<Rightarrow> u64" where
  "phase_revision p = (case p of Reserved \<Rightarrow> 1 | Staged \<Rightarrow> 2 | Resolved \<Rightarrow> 3 | Committed \<Rightarrow> 4)"

definition journal_consistent :: "creation_journal \<Rightarrow> bool" where
  "journal_consistent j \<longleftrightarrow>
     \<not> (revision j \<noteq> phase_revision (phase j) \<or>
        (phase j \<noteq> Reserved \<and> \<not> dispatch_started j) \<or>
        (cj_envelope_digest j \<noteq> None) \<noteq> (phase j \<noteq> Reserved) \<or>
        (closure j \<noteq> None) \<noteq> (phase j = Resolved \<or> phase j = Committed) \<or>
        (committed_record j \<noteq> None) \<noteq> (phase j = Committed))"

definition validate_journal :: "creation_env \<Rightarrow> creation_journal \<Rightarrow> (unit, keyrack_error) result" where
  "validate_journal env j =
     and_then (validate_creation env (cj_request j)) (\<lambda>_.
     if \<not> journal_consistent j then Err (invalid ''inconsistent journal'')
     else and_then (case closure j of
         None \<Rightarrow> Ok ()
       | Some c \<Rightarrow> and_then (validate_for env c (cj_request j)) (\<lambda>_.
           if Some (claim_envelope_digest c) \<noteq> cj_envelope_digest j
           then Err (invalid ''closure does not bind staged envelope'') else Ok ())) (\<lambda>_.
     (case committed_record j of
         None \<Rightarrow> Ok ()
       | Some r \<Rightarrow> and_then (same_json r (cq_record (cj_request j))) (\<lambda>same.
           if \<not> same then Err (invalid ''persisted result mismatch'') else Ok ()))))"

definition fence_journal ::
  "creation_env \<Rightarrow> creation_owner \<Rightarrow> u64 \<Rightarrow> creation_journal \<Rightarrow> (unit, keyrack_error) result" where
  "fence_journal env owner expected j =
     and_then (validate_journal env j) (\<lambda>_.
     if cq_owner (cj_request j) \<noteq> owner \<or> revision j \<noteq> expected
     then Err (invalid ''stale creation owner or revision'') else Ok ())"

definition claim_dispatch ::
  "creation_env \<Rightarrow> creation_owner \<Rightarrow> creation_journal \<Rightarrow> (bool \<times> creation_journal, keyrack_error) result" where
  "claim_dispatch env owner j =
     and_then (validate_journal env j) (\<lambda>_.
     if owner \<noteq> cq_owner (cj_request j) then Err (invalid ''stale creation owner'')
     else if dispatch_started j then Ok (False, j)
     else if phase j \<noteq> Reserved then Err (invalid ''creation is not reserved'')
     else Ok (True, j\<lparr>dispatch_started := True\<rparr>))"

definition stage ::
  "creation_env \<Rightarrow> creation_owner \<Rightarrow> u64 \<Rightarrow> byte list \<Rightarrow> creation_journal \<Rightarrow>
     (creation_journal, keyrack_error) result" where
  "stage env owner expected envelope j =
     and_then (validate_journal env j) (\<lambda>_.
     if \<not> dispatch_started j then Err (invalid ''provider dispatch was not claimed'')
     else if \<not> envelope_length_ok envelope then Err (invalid ''invalid envelope length'')
     else let digest = env_blake3 env envelope in
     if cq_owner (cj_request j) = owner \<and> cj_envelope_digest j = Some digest \<and>
        (expected = 1 \<or> expected = revision j)
     then Ok j
     else and_then (fence_journal env owner expected j) (\<lambda>_.
     if phase j \<noteq> Reserved then Err (invalid ''envelope is immutable'')
     else Ok (j\<lparr>cj_envelope_digest := Some digest, phase := Staged, revision := 2\<rparr>)))"

definition resolve ::
  "creation_env \<Rightarrow> creation_owner \<Rightarrow> u64 \<Rightarrow> verified_closure \<Rightarrow> creation_journal \<Rightarrow>
     (creation_journal, keyrack_error) result" where
  "resolve env owner expected c j =
     and_then (validate_journal env j) (\<lambda>_.
     and_then (fingerprint env (cj_request j)) (\<lambda>f.
     if intent_fingerprint (verified_claim c) \<noteq> f \<or>
        Some (claim_envelope_digest (verified_claim c)) \<noteq> cj_envelope_digest j
     then Err (invalid ''closure target mismatch'')
     else if cq_owner (cj_request j) = owner \<and> closure j = Some (verified_claim c) \<and>
             (expected = 2 \<or> expected = revision j)
     then Ok j
     else and_then (fence_journal env owner expected j) (\<lambda>_.
     if phase j \<noteq> Staged then Err (invalid ''envelope must be staged before closure'')
     else Ok (j\<lparr>closure := Some (verified_claim c), phase := Resolved, revision := 3\<rparr>))))"

definition publication ::
  "creation_env \<Rightarrow> creation_owner \<Rightarrow> u64 \<Rightarrow> key_record option \<Rightarrow> key_record \<Rightarrow> creation_journal \<Rightarrow>
     (key_record \<times> creation_journal, keyrack_error) result" where
  "publication env owner expected current parent j =
     and_then (fence_journal env owner expected j) (\<lambda>_.
     if phase j \<noteq> Resolved then Err (invalid ''creation is not resolved'')
     else and_then (validate_records env (cj_request j) current parent) (\<lambda>_.
       let record = cq_record (cj_request j)
       in Ok (record, j\<lparr>committed_record := Some record, phase := Committed, revision := 4\<rparr>)))"

definition committed_retry ::
  "creation_env \<Rightarrow> creation_owner \<Rightarrow> u64 \<Rightarrow> creation_journal \<Rightarrow> (key_record option, keyrack_error) result" where
  "committed_retry env owner expected j =
     and_then (validate_journal env j) (\<lambda>_.
     if cq_owner (cj_request j) \<noteq> owner then Err (invalid ''stale creation owner'')
     else if phase j = Committed then
       (if \<not> (expected = 3 \<or> expected = 4) then Err (invalid ''stale publication revision'')
        else Ok (committed_record j))
     else Ok None)"

definition withdrawable :: "creation_env \<Rightarrow> creation_journal \<Rightarrow> (unit, keyrack_error) result" where
  "withdrawable env j =
     and_then (validate_journal env j) (\<lambda>_.
     case phase j of
       Reserved \<Rightarrow> if \<not> dispatch_started j then Ok ()
                   else Err (invalid ''creation may have an unclosed provider effect'')
     | Resolved \<Rightarrow> Ok ()
     | Staged \<Rightarrow> Err (invalid ''creation may have an unclosed provider effect'')
     | Committed \<Rightarrow> Err (invalid ''creation is committed''))"

definition validate_envelope ::
  "creation_env \<Rightarrow> creation_journal \<Rightarrow> byte list \<Rightarrow> (unit, keyrack_error) result" where
  "validate_envelope env j e =
     and_then (validate_journal env j) (\<lambda>_.
     if \<not> envelope_length_ok e \<or> cj_envelope_digest j \<noteq> Some (env_blake3 env e)
     then Err (invalid ''envelope/journal mismatch'') else Ok ())"

record creation_snapshot =
  cs_journal :: creation_journal
  cs_envelope :: "byte list option"

definition snapshot_new ::
  "creation_env \<Rightarrow> creation_journal \<Rightarrow> byte list option \<Rightarrow> creation_owner \<Rightarrow>
     (creation_snapshot, keyrack_error) result" where
  "snapshot_new env j envelope owner =
     and_then (validate_journal env j) (\<lambda>_.
     if cq_owner (cj_request j) \<noteq> owner then Err (invalid ''stale creation owner'')
     else and_then (case envelope of
         None \<Rightarrow> if phase j = Reserved then Ok () else Err (invalid ''snapshot envelope phase mismatch'')
       | Some bytes \<Rightarrow> if phase j \<noteq> Reserved then validate_envelope env j bytes
                       else Err (invalid ''snapshot envelope phase mismatch''))
       (\<lambda>_. Ok \<lparr>cs_journal = j, cs_envelope = envelope\<rparr>))"

fun guard_versions :: "key_record \<Rightarrow> key_version_record list \<Rightarrow> (unit, keyrack_error) result" where
  "guard_versions next [] = Ok ()"
| "guard_versions next (old # vs) =
     and_then (ok_or (invalid ''referenced parent version removed'') (get_version next (version_number old))) (\<lambda>new.
     if material old \<noteq> material new then Err (invalid ''referenced parent material changed'')
     else guard_versions next vs)"

definition guard_referenced_parent :: "key_record \<Rightarrow> key_record \<Rightarrow> (unit, keyrack_error) result" where
  "guard_referenced_parent previous next =
     (if kr_state next = Destroyed \<or> kr_key_spec next \<noteq> kr_key_spec previous \<or>
         kr_provider_ref next \<noteq> kr_provider_ref previous
      then Err (invalid ''parent is referenced by a creation or envelope'')
      else guard_versions next (key_versions previous))"

definition validate_page_size :: "u32 \<Rightarrow> (unit, keyrack_error) result" where
  "validate_page_size limit =
     (if limit = 0 \<or> MAX_CREATION_PAGE_SIZE < limit then Err (invalid ''invalid recovery page size'') else Ok ())"

section \<open>Runs of the journal\<close>

text \<open>
  Every successful mutating call, with any owner, revision, envelope and records. A closure can
  only be presented after \<open>verify_closure\<close> produced it, for whatever request it was verified for.
\<close>

inductive journal_step :: "creation_env \<Rightarrow> creation_journal \<Rightarrow> creation_journal \<Rightarrow> bool" for env where
  claim: "claim_dispatch env owner j = Ok (b, j') \<Longrightarrow> journal_step env j j'"
| stage: "stage env owner expected envelope j = Ok j' \<Longrightarrow> journal_step env j j'"
| resolve: "verify_closure env verifier q envelope c = Ok v \<Longrightarrow> resolve env owner expected v j = Ok j' \<Longrightarrow>
     journal_step env j j'"
| publish: "publication env owner expected current parent j = Ok (r, j') \<Longrightarrow> journal_step env j j'"

inductive_cases journal_stepE: "journal_step env j j'"

definition journal_run :: "creation_env \<Rightarrow> creation_journal \<Rightarrow> creation_journal \<Rightarrow> bool" where
  "journal_run env = (journal_step env)\<^sup>*\<^sup>*"

definition phase_rank :: "creation_phase \<Rightarrow> nat" where
  "phase_rank p = (case p of Reserved \<Rightarrow> 0 | Staged \<Rightarrow> 1 | Resolved \<Rightarrow> 2 | Committed \<Rightarrow> 3)"

lemma same_json_Ok_True: "same_json l r = Ok True \<longleftrightarrow> l = r \<and> is_ok (record_value l)"
  using record_value_inject by (auto simp: same_json_def is_ok_iff)

lemma fingerprint_Ok_validate: "fingerprint env q = Ok f \<Longrightarrow> validate_creation env q = Ok () \<and> is_ok (record_value (cq_record q))"
  by (auto simp: fingerprint_def request_value_def is_ok_iff)
lemma validate_journal_Ok_iff:
  "validate_journal env j = Ok () \<longleftrightarrow>
     validate_creation env (cj_request j) = Ok () \<and> journal_consistent j \<and>
     (\<forall>c. closure j = Some c \<longrightarrow> validate_for env c (cj_request j) = Ok () \<and>
        cj_envelope_digest j = Some (claim_envelope_digest c)) \<and>
     (\<forall>r. committed_record j = Some r \<longrightarrow> r = cq_record (cj_request j) \<and> is_ok (record_value r))"
  unfolding same_json_Ok_True [symmetric]
  by (cases "closure j"; cases "committed_record j")
     (auto simp: validate_journal_def split: if_splits)

lemma journal_reserved_valid: "journal_reserved env q = Ok j \<Longrightarrow> validate_journal env j = Ok ()"
  by (auto simp: journal_reserved_def validate_journal_Ok_iff journal_consistent_def phase_revision_def)

lemmas journal_op_defs =
  claim_dispatch_def stage_def resolve_def publication_def fence_journal_def Let_def

lemma journal_step_validated: "journal_step env j j' \<Longrightarrow> validate_journal env j = Ok ()"
  by (erule journal_stepE) (auto simp: journal_op_defs)

lemma claim_dispatch_valid:
  "claim_dispatch env owner j = Ok (b, j') \<Longrightarrow> validate_journal env j' = Ok ()"
  by (auto simp: claim_dispatch_def validate_journal_Ok_iff journal_consistent_def split: if_splits)

lemma stage_valid: "stage env owner expected envelope j = Ok j' \<Longrightarrow> validate_journal env j' = Ok ()"
  by (auto simp: stage_def fence_journal_def Let_def validate_journal_Ok_iff journal_consistent_def
      phase_revision_def split: if_splits)

lemma verify_closure_target:
  "verify_closure env verifier q envelope c = Ok v \<Longrightarrow> is_ok (identifier_new (claim_target (fact (verified_claim v))))"
  by (auto simp: verify_closure_def validate_for_def is_ok_iff split: if_splits)

lemma resolve_valid:
  assumes "verify_closure env verifier q envelope c = Ok v" and "resolve env owner expected v j = Ok j'"
  shows "validate_journal env j' = Ok ()"
  using assms(2) verify_closure_target [OF assms(1)]
  by (auto simp: resolve_def fence_journal_def Let_def validate_journal_Ok_iff journal_consistent_def
      phase_revision_def validate_for_def is_ok_iff split: if_splits)

lemma publication_valid:
  assumes "publication env owner expected current parent j = Ok (r, j')"
  shows "validate_journal env j' = Ok ()"
proof -
  have j: "validate_journal env j = Ok ()" "phase j = Resolved"
    and j': "j' = j\<lparr>committed_record := Some (cq_record (cj_request j)), phase := Committed, revision := 4\<rparr>"
    using assms by (auto simp: publication_def fence_journal_def Let_def split: if_splits)
  then obtain c where "closure j = Some c" "validate_for env c (cj_request j) = Ok ()"
    by (auto simp: validate_journal_Ok_iff journal_consistent_def)
  then have "is_ok (record_value (cq_record (cj_request j)))"
    by (auto simp: validate_for_def dest!: fingerprint_Ok_validate)
  with j j' show ?thesis
    by (auto simp: validate_journal_Ok_iff journal_consistent_def phase_revision_def)
qed

lemma journal_step_valid: "journal_step env j j' \<Longrightarrow> validate_journal env j' = Ok ()"
  by (erule journal_stepE) (auto intro: claim_dispatch_valid stage_valid resolve_valid publication_valid)

lemma journal_step_monotone:
  "journal_step env j j' \<Longrightarrow> cj_request j' = cj_request j \<and> phase_rank (phase j) \<le> phase_rank (phase j') \<and>
     (dispatch_started j \<longrightarrow> dispatch_started j') \<and>
     (\<forall>d. cj_envelope_digest j = Some d \<longrightarrow> cj_envelope_digest j' = Some d) \<and>
     (\<forall>c. closure j = Some c \<longrightarrow> closure j' = Some c) \<and>
     (\<forall>r. committed_record j = Some r \<longrightarrow> committed_record j' = Some r)"
  by (erule journal_stepE)
     (auto simp: journal_op_defs validate_journal_Ok_iff journal_consistent_def phase_rank_def
        split: if_splits creation_phase.splits)

lemma journal_run_induct [consumes 1, case_names refl step]:
  assumes "journal_run env j k" and "P j"
    and "\<And>x y. journal_run env j x \<Longrightarrow> journal_step env x y \<Longrightarrow> P x \<Longrightarrow> P y"
  shows "P k"
  using assms unfolding journal_run_def by (induction rule: rtranclp_induct) auto

lemma journal_run_refl [simp]: "journal_run env j j"
  by (simp add: journal_run_def)

lemma journal_run_step: "journal_run env j x \<Longrightarrow> journal_step env x y \<Longrightarrow> journal_run env j y"
  by (simp add: journal_run_def rtranclp.rtrancl_into_rtrancl)

lemma journal_run_valid: "journal_run env j k \<Longrightarrow> validate_journal env j = Ok () \<Longrightarrow> validate_journal env k = Ok ()"
  by (induction rule: journal_run_induct) (auto intro: journal_step_valid)

lemma journal_run_monotone:
  "journal_run env j k \<Longrightarrow> cj_request k = cj_request j \<and> phase_rank (phase j) \<le> phase_rank (phase k) \<and>
     (dispatch_started j \<longrightarrow> dispatch_started k) \<and>
     (\<forall>d. cj_envelope_digest j = Some d \<longrightarrow> cj_envelope_digest k = Some d) \<and>
     (\<forall>c. closure j = Some c \<longrightarrow> closure k = Some c) \<and>
     (\<forall>r. committed_record j = Some r \<longrightarrow> committed_record k = Some r)"
proof (induction rule: journal_run_induct)
  case (step x y)
  from journal_step_monotone [OF step(2)] step(3) show ?case by auto
qed simp

lemma reserved_request: "journal_reserved env q = Ok j \<Longrightarrow> cj_request j = q"
  by (auto simp: journal_reserved_def)

lemma publication_Ok_iff:
  "publication env owner expected current parent j = Ok (r, j') \<longleftrightarrow>
     validate_journal env j = Ok () \<and> cq_owner (cj_request j) = owner \<and> revision j = expected \<and>
     phase j = Resolved \<and> validate_records env (cj_request j) current parent = Ok () \<and>
     r = cq_record (cj_request j) \<and>
     j' = j\<lparr>committed_record := Some r, phase := Committed, revision := 4\<rparr>"
  by (auto simp: publication_def fence_journal_def Let_def)

lemma valid_phase_facts:
  assumes "validate_journal env j = Ok ()"
  shows "revision j = phase_revision (phase j)"
    and "phase j \<noteq> Reserved \<Longrightarrow> dispatch_started j \<and> cj_envelope_digest j \<noteq> None"
    and "phase j = Resolved \<or> phase j = Committed \<longleftrightarrow> closure j \<noteq> None"
    and "phase j = Committed \<longleftrightarrow> committed_record j \<noteq> None"
  using assms by (auto simp: validate_journal_Ok_iff journal_consistent_def)

lemma valid_closure:
  assumes "validate_journal env j = Ok ()" and "closure j = Some c"
  shows "fingerprint env (cj_request j) = Ok (intent_fingerprint c)"
    and "cj_envelope_digest j = Some (claim_envelope_digest c)"
  using assms by (auto simp: validate_journal_Ok_iff validate_for_def split: if_splits)

lemma committed_facts:
  assumes "validate_journal env k = Ok ()" and "committed_record k = Some r"
  shows "phase k = Committed" and "committed_retry env (cq_owner (cj_request k)) 4 k = Ok (Some r)"
    and "publication env owner expected current parent k \<noteq> Ok x"
  using assms valid_phase_facts(4) [OF assms(1)]
  by (auto simp: committed_retry_def publication_def fence_journal_def)

lemma stage_after_digest:
  assumes "cj_envelope_digest k = Some d" and "stage env owner expected e k = Ok k'"
  shows "k' = k \<and> env_blake3 env e = d"
  using assms
  by (auto simp: stage_def fence_journal_def Let_def validate_journal_Ok_iff journal_consistent_def
      split: if_splits)

section \<open>A new version keeps the history\<close>

lemma fold_max_ge: "(x :: u64) \<le> fold max xs x"
proof (induction xs arbitrary: x)
  case (Cons a xs)
  have "x \<le> max a x" by simp
  also have "\<dots> \<le> fold max xs (max a x)" by (rule Cons.IH)
  finally show ?case by simp
qed simp

lemma fold_max_mem: "y \<in> set xs \<Longrightarrow> (y :: u64) \<le> fold max xs x"
proof (induction xs arbitrary: x)
  case (Cons a xs)
  have "a \<le> fold max xs (max a x)"
    using fold_max_ge [of "max a x" xs] by simp
  with Cons show ?case by auto
qed simp

lemma max_version_ge: "v \<in> set vs \<Longrightarrow> version_number v \<le> max_version vs"
  by (auto simp: max_version_def intro: fold_max_mem)

lemma checked_add_one: "checked_add a 1 = Some b \<Longrightarrow> (a :: u64) < b"
  using checked_add_Some [of a 1 b] by (simp add: word_less_nat_alt)

lemma validate_child_history:
  assumes "validate_child q (Some cur) = Ok ()"
  shows "\<exists>v. primary_version (cq_record q) = Some v \<and>
           key_versions (cq_record q) = map (\<lambda>x. x\<lparr>is_primary := False\<rparr>) (key_versions cur) @ [v] \<and>
           (\<forall>w \<in> set (key_versions cur). version_number w < version_number v) \<and>
           unat (occ_version (cq_record q)) = unat (occ_version cur) + 1 \<and>
           kr_lid (cq_record q) = kr_lid cur \<and> kr_identity_tags (cq_record q) = kr_identity_tags cur"
proof -
  obtain n occ v where e: "expected_key_occ q = Some (occ_version cur)"
    and n: "checked_add (max_version (key_versions cur)) 1 = Some n"
    and cur: "current_key_version (cq_record q) = n"
    and occ: "checked_add (occ_version cur) 1 = Some occ"
    and v: "primary_version (cq_record q) = Some v"
    and same: "same_json (proposed_record q cur occ n v) (cq_record q) = Ok True"
    using assms by (auto simp: validate_child_def split: option.splits if_splits)
  have r: "cq_record q = proposed_record q cur occ n v"
    using same by (simp add: same_json_Ok_True)
  have "version_number v = n"
    using v cur by (auto simp: primary_version_def find_Some_iff)
  moreover have "unat occ = unat (occ_version cur) + 1"
    using checked_add_Some [OF occ] by simp
  moreover have "\<forall>w \<in> set (key_versions cur). version_number w < n"
    using checked_add_one [OF n] max_version_ge le_less_trans by blast
  moreover have "key_versions (cq_record q) = map (\<lambda>x. x\<lparr>is_primary := False\<rparr>) (key_versions cur) @ [v]"
    "occ_version (cq_record q) = occ" "kr_lid (cq_record q) = kr_lid cur"
    "kr_identity_tags (cq_record q) = kr_identity_tags cur"
    by (subst r, simp add: proposed_record_def)+
  ultimately show ?thesis
    using v by blast
qed

section \<open>A concrete creation\<close>

definition sample_env :: creation_env where
  "sample_env = \<lparr>uuid_display = (\<lambda>_. ''u''), json_to_vec = (\<lambda>_. []), env_blake3 = (\<lambda>_. fill 9)\<rparr>"

definition sample_owner :: creation_owner where
  "sample_owner = \<lparr>owner_instance = fill 3, owner_generation = 1\<rparr>"

definition sample_material :: parent_wrapped_material where
  "sample_material = \<lparr>pw_provider_ref = ProviderRef ''p'', pw_security_domain = Ident ''i'',
     pw_parent = \<lparr>vk_lid = Lid (fill 2), vk_version = NonZero 1\<rparr>, pw_context_version = WV1,
     pw_key_format = RawSecret, pw_mechanism = Ident ''k'', pw_material_ref = Ident ''p''\<rparr>"

definition sample_child :: key_record where
  "sample_child = (sample_record Enabled)\<lparr>parent_lid := Some (Lid (fill 2)), occ_version := 1,
     current_key_version := 1, kr_exportability := NonExportable, first_exported_at := None,
     key_versions := [\<lparr>version_number = 1, material = ParentWrapped sample_material, kv_created_at = 0,
       is_primary = True\<rparr>]\<rparr>"

definition sample_creation :: creation_request where
  "sample_creation = \<lparr>cq_operation = fill 1, cq_attempt = fill 2, cq_owner = sample_owner,
     cq_correlation = ''kr-a2-u-u'', cq_record = sample_child, expected_key_occ = None,
     expected_parent_occ = 4, cq_parent_spec = Aes256,
     context_bytes = (case context_canonical_bytes (sample_wrapping) of Ok b \<Rightarrow> b | Err _ \<Rightarrow> [])\<rparr>"

definition sample_parent :: key_record where
  "sample_parent = (sample_record Enabled)\<lparr>kr_lid := Lid (fill 2), current_key_version := 1,
     key_versions := [version_provider_resident 1 \<lparr>key_id = ''h'', handle_spec = Aes256\<rparr>
       (Some (ProviderRef ''p'')) 0 True]\<rparr>"

lemmas sample_creation_defs =
  sample_env_def sample_owner_def sample_material_def sample_child_def sample_creation_def
  sample_parent_def sample_record_def sample_wrapping_def

lemma ident_str_correlation [simp]: "identifier_new ''kr-a2-u-u'' = Ok (Ident ''kr-a2-u-u'')"
  by (simp add: identifier_new_def validate_identifier_def MAX_WRAPPING_IDENTIFIER_BYTES_def
      as_bytes_def is_ascii_graphic_def)

lemma sample_context_eq: "request_context sample_creation = Ok sample_wrapping"
  by (simp add: request_context_def request_material_def request_child_def versioned_key_id_new_def
      nonzero_new_def primary_version_def sample_creation_defs)

lemma sample_context_canonical: "is_ok (context_canonical_bytes sample_wrapping)"
  by (simp add: custody_eval sample_wrapping_def)

lemma sample_request_material: "request_material sample_creation = Ok sample_material"
  by (simp add: request_material_def primary_version_def sample_creation_defs)

lemma sample_creation_valid: "validate_creation sample_env sample_creation = Ok ()"
proof -
  obtain b where b: "context_canonical_bytes sample_wrapping = Ok b"
    using sample_context_canonical by (auto simp: is_ok_iff)
  then have "context_bytes sample_creation = b"
    by (simp add: sample_creation_def)
  moreover note sample_request_material
  moreover have "identity_ok sample_creation" "record_ok sample_creation sample_material"
    by (simp_all add: identity_ok_def record_ok_def is_nil_def has_compromise_history_def i64_max_def
        word_less_nat_alt word_le_nat_alt sample_creation_defs)
  moreover have "cq_correlation sample_creation = ''kr-a2-u-u''"
    "creation_correlation sample_env (cq_operation sample_creation) (cq_attempt sample_creation) = ''kr-a2-u-u''"
    "history_ok (current_key_version (cq_record sample_creation)) [] (key_versions (cq_record sample_creation))"
    by (simp_all add: creation_correlation_def sample_creation_defs)
  ultimately show ?thesis
    by (simp add: validate_creation_def sample_context_eq b)
qed

definition sample_claim :: closure_claim where
  "sample_claim = \<lparr>intent_fingerprint = fill 9, claim_envelope_digest = fill 9, fact = SessionClosed ''p''\<rparr>"

definition sample_journal :: "creation_phase \<Rightarrow> bool \<Rightarrow> creation_journal" where
  "sample_journal p d = \<lparr>cj_request = sample_creation, dispatch_started = d, revision = phase_revision p,
     phase = p, cj_envelope_digest = (if p = Reserved then None else Some (fill 9)),
     closure = (if p = Resolved \<or> p = Committed then Some sample_claim else None),
     committed_record = (if p = Committed then Some sample_child else None)\<rparr>"

lemma sample_projections [simp]:
  "cq_owner sample_creation = sample_owner" "cq_record sample_creation = sample_child"
  "env_blake3 sample_env e = fill 9" "json_to_vec sample_env v = []"
  by (simp_all add: sample_creation_def sample_env_def)

lemma sample_record_value: "is_ok (record_value sample_child)"
  by (simp add: record_value_def serialize_version_def sample_child_def sample_record_def)

lemma sample_fingerprint: "fingerprint sample_env sample_creation = Ok (fill 9)"
  using sample_record_value
  by (auto simp: fingerprint_def sample_creation_valid request_value_def is_ok_iff)

lemma sample_identifier_p [simp]: "identifier_new ''p'' = Ok (Ident ''p'')"
  by (simp add: identifier_new_def validate_identifier_def MAX_WRAPPING_IDENTIFIER_BYTES_def
      as_bytes_def is_ascii_graphic_def)

lemma sample_journal_valid:
  "d \<or> p = Reserved \<Longrightarrow> validate_journal sample_env (sample_journal p d) = Ok ()"
  using sample_record_value
  by (auto simp: validate_journal_Ok_iff sample_journal_def journal_consistent_def sample_creation_valid
      validate_for_def sample_fingerprint sample_claim_def claim_target_def
      split: if_splits)

lemma sample_claimed:
  "claim_dispatch sample_env sample_owner (sample_journal Reserved False) = Ok (True, sample_journal Reserved True)"
  by (simp add: claim_dispatch_def sample_journal_valid) (simp add: sample_journal_def)

lemma sample_staged:
  "stage sample_env sample_owner 1 [7] (sample_journal Reserved True) = Ok (sample_journal Staged True)"
  by (simp add: stage_def fence_journal_def sample_journal_valid Let_def envelope_length_ok_def
      MAX_CREATION_ENVELOPE_BYTES_def)
     (simp add: sample_journal_def phase_revision_def)

lemma sample_verified:
  "verify_closure sample_env (\<lambda>_ _. Ok ()) sample_creation [7] sample_claim = Ok (VerifiedClosure sample_claim)"
  by (simp add: verify_closure_def validate_for_def sample_fingerprint envelope_length_ok_def
      MAX_CREATION_ENVELOPE_BYTES_def sample_claim_def claim_target_def)

lemma sample_resolved:
  "resolve sample_env sample_owner 2 (VerifiedClosure sample_claim) (sample_journal Staged True) =
     Ok (sample_journal Resolved True)"
  by (simp add: resolve_def fence_journal_def sample_journal_valid)
     (simp add: sample_journal_def sample_fingerprint sample_claim_def phase_revision_def)

lemma sample_records_valid: "validate_records sample_env sample_creation None sample_parent = Ok ()"
  by (simp add: validate_records_def sample_creation_valid sample_request_material)
     (simp add: parent_eligible_def has_compromise_history_def get_version_def
        version_provider_resident_def validate_child_def sample_creation_defs NonZero_inverse)

lemma sample_published:
  "publication sample_env sample_owner 3 None sample_parent (sample_journal Resolved True) =
     Ok (sample_child, sample_journal Committed True)"
  by (simp add: publication_Ok_iff sample_journal_valid)
     (simp add: sample_journal_def sample_records_valid phase_revision_def)

lemma sample_run: "journal_run sample_env (sample_journal Reserved False) (sample_journal Resolved True)"
  using journal_run_step [OF journal_run_step [OF journal_run_step [OF journal_run_refl
      journal_step.claim [OF sample_claimed]] journal_step.stage [OF sample_staged]]
      journal_step.resolve [OF sample_verified sample_resolved]] .

section \<open>Properties\<close>

text \<open>
  C22: the journal is always consistent. From a reservation, any sequence of calls by any owner
  keeps the validation of the source true and the request untouched, and the revision is the
  rank of the phase.
\<close>

theorem journal_always_valid:
  assumes "journal_reserved env q = Ok j" and "journal_run env j k"
  shows "validate_journal env k = Ok () \<and> cj_request k = q \<and> revision k = phase_revision (phase k)"
proof -
  have "validate_journal env k = Ok ()"
    by (rule journal_run_valid [OF assms(2) journal_reserved_valid [OF assms(1)]])
  with valid_phase_facts(1) [OF this] journal_run_monotone [OF assms(2)] reserved_request [OF assms(1)]
  show ?thesis by simp
qed

theorem journal_always_valid_witness:
  "validate_journal sample_env (sample_journal Resolved True) = Ok ()"
proof -
  have "journal_reserved sample_env sample_creation = Ok (sample_journal Reserved False)"
    by (simp add: journal_reserved_def sample_creation_valid sample_journal_def phase_revision_def)
  from journal_always_valid [OF this sample_run] show ?thesis by simp
qed

text \<open>
  C5: provider dispatch is granted at most once. After one call was told to dispatch, no later
  call is, by any owner, however the journal moves on in between.
\<close>

theorem dispatch_at_most_once:
  assumes "claim_dispatch env owner j = Ok (True, j')" and "journal_run env j' k"
    and "claim_dispatch env owner' k = Ok (b, k')"
  shows "\<not> b"
proof -
  have "dispatch_started j'"
    using assms(1) by (auto simp: claim_dispatch_def split: if_splits)
  then have "dispatch_started k"
    using journal_run_monotone [OF assms(2)] by simp
  with assms(3) show ?thesis
    by (auto simp: claim_dispatch_def split: if_splits)
qed

theorem dispatch_at_most_once_witness:
  "claim_dispatch sample_env sample_owner (sample_journal Reserved True) \<noteq> Ok (True, sample_journal Reserved True)"
  using dispatch_at_most_once [OF sample_claimed journal_run_refl, of sample_owner True] by blast

text \<open>
  C6: nothing is published without a verified closure of exactly what was staged. A publication
  reached from a reservation returns the reserved record, by the owner, with dispatch claimed and
  a closure whose fingerprint is the request's and whose digest is the staged envelope's. From
  then on every publication is refused and a retry gets the same record.
\<close>

theorem publication_needs_closure:
  assumes "journal_reserved env q = Ok j" and "journal_run env j k"
    and "publication env owner expected current parent k = Ok (r, k')" and "journal_run env k' l"
  shows "r = cq_record q \<and> owner = cq_owner q \<and> dispatch_started k \<and>
         (\<exists>c. closure k = Some c \<and> cj_envelope_digest k = Some (claim_envelope_digest c) \<and>
              fingerprint env q = Ok (intent_fingerprint c)) \<and>
         publication env owner' expected' current' parent' l \<noteq> Ok x \<and>
         committed_retry env (cq_owner q) 4 l = Ok (Some r)"
proof -
  have k: "validate_journal env k = Ok ()" "cj_request k = q"
    using journal_run_valid [OF assms(2) journal_reserved_valid [OF assms(1)]]
      journal_run_monotone [OF assms(2)] reserved_request [OF assms(1)] by simp_all
  have p: "phase k = Resolved" "r = cq_record q" "owner = cq_owner q" "committed_record k' = Some r"
    using assms(3) k by (auto simp: publication_Ok_iff)
  obtain c where "closure k = Some c" "dispatch_started k"
    using valid_phase_facts [OF k(1)] p(1) by auto
  moreover have "validate_journal env l = Ok ()" "cj_request l = q" "committed_record l = Some r"
    using assms(3) k(2) p(4) journal_run_valid [OF assms(4) publication_valid [OF assms(3)]]
      journal_run_monotone [OF assms(4)]
    by (auto simp: publication_Ok_iff)
  ultimately show ?thesis
    using p valid_closure [OF k(1)] k(2) committed_facts [of env l r] by auto
qed

theorem publication_needs_closure_witness:
  "committed_retry sample_env sample_owner 4 (sample_journal Committed True) = Ok (Some sample_child)"
proof -
  have "journal_reserved sample_env sample_creation = Ok (sample_journal Reserved False)"
    by (simp add: journal_reserved_def sample_creation_valid sample_journal_def phase_revision_def)
  from publication_needs_closure [OF this sample_run sample_published journal_run_refl] show ?thesis
    by simp
qed

text \<open>
  The staged envelope never changes. Once an envelope digest is recorded, a later successful
  staging call is a no-op on an envelope with that same digest.
\<close>

theorem staged_envelope_immutable:
  assumes "cj_envelope_digest j = Some d" and "journal_run env j k"
    and "stage env owner expected envelope k = Ok k'"
  shows "k' = k \<and> env_blake3 env envelope = d"
proof -
  have "cj_envelope_digest k = Some d"
    using journal_run_monotone [OF assms(2)] assms(1) by simp
  then show ?thesis using assms(3) by (rule stage_after_digest)
qed

theorem staged_envelope_immutable_witness:
  "stage sample_env sample_owner 2 [8] (sample_journal Staged True) = Ok (sample_journal Staged True)"
proof -
  have "cj_envelope_digest (sample_journal Staged True) = Some (fill 9)"
    by (simp add: sample_journal_def)
  moreover have "\<exists>k. stage sample_env sample_owner 2 [8] (sample_journal Staged True) = Ok k"
    by (simp add: stage_def sample_journal_valid envelope_length_ok_def MAX_CREATION_ENVELOPE_BYTES_def Let_def)
       (simp add: sample_journal_def phase_revision_def)
  ultimately show ?thesis
    using staged_envelope_immutable [of "sample_journal Staged True" "fill 9" sample_env
        "sample_journal Staged True" sample_owner 2 "[8]"] by auto
qed

text \<open>
  A creation that adds a version keeps the key's history. When the transaction check accepts
  a request against the current record, the proposed record is the current one with every old
  version kept as non-primary, one new version numbered above all of them, and the concurrency
  counter advanced by exactly one without overflow.
\<close>

theorem new_version_keeps_history:
  assumes "validate_child q (Some cur) = Ok ()"
  shows "\<exists>v. primary_version (cq_record q) = Some v \<and>
           key_versions (cq_record q) = map (\<lambda>x. x\<lparr>is_primary := False\<rparr>) (key_versions cur) @ [v] \<and>
           (\<forall>w \<in> set (key_versions cur). version_number w < version_number v) \<and>
           unat (occ_version (cq_record q)) = unat (occ_version cur) + 1 \<and>
           kr_lid (cq_record q) = kr_lid cur \<and> kr_identity_tags (cq_record q) = kr_identity_tags cur"
  using assms by (rule validate_child_history)

definition sample_rotation :: creation_request where
  "sample_rotation = sample_creation\<lparr>expected_key_occ := Some 1,
     cq_record := sample_child\<lparr>occ_version := 2, current_key_version := 2,
       key_versions := [\<lparr>version_number = 1, material = ParentWrapped sample_material, kv_created_at = 0,
           is_primary = False\<rparr>,
         \<lparr>version_number = 2, material = ParentWrapped sample_material, kv_created_at = 0,
           is_primary = True\<rparr>]\<rparr>\<rparr>"

lemma sample_rotation_accepted: "validate_child sample_rotation (Some sample_child) = Ok ()"
  by (simp add: validate_child_def sample_rotation_def sample_child_def sample_record_def max_version_def
      checked_add_def has_compromise_history_def primary_version_def same_json_def record_value_def
      proposed_record_def serialize_version_def)

theorem new_version_keeps_history_witness:
  "\<exists>v. primary_version (cq_record sample_rotation) = Some v \<and>
       (\<forall>w \<in> set (key_versions sample_child). version_number w < version_number v)"
  using new_version_keeps_history [OF sample_rotation_accepted] by blast

end
