(* ===== verification/Decimal.thy ===== *)
theory Decimal
  imports Prelude
begin

text \<open>
  Decimal text of unsigned integers as the standard library has it: \<open>to_string\<close> is \<open>show_nat\<close> of the
  value, and \<open>str::parse::<u64>\<close> reads an optional plus sign and at least one digit and refuses
  a value that does not fit.
\<close>

definition digit_value :: "char \<Rightarrow> nat option" where
  "digit_value c = (let n = of_char c :: nat in if 48 \<le> n \<and> n \<le> 57 then Some (n - 48) else None)"

fun digits_value :: "nat \<Rightarrow> string \<Rightarrow> nat option" where
  "digits_value acc [] = Some acc"
| "digits_value acc (c # cs) = (case digit_value c of None \<Rightarrow> None | Some d \<Rightarrow> digits_value (10 * acc + d) cs)"

definition parse_u64 :: "string \<Rightarrow> u64 option" where
  "parse_u64 s = (let t = (case s of [] \<Rightarrow> [] | c # cs \<Rightarrow> if c = CHR ''+'' then cs else s) in
     if t = [] then None
     else case digits_value 0 t of
         None \<Rightarrow> None
       | Some n \<Rightarrow> if n < 2 ^ 64 then Some (of_nat n) else None)"

lemma digit_value_table: "\<forall>d \<in> set [0..<10]. digit_value (''0123456789'' ! d) = Some d"
  by code_simp

lemma digit_value_char [simp]: "d < 10 \<Longrightarrow> digit_value (''0123456789'' ! d) = Some d"
  using digit_value_table by simp

lemma digits_value_append:
  "digits_value acc (s @ t) = (case digits_value acc s of None \<Rightarrow> None | Some n \<Rightarrow> digits_value n t)"
  by (induction s arbitrary: acc) (auto split: option.splits)

lemma digits_value_show_nat: "digits_value 0 (show_nat n) = Some n"
proof (induction n rule: show_nat.induct)
  case (1 n)
  then show ?case
    by (subst show_nat.simps) (auto simp: digits_value_append)
qed

lemma show_nat_first: "\<exists>d cs. d < 10 \<and> show_nat n = (''0123456789'' ! d) # cs"
proof (induction n rule: show_nat.induct)
  case (1 n)
  show ?case
  proof (cases "n < 10")
    case True
    then show ?thesis by (subst show_nat.simps) auto
  next
    case False
    with 1 obtain d cs where "d < 10" "show_nat (n div 10) = (''0123456789'' ! d) # cs" by blast
    with False show ?thesis by (subst show_nat.simps) auto
  qed
qed

lemma show_nat_nonempty [simp]: "show_nat n \<noteq> []"
  using show_nat_first [of n] by auto

lemma digit_not_plus: "d < 10 \<Longrightarrow> (''0123456789'' ! d) \<noteq> CHR ''+''"
proof
  assume "d < 10" and "(''0123456789'' ! d) = CHR ''+''"
  then have "digit_value (CHR ''+'') = Some d" by (metis digit_value_char)
  then show False by (simp add: digit_value_def)
qed

lemma parse_u64_show [simp]: "parse_u64 (show_nat (unat (n :: u64))) = Some n"
proof -
  obtain d cs where "d < 10" and s: "show_nat (unat n) = (''0123456789'' ! d) # cs"
    using show_nat_first by blast
  then have "(case show_nat (unat n) of [] \<Rightarrow> [] | c # cs \<Rightarrow> if c = CHR ''+'' then cs else show_nat (unat n)) =
      show_nat (unat n)"
    using digit_not_plus by simp
  moreover have "unat n < 2 ^ 64" using unsigned_less [of n] by simp
  ultimately show ?thesis
    by (simp add: parse_u64_def digits_value_show_nat)
qed

lemma show_u64_inject [simp]: "show_nat (unat (m :: u64)) = show_nat (unat n) \<longleftrightarrow> m = n"
  by (metis option.inject parse_u64_show)

end
