(* ===== verification/Migration.thy ===== *)
theory Migration
  imports Creation Decimal
begin

text \<open>
  Migration of every wrapped version of a key to another parent (\<open>migration.rs\<close> and
  \<open>migration/wrapped.rs\<close>): the immutable request with its proposal, and the journal with ownership
  epochs, provider dispatch, envelope digests and the terminal result. Methods on \<open>&mut self\<close>
  assign only after their last check, so an error leaves the journal as it was. UUID printing and
  BLAKE3 come with \<open>creation_env\<close>.
\<close>

section \<open>Requests\<close>

definition migration_invalid :: "string \<Rightarrow> keyrack_error" where
  "migration_invalid message = Storage (''wrapped-key migration: '' @ message)"

definition migration_busy :: keyrack_error where
  "migration_busy = ProviderUnavailable ''key participates in an in-flight migration; retry the operation''"

record migration_conditions =
  expected_child_occ :: "u64 option"
  expected_old_parent_occ :: "u64 option"
  expected_new_parent_occ :: "u64 option"
  expected_old_parent :: "lid option"
  covered_versions :: "u64 list option"

definition no_conditions :: migration_conditions where
  "no_conditions = \<lparr>expected_child_occ = None, expected_old_parent_occ = None,
     expected_new_parent_occ = None, expected_old_parent = None, covered_versions = None\<rparr>"

fun adjacent_equal :: "'a list \<Rightarrow> bool" where
  "adjacent_equal (x # y # zs) = (x = y \<or> adjacent_equal (y # zs))"
| "adjacent_equal _ = False"

definition canonicalize_conditions ::
  "migration_conditions \<Rightarrow> (migration_conditions, keyrack_error) result" where
  "canonicalize_conditions c = (case covered_versions c of
       None \<Rightarrow> Ok c
     | Some vs \<Rightarrow>
         let vs = sort vs in
         if vs = [] \<or> hd vs = 0 \<or> adjacent_equal vs
         then Err (migration_invalid ''covered_versions must be a nonempty set of nonzero versions'')
         else Ok (c\<lparr>covered_versions := Some vs\<rparr>))"

record migration_request =
  mq_operation :: uuid
  requested_parent :: "lid option"
  mq_conditions :: migration_conditions
  mq_child :: key_record
  mq_old_parent :: key_record
  mq_new_parent :: key_record
  mq_proposed :: key_record

definition migration_reference :: "creation_env \<Rightarrow> uuid \<Rightarrow> u64 \<Rightarrow> string" where
  "migration_reference env operation n =
     ''migration:'' @ uuid_display env operation @ '':'' @ show_nat (unat n)"

text \<open>The same descriptor bound to another parent version and to the envelope of this migration.\<close>

definition rewrap ::
  "creation_env \<Rightarrow> uuid \<Rightarrow> versioned_key_id \<Rightarrow> string \<Rightarrow> u64 \<Rightarrow> parent_wrapped_material \<Rightarrow>
     (parent_wrapped_material, keyrack_error) result" where
  "rewrap env operation parent complaint n m =
     and_then (map_err (\<lambda>_. migration_invalid ''invalid envelope reference'')
                 (identifier_new (migration_reference env operation n))) (\<lambda>reference.
     map_err (\<lambda>_. migration_invalid complaint)
       (parent_wrapped_new (pw_provider_ref m) (pw_security_domain m) parent (pw_context_version m)
          (pw_key_format m) (pw_mechanism m) reference))"

definition wrapped :: "key_material \<Rightarrow> (parent_wrapped_material, keyrack_error) result" where
  "wrapped m = (case m of
       ParentWrapped value \<Rightarrow> Ok value
     | ProviderResident _ _ \<Rightarrow> Err (migration_invalid ''resident child version''))"

definition conditions_hold :: "migration_request \<Rightarrow> migration_conditions \<Rightarrow> u64 list \<Rightarrow> bool" where
  "conditions_hold q c covered \<longleftrightarrow>
     expected_child_occ c \<in> {None, Some (occ_version (mq_child q))} \<and>
     expected_old_parent_occ c \<in> {None, Some (occ_version (mq_old_parent q))} \<and>
     expected_new_parent_occ c \<in> {None, Some (occ_version (mq_new_parent q))} \<and>
     expected_old_parent c \<in> {None, Some (kr_lid (mq_old_parent q))} \<and>
     covered_versions c \<in> {None, Some covered}"

definition migration_identity_ok :: "migration_request \<Rightarrow> bool" where
  "migration_identity_ok q \<longleftrightarrow> (let child = mq_child q; old = mq_old_parent q; new = mq_new_parent q in
     \<not> (is_nil (mq_operation q) \<or> occ_version child = 0 \<or> i64_max \<le> occ_version child \<or>
        key_versions child = [] \<or> parent_lid child \<noteq> Some (kr_lid old) \<or> kr_lid child = kr_lid old \<or>
        kr_lid child = kr_lid new \<or>
        (case requested_parent q of Some p \<Rightarrow> p | None \<Rightarrow> kr_lid old) \<noteq> kr_lid new \<or>
        kr_state child \<noteq> Enabled \<or> scheduled_deletion_at child \<noteq> None \<or>
        has_compromise_history child \<or> kr_exportability child \<noteq> NonExportable))"

definition migration_parent_ok :: "key_record \<Rightarrow> bool" where
  "migration_parent_ok parent \<longleftrightarrow>
     \<not> (parent_lid parent \<noteq> None \<or> has_compromise_history parent \<or> kr_state parent \<noteq> Enabled \<or>
        scheduled_deletion_at parent \<noteq> None \<or> kr_exportability parent \<noteq> NonExportable \<or>
        first_exported_at parent \<noteq> None \<or> \<not> (kr_key_spec parent = Aes128 \<or> kr_key_spec parent = Aes256) \<or>
        key_versions parent = [] \<or> list_ex (\<lambda>v. \<not> is_resident v) (key_versions parent))"

text \<open>
  The loop over the child's versions: \<open>seen\<close> holds the version numbers met so far, and the result
  the versions rebound to the primary version \<open>target\<close> of the new parent.
\<close>

fun expected_versions ::
  "creation_env \<Rightarrow> migration_request \<Rightarrow> key_version_record \<Rightarrow> u64 list \<Rightarrow> key_version_record list \<Rightarrow>
     (key_version_record list, keyrack_error) result" where
  "expected_versions env q target seen [] = Ok []"
| "expected_versions env q target seen (v # vs) =
     (if version_number v = 0 \<or> version_number v \<in> set seen \<or>
         is_primary v \<noteq> (version_number v = current_key_version (mq_child q))
      then Err (migration_invalid ''invalid child version history'')
      else case material v of
          ProviderResident _ _ \<Rightarrow> Err (migration_invalid ''every child version must be wrapped'')
        | ParentWrapped m \<Rightarrow>
            and_then (ok_or (migration_invalid ''missing source parent version'')
                        (get_version (mq_old_parent q) (nz_get (vk_version (pw_parent m))))) (\<lambda>source.
            if vk_lid (pw_parent m) \<noteq> kr_lid (mq_old_parent q) \<or>
               version_provider_ref source \<noteq> Some (pw_provider_ref m) \<or>
               version_provider_ref target \<noteq> Some (pw_provider_ref m)
            then Err (migration_invalid ''cross-provider migration is not implemented'')
            else and_then (map_err (\<lambda>_. migration_invalid ''zero parent version'')
                   (versioned_key_id_new (kr_lid (mq_new_parent q)) (current_key_version (mq_new_parent q)))) (\<lambda>parent.
            and_then (rewrap env (mq_operation q) parent ''invalid material'' (version_number v) m) (\<lambda>m'.
            and_then (expected_versions env q target (version_number v # seen) vs) (\<lambda>vs'.
              Ok (v\<lparr>material := ParentWrapped m'\<rparr> # vs'))))))"

fun same_domain :: "parent_wrapped_material \<Rightarrow> key_version_record list \<Rightarrow> (unit, keyrack_error) result" where
  "same_domain first [] = Ok ()"
| "same_domain first (v # vs) = and_then (wrapped (material v)) (\<lambda>m.
     if pw_provider_ref m \<noteq> pw_provider_ref first \<or> pw_security_domain m \<noteq> pw_security_domain first \<or>
        pw_mechanism m \<noteq> pw_mechanism first
     then Err (migration_invalid ''cross-domain migration is not implemented'')
     else same_domain first vs)"

definition expected_record :: "migration_request \<Rightarrow> key_version_record list \<Rightarrow> key_record" where
  "expected_record q vs = (mq_child q)\<lparr>parent_lid := Some (kr_lid (mq_new_parent q)),
     occ_version := occ_version (mq_child q) + 1, updated_at := updated_at (mq_proposed q),
     key_versions := vs\<rparr>"

definition validate_migration :: "creation_env \<Rightarrow> migration_request \<Rightarrow> (unit, keyrack_error) result" where
  "validate_migration env q =
     and_then (canonicalize_conditions (mq_conditions q)) (\<lambda>c.
     if c \<noteq> mq_conditions q then Err (migration_invalid ''noncanonical migration conditions'')
     else if \<not> conditions_hold q c (sort (map version_number (key_versions (mq_child q))))
     then Err (migration_invalid ''caller migration conditions do not match the reserved snapshots'')
     else if \<not> migration_identity_ok q
     then Err (migration_invalid ''invalid migration identity or child state'')
     else if \<not> (migration_parent_ok (mq_old_parent q) \<and> migration_parent_ok (mq_new_parent q))
     then Err (migration_invalid ''parent must be an enabled, resident, non-exportable wrapping key'')
     else and_then (ok_or (migration_invalid ''missing target primary'') (primary_version (mq_new_parent q))) (\<lambda>target.
     and_then (expected_versions env q target [] (key_versions (mq_child q))) (\<lambda>vs.
     and_then (if current_key_version (mq_child q) \<notin> version_number ` set (key_versions (mq_child q)) then Ok False
               else same_json (expected_record q vs) (mq_proposed q)) (\<lambda>same.
     if \<not> same then Err (migration_invalid ''proposal changes unrelated fields or omits a version'')
     else and_then (wrapped (material (hd (key_versions (mq_child q))))) (\<lambda>first.
       same_domain first (key_versions (mq_child q)))))))"

fun proposed_versions ::
  "creation_env \<Rightarrow> uuid \<Rightarrow> versioned_key_id \<Rightarrow> key_version_record list \<Rightarrow>
     (key_version_record list, keyrack_error) result" where
  "proposed_versions env operation parent [] = Ok []"
| "proposed_versions env operation parent (v # vs) = (case material v of
       ProviderResident _ _ \<Rightarrow> Err (migration_invalid ''every child version must be wrapped'')
     | ParentWrapped m \<Rightarrow>
         and_then (rewrap env operation parent ''invalid proposed material'' (version_number v) m) (\<lambda>m'.
         and_then (proposed_versions env operation parent vs) (\<lambda>vs'.
           Ok (v\<lparr>material := ParentWrapped m'\<rparr> # vs'))))"

definition migration_request_new ::
  "creation_env \<Rightarrow> timestamp \<Rightarrow> uuid \<Rightarrow> lid option \<Rightarrow> key_record \<Rightarrow> key_record \<Rightarrow> key_record \<Rightarrow>
     (migration_request, keyrack_error) result" where
  "migration_request_new env now operation parent child old new =
     and_then (ok_or (migration_invalid ''OCC overflow'') (checked_add (occ_version child) 1)) (\<lambda>occ.
     and_then (map_err (\<lambda>_. migration_invalid ''invalid parent version'')
        (versioned_key_id_new (kr_lid new) (current_key_version new))) (\<lambda>target.
     and_then (proposed_versions env operation target (key_versions child)) (\<lambda>vs.
       let q = \<lparr>mq_operation = operation, requested_parent = parent, mq_conditions = no_conditions,
          mq_child = child, mq_old_parent = old, mq_new_parent = new,
          mq_proposed = child\<lparr>parent_lid := Some (kr_lid new), occ_version := occ, updated_at := now,
            key_versions := vs\<rparr>\<rparr> in
       and_then (validate_migration env q) (\<lambda>_. Ok q))))"

definition with_conditions ::
  "creation_env \<Rightarrow> migration_conditions \<Rightarrow> migration_request \<Rightarrow> (migration_request, keyrack_error) result" where
  "with_conditions env c q =
     and_then (canonicalize_conditions c) (\<lambda>c.
     let q = q\<lparr>mq_conditions := c\<rparr> in
     and_then (validate_migration env q) (\<lambda>_. Ok q))"

type_synonym record_json = "key_record \<times> version_wire list"

type_synonym migration_json =
  "uuid \<times> lid option \<times> migration_conditions \<times> record_json \<times> record_json \<times> record_json \<times> record_json"

definition migration_value :: "migration_request \<Rightarrow> (migration_json, keyrack_error) result" where
  "migration_value q = map_err (\<lambda>_. invalid ''serialization failed'')
     (and_then (record_value (mq_child q)) (\<lambda>c.
      and_then (record_value (mq_old_parent q)) (\<lambda>old.
      and_then (record_value (mq_new_parent q)) (\<lambda>new.
      and_then (record_value (mq_proposed q)) (\<lambda>p.
        Ok (mq_operation q, requested_parent q, mq_conditions q, c, old, new, p))))))"

definition same_intent :: "migration_request \<Rightarrow> migration_request \<Rightarrow> (bool, keyrack_error) result" where
  "same_intent q other =
     (let normalized = other\<lparr>mq_proposed := (mq_proposed other)\<lparr>updated_at := updated_at (mq_proposed q)\<rparr>\<rparr> in
      and_then (migration_value q) (\<lambda>x. and_then (migration_value normalized) (\<lambda>y. Ok (x = y))))"

fun same_snapshots :: "(key_record \<times> key_record) list \<Rightarrow> (unit, keyrack_error) result" where
  "same_snapshots [] = Ok ()"
| "same_snapshots ((expected, actual) # ps) = and_then (same_json expected actual) (\<lambda>same.
     if \<not> same then Err migration_busy else same_snapshots ps)"

definition validate_snapshots ::
  "creation_env \<Rightarrow> migration_request \<Rightarrow> key_record \<Rightarrow> key_record \<Rightarrow> key_record \<Rightarrow> (unit, keyrack_error) result" where
  "validate_snapshots env q child old new =
     and_then (validate_migration env q) (\<lambda>_.
       same_snapshots [(mq_child q, child), (mq_old_parent q, old), (mq_new_parent q, new)])"

section \<open>The journal\<close>

datatype migration_phase = MReserved | MStaged | MCommitted

record migration_ownership =
  mo_owner :: uuid
  mo_epoch :: u64

record migration_dispatch =
  md_epoch :: u64
  retry_safe :: bool

record migration_version_result =
  mv_version :: u64
  old_parent_version :: u64
  new_parent_version :: u64
  old_envelope_digest :: string
  new_envelope_digest :: string
  old_reference :: string
  new_reference :: string

record migration_result =
  mr_operation_id :: uuid
  mr_child :: lid
  mr_old_parent :: lid
  old_parent_versions :: "u64 list"
  mr_new_parent :: lid
  mr_new_parent_version :: u64
  digest_algorithm :: string
  mr_versions :: "migration_version_result list"

record wrapped_key_snapshot =
  ws_record :: key_record
  ws_parent :: key_record
  ws_envelope :: "byte list"

record migration_journal =
  mj_owner :: "uuid option"
  mj_epoch :: u64
  mj_dispatch :: "migration_dispatch option"
  mj_result :: "migration_result option"
  mj_request :: migration_request
  mj_phase :: migration_phase
  envelope_digests :: "32 bytes list"

definition migration_reserved :: "migration_request \<Rightarrow> migration_journal" where
  "migration_reserved q = \<lparr>mj_owner = None, mj_epoch = 0, mj_dispatch = None, mj_result = None,
     mj_request = q, mj_phase = MReserved, envelope_digests = []\<rparr>"

definition ownership :: "migration_journal \<Rightarrow> (migration_ownership, keyrack_error) result" where
  "ownership j = and_then (ok_or (migration_invalid ''migration has no owner'') (mj_owner j)) (\<lambda>owner.
     Ok \<lparr>mo_owner = owner, mo_epoch = mj_epoch j\<rparr>)"

definition require_owner :: "migration_journal \<Rightarrow> migration_ownership \<Rightarrow> (unit, keyrack_error) result" where
  "require_owner j w =
     (if is_nil (mo_owner w) \<or> mj_owner j \<noteq> Some (mo_owner w) \<or> mo_epoch w \<noteq> mj_epoch j \<or> mj_epoch j = 0
      then Err migration_busy else Ok ())"

definition claim_migration :: "uuid \<Rightarrow> u64 \<Rightarrow> migration_journal \<Rightarrow> (migration_journal, keyrack_error) result" where
  "claim_migration owner expected_epoch j =
     (if is_nil owner \<or> mj_epoch j \<noteq> expected_epoch then Err migration_busy
      else if mj_phase j = MCommitted then Err (migration_invalid ''committed migration cannot be taken over'')
      else and_then (ok_or (migration_invalid ''ownership epoch exhausted'') (checked_add (mj_epoch j) 1)) (\<lambda>epoch.
        Ok (j\<lparr>mj_epoch := epoch, mj_owner := Some owner\<rparr>)))"

definition begin_dispatch ::
  "migration_ownership \<Rightarrow> bool \<Rightarrow> migration_journal \<Rightarrow> (migration_journal, keyrack_error) result" where
  "begin_dispatch w safe j =
     and_then (require_owner j w) (\<lambda>_.
     if mj_phase j \<noteq> MReserved then Err (migration_invalid ''provider dispatch requires a reserved migration'')
     else if (case mj_dispatch j of Some d \<Rightarrow> \<not> retry_safe d | None \<Rightarrow> False)
     then Err (ProviderUnavailable
       ''unknown migration provider outcome requires reconciliation; reservation retained'')
     else Ok (j\<lparr>mj_dispatch := Some \<lparr>md_epoch = mo_epoch w, retry_safe = safe\<rparr>\<rparr>))"

definition validate_envelopes :: "migration_journal \<Rightarrow> byte list list \<Rightarrow> (unit, keyrack_error) result" where
  "validate_envelopes j es =
     (if length es \<noteq> length (key_versions (mq_child (mj_request j))) \<or>
         list_ex (\<lambda>b. b = [] \<or> MAX_CREATION_ENVELOPE_BYTES < length b) es
      then Err (migration_invalid ''requires one bounded envelope per version'')
      else Ok ())"

definition nth_digest :: "migration_journal \<Rightarrow> nat \<Rightarrow> 32 bytes option" where
  "nth_digest j i = (if i < length (envelope_digests j) then Some (envelope_digests j ! i) else None)"

fun version_results ::
  "creation_env \<Rightarrow> migration_journal \<Rightarrow> nat \<Rightarrow> key_version_record list \<Rightarrow> key_version_record list \<Rightarrow>
     byte list list \<Rightarrow> (migration_version_result list, keyrack_error) result" where
  "version_results env j index (old # olds) (new # news) (bytes # bs) =
     and_then (wrapped (material old)) (\<lambda>om.
     and_then (wrapped (material new)) (\<lambda>nm.
     and_then (ok_or (migration_invalid ''missing staged digest'') (nth_digest j index)) (\<lambda>digest.
     and_then (version_results env j (index + 1) olds news bs) (\<lambda>rest.
       Ok (\<lparr>mv_version = version_number old, old_parent_version = nz_get (vk_version (pw_parent om)),
            new_parent_version = nz_get (vk_version (pw_parent nm)),
            old_envelope_digest = to_hex (bytes_list (env_blake3 env bytes)),
            new_envelope_digest = to_hex (bytes_list digest),
            old_reference = ident_str (pw_material_ref om),
            new_reference = ident_str (pw_material_ref nm)\<rparr> # rest)))))"
| "version_results env j index _ _ _ = Ok []"

definition terminal_result ::
  "creation_env \<Rightarrow> byte list list \<Rightarrow> migration_journal \<Rightarrow> (migration_result, keyrack_error) result" where
  "terminal_result env old_envelopes j =
     and_then (validate_envelopes j old_envelopes) (\<lambda>_.
     and_then (version_results env j 0 (key_versions (mq_child (mj_request j)))
                 (key_versions (mq_proposed (mj_request j))) old_envelopes) (\<lambda>versions.
       Ok \<lparr>mr_operation_id = mq_operation (mj_request j), mr_child = kr_lid (mq_child (mj_request j)),
           mr_old_parent = kr_lid (mq_old_parent (mj_request j)),
           old_parent_versions = remdups_adj (sort (map old_parent_version versions)),
           mr_new_parent = kr_lid (mq_new_parent (mj_request j)),
           mr_new_parent_version = current_key_version (mq_new_parent (mj_request j)),
           digest_algorithm = ''blake3'', mr_versions = versions\<rparr>))"

definition ownership_ok :: "migration_journal \<Rightarrow> bool" where
  "ownership_ok j \<longleftrightarrow>
     \<not> ((case mj_owner j of Some owner \<Rightarrow> is_nil owner | None \<Rightarrow> False) \<or>
        (mj_owner j \<noteq> None) \<noteq> (0 < mj_epoch j) \<or>
        (case mj_dispatch j of Some d \<Rightarrow> md_epoch d = 0 \<or> mj_epoch j < md_epoch d | None \<Rightarrow> False) \<or>
        (mj_result j \<noteq> None) \<noteq> (mj_phase j = MCommitted))"

definition result_binding_ok :: "migration_journal \<Rightarrow> migration_result \<Rightarrow> bool" where
  "result_binding_ok j r \<longleftrightarrow>
     \<not> (mr_operation_id r \<noteq> mq_operation (mj_request j) \<or> mr_child r \<noteq> kr_lid (mq_child (mj_request j)) \<or>
        mr_old_parent r \<noteq> kr_lid (mq_old_parent (mj_request j)) \<or>
        mr_new_parent r \<noteq> kr_lid (mq_new_parent (mj_request j)) \<or>
        mr_new_parent_version r \<noteq> current_key_version (mq_new_parent (mj_request j)) \<or>
        digest_algorithm r \<noteq> ''blake3'' \<or>
        length (mr_versions r) \<noteq> length (key_versions (mq_child (mj_request j))))"

definition is_lower_hex :: "byte \<Rightarrow> bool" where
  "is_lower_hex b \<longleftrightarrow> (48 \<le> b \<and> b \<le> 57) \<or> (97 \<le> b \<and> b \<le> 102)"

definition version_result_ok ::
  "migration_version_result \<Rightarrow> key_version_record \<Rightarrow> parent_wrapped_material \<Rightarrow> parent_wrapped_material \<Rightarrow> 32 bytes \<Rightarrow> bool" where
  "version_result_ok entry old om nm digest \<longleftrightarrow>
     \<not> (mv_version entry \<noteq> version_number old \<or>
        old_parent_version entry \<noteq> nz_get (vk_version (pw_parent om)) \<or>
        new_parent_version entry \<noteq> nz_get (vk_version (pw_parent nm)) \<or>
        old_reference entry \<noteq> ident_str (pw_material_ref om) \<or>
        new_reference entry \<noteq> ident_str (pw_material_ref nm) \<or>
        new_envelope_digest entry \<noteq> to_hex (bytes_list digest) \<or>
        length (old_envelope_digest entry) \<noteq> 64 \<or>
        \<not> list_all is_lower_hex (as_bytes (old_envelope_digest entry)))"

fun check_version_results ::
  "migration_journal \<Rightarrow> nat \<Rightarrow> migration_version_result list \<Rightarrow> key_version_record list \<Rightarrow>
     key_version_record list \<Rightarrow> (u64 list, keyrack_error) result" where
  "check_version_results j index (entry # entries) (old # olds) (new # news) =
     and_then (wrapped (material old)) (\<lambda>om.
     and_then (wrapped (material new)) (\<lambda>nm.
     and_then (ok_or (migration_invalid ''terminal envelope digest missing'') (nth_digest j index)) (\<lambda>digest.
     if \<not> version_result_ok entry old om nm digest
     then Err (migration_invalid ''terminal version binding mismatch'')
     else and_then (check_version_results j (index + 1) entries olds news) (\<lambda>rest.
       Ok (old_parent_version entry # rest)))))"
| "check_version_results j index _ _ _ = Ok []"

definition validate_result :: "migration_journal \<Rightarrow> migration_result \<Rightarrow> (unit, keyrack_error) result" where
  "validate_result j r =
     (if \<not> result_binding_ok j r then Err (migration_invalid ''terminal result binding mismatch'')
      else and_then (check_version_results j 0 (mr_versions r) (key_versions (mq_child (mj_request j)))
                       (key_versions (mq_proposed (mj_request j)))) (\<lambda>olds.
        if old_parent_versions r \<noteq> remdups_adj (sort olds)
        then Err (migration_invalid ''terminal old-parent version set mismatch'') else Ok ()))"

definition validate_migration_journal ::
  "creation_env \<Rightarrow> migration_journal \<Rightarrow> (unit, keyrack_error) result" where
  "validate_migration_journal env j =
     and_then (validate_migration env (mj_request j)) (\<lambda>_.
     if \<not> ownership_ok j then Err (migration_invalid ''invalid migration ownership or terminal state'')
     else and_then (case mj_result j of None \<Rightarrow> Ok () | Some r \<Rightarrow> validate_result j r) (\<lambda>_.
     if length (envelope_digests j) \<noteq>
        (if mj_phase j = MReserved then 0 else length (key_versions (mq_child (mj_request j))))
     then Err (migration_invalid ''journal envelope digest count mismatch'')
     else Ok ()))"

definition record_envelope_digests ::
  "creation_env \<Rightarrow> byte list list \<Rightarrow> migration_journal \<Rightarrow> migration_journal" where
  "record_envelope_digests env es j = j\<lparr>envelope_digests := map (env_blake3 env) es\<rparr>"

fun position :: "('a \<Rightarrow> bool) \<Rightarrow> 'a list \<Rightarrow> nat option" where
  "position p [] = None"
| "position p (x # xs) = (if p x then Some 0 else map_option Suc (position p xs))"

definition verify_envelope ::
  "creation_env \<Rightarrow> migration_journal \<Rightarrow> u64 \<Rightarrow> byte list \<Rightarrow> (unit, keyrack_error) result" where
  "verify_envelope env j version envelope =
     and_then (ok_or (migration_invalid ''unknown envelope version'')
        (position (\<lambda>v. version_number v = version) (key_versions (mq_proposed (mj_request j))))) (\<lambda>index.
     if envelope = [] \<or> MAX_CREATION_ENVELOPE_BYTES < length envelope \<or>
        nth_digest j index \<noteq> Some (env_blake3 env envelope)
     then Err (migration_invalid ''staged envelope binding mismatch'')
     else Ok ())"

section \<open>Re-derived identifiers\<close>

definition rederive_lid ::
  "(string \<Rightarrow> string) \<Rightarrow> (byte list \<Rightarrow> 32 bytes) \<Rightarrow> identity_tags \<Rightarrow> canonicalization_version \<Rightarrow>
     (lid, keyrack_error) result" where
  "rederive_lid nfc blake3 tags version =
     and_then (map_err InvalidIdentity
       (canonicalize nfc version (fold (\<lambda>(k, v) m. bt_insert k (AString v) m) (tag_map tags) []))) (\<lambda>form.
       Ok (derive blake3 version form))"

text \<open>Under the version a key was created with, its stored tags give its identifier back.\<close>

lemma rederive_lid_stable:
  assumes "nfc_idempotent nfc" and "from_attribute_set nfc a = Ok t" and "canonicalize nfc version a = Ok form"
  shows "rederive_lid nfc blake3 t version = Ok (derive blake3 version form)"
proof -
  have "fold (\<lambda>(k, v) m. bt_insert k (AString v) m) (tag_map t) m = fold (\<lambda>(k, v) m. bt_insert k v m) (tags_as_attributes t) m" for m
    by (simp add: tags_as_attributes_def fold_map comp_def split_def)
  moreover have "bt_collect (tags_as_attributes t) = tags_as_attributes t"
    using tags_sorted [OF assms(1,2)] by (intro bt_collect_sorted) (simp add: tags_as_attributes_def bt_sorted_map_values)
  ultimately show ?thesis
    using tags_canonical_form [OF assms(1,2), of version] assms(3)
    by (simp add: rederive_lid_def bt_collect_def)
qed

section \<open>What a valid request proposes\<close>

lemma same_domain_Ok_iff:
  "same_domain first vs = Ok () \<longleftrightarrow>
     (\<forall>v \<in> set vs. \<exists>m. material v = ParentWrapped m \<and> pw_provider_ref m = pw_provider_ref first \<and>
        pw_security_domain m = pw_security_domain first \<and> pw_mechanism m = pw_mechanism first)"
  by (induction vs) (auto simp: wrapped_def split: key_material.splits)

text \<open>How one version of the child is rebound.\<close>

definition rebound :: "creation_env \<Rightarrow> migration_request \<Rightarrow> key_version_record \<Rightarrow> key_version_record \<Rightarrow> bool" where
  "rebound env q v w \<longleftrightarrow> (\<exists>m p r. material v = ParentWrapped m \<and> vk_lid (pw_parent m) = kr_lid (mq_old_parent q) \<and>
     nz_get p = current_key_version (mq_new_parent q) \<and>
     ident_str r = migration_reference env (mq_operation q) (version_number v) \<and>
     w = v\<lparr>material := ParentWrapped (m\<lparr>pw_parent := \<lparr>vk_lid = kr_lid (mq_new_parent q), vk_version = p\<rparr>,
            pw_material_ref := r\<rparr>)\<rparr>)"

lemma rewrap_Ok:
  "rewrap env operation parent complaint n m = Ok m' \<Longrightarrow>
     \<exists>r. ident_str r = migration_reference env operation n \<and> m' = m\<lparr>pw_parent := parent, pw_material_ref := r\<rparr>"
  by (cases m) (auto simp: rewrap_def parent_wrapped_new_def identifier_new_Ok_iff)

lemma expected_versions_Ok:
  assumes "expected_versions env q target seen vs = Ok ws"
  shows "list_all2 (rebound env q) vs ws \<and> distinct (map version_number vs) \<and>
     set (map version_number vs) \<inter> set seen = {} \<and> 0 \<notin> set (map version_number vs) \<and>
     (\<forall>v \<in> set vs. is_primary v = (version_number v = current_key_version (mq_child q)))"
  using assms
proof (induction vs arbitrary: seen ws)
  case (Cons v vs)
  then obtain m source parent m' ws' where m: "material v = ParentWrapped m"
    and ok: "version_number v \<noteq> 0" "version_number v \<notin> set seen"
      "is_primary v = (version_number v = current_key_version (mq_child q))"
      "vk_lid (pw_parent m) = kr_lid (mq_old_parent q)"
    and parent: "versioned_key_id_new (kr_lid (mq_new_parent q)) (current_key_version (mq_new_parent q)) = Ok parent"
    and m': "rewrap env (mq_operation q) parent ''invalid material'' (version_number v) m = Ok m'"
    and rest: "expected_versions env q target (version_number v # seen) vs = Ok ws'"
    and ws: "ws = v\<lparr>material := ParentWrapped m'\<rparr> # ws'"
    by (auto split: if_splits key_material.splits)
  have "rebound env q v (v\<lparr>material := ParentWrapped m'\<rparr>)"
    using rewrap_Ok [OF m'] m ok parent unfolding rebound_def
    by (auto simp: versioned_key_id_new_def nonzero_new_Some_iff)
  with Cons.IH [OF rest] ok ws show ?case by auto
qed simp

lemma validate_migration_Ok_iff:
  "validate_migration env q = Ok () \<longleftrightarrow>
     canonicalize_conditions (mq_conditions q) = Ok (mq_conditions q) \<and>
     conditions_hold q (mq_conditions q) (sort (map version_number (key_versions (mq_child q)))) \<and>
     migration_identity_ok q \<and> migration_parent_ok (mq_old_parent q) \<and> migration_parent_ok (mq_new_parent q) \<and>
     current_key_version (mq_child q) \<in> version_number ` set (key_versions (mq_child q)) \<and>
     (\<exists>target vs first. primary_version (mq_new_parent q) = Some target \<and>
        expected_versions env q target [] (key_versions (mq_child q)) = Ok vs \<and>
        mq_proposed q = expected_record q vs \<and> is_ok (record_value (mq_proposed q)) \<and>
        material (hd (key_versions (mq_child q))) = ParentWrapped first \<and>
        same_domain first (key_versions (mq_child q)) = Ok ())"
proof -
  have w: "wrapped m = Ok x \<longleftrightarrow> m = ParentWrapped x" for m x
    by (cases m) (auto simp: wrapped_def)
  show ?thesis
    unfolding validate_migration_def by (auto simp: same_json_Ok_True w split: if_splits)
qed

text \<open>
  Rebinding changes the parent of a version and the reference of its envelope; the references of
  one migration differ for different versions.
\<close>

lemma validate_migration_proposed:
  assumes "validate_migration env q = Ok ()"
  obtains vs where "mq_proposed q = expected_record q vs" and "list_all2 (rebound env q) (key_versions (mq_child q)) vs"
    and "distinct (map version_number (key_versions (mq_child q)))" and "is_ok (record_value (mq_proposed q))"
    and "0 \<notin> set (map version_number (key_versions (mq_child q)))"
    and "\<forall>v \<in> set (key_versions (mq_child q)). is_primary v = (version_number v = current_key_version (mq_child q))"
  using assms unfolding validate_migration_Ok_iff by (blast dest: expected_versions_Ok)

lemma rebound_same:
  "rebound env q v w \<Longrightarrow> version_number w = version_number v \<and> is_primary w = is_primary v \<and> kv_created_at w = kv_created_at v"
  by (auto simp: rebound_def)

lemma rebound_wrapped:
  "rebound env q v w \<Longrightarrow> \<exists>m m'. material v = ParentWrapped m \<and> material w = ParentWrapped m' \<and>
     ident_str (pw_material_ref m') = migration_reference env (mq_operation q) (version_number v) \<and>
     vk_lid (pw_parent m') = kr_lid (mq_new_parent q) \<and> vk_lid (pw_parent m) = kr_lid (mq_old_parent q) \<and>
     nz_get (vk_version (pw_parent m')) = current_key_version (mq_new_parent q)"
  by (auto simp: rebound_def)

lemma rebound_numbers: "list_all2 (rebound env q) vs ws \<Longrightarrow> map version_number ws = map version_number vs"
  by (induction rule: list_all2_induct) (auto dest: rebound_same)

lemma migration_reference_inject [simp]:
  "migration_reference env operation m = migration_reference env operation n \<longleftrightarrow> m = n"
  by (simp add: migration_reference_def)

section \<open>The terminal result is accepted\<close>

lemma is_lower_hex_table: "\<forall>d \<in> set [0..<16]. is_lower_hex (of_char (''0123456789abcdef'' ! d))"
  by code_simp

lemma is_lower_hex_char: "unat n < 16 \<Longrightarrow> is_lower_hex (of_char (hex_char n))"
  using is_lower_hex_table by (simp add: hex_char_def)

lemma to_hex_lower: "list_all is_lower_hex (as_bytes (to_hex bs))"
  by (induction bs) (simp_all add: to_hex_def hex_byte_def as_bytes_def is_lower_hex_char nibble_high nibble_low)

lemma version_results_length:
  "version_results env j index olds news bs = Ok rs \<Longrightarrow> length olds = length news \<Longrightarrow> length bs = length olds \<Longrightarrow>
     length rs = length olds"
  by (induction env j index olds news bs arbitrary: rs rule: version_results.induct) auto

lemma version_results_check:
  "version_results env j index olds news bs = Ok rs \<Longrightarrow> length bs = length olds \<Longrightarrow> length news = length olds \<Longrightarrow>
     envelope_digests k = envelope_digests j \<Longrightarrow>
     check_version_results k index rs olds news = Ok (map old_parent_version rs)"
proof (induction env j index olds news bs arbitrary: rs rule: version_results.induct)
  case (1 env j index old olds new news bytes bs)
  then show ?case
    by (auto simp: version_result_ok_def to_hex_lower nth_digest_def split: if_splits)
qed (auto split: list.splits)

lemma version_results_total:
  assumes "list_all2 (rebound env q) olds news" and "length bs = length olds"
    and "index + length olds \<le> length (envelope_digests j)"
  shows "is_ok (version_results e j index olds news bs)"
  using assms
proof (induction arbitrary: bs index rule: list_all2_induct)
  case (Cons v vs w ws)
  then obtain b bs' where bs: "bs = b # bs'" by (cases bs) auto
  obtain m m' where "material v = ParentWrapped m" "material w = ParentWrapped m'"
    using rebound_wrapped [OF Cons.hyps(1)] by blast
  with Cons.IH [of bs' "index + 1"] Cons.prems bs show ?case
    by (auto simp: wrapped_def nth_digest_def is_ok_iff)
qed simp

lemma terminal_result_accepted:
  assumes valid: "validate_migration_journal env j = Ok ()" and staged: "mj_phase j = MStaged"
    and es: "validate_envelopes j old_envelopes = Ok ()"
  shows "\<exists>r. terminal_result env old_envelopes j = Ok r \<and>
     validate_migration_journal env (j\<lparr>mj_result := Some r, mj_phase := MCommitted\<rparr>) = Ok ()"
proof -
  let ?q = "mj_request j"
  let ?olds = "key_versions (mq_child ?q)" and ?news = "key_versions (mq_proposed ?q)"
  have q: "validate_migration env ?q = Ok ()" and own: "ownership_ok j"
    and n: "length (envelope_digests j) = length ?olds"
    using valid staged by (auto simp: validate_migration_journal_def split: if_splits)
  obtain vs where all: "list_all2 (rebound env ?q) ?olds ?news"
    using validate_migration_proposed [OF q] by (metis expected_record_def key_record.select_convs(22)
        key_record.surjective key_record.update_convs(22))
  have len: "length old_envelopes = length ?olds" "length ?news = length ?olds"
    using es list_all2_lengthD [OF all] by (auto simp: validate_envelopes_def split: if_splits)
  obtain rs where rs: "version_results env j 0 ?olds ?news old_envelopes = Ok rs"
    using version_results_total [OF all, of old_envelopes 0 j env] len n by (auto simp: is_ok_iff)
  have "length rs = length ?olds" using version_results_length [OF rs] len by simp
  moreover have "check_version_results (j\<lparr>mj_result := r, mj_phase := MCommitted\<rparr>) 0 rs ?olds ?news =
      Ok (map old_parent_version rs)" for r
    using version_results_check [OF rs] len by simp
  ultimately show ?thesis
    using q own n staged rs es
    by (auto simp: terminal_result_def validate_migration_journal_def validate_result_def result_binding_ok_def
        ownership_ok_def split: option.splits)
qed

section \<open>Properties\<close>

definition sample_mparent :: key_record where
  "sample_mparent = sample_parent\<lparr>kr_exportability := NonExportable, first_exported_at := None\<rparr>"

text \<open>
  C26: a migration changes nothing but the wrapping. A request that validates proposes the child
  with the new parent, the next concurrency value and its timestamp; every version, in order and
  with its number, creation time, key format, provider, domain and mechanism, is rebound from the
  old parent to the primary version of the new one, and no two versions share an envelope
  reference.
\<close>

theorem migration_changes_only_wrapping:
  assumes "validate_migration env q = Ok ()"
  shows "\<exists>vs. mq_proposed q = (mq_child q)\<lparr>parent_lid := Some (kr_lid (mq_new_parent q)),
             occ_version := occ_version (mq_child q) + 1, updated_at := updated_at (mq_proposed q), key_versions := vs\<rparr> \<and>
           list_all2 (rebound env q) (key_versions (mq_child q)) vs \<and>
           distinct (map version_number vs) \<and>
           distinct (map (\<lambda>v. migration_reference env (mq_operation q) (version_number v)) vs)"
proof -
  obtain vs where vs: "mq_proposed q = expected_record q vs" "list_all2 (rebound env q) (key_versions (mq_child q)) vs"
    "distinct (map version_number (key_versions (mq_child q)))"
    using validate_migration_proposed [OF assms] by blast
  have d: "distinct (map version_number vs)"
    using vs(3) rebound_numbers [OF vs(2)] by simp
  then have "distinct (map (migration_reference env (mq_operation q)) (map version_number vs))"
    by (simp add: distinct_map inj_on_def del: map_map)
  then have "distinct (map (\<lambda>v. migration_reference env (mq_operation q) (version_number v)) vs)"
    by (simp add: comp_def)
  with vs d show ?thesis
    unfolding expected_record_def by (intro exI [of _ vs] conjI) simp_all
qed

lemma sample_migration_reference:
  "identifier_new (migration_reference sample_env (fill 7) 1) = Ok (Ident ''migration:u:1'')"
  by (simp add: migration_reference_def sample_env_def show_nat.simps identifier_new_def
      validate_identifier_def MAX_WRAPPING_IDENTIFIER_BYTES_def as_bytes_def is_ascii_graphic_def)

definition sample_rewrapped :: parent_wrapped_material where
  "sample_rewrapped = sample_material\<lparr>pw_material_ref := Ident ''migration:u:1''\<rparr>"

definition sample_proposal :: migration_request where
  "sample_proposal = \<lparr>mq_operation = fill 7, requested_parent = None, mq_conditions = no_conditions,
     mq_child = sample_child, mq_old_parent = sample_mparent, mq_new_parent = sample_mparent,
     mq_proposed = sample_child\<lparr>parent_lid := Some (Lid (fill 2)), occ_version := 2, updated_at := 5,
       key_versions := [\<lparr>version_number = 1, material = ParentWrapped sample_rewrapped, kv_created_at = 0,
         is_primary = True\<rparr>]\<rparr>\<rparr>"

lemma sample_rewrap:
  "rewrap sample_env (fill 7) \<lparr>vk_lid = Lid (fill 2), vk_version = NonZero 1\<rparr> complaint 1 sample_material = Ok sample_rewrapped"
  by (simp add: rewrap_def sample_migration_reference parent_wrapped_new_def sample_material_def sample_rewrapped_def)

lemma sample_proposal_simps [simp]:
  "mq_child sample_proposal = sample_child" "mq_old_parent sample_proposal = sample_mparent"
  "mq_new_parent sample_proposal = sample_mparent" "mq_conditions sample_proposal = no_conditions"
  "mq_operation sample_proposal = fill 7" "requested_parent sample_proposal = None"
  by (simp_all add: sample_proposal_def)

definition sample_target :: key_version_record where
  "sample_target = version_provider_resident 1 \<lparr>key_id = ''h'', handle_spec = Aes256\<rparr> (Some (ProviderRef ''p'')) 0 True"

definition sample_rebound :: key_version_record where
  "sample_rebound = \<lparr>version_number = 1, material = ParentWrapped sample_rewrapped, kv_created_at = 0, is_primary = True\<rparr>"

lemma sample_expected_versions:
  "expected_versions sample_env sample_proposal sample_target [] (key_versions sample_child) = Ok [sample_rebound]"
  using sample_rewrap
  by (simp add: sample_mparent_def sample_parent_def sample_child_def get_version_def sample_target_def
      sample_material_def NonZero_inverse version_provider_resident_def version_provider_ref_def
      versioned_key_id_new_def nonzero_new_def sample_rebound_def)

lemma sample_proposal_valid: "validate_migration sample_env sample_proposal = Ok ()"
proof -
  have "migration_identity_ok sample_proposal" "migration_parent_ok sample_mparent"
    by (simp_all add: migration_identity_ok_def migration_parent_ok_def sample_mparent_def is_nil_def
        is_resident_def version_provider_resident_def has_compromise_history_def i64_max_def word_le_nat_alt
        sample_creation_defs)
  moreover have "primary_version sample_mparent = Some sample_target"
    by (simp add: primary_version_def sample_mparent_def sample_parent_def sample_target_def version_provider_resident_def)
  moreover have "mq_proposed sample_proposal = expected_record sample_proposal [sample_rebound]"
    by (simp add: sample_proposal_def expected_record_def sample_rebound_def sample_mparent_def sample_parent_def
        sample_child_def)
  moreover have "is_ok (record_value (mq_proposed sample_proposal))"
    by (simp add: sample_proposal_def record_value_def serialize_version_def)
  moreover have "same_domain sample_material (key_versions sample_child) = Ok ()"
    "material (hd (key_versions sample_child)) = ParentWrapped sample_material"
    "current_key_version sample_child \<in> version_number ` set (key_versions sample_child)"
    by (simp_all add: sample_child_def wrapped_def)
  moreover have "canonicalize_conditions no_conditions = Ok no_conditions"
    "conditions_hold sample_proposal no_conditions covered" for covered
    by (simp_all add: canonicalize_conditions_def no_conditions_def conditions_hold_def)
  ultimately show ?thesis
    unfolding validate_migration_Ok_iff sample_proposal_simps
    using sample_expected_versions by blast
qed

theorem migration_changes_only_wrapping_witness:
  "kr_lid (mq_proposed sample_proposal) = kr_lid sample_child \<and> kr_state (mq_proposed sample_proposal) = Enabled"
  using migration_changes_only_wrapping [OF sample_proposal_valid]
  by (auto simp: sample_proposal_def sample_child_def sample_record_def)

end
