(* ===== verification/Destruction.thy ===== *)
theory Destruction
  imports Creation "HOL-Library.Product_Lexorder"
begin

text \<open>
  Key destruction (\<open>destruction.rs\<close>): the dependency census taken before a deletion, the operator's
  approval of dependent data loss, the fenced claim on a due key, and its completion against the
  identical snapshot. A dependent is the tuple of its fields in declaration order, which is the
  order \<open>derive(Ord)\<close> compares. \<open>Utc::now()\<close> is the argument \<open>now\<close>.
\<close>

section \<open>Dependencies and intent\<close>

type_synonym destruction_dependent = "lid \<times> u64 \<times> u64 \<times> string"

record deletion_intent =
  allow_dependent_data_loss :: bool
  approved_dependents :: "destruction_dependent list"

record destruction_dependencies =
  logical_only_children :: u64
  own_parent_wrapped_versions :: u64
  dependent_wrapping_edges :: u64
  creation_journal_rows :: u64
  in_flight_creation_journal_rows :: u64
  migration_journal_rows :: u64
  dependents :: "destruction_dependent list"

definition dependencies_is_empty :: "destruction_dependencies \<Rightarrow> bool" where
  "dependencies_is_empty d \<longleftrightarrow> dependents d = [] \<and> in_flight_creation_journal_rows d = 0 \<and> migration_journal_rows d = 0"

definition dependencies_summary :: "destruction_dependencies \<Rightarrow> string" where
  "dependencies_summary d =
     ''own_parent_wrapped_versions='' @ show_nat (unat (own_parent_wrapped_versions d)) @
     '', dependent_wrapping_edges='' @ show_nat (unat (dependent_wrapping_edges d)) @
     '', creation_journal_rows='' @ show_nat (unat (creation_journal_rows d)) @
     '', in_flight_creation_journal_rows='' @ show_nat (unat (in_flight_creation_journal_rows d)) @
     '', migration_journal_rows='' @ show_nat (unat (migration_journal_rows d))"

definition dinvalid :: "string \<Rightarrow> keyrack_error" where
  "dinvalid message = Storage (''destruction: '' @ message)"

definition logical_only_child :: "lid \<Rightarrow> key_record \<Rightarrow> bool" where
  "logical_only_child l r \<longleftrightarrow> kr_lid r \<noteq> l \<and> parent_lid r = Some l \<and> key_versions r \<noteq> [] \<and>
     list_all is_resident (key_versions r)"

fun include_versions ::
  "lid \<Rightarrow> key_record \<Rightarrow> key_version_record list \<Rightarrow> destruction_dependencies \<Rightarrow> destruction_dependencies" where
  "include_versions l r [] d = d"
| "include_versions l r (v # vs) d =
     include_versions l r vs (case material v of
         ProviderResident _ _ \<Rightarrow> d
       | ParentWrapped m \<Rightarrow>
           if kr_lid r = l
           then d\<lparr>own_parent_wrapped_versions := own_parent_wrapped_versions d + 1\<rparr>
           else if vk_lid (pw_parent m) = l
           then d\<lparr>dependent_wrapping_edges := dependent_wrapping_edges d + 1,
                  dependents := dependents d @ [(kr_lid r, version_number v,
                    nz_get (vk_version (pw_parent m)), ident_str (pw_material_ref m))]\<rparr>
           else d)"

definition count_logical_child ::
  "lid \<Rightarrow> key_record \<Rightarrow> destruction_dependencies \<Rightarrow> (destruction_dependencies, keyrack_error) result" where
  "count_logical_child l r d =
     (if logical_only_child l r
      then and_then (ok_or (dinvalid ''dependency count overflow'') (checked_add (logical_only_children d) 1))
             (\<lambda>n. Ok (d\<lparr>logical_only_children := n\<rparr>))
      else Ok d)"

definition include_record ::
  "lid \<Rightarrow> key_record \<Rightarrow> destruction_dependencies \<Rightarrow> (destruction_dependencies, keyrack_error) result" where
  "include_record l r d =
     and_then (count_logical_child l r d) (\<lambda>d.
     if kr_state r = Destroyed then Ok d
     else let d = include_versions l r (key_versions r) d
          in Ok (d\<lparr>dependents := remdups_adj (sort (dependents d))\<rparr>))"

definition refusal_reason :: "destruction_dependencies \<Rightarrow> deletion_intent \<Rightarrow> string option" where
  "refusal_reason d i =
     (if 0 < in_flight_creation_journal_rows d \<or> 0 < migration_journal_rows d
      then Some ''in_flight_journal''
      else if dependents d \<noteq> [] \<and> \<not> allow_dependent_data_loss i
      then Some ''dependent_data_loss_not_approved''
      else if list_ex (\<lambda>e. e \<notin> set (approved_dependents i)) (dependents d)
      then Some ''dependent_outside_approved_snapshot''
      else None)"

definition validate_intent ::
  "destruction_dependencies \<Rightarrow> deletion_intent \<Rightarrow> (unit, keyrack_error) result" where
  "validate_intent d i = (case refusal_reason d i of
       Some reason \<Rightarrow> Err (DeletionDependencyRefused reason (dependencies_summary d))
     | None \<Rightarrow> Ok ())"

definition approval ::
  "destruction_dependencies \<Rightarrow> bool \<Rightarrow> (deletion_intent, keyrack_error) result" where
  "approval d allow =
     (let i = \<lparr>allow_dependent_data_loss = allow, approved_dependents = (if allow then dependents d else [])\<rparr>
      in and_then (validate_intent d i) (\<lambda>_. Ok i))"

section \<open>Claims and completion\<close>

record destruction_claim =
  dc_operation :: uuid
  dc_record :: key_record
  dc_recovered :: bool

fun destruction_versions_ok ::
  "key_record \<Rightarrow> u64 list \<Rightarrow> key_version_record list \<Rightarrow> (unit, keyrack_error) result" where
  "destruction_versions_ok r seen [] = Ok ()"
| "destruction_versions_ok r seen (v # vs) =
     (if version_number v = 0 \<or> version_number v \<in> set seen \<or>
         is_primary v \<noteq> (version_number v = current_key_version r)
      then Err (dinvalid ''invalid material history'')
      else and_then (case material v of
          ProviderResident h _ \<Rightarrow>
            if key_id h = [] \<or> handle_spec h \<noteq> kr_key_spec r
            then Err (dinvalid ''invalid resident history'') else Ok ()
        | ParentWrapped m \<Rightarrow>
            if vk_lid (pw_parent m) = kr_lid r
            then Err (dinvalid ''self-wrapped destruction history'') else Ok ()) (\<lambda>_.
      destruction_versions_ok r (version_number v # seen) vs))"

definition validate_destruction_history :: "key_record \<Rightarrow> (unit, keyrack_error) result" where
  "validate_destruction_history r =
     (if key_versions r = [] \<or> primary_version r = None
      then Err (dinvalid ''missing material history'')
      else destruction_versions_ok r [] (key_versions r))"

definition claim_committed :: "uuid \<Rightarrow> key_record \<Rightarrow> (destruction_claim, keyrack_error) result" where
  "claim_committed operation r =
     (if is_nil operation \<or> kr_state r \<noteq> PendingDeletion then Err (dinvalid ''invalid committed claim'')
      else and_then (validate_destruction_history r) (\<lambda>_.
        Ok \<lparr>dc_operation = operation, dc_record = r, dc_recovered = False\<rparr>))"

definition claim_recovered :: "uuid \<Rightarrow> key_record \<Rightarrow> (destruction_claim, keyrack_error) result" where
  "claim_recovered operation r = and_then (claim_committed operation r) (\<lambda>c. Ok (c\<lparr>dc_recovered := True\<rparr>))"

definition prepare_claim :: "key_record \<Rightarrow> u64 \<Rightarrow> timestamp \<Rightarrow> (key_record, keyrack_error) result" where
  "prepare_claim r expected now =
     (if occ_version r \<noteq> expected
      then Err (OptimisticConcurrencyConflict (kr_lid r) expected (occ_version r))
      else if kr_state r \<noteq> PendingDeletion \<or>
              \<not> (case scheduled_deletion_at r of Some due \<Rightarrow> due \<le> now | None \<Rightarrow> False)
      then Err (dinvalid ''key is not due for destruction'')
      else and_then (validate_destruction_history r) (\<lambda>_.
        if expected = 0 \<or> i64_max - 2 < expected then Err (dinvalid ''OCC out of range'')
        else Ok (r\<lparr>occ_version := occ_version r + 1, updated_at := now\<rparr>)))"

definition completed_record ::
  "timestamp \<Rightarrow> destruction_claim \<Rightarrow> key_record \<Rightarrow> (key_record, keyrack_error) result" where
  "completed_record now c current =
     and_then (same_json (dc_record c) current) (\<lambda>same.
     if \<not> same then Err (dinvalid ''claimed snapshot changed'')
     else and_then (ok_or (dinvalid ''OCC overflow'')
            (case checked_add (occ_version current) 1 of
               Some v \<Rightarrow> if v \<le> i64_max then Some v else None
             | None \<Rightarrow> None)) (\<lambda>occ.
       Ok (current\<lparr>occ_version := occ, kr_state := Destroyed, updated_at := now\<rparr>)))"

definition validate_completed_record ::
  "timestamp \<Rightarrow> destruction_claim \<Rightarrow> key_record \<Rightarrow> (unit, keyrack_error) result" where
  "validate_completed_record now c current =
     and_then (completed_record now c (dc_record c)) (\<lambda>expected.
     and_then (same_json (expected\<lparr>updated_at := updated_at current\<rparr>) current) (\<lambda>same.
       if \<not> same then Err (dinvalid ''completed snapshot changed'') else Ok ()))"

section \<open>The census is complete\<close>

text \<open>The edges of a record into a parent: one for each wrapped version under it.\<close>

definition edges_into :: "lid \<Rightarrow> key_record \<Rightarrow> destruction_dependent set" where
  "edges_into l r = {(kr_lid r, version_number v, nz_get (vk_version (pw_parent m)), ident_str (pw_material_ref m)) | v m.
     v \<in> set (key_versions r) \<and> material v = ParentWrapped m \<and> vk_lid (pw_parent m) = l \<and>
     kr_lid r \<noteq> l \<and> kr_state r \<noteq> Destroyed}"

lemma include_versions_dependents:
  "set (dependents (include_versions l r vs d)) =
     set (dependents d) \<union> {(kr_lid r, version_number v, nz_get (vk_version (pw_parent m)), ident_str (pw_material_ref m)) | v m.
       v \<in> set vs \<and> material v = ParentWrapped m \<and> vk_lid (pw_parent m) = l \<and> kr_lid r \<noteq> l}"
proof (induction l r vs d rule: include_versions.induct)
  case (2 l r v vs d)
  then show ?case
    by (cases "material v") auto
qed simp

lemma include_versions_frame:
  "in_flight_creation_journal_rows (include_versions l r vs d) = in_flight_creation_journal_rows d \<and>
   migration_journal_rows (include_versions l r vs d) = migration_journal_rows d"
  by (induction l r vs d rule: include_versions.induct) (auto split: key_material.splits)

lemma include_record_dependents:
  assumes "include_record l r d = Ok d'"
  shows "set (dependents d') = set (dependents d) \<union> edges_into l r"
proof -
  obtain d1 where c: "count_logical_child l r d = Ok d1"
    and d': "d' = (if kr_state r = Destroyed then d1
      else let d = include_versions l r (key_versions r) d1 in d\<lparr>dependents := remdups_adj (sort (dependents d))\<rparr>)"
    using assms by (cases "count_logical_child l r d") (simp_all add: include_record_def Let_def split: if_splits)
  have d1: "dependents d1 = dependents d"
    using c by (auto simp: count_logical_child_def split: if_splits)
  show ?thesis
  proof (cases "kr_state r = Destroyed")
    case False
    then have "set (dependents d') = set (dependents (include_versions l r (key_versions r) d1))"
      using d' by (simp add: Let_def)
    with False d1 show ?thesis
      by (simp add: include_versions_dependents edges_into_def)
  qed (use d' d1 in \<open>simp add: edges_into_def\<close>)
qed

lemma distinct_remdups_adj_sorted: "sorted xs \<Longrightarrow> distinct (remdups_adj xs)"
  by (induction xs rule: remdups_adj.induct) (auto dest: antisym)

lemma include_record_sorted:
  "include_record l r d = Ok d' \<Longrightarrow> kr_state r \<noteq> Destroyed \<Longrightarrow> sorted (dependents d') \<and> distinct (dependents d')"
  by (auto simp: include_record_def Let_def distinct_remdups_adj_sorted split: if_splits)

text \<open>The counters: wrapped versions of the key itself, and children with resident material only.\<close>

definition own_wrapped :: "lid \<Rightarrow> key_record \<Rightarrow> nat" where
  "own_wrapped l r = (if kr_lid r = l \<and> kr_state r \<noteq> Destroyed
     then length (filter (\<lambda>v. \<not> is_resident v) (key_versions r)) else 0)"

lemma include_versions_counts:
  "own_parent_wrapped_versions (include_versions l r vs d) = own_parent_wrapped_versions d +
     (if kr_lid r = l then of_nat (length (filter (\<lambda>v. \<not> is_resident v) vs)) else 0)"
  "logical_only_children (include_versions l r vs d) = logical_only_children d"
proof (induction l r vs d rule: include_versions.induct)
  case (2 l r v vs d)
  { case 1
    show ?case using 2 by (cases "material v") (auto simp: is_resident_def) }
  { case 2
    show ?case using "2.IH" by (cases "material v") auto }
qed simp_all

lemma include_record_counts:
  assumes "include_record l r d = Ok d'"
  shows "own_parent_wrapped_versions d' = own_parent_wrapped_versions d + of_nat (own_wrapped l r)"
    and "unat (logical_only_children d') = unat (logical_only_children d) + (if logical_only_child l r then 1 else 0)"
proof -
  obtain d1 where d1: "count_logical_child l r d = Ok d1"
    and d': "d' = (if kr_state r = Destroyed then d1
      else (include_versions l r (key_versions r) d1)\<lparr>dependents := remdups_adj (sort (dependents (include_versions l r (key_versions r) d1)))\<rparr>)"
    using assms by (cases "count_logical_child l r d") (simp_all add: include_record_def Let_def split: if_splits)
  have own: "own_parent_wrapped_versions d1 = own_parent_wrapped_versions d"
    using d1 by (auto simp: count_logical_child_def split: if_splits)
  have "unat (logical_only_children d1) = unat (logical_only_children d) + (if logical_only_child l r then 1 else 0)"
    using d1 by (auto simp: count_logical_child_def checked_add_def unat_word_ariths split: if_splits)
  then show "unat (logical_only_children d') = unat (logical_only_children d) + (if logical_only_child l r then 1 else 0)"
    using d' by (simp add: include_versions_counts)
  show "own_parent_wrapped_versions d' = own_parent_wrapped_versions d + of_nat (own_wrapped l r)"
    using d' own by (simp add: include_versions_counts own_wrapped_def)
qed

lemma validate_intent_Ok_iff:
  "validate_intent d i = Ok () \<longleftrightarrow>
     in_flight_creation_journal_rows d = 0 \<and> migration_journal_rows d = 0 \<and>
     set (dependents d) \<subseteq> set (approved_dependents i) \<and> (dependents d = [] \<or> allow_dependent_data_loss i)"
  by (auto simp: validate_intent_def refusal_reason_def list_ex_iff word_neq_0_conv [symmetric]
      split: option.splits if_splits)

section \<open>A claim can be completed\<close>

lemma destruction_versions_serialize:
  "destruction_versions_ok r seen vs = Ok () \<Longrightarrow> is_ok (try_map serialize_version vs)"
proof (induction r seen vs rule: destruction_versions_ok.induct)
  case (2 r seen v vs)
  then have "version_number v \<noteq> 0" and "destruction_versions_ok r (version_number v # seen) vs = Ok ()"
    by (auto split: if_splits)
  with 2 obtain ws where "try_map serialize_version vs = Ok ws"
    by (auto simp: is_ok_iff split: if_splits)
  moreover have "is_ok (serialize_version v)"
    using \<open>version_number v \<noteq> 0\<close> by (cases "material v") (auto simp: serialize_version_def)
  ultimately show ?case by (auto simp: is_ok_iff)
qed simp

lemma destruction_history_value:
  "validate_destruction_history r = Ok () \<Longrightarrow> is_ok (record_value r)"
  using destruction_versions_serialize [of r "[]" "key_versions r"]
  by (auto simp: validate_destruction_history_def record_value_def is_ok_iff split: if_splits)

lemma destruction_versions_cong:
  "current_key_version s = current_key_version r \<Longrightarrow> kr_key_spec s = kr_key_spec r \<Longrightarrow> kr_lid s = kr_lid r \<Longrightarrow>
     destruction_versions_ok s seen vs = destruction_versions_ok r seen vs"
proof (induction vs arbitrary: seen)
  case (Cons v vs)
  then show ?case by (cases "material v") simp_all
qed simp

lemma destruction_history_cong:
  "current_key_version s = current_key_version r \<Longrightarrow> kr_key_spec s = kr_key_spec r \<Longrightarrow> kr_lid s = kr_lid r \<Longrightarrow>
     key_versions s = key_versions r \<Longrightarrow> validate_destruction_history s = validate_destruction_history r"
  using destruction_versions_cong [of s r "[]" "key_versions r"]
  by (simp add: validate_destruction_history_def primary_version_def)

lemma i64_max_unat: "unat i64_max = 9223372036854775807" "unat (i64_max - 2) = 9223372036854775805"
  by (simp_all add: i64_max_def)

lemma prepare_claim_Ok_iff:
  "prepare_claim r e now = Ok r' \<longleftrightarrow>
     occ_version r = e \<and> kr_state r = PendingDeletion \<and> (\<exists>due. scheduled_deletion_at r = Some due \<and> due \<le> now) \<and>
     validate_destruction_history r = Ok () \<and> e \<noteq> 0 \<and> e \<le> i64_max - 2 \<and>
     r' = r\<lparr>occ_version := occ_version r + 1, updated_at := now\<rparr>"
  by (auto simp: prepare_claim_def not_less split: option.splits if_splits)

lemma completed_record_Ok_iff:
  "completed_record now c cur = Ok r \<longleftrightarrow>
     cur = dc_record c \<and> is_ok (record_value cur) \<and> unat (occ_version cur) + 1 \<le> unat i64_max \<and>
     r = cur\<lparr>occ_version := occ_version cur + 1, kr_state := Destroyed, updated_at := now\<rparr>"
proof -
  have occ: "(case checked_add n 1 of Some v \<Rightarrow> if v \<le> i64_max then Some v else None | None \<Rightarrow> None) = Some v \<longleftrightarrow>
      unat n + 1 \<le> unat i64_max \<and> v = n + 1" for n v :: u64
    by (auto simp: checked_add_def word_le_nat_alt i64_max_unat unat_word_ariths split: if_splits)
  have same: "(\<exists>same. same_json (dc_record c) cur = Ok same \<and>
      (if \<not> same then Err e else X) = Ok r) \<longleftrightarrow> same_json (dc_record c) cur = Ok True \<and> X = Ok r" for X e
    by (metis result.distinct(1))
  show ?thesis
    unfolding completed_record_def and_then_Ok_iff same same_json_Ok_True
    by (auto simp: occ)
qed

lemma claim_committed_prepared:
  assumes "prepare_claim r e now = Ok r'" and "\<not> is_nil operation"
  shows "claim_committed operation r' = Ok \<lparr>dc_operation = operation, dc_record = r', dc_recovered = False\<rparr>"
proof -
  have r: "kr_state r = PendingDeletion" "validate_destruction_history r = Ok ()"
    and r': "r' = r\<lparr>occ_version := occ_version r + 1, updated_at := now\<rparr>"
    using assms(1) unfolding prepare_claim_Ok_iff by simp_all
  have "validate_destruction_history r' = Ok ()"
    using r(2) destruction_history_cong [of r' r] r' by simp
  with r(1) r' assms(2) show ?thesis by (simp add: claim_committed_def)
qed

lemma prepared_record_value:
  assumes "prepare_claim r e now = Ok r'"
  shows "is_ok (record_value r')"
proof -
  have "validate_destruction_history r = Ok ()"
    and "r' = r\<lparr>occ_version := occ_version r + 1, updated_at := now\<rparr>"
    using assms unfolding prepare_claim_Ok_iff by simp_all
  then show ?thesis
    using destruction_history_value [of r'] destruction_history_cong [of r' r] by simp
qed

lemma prepared_occ:
  assumes "prepare_claim r e now = Ok r'"
  shows "unat (occ_version r') = unat e + 1" and "unat (occ_version r') + 1 \<le> unat i64_max"
proof -
  have "e \<le> i64_max - 2" "occ_version r' = e + 1"
    using assms unfolding prepare_claim_Ok_iff by auto
  then show "unat (occ_version r') = unat e + 1" "unat (occ_version r') + 1 \<le> unat i64_max"
    by (auto simp: word_le_nat_alt i64_max_unat unat_word_ariths)
qed

lemma record_value_completed:
  "is_ok (record_value r) \<Longrightarrow> is_ok (record_value (r\<lparr>occ_version := n, kr_state := s, updated_at := t\<rparr>))"
  by (auto simp: record_value_def is_ok_iff)

section \<open>Properties\<close>

definition no_dependencies :: destruction_dependencies where
  "no_dependencies = \<lparr>logical_only_children = 0, own_parent_wrapped_versions = 0, dependent_wrapping_edges = 0,
     creation_journal_rows = 0, in_flight_creation_journal_rows = 0, migration_journal_rows = 0,
     dependents = []\<rparr>"

text \<open>
  C9: an approval covers exactly the dependents it was given for. It stays valid when dependencies
  are retired and is refused as soon as a new edge or an in-flight journal appears.
\<close>

theorem approval_covers_snapshot:
  assumes "approval d allow = Ok i"
  shows "validate_intent d' i = Ok () \<longleftrightarrow>
           in_flight_creation_journal_rows d' = 0 \<and> migration_journal_rows d' = 0 \<and>
           set (dependents d') \<subseteq> set (dependents d)"
proof -
  have v: "validate_intent d i = Ok ()" and i: "i = \<lparr>allow_dependent_data_loss = allow,
      approved_dependents = (if allow then dependents d else [])\<rparr>"
    using assms by (auto simp: approval_def Let_def)
  show ?thesis
    using v unfolding validate_intent_Ok_iff i by (cases allow) auto
qed

theorem approval_covers_snapshot_witness:
  "validate_intent (no_dependencies\<lparr>dependents := [(Lid (fill 1), 1, 1, ''p''), (Lid (fill 5), 1, 1, ''q'')]\<rparr>)
     \<lparr>allow_dependent_data_loss = True, approved_dependents = [(Lid (fill 1), 1, 1, ''p'')]\<rparr> \<noteq> Ok ()"
proof -
  have "approval (no_dependencies\<lparr>dependents := [(Lid (fill 1), 1, 1, ''p'')]\<rparr>) True =
      Ok \<lparr>allow_dependent_data_loss = True, approved_dependents = [(Lid (fill 1), 1, 1, ''p'')]\<rparr>"
    by (simp add: approval_def validate_intent_def refusal_reason_def no_dependencies_def)
  from approval_covers_snapshot [OF this] show ?thesis by simp
qed

text \<open>
  A destruction that was claimed can be finished, and only once, on the same snapshot. The
  prepared record makes a claim, completing it gives the destroyed record with every version kept
  and the concurrency counter two above the scheduled one without overflow, and repeating the
  completion later is accepted as the same operation.
\<close>

theorem claimed_destruction_completes:
  assumes "prepare_claim r e now = Ok r'" and "\<not> is_nil operation"
  shows "\<exists>c r''. claim_committed operation r' = Ok c \<and> completed_record t c r' = Ok r'' \<and>
           kr_state r'' = Destroyed \<and> key_versions r'' = key_versions r \<and>
           unat (occ_version r'') = unat e + 2 \<and> validate_completed_record t' c r'' = Ok () \<and>
           (\<forall>other x. completed_record t c other = Ok x \<longrightarrow> other = r')"
proof -
  let ?c = "\<lparr>dc_operation = operation, dc_record = r', dc_recovered = False\<rparr>"
  let ?r = "r'\<lparr>occ_version := occ_version r' + 1, kr_state := Destroyed, updated_at := t\<rparr>"
  note occ = prepared_occ [OF assms(1)]
  note val = prepared_record_value [OF assms(1)]
  have fin: "completed_record t' ?c r' = Ok (r'\<lparr>occ_version := occ_version r' + 1, kr_state := Destroyed,
      updated_at := t'\<rparr>)" for t'
    unfolding completed_record_Ok_iff using occ(2) val by simp
  have "unat (occ_version ?r) = unat e + 2"
    using occ by (simp add: unat_word_ariths i64_max_unat)
  moreover have "validate_completed_record t' ?c ?r = Ok ()"
    using fin [of t'] record_value_completed [OF val] same_json_Ok_True [of ?r ?r]
    by (simp add: validate_completed_record_def)
  moreover have "key_versions ?r = key_versions r"
    using assms(1) unfolding prepare_claim_Ok_iff by simp
  moreover have "\<forall>other x. completed_record t ?c other = Ok x \<longrightarrow> other = r'"
    unfolding completed_record_Ok_iff by simp
  ultimately show ?thesis
    using claim_committed_prepared [OF assms] fin [of t] by (intro exI [of _ ?c] exI [of _ ?r]) simp
qed

theorem claimed_destruction_completes_witness:
  "\<exists>c r. completed_record 8 c (sample_parent\<lparr>kr_state := PendingDeletion, scheduled_deletion_at := Some 3,
       occ_version := 5, updated_at := 7\<rparr>) = Ok r \<and> kr_state r = Destroyed"
proof -
  have "prepare_claim (sample_parent\<lparr>kr_state := PendingDeletion, scheduled_deletion_at := Some 3\<rparr>) 4 7 =
      Ok (sample_parent\<lparr>kr_state := PendingDeletion, scheduled_deletion_at := Some 3, occ_version := 5, updated_at := 7\<rparr>)"
    by (simp add: prepare_claim_def validate_destruction_history_def primary_version_def i64_max_def
        word_less_nat_alt sample_parent_def sample_record_def version_provider_resident_def)
  from claimed_destruction_completes [OF this, of "fill 1" 8 9] show ?thesis
    by (auto simp: is_nil_def)
qed

end
