(* ===== verification/Database.thy ===== *)
theory Database
  imports Migration Destruction "HOL-Library.AList"
begin

text \<open>
  The SQLite store (\<open>keyrack-sqlite\<close>): its tables, transactions, row decoding and the guards the
  write paths share. A table is an association list from its primary key to the remaining columns,
  in insertion order. Identifier and version columns hold printed text in the source; printing is
  injective, so the model keys rows by the identifiers themselves. A JSON column holds either the
  text of a value or text that does not parse. \<open>creation_tx\<close> runs its body in one immediate
  transaction under the connection lock: the body's writes take effect together or, when it
  returns an error, not at all. The texts of SQLite's own errors and UUID parsing are parameters.
\<close>

section \<open>Tables\<close>

datatype 'a json = Encodes 'a | Malformed

definition from_str :: "keyrack_error \<Rightarrow> 'a json \<Rightarrow> ('a, keyrack_error) result" where
  "from_str e t = (case t of Encodes x \<Rightarrow> Ok x | Malformed \<Rightarrow> Err e)"

definition record_to_string :: "keyrack_error \<Rightarrow> key_record \<Rightarrow> (key_record json, keyrack_error) result" where
  "record_to_string e r = (if is_ok (record_value r) then Ok (Encodes r) else Err e)"

record key_row =
  kt_json :: "key_record json"
  kt_occ :: int

record creation_row =
  ct_child_lid :: lid
  ct_child_version :: u64
  ct_parent_lid :: lid
  ct_parent_version :: u64
  ct_envelope_ref :: string
  ct_phase :: creation_phase
  ct_json :: "creation_journal json"
  ct_envelope :: "byte list option"

record migration_row =
  mt_child_lid :: lid
  mt_old_parent_lid :: lid
  mt_new_parent_lid :: lid
  mt_committed :: bool
  mt_json :: "migration_journal json"

record destruction_row =
  dt_operation :: uuid
  dt_json :: "key_record json"
  dt_completed :: bool

record schedule_row =
  st_scheduled_at :: timestamp
  st_json :: "deletion_intent json"

record sqlite_db =
  db_keys :: "(lid \<times> key_row) list"
  creation_journals :: "(uuid \<times> creation_row) list"
  retired_journals :: "(uuid \<times> creation_journal json) list"
  migration_journals :: "(uuid \<times> migration_row) list"
  migration_envelopes :: "((uuid \<times> u64) \<times> byte list) list"
  destruction_journals :: "(lid \<times> destruction_row) list"
  deletion_schedules :: "(lid \<times> schedule_row) list"
  destroyed_parents :: "(lid \<times> u64 \<times> lid \<times> u64) list"

definition empty_db :: sqlite_db where
  "empty_db = \<lparr>db_keys = [], creation_journals = [], retired_journals = [], migration_journals = [],
     migration_envelopes = [], destruction_journals = [], deletion_schedules = [], destroyed_parents = []\<rparr>"

datatype sql_error = ConstraintViolation | QueryReturnedNoRows

record store_env =
  core :: creation_env
  uuid_parse :: "string \<Rightarrow> uuid option"
  sql_text :: "sql_error \<Rightarrow> string"

definition map_sql :: "store_env \<Rightarrow> sql_error \<Rightarrow> keyrack_error" where
  "map_sql env e = Storage (''sqlite: '' @ sql_text env e)"

section \<open>Transactions\<close>

type_synonym 'a tx = "sqlite_db \<Rightarrow> ('a \<times> sqlite_db, keyrack_error) result"

definition creation_tx :: "'a tx \<Rightarrow> sqlite_db \<Rightarrow> ('a, keyrack_error) result \<times> sqlite_db" where
  "creation_tx operation db = (case operation db of
       Ok (x, db') \<Rightarrow> (Ok x, db')
     | Err e \<Rightarrow> (Err e, db))"

definition exists_row :: "('k \<Rightarrow> 'r \<Rightarrow> bool) \<Rightarrow> ('k \<times> 'r) list \<Rightarrow> bool" where
  "exists_row p table = list_ex (\<lambda>(k, r). p k r) table"

definition count_rows :: "('k \<Rightarrow> 'r \<Rightarrow> bool) \<Rightarrow> ('k \<times> 'r) list \<Rightarrow> nat" where
  "count_rows p table = length (filter (\<lambda>(k, r). p k r) table)"

definition i64_try_from :: "keyrack_error \<Rightarrow> u64 \<Rightarrow> (int, keyrack_error) result" where
  "i64_try_from e n = (if n \<le> i64_max then Ok (uint n) else Err e)"

section \<open>Key rows\<close>

definition key_lookup :: "sqlite_db \<Rightarrow> lid \<Rightarrow> (key_record option, keyrack_error) result" where
  "key_lookup db l = (case map_of (db_keys db) l of
       None \<Rightarrow> Ok None
     | Some row \<Rightarrow>
         and_then (from_str (invalid ''invalid key record'') (kt_json row)) (\<lambda>r.
         if kt_occ row < 0 then Err (invalid ''negative persisted key OCC'')
         else if kr_lid r \<noteq> l \<or> uint (occ_version r) \<noteq> kt_occ row then Err (invalid ''key row binding mismatch'')
         else Ok (Some r)))"

definition required_key :: "sqlite_db \<Rightarrow> lid \<Rightarrow> (key_record, keyrack_error) result" where
  "required_key db l = and_then (key_lookup db l) (ok_or (KeyNotFound l))"

text \<open>\<open>UPDATE keys ... WHERE lid AND occ_version\<close>: the number of rows it changed and the new table.\<close>

definition update_key_row :: "lid \<Rightarrow> key_row \<Rightarrow> int \<Rightarrow> sqlite_db \<Rightarrow> nat \<times> sqlite_db" where
  "update_key_row l row expected db = (case map_of (db_keys db) l of
       Some old \<Rightarrow> if kt_occ old = expected then (1, db\<lparr>db_keys := AList.update l row (db_keys db)\<rparr>) else (0, db)
     | None \<Rightarrow> (0, db))"

section \<open>Guards\<close>

definition wrapping_parents :: "key_record \<Rightarrow> lid list" where
  "wrapping_parents r = concat (map (\<lambda>v. case material v of
       ParentWrapped m \<Rightarrow> [vk_lid (pw_parent m)] | ProviderResident _ _ \<Rightarrow> []) (key_versions r))"

fun guard_all :: "(lid \<Rightarrow> (unit, keyrack_error) result) \<Rightarrow> lid list \<Rightarrow> (unit, keyrack_error) result" where
  "guard_all g [] = Ok ()"
| "guard_all g (l # ls) = and_then (g l) (\<lambda>_. guard_all g ls)"

definition migration_active :: "sqlite_db \<Rightarrow> lid \<Rightarrow> bool" where
  "migration_active db l = exists_row (\<lambda>_ m. \<not> mt_committed m \<and>
     (mt_child_lid m = l \<or> mt_old_parent_lid m = l \<or> mt_new_parent_lid m = l)) (migration_journals db)"

definition migration_guard :: "sqlite_db \<Rightarrow> lid \<Rightarrow> (unit, keyrack_error) result" where
  "migration_guard db l = (if migration_active db l then Err migration_busy else Ok ())"

definition migration_guard_record :: "sqlite_db \<Rightarrow> key_record \<Rightarrow> (unit, keyrack_error) result" where
  "migration_guard_record db r =
     guard_all (migration_guard db)
       (kr_lid r # (case parent_lid r of Some p \<Rightarrow> [p] | None \<Rightarrow> []) @ wrapping_parents r)"

definition same_versions_json ::
  "key_version_record list \<Rightarrow> key_version_record list \<Rightarrow> (bool, keyrack_error) result" where
  "same_versions_json l r =
     and_then (map_err (\<lambda>_. invalid ''serialization failed'') (try_map serialize_version l)) (\<lambda>x.
     and_then (map_err (\<lambda>_. invalid ''serialization failed'') (try_map serialize_version r)) (\<lambda>y. Ok (x = y)))"

definition migration_guard_update :: "sqlite_db \<Rightarrow> key_record \<Rightarrow> key_record \<Rightarrow> (unit, keyrack_error) result" where
  "migration_guard_update db previous next =
     and_then (migration_guard_record db previous) (\<lambda>_.
     and_then (migration_guard_record db next) (\<lambda>_.
     if parent_lid previous \<noteq> parent_lid next
     then Err (migration_invalid ''parent_lid may change only through migration'')
     else and_then
       (if list_ex (\<lambda>v. \<not> is_resident v) (key_versions previous)
        then and_then (guard_referenced_parent previous next) (\<lambda>_.
             and_then (same_versions_json (key_versions previous) (key_versions next)) (\<lambda>same.
             if \<not> same then Err (migration_invalid ''wrapped history may change only through journal publication'')
             else Ok ()))
        else Ok ()) (\<lambda>_.
     if exists_row (\<lambda>operation m. mt_new_parent_lid m = kr_lid next \<and>
          exists_row (\<lambda>(o', _) _. o' = operation) (migration_envelopes db)) (migration_journals db)
     then guard_referenced_parent previous next
     else Ok ())))"

definition creation_guard_create :: "sqlite_db \<Rightarrow> lid \<Rightarrow> (unit, keyrack_error) result" where
  "creation_guard_create db l =
     (if exists_row (\<lambda>_ c. ct_child_lid c = l) (creation_journals db)
      then Err (invalid ''child identity is reserved'') else Ok ())"

definition creation_guard_update :: "sqlite_db \<Rightarrow> key_record \<Rightarrow> key_record \<Rightarrow> (unit, keyrack_error) result" where
  "creation_guard_update db previous next =
     and_then
       (if exists_row (\<lambda>_ c. ct_child_lid c = kr_lid next) (creation_journals db)
        then and_then (if current_key_version previous \<noteq> current_key_version next then Ok False
                       else same_versions_json (key_versions previous) (key_versions next)) (\<lambda>same.
             if \<not> same then Err (invalid ''version history is managed by the creation journal'') else Ok ())
        else Ok ()) (\<lambda>_.
     if exists_row (\<lambda>_ c. ct_parent_lid c = kr_lid next \<or> ct_child_lid c = kr_lid next \<and> ct_phase c = Committed)
          (creation_journals db)
     then guard_referenced_parent previous next
     else Ok ())"

definition destruction_guard :: "sqlite_db \<Rightarrow> lid \<Rightarrow> (unit, keyrack_error) result" where
  "destruction_guard db l =
     (if l \<in> fst ` set (destruction_journals db) then Err (KeyDestructionFenced l) else Ok ())"

definition destruction_guard_write :: "sqlite_db \<Rightarrow> key_record \<Rightarrow> (unit, keyrack_error) result" where
  "destruction_guard_write db r = guard_all (destruction_guard db) (kr_lid r # wrapping_parents r)"

text \<open>A changed state or schedule withdraws the approval recorded for a deletion.\<close>

definition destruction_guard_update :: "key_record \<Rightarrow> unit tx" where
  "destruction_guard_update r db =
     and_then (destruction_guard_write db r) (\<lambda>_.
     if kr_state r = Destroyed then Err (dinvalid ''Destroyed requires fenced completion'')
     else and_then (required_key db (kr_lid r)) (\<lambda>previous.
       Ok ((), if kr_state previous \<noteq> kr_state r \<or> scheduled_deletion_at previous \<noteq> scheduled_deletion_at r
               then db\<lparr>deletion_schedules := AList.delete (kr_lid r) (deletion_schedules db)\<rparr>
               else db)))"

end
