(* ===== verification/Store_Creation.thy ===== *)
theory Store_Creation
  imports Database
begin

text \<open>
  The creation journal in the SQLite store (\<open>keyrack-sqlite/src/creation.rs\<close>): decoding a row
  against its index columns, and the transactions that reserve, dispatch, stage, resolve, publish
  and withdraw a creation.
\<close>

section \<open>Rows\<close>

definition journal_json :: "creation_env \<Rightarrow> creation_journal \<Rightarrow> (creation_journal json, keyrack_error) result" where
  "journal_json env j =
     and_then (validate_journal env j) (\<lambda>_.
     if is_ok (record_value (cq_record (cj_request j))) \<and>
        (case committed_record j of Some r \<Rightarrow> is_ok (record_value r) | None \<Rightarrow> True)
     then Ok (Encodes j) else Err (invalid ''journal serialization failed''))"

definition index_matches :: "uuid \<Rightarrow> creation_row \<Rightarrow> creation_journal \<Rightarrow> parent_wrapped_material \<Rightarrow> bool" where
  "index_matches operation row j m \<longleftrightarrow>
     operation = cq_operation (cj_request j) \<and>
     ct_child_lid row = kr_lid (cq_record (cj_request j)) \<and>
     ct_child_version row = current_key_version (cq_record (cj_request j)) \<and>
     ct_parent_lid row = vk_lid (pw_parent m) \<and>
     ct_parent_version row = nz_get (vk_version (pw_parent m)) \<and>
     ct_envelope_ref row = ident_str (pw_material_ref m) \<and>
     ct_phase row = phase j"

definition decode_row ::
  "creation_env \<Rightarrow> uuid \<times> creation_row \<Rightarrow> (creation_journal, keyrack_error) result" where
  "decode_row env stored = (case stored of (operation, row) \<Rightarrow>
     and_then (from_str (invalid ''invalid journal encoding'') (ct_json row)) (\<lambda>j.
     and_then (validate_journal env j) (\<lambda>_.
     and_then (request_material (cj_request j)) (\<lambda>m.
     if \<not> index_matches operation row j m then Err (invalid ''journal index binding mismatch'')
     else and_then (case (ct_envelope row, phase j) of
         (None, Reserved) \<Rightarrow> Ok ()
       | (Some bytes, p) \<Rightarrow>
           if p \<noteq> Reserved then validate_envelope env j bytes else Err (invalid ''journal envelope phase mismatch'')
       | _ \<Rightarrow> Err (invalid ''journal envelope phase mismatch'')) (\<lambda>_.
     Ok j)))))"

definition stored_journal :: "sqlite_db \<Rightarrow> uuid \<Rightarrow> (uuid \<times> creation_row) option" where
  "stored_journal db operation = map_option (Pair operation) (map_of (creation_journals db) operation)"

definition creation_lookup ::
  "creation_env \<Rightarrow> sqlite_db \<Rightarrow> uuid \<Rightarrow> (creation_journal option, keyrack_error) result" where
  "creation_lookup env db operation = (case stored_journal db operation of
       Some row \<Rightarrow> and_then (decode_row env row) (\<lambda>j. Ok (Some j))
     | None \<Rightarrow> (case map_of (retired_journals db) operation of
         None \<Rightarrow> Ok None
       | Some json \<Rightarrow>
           and_then (from_str (invalid ''invalid retired journal'') json) (\<lambda>j.
           and_then (validate_journal env j) (\<lambda>_.
           if cq_operation (cj_request j) \<noteq> operation \<or> phase j \<noteq> Committed
           then Err (invalid ''invalid retired journal identity'')
           else Ok (Some j)))))"

definition required_journal ::
  "creation_env \<Rightarrow> sqlite_db \<Rightarrow> uuid \<Rightarrow> (creation_journal, keyrack_error) result" where
  "required_journal env db operation =
     and_then (creation_lookup env db operation) (ok_or (invalid ''creation not found''))"

definition save_journal :: "creation_env \<Rightarrow> creation_journal \<Rightarrow> unit tx" where
  "save_journal env j db =
     and_then (journal_json env j) (\<lambda>json.
     case map_of (creation_journals db) (cq_operation (cj_request j)) of
       None \<Rightarrow> Err (invalid ''creation disappeared'')
     | Some row \<Rightarrow> Ok ((), db\<lparr>creation_journals :=
         AList.update (cq_operation (cj_request j)) (row\<lparr>ct_json := json, ct_phase := phase j\<rparr>) (creation_journals db)\<rparr>))"

definition staged_envelope :: "store_env \<Rightarrow> sqlite_db \<Rightarrow> uuid \<Rightarrow> (byte list, keyrack_error) result" where
  "staged_envelope env db operation = (case map_of (creation_journals db) operation of
       None \<Rightarrow> Err (map_sql env QueryReturnedNoRows)
     | Some row \<Rightarrow> ok_or (invalid ''envelope not staged'') (ct_envelope row))"

definition committed_envelope :: "store_env \<Rightarrow> sqlite_db \<Rightarrow> uuid \<Rightarrow> (byte list, keyrack_error) result" where
  "committed_envelope env db operation =
     and_then (required_journal (core env) db operation) (\<lambda>j.
     if phase j \<noteq> Committed then Err (invalid ''staged material is unavailable'')
     else and_then (staged_envelope env db operation) (\<lambda>bytes.
          and_then (validate_envelope (core env) j bytes) (\<lambda>_. Ok bytes)))"

section \<open>Transactions\<close>

text \<open>The unique constraints of the table: the operation, the envelope reference, the child version.\<close>

definition creation_row_conflicts :: "sqlite_db \<Rightarrow> uuid \<Rightarrow> creation_row \<Rightarrow> bool" where
  "creation_row_conflicts db operation row = exists_row (\<lambda>o' r. o' = operation \<or>
     ct_envelope_ref r = ct_envelope_ref row \<or>
     ct_child_lid r = ct_child_lid row \<and> ct_child_version r = ct_child_version row) (creation_journals db)"

definition reserve_body :: "store_env \<Rightarrow> creation_request \<Rightarrow> creation_journal tx" where
  "reserve_body env q db =
     and_then (migration_guard_record db (cq_record q)) (\<lambda>_.
     and_then (destruction_guard_write db (cq_record q)) (\<lambda>_.
     and_then (creation_lookup (core env) db (cq_operation q)) (\<lambda>existing.
     case existing of
       Some j \<Rightarrow>
         and_then (fingerprint (core env) (cj_request j)) (\<lambda>f.
         and_then (fingerprint (core env) q) (\<lambda>g.
         if f \<noteq> g then Err (invalid ''operation intent conflict'') else Ok (j, db)))
     | None \<Rightarrow>
         and_then (request_material q) (\<lambda>m.
         and_then (required_key db (vk_lid (pw_parent m))) (\<lambda>parent.
         and_then (key_lookup db (kr_lid (cq_record q))) (\<lambda>current.
         and_then (validate_records (core env) q current parent) (\<lambda>_.
         and_then (journal_reserved (core env) q) (\<lambda>j.
         and_then (journal_json (core env) j) (\<lambda>json.
           let row = \<lparr>ct_child_lid = kr_lid (cq_record q), ct_child_version = current_key_version (cq_record q),
                 ct_parent_lid = vk_lid (pw_parent m), ct_parent_version = nz_get (vk_version (pw_parent m)),
                 ct_envelope_ref = ident_str (pw_material_ref m), ct_phase = phase j, ct_json = json,
                 ct_envelope = None\<rparr> in
           if creation_row_conflicts db (cq_operation q) row then Err (map_sql env ConstraintViolation)
           else Ok (j, db\<lparr>creation_journals := AList.update (cq_operation q) row (creation_journals db)\<rparr>))))))))))"

definition reserve_a2 ::
  "store_env \<Rightarrow> creation_request \<Rightarrow> sqlite_db \<Rightarrow> (creation_journal, keyrack_error) result \<times> sqlite_db" where
  "reserve_a2 env q db = (case validate_creation (core env) q of
       Err e \<Rightarrow> (Err e, db)
     | Ok _ \<Rightarrow> creation_tx (reserve_body env q) db)"

definition get_a2 :: "store_env \<Rightarrow> uuid \<Rightarrow> sqlite_db \<Rightarrow> (creation_journal, keyrack_error) result" where
  "get_a2 env operation db = required_journal (core env) db operation"

datatype creation_dispatch = Started creation_journal | Existing creation_journal

definition claim_a2_body :: "store_env \<Rightarrow> uuid \<Rightarrow> creation_owner \<Rightarrow> creation_dispatch tx" where
  "claim_a2_body env operation owner db =
     and_then (required_journal (core env) db operation) (\<lambda>j0.
     and_then (claim_dispatch (core env) owner j0) (\<lambda>(started, j).
     if \<not> started then Ok (Existing j, db)
     else and_then (key_lookup db (kr_lid (cq_record (cj_request j)))) (\<lambda>current.
     and_then (request_material (cj_request j)) (\<lambda>m.
     and_then (required_key db (vk_lid (pw_parent m))) (\<lambda>parent.
     and_then (validate_records (core env) (cj_request j) current parent) (\<lambda>_.
     and_then (save_journal (core env) j db) (\<lambda>(_, db).
       Ok (Started j, db))))))))"

definition claim_a2_dispatch ::
  "store_env \<Rightarrow> uuid \<Rightarrow> creation_owner \<Rightarrow> sqlite_db \<Rightarrow> (creation_dispatch, keyrack_error) result \<times> sqlite_db" where
  "claim_a2_dispatch env operation owner = creation_tx (claim_a2_body env operation owner)"

definition snapshot_a2 ::
  "store_env \<Rightarrow> uuid \<Rightarrow> creation_owner \<Rightarrow> sqlite_db \<Rightarrow> (creation_snapshot, keyrack_error) result" where
  "snapshot_a2 env operation owner db =
     and_then (ok_or (invalid ''creation not found'') (stored_journal db operation)) (\<lambda>row.
     and_then (decode_row (core env) row) (\<lambda>j.
       snapshot_new (core env) j (ct_envelope (snd row)) owner))"

definition stage_a2_body ::
  "store_env \<Rightarrow> uuid \<Rightarrow> creation_owner \<Rightarrow> u64 \<Rightarrow> byte list \<Rightarrow> creation_journal tx" where
  "stage_a2_body env operation owner expected bytes db =
     and_then (required_journal (core env) db operation) (\<lambda>j0.
     and_then (stage (core env) owner expected bytes j0) (\<lambda>j.
     and_then (if phase j0 = Reserved
        then Ok (db\<lparr>creation_journals := map (\<lambda>(k, r). (k, if k = operation then r\<lparr>ct_envelope := Some bytes\<rparr> else r))
                     (creation_journals db)\<rparr>)
        else and_then (staged_envelope env db operation) (\<lambda>stored.
          if stored \<noteq> bytes then Err (invalid ''immutable envelope conflict'') else Ok db)) (\<lambda>db.
     and_then (save_journal (core env) j db) (\<lambda>(_, db). Ok (j, db)))))"

definition stage_a2 ::
  "store_env \<Rightarrow> uuid \<Rightarrow> creation_owner \<Rightarrow> u64 \<Rightarrow> byte list \<Rightarrow> sqlite_db \<Rightarrow>
     (creation_journal, keyrack_error) result \<times> sqlite_db" where
  "stage_a2 env operation owner expected bytes = creation_tx (stage_a2_body env operation owner expected bytes)"

definition resolve_a2_body ::
  "store_env \<Rightarrow> uuid \<Rightarrow> creation_owner \<Rightarrow> u64 \<Rightarrow> verified_closure \<Rightarrow> creation_journal tx" where
  "resolve_a2_body env operation owner expected verified db =
     and_then (required_journal (core env) db operation) (\<lambda>j0.
     and_then (staged_envelope env db operation) (\<lambda>bytes.
     and_then (validate_envelope (core env) j0 bytes) (\<lambda>_.
     and_then (resolve (core env) owner expected verified j0) (\<lambda>j.
     and_then (save_journal (core env) j db) (\<lambda>(_, db). Ok (j, db))))))"

definition resolve_a2 ::
  "store_env \<Rightarrow> uuid \<Rightarrow> creation_owner \<Rightarrow> u64 \<Rightarrow> verified_closure \<Rightarrow> sqlite_db \<Rightarrow>
     (creation_journal, keyrack_error) result \<times> sqlite_db" where
  "resolve_a2 env operation owner expected verified =
     creation_tx (resolve_a2_body env operation owner expected verified)"

text \<open>The key row of a publication: an update by identifier alone, or an insertion.\<close>

definition write_published :: "store_env \<Rightarrow> key_record option \<Rightarrow> key_record \<Rightarrow> unit tx" where
  "write_published env current r db =
     and_then (record_to_string (invalid ''record serialization failed'') r) (\<lambda>json.
     and_then (i64_try_from (invalid ''OCC overflow'') (occ_version r)) (\<lambda>occ.
     let row = \<lparr>kt_json = json, kt_occ = occ\<rparr> in
     case current of
       Some _ \<Rightarrow> Ok ((), db\<lparr>db_keys := map (\<lambda>(k, x). (k, if k = kr_lid r then row else x)) (db_keys db)\<rparr>)
     | None \<Rightarrow>
         if kr_lid r \<in> fst ` set (db_keys db) then Err (map_sql env ConstraintViolation)
         else Ok ((), db\<lparr>db_keys := AList.update (kr_lid r) row (db_keys db)\<rparr>)))"

definition publish_a2_body :: "store_env \<Rightarrow> uuid \<Rightarrow> creation_owner \<Rightarrow> u64 \<Rightarrow> key_record tx" where
  "publish_a2_body env operation owner expected db =
     and_then (required_journal (core env) db operation) (\<lambda>j0.
     and_then (committed_retry (core env) owner expected j0) (\<lambda>retry.
     case retry of
       Some r \<Rightarrow> Ok (r, db)
     | None \<Rightarrow>
         and_then (staged_envelope env db operation) (\<lambda>bytes.
         and_then (validate_envelope (core env) j0 bytes) (\<lambda>_.
         and_then (key_lookup db (kr_lid (cq_record (cj_request j0)))) (\<lambda>current.
         and_then (request_material (cj_request j0)) (\<lambda>m.
         and_then (required_key db (vk_lid (pw_parent m))) (\<lambda>parent.
         and_then (migration_guard_record db (cq_record (cj_request j0))) (\<lambda>_.
         and_then (publication (core env) owner expected current parent j0) (\<lambda>(r, j).
         and_then (write_published env current r db) (\<lambda>(_, db).
         and_then (save_journal (core env) j db) (\<lambda>(_, db).
           Ok (r, db))))))))))))"

definition publish_a2 ::
  "store_env \<Rightarrow> uuid \<Rightarrow> creation_owner \<Rightarrow> u64 \<Rightarrow> sqlite_db \<Rightarrow> (key_record, keyrack_error) result \<times> sqlite_db" where
  "publish_a2 env operation owner expected = creation_tx (publish_a2_body env operation owner expected)"

definition read_a2_envelope :: "store_env \<Rightarrow> uuid \<Rightarrow> sqlite_db \<Rightarrow> (byte list, keyrack_error) result" where
  "read_a2_envelope env operation db = committed_envelope env db operation"

definition withdraw_a2_body :: "store_env \<Rightarrow> uuid \<Rightarrow> unit tx" where
  "withdraw_a2_body env operation db =
     and_then (creation_lookup (core env) db operation) (\<lambda>found.
     case found of
       None \<Rightarrow> Ok ((), db)
     | Some j \<Rightarrow>
         and_then (withdrawable (core env) j) (\<lambda>_.
         if operation \<notin> fst ` set (creation_journals db)
         then Err (invalid ''creation disappeared during withdrawal'')
         else Ok ((), db\<lparr>creation_journals := AList.delete operation (creation_journals db)\<rparr>)))"

definition withdraw_a2 :: "store_env \<Rightarrow> uuid \<Rightarrow> sqlite_db \<Rightarrow> (unit, keyrack_error) result \<times> sqlite_db" where
  "withdraw_a2 env operation = creation_tx (withdraw_a2_body env operation)"

record creation_page =
  page_items :: "creation_journal list"
  next_after :: "uuid option"

definition recover_a2 ::
  "store_env \<Rightarrow> uuid option \<Rightarrow> u32 \<Rightarrow> sqlite_db \<Rightarrow> (creation_page, keyrack_error) result" where
  "recover_a2 env after limit db =
     and_then (validate_page_size limit) (\<lambda>_.
     let rows = filter (\<lambda>(o', r). ct_phase r \<noteq> Committed \<and>
           (case after of Some a \<Rightarrow> bytes_list a < bytes_list o' | None \<Rightarrow> True)) (creation_journals db);
         rows = take (unat limit + 1) (sort_key (\<lambda>(o', _). bytes_list o') rows) in
     and_then (try_map (decode_row (core env)) rows) (\<lambda>items.
       if unat limit < length items
       then let items = butlast items in
            Ok \<lparr>page_items = items,
                next_after = (if items = [] then None else Some (cq_operation (cj_request (last items))))\<rparr>
       else Ok \<lparr>page_items = items, next_after = None\<rparr>))"

end
