(* ===== verification/Store_Migration.thy ===== *)
theory Store_Migration
  imports Store_Creation
begin

text \<open>
  Migrations in the SQLite store (\<open>keyrack-sqlite/src/migration.rs\<close>): loading a journal against its
  index columns, reading the envelope a descriptor refers to, and the transactions that reserve,
  claim, dispatch, stage and commit a migration.
\<close>

section \<open>Rows\<close>

definition migration_json :: "migration_journal \<Rightarrow> (migration_journal json, keyrack_error) result" where
  "migration_json j =
     (if is_ok (migration_value (mj_request j)) then Ok (Encodes j) else Err (migration_invalid ''journal encoding''))"

definition load_migration ::
  "creation_env \<Rightarrow> sqlite_db \<Rightarrow> uuid \<Rightarrow> (migration_journal option, keyrack_error) result" where
  "load_migration env db operation = (case map_of (migration_journals db) operation of
       None \<Rightarrow> Ok None
     | Some row \<Rightarrow>
         and_then (from_str (migration_invalid ''invalid journal'') (mt_json row)) (\<lambda>j.
         and_then (validate_migration_journal env j) (\<lambda>_.
         if mq_operation (mj_request j) \<noteq> operation \<or> mt_child_lid row \<noteq> kr_lid (mq_child (mj_request j)) \<or>
            mt_old_parent_lid row \<noteq> kr_lid (mq_old_parent (mj_request j)) \<or>
            mt_new_parent_lid row \<noteq> kr_lid (mq_new_parent (mj_request j)) \<or>
            mt_committed row \<noteq> (mj_phase j = MCommitted)
         then Err (migration_invalid ''journal index mismatch'')
         else Ok (Some j))))"

definition required_migration ::
  "creation_env \<Rightarrow> sqlite_db \<Rightarrow> uuid \<Rightarrow> (migration_journal, keyrack_error) result" where
  "required_migration env db operation =
     and_then (load_migration env db operation) (ok_or (migration_invalid ''migration not found''))"

definition save_migration :: "creation_env \<Rightarrow> migration_journal \<Rightarrow> unit tx" where
  "save_migration env j db =
     and_then (validate_migration_journal env j) (\<lambda>_.
     and_then (migration_json j) (\<lambda>json.
       Ok ((), db\<lparr>migration_journals := map (\<lambda>(k, r). (k,
         if k = mq_operation (mj_request j) then r\<lparr>mt_json := json, mt_committed := (mj_phase j = MCommitted)\<rparr> else r))
         (migration_journals db)\<rparr>)))"

definition migration_snapshots :: "creation_env \<Rightarrow> migration_request \<Rightarrow> sqlite_db \<Rightarrow> (unit, keyrack_error) result" where
  "migration_snapshots env q db =
     and_then (required_key db (kr_lid (mq_child q))) (\<lambda>child.
     and_then (required_key db (kr_lid (mq_old_parent q))) (\<lambda>old.
     and_then (required_key db (kr_lid (mq_new_parent q))) (\<lambda>new.
     and_then (guard_all (destruction_guard db) [kr_lid child, kr_lid old, kr_lid new]) (\<lambda>_.
       validate_snapshots env q child old new))))"

definition migration_envelope :: "store_env \<Rightarrow> sqlite_db \<Rightarrow> uuid \<Rightarrow> u64 \<Rightarrow> (byte list, keyrack_error) result" where
  "migration_envelope env db operation version =
     ok_or (map_sql env QueryReturnedNoRows) (map_of (migration_envelopes db) (operation, version))"

definition envelope_ref :: "store_env \<Rightarrow> sqlite_db \<Rightarrow> string \<Rightarrow> (byte list, keyrack_error) result" where
  "envelope_ref env db reference = (case strip_prefix ''creation:'' reference of
       Some text \<Rightarrow>
         and_then (ok_or (migration_invalid ''invalid creation envelope reference'') (uuid_parse env text)) (\<lambda>operation.
           committed_envelope env db operation)
     | None \<Rightarrow> (case Option.bind (strip_prefix ''migration:'' reference) (split_once (CHR '':'')) of
         Some (text, number) \<Rightarrow>
           and_then (ok_or (migration_invalid ''invalid migration envelope reference'') (uuid_parse env text)) (\<lambda>operation.
           and_then (ok_or (migration_invalid ''invalid migration version'') (parse_u64 number)) (\<lambda>version.
           and_then (required_migration (core env) db operation) (\<lambda>j.
           if mj_phase j \<noteq> MCommitted then Err (migration_invalid ''migration envelope is not committed'')
           else and_then (migration_envelope env db operation version) (\<lambda>bytes.
                and_then (verify_envelope (core env) j version bytes) (\<lambda>_. Ok bytes)))))
       | None \<Rightarrow> Err (migration_invalid ''unknown wrapped envelope reference'')))"

section \<open>Transactions\<close>

definition creation_pending :: "sqlite_db \<Rightarrow> lid \<Rightarrow> bool" where
  "creation_pending db l = exists_row (\<lambda>_ c. ct_phase c \<noteq> Committed \<and> (ct_child_lid c = l \<or> ct_parent_lid c = l))
     (creation_journals db)"

definition reserve_guard :: "sqlite_db \<Rightarrow> lid \<Rightarrow> (unit, keyrack_error) result" where
  "reserve_guard db l = and_then (migration_guard db l) (\<lambda>_.
     if creation_pending db l then Err migration_busy else Ok ())"

definition migration_reserve_body :: "store_env \<Rightarrow> migration_request \<Rightarrow> migration_journal tx" where
  "migration_reserve_body env q db =
     and_then (load_migration (core env) db (mq_operation q)) (\<lambda>existing.
     case existing of
       Some j \<Rightarrow> and_then (same_intent (mj_request j) q) (\<lambda>same.
         if \<not> same then Err (MigrationIntentConflict (mq_operation q)) else Ok (j, db))
     | None \<Rightarrow>
         and_then (migration_snapshots (core env) q db) (\<lambda>_.
         and_then (guard_all (reserve_guard db)
            [kr_lid (mq_child q), kr_lid (mq_old_parent q), kr_lid (mq_new_parent q)]) (\<lambda>_.
         let j = migration_reserved q in
         and_then (migration_json j) (\<lambda>json.
         if mq_operation q \<in> fst ` set (migration_journals db) then Err (map_sql env ConstraintViolation)
         else Ok (j, db\<lparr>migration_journals := AList.update (mq_operation q)
           \<lparr>mt_child_lid = kr_lid (mq_child q), mt_old_parent_lid = kr_lid (mq_old_parent q),
            mt_new_parent_lid = kr_lid (mq_new_parent q), mt_committed = False, mt_json = json\<rparr>
           (migration_journals db)\<rparr>)))))"

definition migration_reserve ::
  "store_env \<Rightarrow> migration_request \<Rightarrow> sqlite_db \<Rightarrow> (migration_journal, keyrack_error) result \<times> sqlite_db" where
  "migration_reserve env q db = (case validate_migration (core env) q of
       Err e \<Rightarrow> (Err e, db)
     | Ok _ \<Rightarrow> creation_tx (migration_reserve_body env q) db)"

definition migration_get :: "store_env \<Rightarrow> uuid \<Rightarrow> sqlite_db \<Rightarrow> (migration_journal option, keyrack_error) result" where
  "migration_get env operation db = load_migration (core env) db operation"

definition migration_claim_body :: "store_env \<Rightarrow> uuid \<Rightarrow> uuid \<Rightarrow> u64 \<Rightarrow> migration_journal tx" where
  "migration_claim_body env operation owner expected_epoch db =
     and_then (required_migration (core env) db operation) (\<lambda>j0.
     and_then (claim_migration owner expected_epoch j0) (\<lambda>j.
     and_then (save_migration (core env) j db) (\<lambda>(_, db). Ok (j, db))))"

definition migration_claim ::
  "store_env \<Rightarrow> uuid \<Rightarrow> uuid \<Rightarrow> u64 \<Rightarrow> sqlite_db \<Rightarrow> (migration_journal, keyrack_error) result \<times> sqlite_db" where
  "migration_claim env operation owner expected_epoch =
     creation_tx (migration_claim_body env operation owner expected_epoch)"

definition migration_dispatch_body :: "store_env \<Rightarrow> uuid \<Rightarrow> migration_ownership \<Rightarrow> bool \<Rightarrow> migration_journal tx" where
  "migration_dispatch_body env operation w safe db =
     and_then (required_migration (core env) db operation) (\<lambda>j0.
     and_then (begin_dispatch w safe j0) (\<lambda>j.
     and_then (save_migration (core env) j db) (\<lambda>(_, db). Ok (j, db))))"

definition migration_dispatch_tx ::
  "store_env \<Rightarrow> uuid \<Rightarrow> migration_ownership \<Rightarrow> bool \<Rightarrow> sqlite_db \<Rightarrow> (migration_journal, keyrack_error) result \<times> sqlite_db" where
  "migration_dispatch_tx env operation w safe = creation_tx (migration_dispatch_body env operation w safe)"

definition loss_decided :: "sqlite_db \<Rightarrow> lid \<Rightarrow> u64 \<Rightarrow> versioned_key_id \<Rightarrow> bool" where
  "loss_decided db l version parent \<longleftrightarrow>
     vk_lid parent \<in> fst ` set (destruction_journals db) \<or>
     (l, version, vk_lid parent, nz_get (vk_version parent)) \<in> set (destroyed_parents db)"

definition migration_snapshot ::
  "store_env \<Rightarrow> lid \<Rightarrow> u64 \<Rightarrow> sqlite_db \<Rightarrow> (wrapped_key_snapshot, keyrack_error) result" where
  "migration_snapshot env l version db =
     and_then (required_key db l) (\<lambda>r.
     and_then (ok_or (migration_invalid ''wrapped version absent'') (get_version r version)) (\<lambda>entry.
     case material entry of
       ProviderResident _ _ \<Rightarrow> Err (migration_invalid ''version is not wrapped'')
     | ParentWrapped m \<Rightarrow>
         if loss_decided db l version (pw_parent m) then Err WrappingParentDestroyed
         else and_then (envelope_ref env db (ident_str (pw_material_ref m))) (\<lambda>envelope.
              and_then (key_lookup db (vk_lid (pw_parent m))) (\<lambda>found.
              and_then (ok_or WrappingParentDestroyed found) (\<lambda>parent.
              if kr_state parent = Destroyed then Err WrappingParentDestroyed
              else Ok \<lparr>ws_record = r, ws_parent = parent, ws_envelope = envelope\<rparr>)))))"

fun insert_envelopes ::
  "store_env \<Rightarrow> uuid \<Rightarrow> key_version_record list \<Rightarrow> byte list list \<Rightarrow> unit tx" where
  "insert_envelopes env operation (v # vs) (e # es) db =
     (if (operation, version_number v) \<in> fst ` set (migration_envelopes db) then Err (map_sql env ConstraintViolation)
      else insert_envelopes env operation vs es
        (db\<lparr>migration_envelopes := AList.update (operation, version_number v) e (migration_envelopes db)\<rparr>))"
| "insert_envelopes env operation _ _ db = Ok ((), db)"

definition migration_stage_body ::
  "store_env \<Rightarrow> uuid \<Rightarrow> migration_ownership \<Rightarrow> byte list list \<Rightarrow> migration_journal tx" where
  "migration_stage_body env operation w envelopes db =
     and_then (required_migration (core env) db operation) (\<lambda>j.
     and_then (require_owner j w) (\<lambda>_.
     and_then (validate_envelopes j envelopes) (\<lambda>_.
     if mj_phase j \<noteq> MReserved then Ok (j, db)
     else if map_option md_epoch (mj_dispatch j) \<noteq> Some (mo_epoch w)
     then Err (migration_invalid ''provider dispatch belongs to another ownership epoch'')
     else and_then (migration_snapshots (core env) (mj_request j) db) (\<lambda>_.
          and_then (insert_envelopes env operation (key_versions (mq_proposed (mj_request j))) envelopes db) (\<lambda>(_, db).
          let j = (record_envelope_digests (core env) envelopes j)\<lparr>mj_phase := MStaged\<rparr> in
          and_then (save_migration (core env) j db) (\<lambda>(_, db). Ok (j, db)))))))"

definition migration_stage ::
  "store_env \<Rightarrow> uuid \<Rightarrow> migration_ownership \<Rightarrow> byte list list \<Rightarrow> sqlite_db \<Rightarrow>
     (migration_journal, keyrack_error) result \<times> sqlite_db" where
  "migration_stage env operation w envelopes = creation_tx (migration_stage_body env operation w envelopes)"

fun verify_staged ::
  "store_env \<Rightarrow> uuid \<Rightarrow> migration_journal \<Rightarrow> key_version_record list \<Rightarrow> sqlite_db \<Rightarrow> (unit, keyrack_error) result" where
  "verify_staged env operation j [] db = Ok ()"
| "verify_staged env operation j (v # vs) db =
     and_then (migration_envelope env db operation (version_number v)) (\<lambda>bytes.
     and_then (verify_envelope (core env) j (version_number v) bytes) (\<lambda>_.
       verify_staged env operation j vs db))"

fun old_envelopes_of :: "store_env \<Rightarrow> sqlite_db \<Rightarrow> key_version_record list \<Rightarrow> (byte list list, keyrack_error) result" where
  "old_envelopes_of env db [] = Ok []"
| "old_envelopes_of env db (v # vs) = (case material v of
       ProviderResident _ _ \<Rightarrow> Err (migration_invalid ''resident child version'')
     | ParentWrapped m \<Rightarrow>
         and_then (envelope_ref env db (ident_str (pw_material_ref m))) (\<lambda>e.
         and_then (old_envelopes_of env db vs) (\<lambda>es. Ok (e # es))))"

text \<open>
  Committed creations of a key become receipts without bytes, and the envelopes of its committed
  migrations disappear. The insertion into the receipts fails on a duplicate.
\<close>

definition committed_of :: "lid \<Rightarrow> creation_row \<Rightarrow> bool" where
  "committed_of l c \<longleftrightarrow> ct_child_lid c = l \<and> ct_phase c = Committed"

definition erase_creations :: "lid \<Rightarrow> sqlite_db \<Rightarrow> sqlite_db" where
  "erase_creations l db = db\<lparr>creation_journals := filter (\<lambda>(_, c). \<not> committed_of l c) (creation_journals db)\<rparr>"

definition erase_migration_envelopes :: "lid \<Rightarrow> sqlite_db \<Rightarrow> sqlite_db" where
  "erase_migration_envelopes l db = db\<lparr>migration_envelopes := filter (\<lambda>((operation, _), _).
     \<not> exists_row (\<lambda>o' m. o' = operation \<and> mt_child_lid m = l \<and> mt_committed m) (migration_journals db))
     (migration_envelopes db)\<rparr>"

definition retire_creations :: "store_env \<Rightarrow> lid \<Rightarrow> unit tx" where
  "retire_creations env l db =
     (let receipts = map (\<lambda>(k, c). (k, ct_json c)) (filter (\<lambda>(_, c). committed_of l c) (creation_journals db)) in
      if list_ex (\<lambda>(k, _). k \<in> fst ` set (retired_journals db)) receipts then Err (map_sql env ConstraintViolation)
      else Ok ((), db\<lparr>retired_journals := retired_journals db @ receipts\<rparr>))"

definition migration_commit_body :: "store_env \<Rightarrow> uuid \<Rightarrow> migration_ownership \<Rightarrow> key_record tx" where
  "migration_commit_body env operation w db =
     and_then (required_migration (core env) db operation) (\<lambda>j.
     and_then (require_owner j w) (\<lambda>_.
     if mj_phase j = MCommitted then Ok (mq_proposed (mj_request j), db)
     else if mj_phase j \<noteq> MStaged then Err (migration_invalid ''envelopes not staged'')
     else and_then (migration_snapshots (core env) (mj_request j) db) (\<lambda>_.
     if count_rows (\<lambda>(o', _) _. o' = operation) (migration_envelopes db) \<noteq> length (key_versions (mq_child (mj_request j)))
     then Err (migration_invalid ''incomplete staged envelopes'')
     else and_then (verify_staged env operation j (key_versions (mq_proposed (mj_request j))) db) (\<lambda>_.
     and_then (old_envelopes_of env db (key_versions (mq_child (mj_request j)))) (\<lambda>old_envelopes.
     and_then (terminal_result (core env) old_envelopes j) (\<lambda>result.
     let child = kr_lid (mq_child (mj_request j)); proposed = mq_proposed (mj_request j) in
     and_then (retire_creations env child db) (\<lambda>(_, db).
     let db = erase_migration_envelopes child (erase_creations child db) in
     and_then (record_to_string (migration_invalid ''record encoding'') proposed) (\<lambda>json.
     and_then (i64_try_from (migration_invalid ''OCC overflow'') (occ_version proposed)) (\<lambda>occ.
     and_then (i64_try_from (migration_invalid ''OCC overflow'') (occ_version (mq_child (mj_request j)))) (\<lambda>expected.
     let (rows, db) = update_key_row (kr_lid proposed) \<lparr>kt_json = json, kt_occ = occ\<rparr> expected db in
     if rows \<noteq> 1 then Err migration_busy
     else and_then (save_migration (core env) (j\<lparr>mj_result := Some result, mj_phase := MCommitted\<rparr>) db) (\<lambda>(_, db).
       Ok (proposed, db))))))))))))"

definition migration_commit ::
  "store_env \<Rightarrow> uuid \<Rightarrow> migration_ownership \<Rightarrow> sqlite_db \<Rightarrow> (key_record, keyrack_error) result \<times> sqlite_db" where
  "migration_commit env operation w = creation_tx (migration_commit_body env operation w)"

definition migration_read :: "store_env \<Rightarrow> uuid \<Rightarrow> u64 \<Rightarrow> sqlite_db \<Rightarrow> (byte list, keyrack_error) result" where
  "migration_read env operation version db =
     and_then (required_migration (core env) db operation) (\<lambda>j.
     if mj_phase j \<noteq> MCommitted then Err (migration_invalid ''migration is not committed'')
     else and_then (migration_envelope env db operation version) (\<lambda>bytes.
          and_then (verify_envelope (core env) j version bytes) (\<lambda>_. Ok bytes)))"

end
