(* ===== verification/Store_Destruction.thy ===== *)
theory Store_Destruction
  imports Store_Migration
begin

text \<open>
  Destruction in the SQLite store (\<open>keyrack-sqlite/src/destruction.rs\<close>): the dependency census over
  keys, journals and live envelopes, deletion schedules with their approval, the fenced claim, loss
  markers for dependents, and the completion that erases a key's own envelopes. Version columns
  hold the digits of a number, so \<open>parse_version\<close> on them refuses only zero; on the tail of an
  envelope reference it parses text. \<open>Utc::now()\<close> and the fresh operation id are arguments.
\<close>

section \<open>Rows\<close>

definition save_key :: "key_record \<Rightarrow> u64 \<Rightarrow> unit tx" where
  "save_key r expected db =
     and_then (record_to_string (dinvalid ''key serialization'') r) (\<lambda>json.
     and_then (i64_try_from (dinvalid ''OCC out of range'') (occ_version r)) (\<lambda>occ.
     and_then (i64_try_from (dinvalid ''OCC out of range'') expected) (\<lambda>expected.
     let (rows, db) = update_key_row (kr_lid r) \<lparr>kt_json = json, kt_occ = occ\<rparr> expected db in
     if rows \<noteq> 1 then Err (dinvalid ''key changed during destruction transaction'') else Ok ((), db))))"

definition version_column :: "u64 \<Rightarrow> (u64, keyrack_error) result" where
  "version_column n = (if n = 0 then Err (dinvalid ''invalid version index'') else Ok n)"

definition parse_version :: "string \<Rightarrow> (u64, keyrack_error) result" where
  "parse_version s = and_then (ok_or (dinvalid ''invalid version index'') (parse_u64 s)) (\<lambda>n.
     if n = 0 \<or> show_nat (unat n) \<noteq> s then Err (dinvalid ''invalid version index'') else Ok n)"

section \<open>The census\<close>

definition key_row_record :: "lid \<times> key_row \<Rightarrow> (key_record, keyrack_error) result" where
  "key_row_record stored = (case stored of (l, row) \<Rightarrow>
     and_then (from_str (dinvalid ''invalid persisted key'') (kt_json row)) (\<lambda>r.
     if kr_lid r \<noteq> l \<or> kt_occ row < 0 \<or> uint (occ_version r) \<noteq> kt_occ row
     then Err (dinvalid ''key row binding mismatch'') else Ok r))"

fun include_keys ::
  "lid \<Rightarrow> (lid \<times> key_row) list \<Rightarrow> destruction_dependencies \<Rightarrow> (destruction_dependencies, keyrack_error) result" where
  "include_keys l [] d = Ok d"
| "include_keys l (row # rows) d =
     and_then (key_row_record row) (\<lambda>r.
     and_then (include_record l r d) (include_keys l rows))"

definition creation_edge :: "creation_row \<Rightarrow> (destruction_dependent, keyrack_error) result" where
  "creation_edge c =
     and_then (version_column (ct_child_version c)) (\<lambda>v.
     and_then (version_column (ct_parent_version c)) (\<lambda>p.
       Ok (ct_child_lid c, v, p, ct_envelope_ref c)))"

definition creation_edges :: "lid \<Rightarrow> sqlite_db \<Rightarrow> (destruction_dependent list, keyrack_error) result" where
  "creation_edges l db = try_map creation_edge (map snd (filter (\<lambda>(_, c). ct_parent_lid c = l \<and> ct_child_lid c \<noteq> l \<and>
     ct_phase c = Committed \<and> ct_envelope c \<noteq> None) (creation_journals db)))"

definition migration_edge ::
  "creation_env \<Rightarrow> lid \<Rightarrow> (uuid \<times> migration_row) \<times> u64 \<Rightarrow> (destruction_dependent, keyrack_error) result" where
  "migration_edge env l joined = (case joined of ((operation, row), version) \<Rightarrow>
     and_then (from_str (dinvalid ''invalid migration journal'') (mt_json row)) (\<lambda>j.
     and_then (validate_migration_journal env j) (\<lambda>_.
     and_then (version_column version) (\<lambda>version.
     and_then (ok_or (dinvalid ''migration envelope version mismatch'')
        (get_version (mq_proposed (mj_request j)) version)) (\<lambda>bound.
     case material bound of
       ProviderResident _ _ \<Rightarrow> Err (dinvalid ''migration envelope material mismatch'')
     | ParentWrapped m \<Rightarrow>
         if mq_operation (mj_request j) \<noteq> operation \<or> kr_lid (mq_child (mj_request j)) \<noteq> mt_child_lid row \<or>
            mj_phase j \<noteq> MCommitted \<or> vk_lid (pw_parent m) \<noteq> l
         then Err (dinvalid ''migration envelope index mismatch'')
         else Ok (kr_lid (mq_child (mj_request j)), version, nz_get (vk_version (pw_parent m)),
                  ident_str (pw_material_ref m)))))))"

definition migration_join :: "sqlite_db \<Rightarrow> ((uuid \<times> migration_row) \<times> u64) list" where
  "migration_join db = concat (map (\<lambda>(operation, row).
     map (\<lambda>((_, version), _). ((operation, row), version))
       (filter (\<lambda>((o', _), _). o' = operation) (migration_envelopes db))) (migration_journals db))"

definition migration_edges :: "creation_env \<Rightarrow> lid \<Rightarrow> sqlite_db \<Rightarrow> (destruction_dependent list, keyrack_error) result" where
  "migration_edges env l db = try_map (migration_edge env l) (filter (\<lambda>((_, row), _).
     mt_new_parent_lid row = l \<and> mt_child_lid row \<noteq> l \<and> mt_committed row) (migration_join db))"

definition row_counts :: "lid \<Rightarrow> sqlite_db \<Rightarrow> destruction_dependencies" where
  "row_counts l db = \<lparr>logical_only_children = 0, own_parent_wrapped_versions = 0, dependent_wrapping_edges = 0,
     creation_journal_rows = of_nat (count_rows (\<lambda>_ c. ct_parent_lid c = l \<or> ct_child_lid c = l) (creation_journals db)),
     in_flight_creation_journal_rows = of_nat (count_rows (\<lambda>_ c. ct_phase c \<noteq> Committed \<and>
       (ct_parent_lid c = l \<or> ct_child_lid c = l)) (creation_journals db)),
     migration_journal_rows = of_nat (count_rows (\<lambda>_ m. \<not> mt_committed m \<and>
       (mt_child_lid m = l \<or> mt_old_parent_lid m = l \<or> mt_new_parent_lid m = l)) (migration_journals db)),
     dependents = []\<rparr>"

definition store_dependencies ::
  "creation_env \<Rightarrow> lid \<Rightarrow> sqlite_db \<Rightarrow> (destruction_dependencies, keyrack_error) result" where
  "store_dependencies env l db =
     and_then (required_key db l) (\<lambda>_.
     and_then (include_keys l (db_keys db) (row_counts l db)) (\<lambda>d.
     and_then (creation_edges l db) (\<lambda>cs.
     and_then (migration_edges env l db) (\<lambda>ms.
       let ds = remdups_adj (sort (dependents d @ cs @ ms)) in
       Ok (d\<lparr>dependents := ds, dependent_wrapping_edges := of_nat (length ds)\<rparr>)))))"

section \<open>Intents and envelopes\<close>

definition store_intent :: "sqlite_db \<Rightarrow> key_record \<Rightarrow> (deletion_intent option, keyrack_error) result" where
  "store_intent db r = (case map_of (deletion_schedules db) (kr_lid r) of
       None \<Rightarrow> Ok None
     | Some row \<Rightarrow>
         if kr_state r \<noteq> PendingDeletion \<or> scheduled_deletion_at r \<noteq> Some (st_scheduled_at row)
         then Err (dinvalid ''deletion intent schedule mismatch'')
         else and_then (from_str (dinvalid ''invalid deletion intent'') (st_json row)) (\<lambda>i. Ok (Some i)))"

definition no_intent :: deletion_intent where
  "no_intent = \<lparr>allow_dependent_data_loss = False, approved_dependents = []\<rparr>"

definition checked_record :: "sqlite_db \<Rightarrow> lid \<Rightarrow> u64 \<Rightarrow> (key_record, keyrack_error) result" where
  "checked_record db l expected =
     and_then (required_key db l) (\<lambda>r.
     if occ_version r \<noteq> expected then Err (OptimisticConcurrencyConflict l expected (occ_version r))
     else if expected = 0 \<or> i64_max \<le> expected then Err (dinvalid ''OCC out of range'')
     else Ok r)"

definition owned_creation_ok ::
  "key_record \<Rightarrow> key_version_record \<Rightarrow> parent_wrapped_material \<Rightarrow> creation_row \<Rightarrow> (bool, keyrack_error) result" where
  "owned_creation_ok r v m c =
     (if ct_child_lid c \<noteq> kr_lid r then Ok False
      else and_then (version_column (ct_child_version c)) (\<lambda>n.
      if n \<noteq> version_number v \<or> ct_parent_lid c \<noteq> vk_lid (pw_parent m) then Ok False
      else and_then (version_column (ct_parent_version c)) (\<lambda>p.
      Ok (p = nz_get (vk_version (pw_parent m)) \<and> ct_phase c = Committed \<and> ct_envelope c \<noteq> None))))"

definition owned_migration ::
  "store_env \<Rightarrow> key_record \<Rightarrow> key_version_record \<Rightarrow> string \<Rightarrow> sqlite_db \<Rightarrow> (unit, keyrack_error) result" where
  "owned_migration env r v tail db =
     and_then (ok_or (dinvalid ''invalid migration envelope reference'') (rsplit_once (CHR '':'') tail)) (\<lambda>(text, number).
     and_then (parse_version number) (\<lambda>n.
     if n \<noteq> version_number v then Err (dinvalid ''migration envelope version mismatch'')
     else case List.find (\<lambda>((operation, _), version). uuid_display (core env) operation = text \<and> version = n) (migration_join db) of
         None \<Rightarrow> Err (dinvalid ''owned migration envelope missing'')
       | Some ((_, row), _) \<Rightarrow>
           and_then (from_str (dinvalid ''invalid migration journal'') (mt_json row)) (\<lambda>j.
           and_then (validate_migration_journal (core env) j) (\<lambda>_.
           if \<not> mt_committed row \<or> mj_phase j \<noteq> MCommitted \<or> kr_lid (mq_child (mj_request j)) \<noteq> kr_lid r \<or>
              map_option material (get_version (mq_proposed (mj_request j)) (version_number v)) \<noteq> Some (material v)
           then Err (dinvalid ''owned migration envelope binding mismatch'') else Ok ()))))"

definition owned_version ::
  "store_env \<Rightarrow> key_record \<Rightarrow> sqlite_db \<Rightarrow> key_version_record \<Rightarrow> (unit, keyrack_error) result" where
  "owned_version env r db v = (case material v of
       ProviderResident _ _ \<Rightarrow> Ok ()
     | ParentWrapped m \<Rightarrow>
         (case List.find (\<lambda>(_, c). ct_envelope_ref c = ident_str (pw_material_ref m)) (creation_journals db) of
            Some (_, c) \<Rightarrow> and_then (owned_creation_ok r v m c) (\<lambda>good.
              if \<not> good then Err (dinvalid ''owned creation envelope binding mismatch'') else Ok ())
          | None \<Rightarrow> (case strip_prefix ''migration:'' (ident_str (pw_material_ref m)) of
              Some tail \<Rightarrow> owned_migration env r v tail db
            | None \<Rightarrow> Err (dinvalid ''unsupported wrapped envelope lifecycle''))))"

fun owned_versions ::
  "store_env \<Rightarrow> key_record \<Rightarrow> sqlite_db \<Rightarrow> key_version_record list \<Rightarrow> (unit, keyrack_error) result" where
  "owned_versions env r db [] = Ok ()"
| "owned_versions env r db (v # vs) = and_then (owned_version env r db v) (\<lambda>_. owned_versions env r db vs)"

definition validate_owned_envelopes :: "store_env \<Rightarrow> key_record \<Rightarrow> sqlite_db \<Rightarrow> (unit, keyrack_error) result" where
  "validate_owned_envelopes env r db = owned_versions env r db (key_versions r)"

section \<open>Loss markers\<close>

definition is_live_edge :: "lid \<Rightarrow> destruction_dependent \<Rightarrow> key_record \<Rightarrow> bool" where
  "is_live_edge l edge child = (case edge of (_, version, parent_version, reference) \<Rightarrow>
     kr_state child \<noteq> Destroyed \<and>
     (case get_version child version of
        Some v \<Rightarrow> (case material v of
            ParentWrapped m \<Rightarrow> vk_lid (pw_parent m) = l \<and> nz_get (vk_version (pw_parent m)) = parent_version \<and>
              ident_str (pw_material_ref m) = reference
          | ProviderResident _ _ \<Rightarrow> False)
      | None \<Rightarrow> False))"

fun mark_losses :: "lid \<Rightarrow> destruction_dependent list \<Rightarrow> unit tx" where
  "mark_losses l [] db = Ok ((), db)"
| "mark_losses l (edge # edges) db =
     and_then (key_lookup db (fst edge)) (\<lambda>found.
     mark_losses l edges (case found of
         Some child \<Rightarrow>
           if is_live_edge l edge child
           then (case edge of (c, version, parent_version, _) \<Rightarrow>
             db\<lparr>destroyed_parents := List.insert (c, version, l, parent_version) (destroyed_parents db)\<rparr>)
           else db
       | None \<Rightarrow> db))"

definition record_loss_markers :: "creation_env \<Rightarrow> lid \<Rightarrow> unit tx" where
  "record_loss_markers env l db =
     and_then (store_dependencies env l db) (\<lambda>observed. mark_losses l (dependents observed) db)"

section \<open>Transactions\<close>

definition destruction_dependency_counts ::
  "store_env \<Rightarrow> lid \<Rightarrow> sqlite_db \<Rightarrow> (destruction_dependencies, keyrack_error) result" where
  "destruction_dependency_counts env l db = store_dependencies (core env) l db"

definition destruction_intent :: "lid \<Rightarrow> sqlite_db \<Rightarrow> (deletion_intent option, keyrack_error) result" where
  "destruction_intent l db = and_then (required_key db l) (store_intent db)"

definition destruction_parent_markers ::
  "lid \<Rightarrow> sqlite_db \<Rightarrow> ((u64 \<times> lid \<times> u64) list, keyrack_error) result" where
  "destruction_parent_markers l db =
     and_then (required_key db l) (\<lambda>_.
     and_then (try_map (\<lambda>(_, v, p, pv).
         and_then (version_column v) (\<lambda>v. and_then (version_column pv) (\<lambda>pv. Ok (v, p, pv))))
       (filter (\<lambda>(c, _). c = l) (destroyed_parents db))) (\<lambda>markers.
       Ok (sort markers)))"

record scheduled_deletion =
  sd_record :: key_record
  sd_logical_only_children :: u64
  sd_approved_dependents :: "destruction_dependent list"

definition transition_error :: "lid \<Rightarrow> key_state \<times> key_state \<Rightarrow> keyrack_error" where
  "transition_error l p = (case p of (a, b) \<Rightarrow> InvalidStateTransition l a b)"

definition destruction_schedule_body ::
  "store_env \<Rightarrow> timestamp \<Rightarrow> lid \<Rightarrow> u64 \<Rightarrow> timestamp \<Rightarrow> bool \<Rightarrow> scheduled_deletion tx" where
  "destruction_schedule_body env now l expected at allow db =
     and_then (destruction_guard db l) (\<lambda>_.
     and_then (checked_record db l expected) (\<lambda>r.
     and_then (store_dependencies (core env) l db) (\<lambda>observed.
     and_then (approval observed allow) (\<lambda>i.
     and_then (validate_destruction_history r) (\<lambda>_.
     and_then (validate_owned_envelopes env r db) (\<lambda>_.
     and_then (map_err (transition_error l) (fst (transition_to now PendingDeletion r))) (\<lambda>_.
     let r = (snd (transition_to now PendingDeletion r))\<lparr>scheduled_deletion_at := Some at\<rparr> in
     and_then (save_key r expected db) (\<lambda>(_, db).
       Ok (\<lparr>sd_record = r, sd_logical_only_children = logical_only_children observed,
            sd_approved_dependents = approved_dependents i\<rparr>,
           db\<lparr>deletion_schedules := AList.update l \<lparr>st_scheduled_at = at, st_json = Encodes i\<rparr> (deletion_schedules db)\<rparr>)))))))))"

definition destruction_schedule ::
  "store_env \<Rightarrow> timestamp \<Rightarrow> lid \<Rightarrow> u64 \<Rightarrow> timestamp \<Rightarrow> bool \<Rightarrow> sqlite_db \<Rightarrow>
     (scheduled_deletion, keyrack_error) result \<times> sqlite_db" where
  "destruction_schedule env now l expected at allow =
     creation_tx (destruction_schedule_body env now l expected at allow)"

definition destruction_cancel_body :: "timestamp \<Rightarrow> lid \<Rightarrow> u64 \<Rightarrow> key_record tx" where
  "destruction_cancel_body now l expected db =
     and_then (destruction_guard db l) (\<lambda>_.
     and_then (migration_guard db l) (\<lambda>_.
     and_then (checked_record db l expected) (\<lambda>r.
     if kr_state r \<noteq> PendingDeletion then Err (dinvalid ''key is not pending deletion'')
     else and_then (map_err (transition_error l) (fst (transition_to now Disabled r))) (\<lambda>_.
     let r = (snd (transition_to now Disabled r))\<lparr>scheduled_deletion_at := None\<rparr> in
     and_then (save_key r expected db) (\<lambda>(_, db).
       Ok (r, db\<lparr>deletion_schedules := AList.delete l (deletion_schedules db)\<rparr>))))))"

definition destruction_cancel ::
  "timestamp \<Rightarrow> lid \<Rightarrow> u64 \<Rightarrow> sqlite_db \<Rightarrow> (key_record, keyrack_error) result \<times> sqlite_db" where
  "destruction_cancel now l expected = creation_tx (destruction_cancel_body now l expected)"

definition recover_claim ::
  "store_env \<Rightarrow> lid \<Rightarrow> u64 \<Rightarrow> destruction_row \<Rightarrow> (uuid \<times> key_record \<times> bool) option tx" where
  "recover_claim env l expected row db =
     (if dt_completed row then Ok (None, db)
      else and_then (from_str (dinvalid ''invalid claim snapshot'') (dt_json row)) (\<lambda>snapshot.
      if is_nil (dt_operation row) \<or> kr_lid snapshot \<noteq> l \<or> kr_state snapshot \<noteq> PendingDeletion
      then Err (dinvalid ''claim binding mismatch'')
      else and_then (required_key db l) (\<lambda>current.
      and_then (same_json snapshot current) (\<lambda>same.
      if \<not> same then Err (dinvalid ''claimed snapshot changed'')
      else if expected \<noteq> occ_version snapshot then Ok (None, db)
      else and_then (validate_destruction_history snapshot) (\<lambda>_.
      and_then (record_loss_markers (core env) l db) (\<lambda>(_, db).
        Ok (Some (dt_operation row, snapshot, True), db)))))))"

definition destruction_claim_body ::
  "store_env \<Rightarrow> uuid \<Rightarrow> lid \<Rightarrow> u64 \<Rightarrow> timestamp \<Rightarrow> (uuid \<times> key_record \<times> bool) option tx" where
  "destruction_claim_body env fresh l expected now db = (case map_of (destruction_journals db) l of
       Some row \<Rightarrow> recover_claim env l expected row db
     | None \<Rightarrow>
         and_then (required_key db l) (\<lambda>r.
         and_then (store_dependencies (core env) l db) (\<lambda>counts.
         and_then (store_intent db r) (\<lambda>i.
         and_then (validate_intent counts (case i of Some i \<Rightarrow> i | None \<Rightarrow> no_intent)) (\<lambda>_.
         and_then (validate_owned_envelopes env r db) (\<lambda>_.
         and_then (prepare_claim r expected now) (\<lambda>r.
         and_then (record_to_string (dinvalid ''claim serialization'') r) (\<lambda>json.
         if exists_row (\<lambda>_ d. dt_operation d = fresh) (destruction_journals db) then Err (map_sql env ConstraintViolation)
         else let db = db\<lparr>destruction_journals := AList.update l
                \<lparr>dt_operation = fresh, dt_json = json, dt_completed = False\<rparr> (destruction_journals db)\<rparr> in
         and_then (record_loss_markers (core env) l db) (\<lambda>(_, db).
         and_then (save_key r expected db) (\<lambda>(_, db).
           Ok (Some (fresh, r, False), db)))))))))))"

definition destruction_claim_tx ::
  "store_env \<Rightarrow> uuid \<Rightarrow> lid \<Rightarrow> u64 \<Rightarrow> timestamp \<Rightarrow> sqlite_db \<Rightarrow>
     (destruction_claim option, keyrack_error) result \<times> sqlite_db" where
  "destruction_claim_tx env fresh l expected now db =
     (case creation_tx (destruction_claim_body env fresh l expected now) db of (claimed, db) \<Rightarrow>
       (and_then claimed (\<lambda>c. case c of
           None \<Rightarrow> Ok None
         | Some (operation, r, recovered) \<Rightarrow>
             and_then (if recovered then claim_recovered operation r else claim_committed operation r) (\<lambda>c. Ok (Some c))),
        db))"

text \<open>Receipts of committed creations; an existing receipt of the same operation stays.\<close>

definition retire_creations_once :: "lid \<Rightarrow> sqlite_db \<Rightarrow> sqlite_db" where
  "retire_creations_once l db = db\<lparr>retired_journals := retired_journals db @
     map (\<lambda>(k, c). (k, ct_json c)) (filter (\<lambda>(k, c). committed_of l c \<and> k \<notin> fst ` set (retired_journals db))
       (creation_journals db))\<rparr>"

definition destruction_complete_body :: "timestamp \<Rightarrow> destruction_claim \<Rightarrow> key_record tx" where
  "destruction_complete_body now c db =
     (let l = kr_lid (dc_record c) in
      and_then (ok_or (dinvalid ''claim missing'') (map_of (destruction_journals db) l)) (\<lambda>row.
      and_then (from_str (dinvalid ''invalid claim snapshot'') (dt_json row)) (\<lambda>snapshot.
      and_then (if dt_operation row \<noteq> dc_operation c then Ok False else same_json snapshot (dc_record c)) (\<lambda>same.
      if \<not> same then Err (dinvalid ''claim mismatch'')
      else and_then (required_key db l) (\<lambda>current.
      if dt_completed row then and_then (validate_completed_record now c current) (\<lambda>_. Ok (current, db))
      else and_then (completed_record now c current) (\<lambda>r.
      let db = erase_migration_envelopes l (erase_creations l (retire_creations_once l db)) in
      and_then (save_key r (occ_version current) db) (\<lambda>(_, db).
        Ok (r, db\<lparr>destruction_journals := map (\<lambda>(k, x). (k, if k = l then x\<lparr>dt_completed := True\<rparr> else x))
                    (destruction_journals db),
                  deletion_schedules := AList.delete l (deletion_schedules db)\<rparr>))))))))"

definition destruction_complete ::
  "timestamp \<Rightarrow> destruction_claim \<Rightarrow> sqlite_db \<Rightarrow> (key_record, keyrack_error) result \<times> sqlite_db" where
  "destruction_complete now c = creation_tx (destruction_complete_body now c)"

section \<open>The census is exact\<close>

text \<open>The envelopes of committed journals that are wrapped under a key, known without any descriptor.\<close>

definition creation_envelopes_under :: "lid \<Rightarrow> sqlite_db \<Rightarrow> destruction_dependent set" where
  "creation_envelopes_under l db =
     {(ct_child_lid c, ct_child_version c, ct_parent_version c, ct_envelope_ref c) | k c. (k, c) \<in> set (creation_journals db) \<and>
        ct_parent_lid c = l \<and> ct_child_lid c \<noteq> l \<and> ct_phase c = Committed \<and> ct_envelope c \<noteq> None}"

definition migration_envelopes_under :: "lid \<Rightarrow> sqlite_db \<Rightarrow> destruction_dependent set" where
  "migration_envelopes_under l db =
     {(mt_child_lid row, n, nz_get (vk_version (pw_parent m)), ident_str (pw_material_ref m)) | operation row n j v m.
        ((operation, row), n) \<in> set (migration_join db) \<and> mt_new_parent_lid row = l \<and> mt_child_lid row \<noteq> l \<and> mt_committed row \<and>
        mt_json row = Encodes j \<and> get_version (mq_proposed (mj_request j)) n = Some v \<and> material v = ParentWrapped m}"

lemma try_map_set: "try_map f xs = Ok ys \<Longrightarrow> set ys = {y. \<exists>x \<in> set xs. f x = Ok y}"
  unfolding try_map_Ok_iff by (induction rule: list_all2_induct) auto

lemma try_map_total: "try_map f xs = Ok ys \<Longrightarrow> x \<in> set xs \<Longrightarrow> \<exists>y. f x = Ok y"
  unfolding try_map_Ok_iff by (induction rule: list_all2_induct) auto

lemma creation_edges_set:
  assumes "creation_edges l db = Ok cs"
  shows "set cs = creation_envelopes_under l db"
proof -
  let ?p = "\<lambda>c. ct_parent_lid c = l \<and> ct_child_lid c \<noteq> l \<and> ct_phase c = Committed \<and> ct_envelope c \<noteq> None"
  let ?rows = "map snd (filter (\<lambda>(_, c). ?p c) (creation_journals db))"
  let ?e = "\<lambda>c. (ct_child_lid c, ct_child_version c, ct_parent_version c, ct_envelope_ref c)"
  have all: "try_map creation_edge ?rows = Ok cs" using assms by (simp add: creation_edges_def)
  have edge: "creation_edge c = Ok e \<Longrightarrow> e = ?e c" for c e
    by (auto simp: creation_edge_def version_column_def split: if_splits)
  have "e \<in> set cs \<longleftrightarrow> e \<in> ?e ` set ?rows" for e
    unfolding try_map_set [OF all] mem_Collect_eq image_iff
  proof
    show "\<exists>c \<in> set ?rows. e = ?e c" if "\<exists>c \<in> set ?rows. creation_edge c = Ok e" using that edge by blast
    show "\<exists>c \<in> set ?rows. creation_edge c = Ok e" if "\<exists>c \<in> set ?rows. e = ?e c"
    proof -
      from that obtain c where c: "c \<in> set ?rows" "e = ?e c" by (elim bexE)
      moreover obtain e' where "creation_edge c = Ok e'" using try_map_total [OF all c(1)] by (elim exE)
      ultimately show ?thesis using edge by (intro bexI [of _ c]) simp_all
    qed
  qed
  then have "set cs = ?e ` set ?rows" by (rule set_eqI)
  also have "\<dots> = creation_envelopes_under l db"
    by (auto simp: creation_envelopes_under_def image_iff) force+
  finally show ?thesis .
qed

lemma migration_edge_Ok:
  assumes "migration_edge env l ((operation, row), n) = Ok e"
  shows "\<exists>j v m. mt_json row = Encodes j \<and> get_version (mq_proposed (mj_request j)) n = Some v \<and> material v = ParentWrapped m \<and>
    e = (mt_child_lid row, n, nz_get (vk_version (pw_parent m)), ident_str (pw_material_ref m))"
proof -
  obtain j v where j: "mt_json row = Encodes j" "get_version (mq_proposed (mj_request j)) n = Some v"
    and e: "(case material v of
       ProviderResident _ _ \<Rightarrow> Err (dinvalid ''migration envelope material mismatch'')
     | ParentWrapped m \<Rightarrow>
         if mq_operation (mj_request j) \<noteq> operation \<or> kr_lid (mq_child (mj_request j)) \<noteq> mt_child_lid row \<or>
            mj_phase j \<noteq> MCommitted \<or> vk_lid (pw_parent m) \<noteq> l
         then Err (dinvalid ''migration envelope index mismatch'')
         else Ok (kr_lid (mq_child (mj_request j)), n, nz_get (vk_version (pw_parent m)), ident_str (pw_material_ref m))) = Ok e"
    using assms by (cases "mt_json row") (auto simp: migration_edge_def from_str_def version_column_def split: if_splits)
  then show ?thesis by (cases "material v") (auto split: if_splits)
qed

lemma migration_edges_set:
  assumes "migration_edges env l db = Ok ms"
  shows "set ms = migration_envelopes_under l db"
proof -
  let ?rows = "filter (\<lambda>((_, row), _). mt_new_parent_lid row = l \<and> mt_child_lid row \<noteq> l \<and> mt_committed row) (migration_join db)"
  have all: "try_map (migration_edge env l) ?rows = Ok ms" using assms by (simp add: migration_edges_def)
  show ?thesis
  proof (intro equalityI subsetI)
    fix e assume "e \<in> set ms"
    then obtain operation row n where x: "((operation, row), n) \<in> set ?rows" "migration_edge env l ((operation, row), n) = Ok e"
      unfolding try_map_set [OF all] by auto
    from x(1) have row: "((operation, row), n) \<in> set (migration_join db)" "mt_new_parent_lid row = l" "mt_child_lid row \<noteq> l"
      "mt_committed row" by auto
    from migration_edge_Ok [OF x(2)] row show "e \<in> migration_envelopes_under l db"
      unfolding migration_envelopes_under_def by blast
  next
    fix e assume "e \<in> migration_envelopes_under l db"
    then obtain operation row n j v m where x: "((operation, row), n) \<in> set ?rows" "mt_json row = Encodes j"
        "get_version (mq_proposed (mj_request j)) n = Some v" "material v = ParentWrapped m"
      and e: "e = (mt_child_lid row, n, nz_get (vk_version (pw_parent m)), ident_str (pw_material_ref m))"
      by (auto simp: migration_envelopes_under_def)
    obtain e' where e': "migration_edge env l ((operation, row), n) = Ok e'"
      using try_map_total [OF all x(1)] by (elim exE)
    with migration_edge_Ok [OF e'] x e have "e' = e" by auto
    with e' x(1) show "e \<in> set ms" unfolding try_map_set [OF all] by blast
  qed
qed

lemma include_keys_result:
  assumes "include_keys l rows d = Ok d'"
  shows "\<exists>rs. try_map key_row_record rows = Ok rs \<and> set (dependents d') = set (dependents d) \<union> (\<Union>r \<in> set rs. edges_into l r) \<and>
    own_parent_wrapped_versions d' = own_parent_wrapped_versions d + of_nat (sum_list (map (own_wrapped l) rs)) \<and>
    unat (logical_only_children d') = unat (logical_only_children d) + length (filter (logical_only_child l) rs)"
  using assms
proof (induction rows arbitrary: d)
  case (Cons row rows)
  then obtain r e where r: "key_row_record row = Ok r" "include_record l r d = Ok e" "include_keys l rows e = Ok d'" by auto
  from Cons.IH [OF r(3)] obtain rs where "try_map key_row_record rows = Ok rs"
    "set (dependents d') = set (dependents e) \<union> (\<Union>r \<in> set rs. edges_into l r)"
    "own_parent_wrapped_versions d' = own_parent_wrapped_versions e + of_nat (sum_list (map (own_wrapped l) rs))"
    "unat (logical_only_children d') = unat (logical_only_children e) + length (filter (logical_only_child l) rs)" by blast
  with r include_record_dependents [OF r(2)] include_record_counts [OF r(2)] show ?case
    by (intro exI [of _ "r # rs"]) (auto simp: add.assoc)
qed simp

text \<open>
  C10: the dependency census is complete and exact. Over the records of all rows of the key table, the
  dependents are strictly sorted, so without duplicates, and are exactly the live wrapping edges
  into the key: one for each wrapped version of another key that is not destroyed, and one for each
  live envelope of a committed creation or migration, an edge known both ways being listed once.
  The edge counter is the length of the list, and the counters of the key's own wrapped versions and
  of its children with resident material only are exact.
\<close>

theorem census_is_exact:
  assumes "store_dependencies env l db = Ok d"
  shows "\<exists>rs. try_map key_row_record (db_keys db) = Ok rs \<and> sorted_wrt (<) (dependents d) \<and>
    set (dependents d) = (\<Union>r \<in> set rs. edges_into l r) \<union> creation_envelopes_under l db \<union> migration_envelopes_under l db \<and>
    dependent_wrapping_edges d = of_nat (length (dependents d)) \<and>
    own_parent_wrapped_versions d = of_nat (sum_list (map (own_wrapped l) rs)) \<and>
    unat (logical_only_children d) = length (filter (logical_only_child l) rs)"
proof -
  obtain d1 cs ms where d1: "include_keys l (db_keys db) (row_counts l db) = Ok d1"
    and cs: "creation_edges l db = Ok cs" and ms: "migration_edges env l db = Ok ms"
    and d: "d = d1\<lparr>dependents := remdups_adj (sort (dependents d1 @ cs @ ms)),
        dependent_wrapping_edges := of_nat (length (remdups_adj (sort (dependents d1 @ cs @ ms))))\<rparr>"
    using assms by (auto simp: store_dependencies_def Let_def)
  have "sorted_wrt (<) (remdups_adj (sort xs))" for xs :: "destruction_dependent list"
    by (simp add: strict_sorted_iff distinct_remdups_adj_sorted)
  with include_keys_result [OF d1] creation_edges_set [OF cs] migration_edges_set [OF ms] show ?thesis
    unfolding d by (auto simp: row_counts_def Un_assoc)
qed

definition census_db :: sqlite_db where
  "census_db = empty_db\<lparr>db_keys :=
     [(Lid (fill 2), \<lparr>kt_json = Encodes ((sample_record Enabled)\<lparr>kr_lid := Lid (fill 2)\<rparr>), kt_occ = 4\<rparr>),
      (Lid (fill 1), \<lparr>kt_json = Encodes sample_child, kt_occ = 1\<rparr>)]\<rparr>"

lemma sample_census:
  "store_dependencies env (Lid (fill 2)) census_db =
     Ok ((row_counts (Lid (fill 2)) census_db)\<lparr>dependent_wrapping_edges := 1, dependents := [(Lid (fill 1), 1, 1, ''p'')]\<rparr>)"
  by (simp add: store_dependencies_def required_key_def key_lookup_def census_db_def empty_db_def from_str_def
      key_row_record_def include_record_def count_logical_child_def logical_only_child_def is_resident_def
      row_counts_def count_rows_def creation_edges_def migration_edges_def migration_join_def Let_def
      sample_child_def sample_record_def sample_version_def version_provider_resident_def sample_material_def NonZero_inverse)

theorem census_is_exact_witness:
  "edges_into (Lid (fill 2)) sample_child = {(Lid (fill 1), 1, 1, ''p'')} \<and> own_wrapped (Lid (fill 2)) sample_child = 0"
proof -
  have rows: "try_map key_row_record (db_keys census_db) = Ok [(sample_record Enabled)\<lparr>kr_lid := Lid (fill 2)\<rparr>, sample_child]"
    by (simp add: census_db_def key_row_record_def from_str_def sample_child_def sample_record_def)
  have none: "edges_into (Lid (fill 2)) ((sample_record Enabled)\<lparr>kr_lid := Lid (fill 2)\<rparr>) = {}"
    "creation_envelopes_under (Lid (fill 2)) census_db = {}" "migration_envelopes_under (Lid (fill 2)) census_db = {}"
    by (simp_all add: edges_into_def creation_envelopes_under_def migration_envelopes_under_def migration_join_def
        census_db_def empty_db_def)
  have "edges_into (Lid (fill 2)) sample_child = {(Lid (fill 1), 1, 1, ''p'')}"
    using census_is_exact [OF sample_census] by (auto simp: rows none)
  moreover have "own_wrapped (Lid (fill 2)) sample_child = 0"
    by (simp add: own_wrapped_def sample_child_def sample_record_def)
  ultimately show ?thesis by simp
qed

end
