(* ===== verification/Store_Keys.thy ===== *)
theory Store_Keys
  imports Store_Destruction
begin

text \<open>
  The key table of the SQLite store (\<open>keyrack-sqlite/src/lib.rs\<close>): creation, reading, the guarded
  compare-and-set update, and the two listings. A listing without \<open>ORDER BY\<close> returns rows in
  insertion order here; the listing theorems do not depend on the order.
\<close>

definition serialize_failed :: "string \<Rightarrow> keyrack_error" where
  "serialize_failed e = Storage (''serialize: '' @ e)"

definition deserialize_failed :: "string \<Rightarrow> keyrack_error" where
  "deserialize_failed e = Storage (''deserialize: '' @ e)"

definition persisted :: "key_record \<Rightarrow> key_record" where
  "persisted r = r\<lparr>was_compromised := has_compromise_history r\<rparr>"

definition create_key_body :: "key_record \<Rightarrow> key_row \<Rightarrow> unit tx" where
  "create_key_body r row db =
     and_then (migration_guard_record db r) (\<lambda>_.
     and_then (creation_guard_create db (kr_lid r)) (\<lambda>_.
     and_then (destruction_guard_write db r) (\<lambda>_.
     if kr_lid r \<in> fst ` set (db_keys db) then Err (Other ''key already exists'')
     else Ok ((), db\<lparr>db_keys := AList.update (kr_lid r) row (db_keys db)\<rparr>))))"

definition create_key_store ::
  "(codec_error \<Rightarrow> string) \<Rightarrow> key_record \<Rightarrow> sqlite_db \<Rightarrow> (unit, keyrack_error) result \<times> sqlite_db" where
  "create_key_store show_error r db =
     (case record_value (persisted r) of
        Err e \<Rightarrow> (Err (serialize_failed (show_error e)), db)
      | Ok _ \<Rightarrow> (case i64_try_from (invalid ''key OCC out of range'') (occ_version r) of
          Err e \<Rightarrow> (Err e, db)
        | Ok occ \<Rightarrow> creation_tx (create_key_body r \<lparr>kt_json = Encodes (persisted r), kt_occ = occ\<rparr>) db))"

definition get_key :: "string \<Rightarrow> lid \<Rightarrow> sqlite_db \<Rightarrow> (key_record, keyrack_error) result" where
  "get_key parse_error l db = (case map_of (db_keys db) l of
       None \<Rightarrow> Err (KeyNotFound l)
     | Some row \<Rightarrow> from_str (deserialize_failed parse_error) (kt_json row))"

definition update_key_body :: "key_record \<Rightarrow> key_row \<Rightarrow> unit tx" where
  "update_key_body r row db =
     and_then (required_key db (kr_lid r)) (\<lambda>previous.
     if occ_version previous \<noteq> occ_version r - 1
     then Err (OptimisticConcurrencyConflict (kr_lid r) (occ_version r - 1) (occ_version previous))
     else if has_compromise_history previous \<and> \<not> has_compromise_history r
     then Err (Other (''cannot clear a key'' @ [CHR 0x27] @ ''s compromise history''))
     else and_then (migration_guard_update db previous r) (\<lambda>_.
     and_then (creation_guard_update db previous r) (\<lambda>_.
     and_then (destruction_guard_update r db) (\<lambda>(_, db).
     let (rows, db) = update_key_row (kr_lid r) row (kt_occ row - 1) db in
     if rows = 0
     then (case map_of (db_keys db) (kr_lid r) of
         Some actual \<Rightarrow> Err (OptimisticConcurrencyConflict (kr_lid r) (occ_version r - 1) (of_int (kt_occ actual)))
       | None \<Rightarrow> Err (KeyNotFound (kr_lid r)))
     else Ok ((), db)))))"

definition update_key_store ::
  "(codec_error \<Rightarrow> string) \<Rightarrow> key_record \<Rightarrow> sqlite_db \<Rightarrow> (unit, keyrack_error) result \<times> sqlite_db" where
  "update_key_store show_error r db =
     (if occ_version r = 0 then (Err (Other ''occ_version must be > 0 for updates''), db)
      else case record_value (persisted r) of
        Err e \<Rightarrow> (Err (serialize_failed (show_error e)), db)
      | Ok _ \<Rightarrow> (case i64_try_from (invalid ''key OCC out of range'') (occ_version r) of
          Err e \<Rightarrow> (Err e, db)
        | Ok occ \<Rightarrow> creation_tx (update_key_body r \<lparr>kt_json = Encodes (persisted r), kt_occ = occ\<rparr>) db))"

section \<open>Listings\<close>

record key_filter =
  kf_state :: "key_state option"
  kf_owner :: "string option"
  kf_user_tags :: "(string \<times> string) list"
  kf_limit :: "u32 option"
  kf_cursor :: "string option"

definition filter_accepts :: "key_filter \<Rightarrow> key_record \<Rightarrow> bool" where
  "filter_accepts f r \<longleftrightarrow>
     kf_state f \<in> {None, Some (kr_state r)} \<and>
     (kf_owner f = None \<or> owner_principal_id r = None \<or> owner_principal_id r = kf_owner f) \<and>
     list_all (\<lambda>(k, v). user_get (kr_user_tags r) k = Some v) (kf_user_tags f)"

fun decode_keys :: "string \<Rightarrow> (lid \<times> key_row) list \<Rightarrow> (key_record list, keyrack_error) result" where
  "decode_keys parse_error [] = Ok []"
| "decode_keys parse_error ((_, row) # rows) =
     and_then (from_str (deserialize_failed parse_error) (kt_json row)) (\<lambda>r.
     and_then (decode_keys parse_error rows) (\<lambda>rs. Ok (r # rs)))"

definition list_keys ::
  "string \<Rightarrow> key_filter \<Rightarrow> sqlite_db \<Rightarrow> (key_record list \<times> string option, keyrack_error) result" where
  "list_keys parse_error f db =
     and_then (decode_keys parse_error (take (unat (case kf_limit f of Some n \<Rightarrow> n | None \<Rightarrow> 100)) (db_keys db))) (\<lambda>rs.
       Ok (filter (filter_accepts f) rs, None))"

definition list_children :: "string \<Rightarrow> lid \<Rightarrow> sqlite_db \<Rightarrow> (key_record list, keyrack_error) result" where
  "list_children parse_error parent db =
     and_then (decode_keys parse_error (db_keys db)) (\<lambda>rs.
       Ok (filter (\<lambda>r. parent_lid r = Some parent) rs))"

end
