(* ===== verification/Rotation.thy ===== *)
theory Rotation
  imports Provider_Routing Store_Keys
begin

text \<open>
  Cooperative rotation jobs: the job and its lifecycle (\<open>keyrack-core/src/rotation.rs\<close>), the
  \<open>rotation_jobs\<close> table of the SQLite store (\<open>keyrack-sqlite/src/lib.rs\<close>), the service operations on
  jobs (\<open>keyrack-service/src/domain.rs\<close>), the expiry scan (\<open>workers.rs\<close>), and the result of a cascade
  (\<open>keyrack-core/src/cascade.rs\<close>). A clock reading is an argument.
\<close>

section \<open>Jobs\<close>

datatype rotation_job_state = JobPending | JobAcknowledged | JobCompleted | JobFailed | JobExpired

fun valid_job_transitions :: "rotation_job_state \<Rightarrow> rotation_job_state list" where
  "valid_job_transitions JobPending = [JobAcknowledged, JobExpired]"
| "valid_job_transitions JobAcknowledged = [JobCompleted, JobFailed, JobExpired]"
| "valid_job_transitions _ = []"

definition job_can_transition_to :: "rotation_job_state \<Rightarrow> rotation_job_state \<Rightarrow> bool" where
  "job_can_transition_to from target \<longleftrightarrow> target \<in> set (valid_job_transitions from)"

definition is_terminal :: "rotation_job_state \<Rightarrow> bool" where
  "is_terminal s \<longleftrightarrow> s \<in> {JobCompleted, JobFailed, JobExpired}"

definition DEFAULT_EXPIRY_SECS :: timestamp where
  "DEFAULT_EXPIRY_SECS = 24 * 60 * 60"

record rotation_job =
  job_id :: string
  job_parent_lid :: lid
  dependent_lid :: lid
  new_version :: u64
  job_state :: rotation_job_state
  job_created_at :: timestamp
  job_expires_at :: timestamp
  acknowledged_at :: "timestamp option"
  completed_at :: "timestamp option"
  failure_reason :: "string option"

definition rotation_job_new :: "timestamp \<Rightarrow> string \<Rightarrow> lid \<Rightarrow> lid \<Rightarrow> u64 \<Rightarrow> rotation_job" where
  "rotation_job_new now i parent dependent version =
     \<lparr>job_id = i, job_parent_lid = parent, dependent_lid = dependent, new_version = version, job_state = JobPending,
      job_created_at = now, job_expires_at = now + DEFAULT_EXPIRY_SECS, acknowledged_at = None, completed_at = None,
      failure_reason = None\<rparr>"

definition job_transition_to ::
  "timestamp \<Rightarrow> rotation_job_state \<Rightarrow> rotation_job \<Rightarrow> (unit, rotation_job_state \<times> rotation_job_state) result \<times> rotation_job" where
  "job_transition_to now target j =
     (if \<not> job_can_transition_to (job_state j) target then (Err (job_state j, target), j)
      else let j = (case target of
               JobAcknowledged \<Rightarrow> j\<lparr>acknowledged_at := Some now\<rparr>
             | JobCompleted \<Rightarrow> j\<lparr>completed_at := Some now\<rparr>
             | _ \<Rightarrow> j)
           in (Ok (), j\<lparr>job_state := target\<rparr>))"

definition job_fail ::
  "timestamp \<Rightarrow> string \<Rightarrow> rotation_job \<Rightarrow> (unit, rotation_job_state \<times> rotation_job_state) result \<times> rotation_job" where
  "job_fail now reason j = job_transition_to now JobFailed (j\<lparr>failure_reason := Some reason\<rparr>)"

definition job_is_expired :: "timestamp \<Rightarrow> rotation_job \<Rightarrow> bool" where
  "job_is_expired now j \<longleftrightarrow> \<not> is_terminal (job_state j) \<and> job_expires_at j \<le> now"

section \<open>The table\<close>

text \<open>A row holds the job's JSON and, in its own column, the state's name.\<close>

record job_row =
  jt_json :: "rotation_job json"
  jt_state :: rotation_job_state

type_synonym rotation_table = "(string \<times> job_row) list"

definition row_of_job :: "rotation_job \<Rightarrow> job_row" where
  "row_of_job j = \<lparr>jt_json = Encodes j, jt_state = job_state j\<rparr>"

definition create_rotation_job :: "rotation_job \<Rightarrow> rotation_table \<Rightarrow> (unit, keyrack_error) result \<times> rotation_table" where
  "create_rotation_job j t = (Ok (), AList.update (job_id j) (row_of_job j) t)"

definition get_rotation_job :: "string \<Rightarrow> string \<Rightarrow> rotation_table \<Rightarrow> (rotation_job, keyrack_error) result" where
  "get_rotation_job parse_error i t = (case map_of t i of
       None \<Rightarrow> Err (Other (''rotation job not found: '' @ i))
     | Some row \<Rightarrow> from_str (deserialize_failed parse_error) (jt_json row))"

definition update_rotation_job :: "rotation_job \<Rightarrow> rotation_table \<Rightarrow> (unit, keyrack_error) result \<times> rotation_table" where
  "update_rotation_job j t =
     (Ok (), map (\<lambda>(i, row). (i, if i = job_id j then row_of_job j else row)) t)"

fun decode_jobs :: "string \<Rightarrow> (string \<times> job_row) list \<Rightarrow> (rotation_job list, keyrack_error) result" where
  "decode_jobs parse_error [] = Ok []"
| "decode_jobs parse_error ((_, row) # rows) =
     and_then (from_str (deserialize_failed parse_error) (jt_json row)) (\<lambda>j.
     and_then (decode_jobs parse_error rows) (\<lambda>js. Ok (j # js)))"

definition list_rotation_jobs ::
  "string \<Rightarrow> rotation_job_state option \<Rightarrow> rotation_table \<Rightarrow> (rotation_job list, keyrack_error) result" where
  "list_rotation_jobs parse_error state_filter t = decode_jobs parse_error
     (case state_filter of None \<Rightarrow> t | Some s \<Rightarrow> filter (\<lambda>(_, row). jt_state row = s) t)"

section \<open>Service operations\<close>

record job_env =
  je_parse_error :: string
  je_display :: "keyrack_error \<Rightarrow> string"
  je_display_state :: "rotation_job_state \<Rightarrow> string"

definition job_refused :: "job_env \<Rightarrow> rotation_job_state \<times> rotation_job_state \<Rightarrow> domain_error" where
  "job_refused env = (\<lambda>(from, target).
     FailedPrecondition (''cannot transition from '' @ je_display_state env from @ '' to '' @ je_display_state env target))"

text \<open>What the three calls share: read the job, change it in memory, write it back.\<close>

definition change_rotation_job ::
  "job_env \<Rightarrow> (rotation_job \<Rightarrow> (unit, rotation_job_state \<times> rotation_job_state) result \<times> rotation_job) \<Rightarrow> string \<Rightarrow>
     rotation_table \<Rightarrow> (rotation_job, domain_error) result \<times> rotation_table" where
  "change_rotation_job env f i t =
     (case map_err (domain_from (je_display env)) (get_rotation_job (je_parse_error env) i t) of
        Err e \<Rightarrow> (Err e, t)
      | Ok j \<Rightarrow> (case f j of
          (Err x, _) \<Rightarrow> (Err (job_refused env x), t)
        | (Ok _, j) \<Rightarrow> (case update_rotation_job j t of
            (Err e, t) \<Rightarrow> (Err (domain_from (je_display env) e), t)
          | (Ok _, t) \<Rightarrow> (Ok j, t))))"

definition acknowledge_rotation_job ::
  "job_env \<Rightarrow> timestamp \<Rightarrow> string \<Rightarrow> rotation_table \<Rightarrow> (rotation_job, domain_error) result \<times> rotation_table" where
  "acknowledge_rotation_job env now = change_rotation_job env (job_transition_to now JobAcknowledged)"

definition complete_rotation_job ::
  "job_env \<Rightarrow> timestamp \<Rightarrow> string \<Rightarrow> rotation_table \<Rightarrow> (rotation_job, domain_error) result \<times> rotation_table" where
  "complete_rotation_job env now = change_rotation_job env (job_transition_to now JobCompleted)"

definition fail_rotation_job ::
  "job_env \<Rightarrow> timestamp \<Rightarrow> string \<Rightarrow> string \<Rightarrow> rotation_table \<Rightarrow> (rotation_job, domain_error) result \<times> rotation_table" where
  "fail_rotation_job env now i reason = change_rotation_job env (job_fail now reason) i"

definition service_list_rotation_jobs ::
  "job_env \<Rightarrow> (string \<Rightarrow> (lid, domain_error) result) \<Rightarrow> rotation_job_state option \<Rightarrow> string option \<Rightarrow> rotation_table \<Rightarrow>
     (rotation_job list, domain_error) result" where
  "service_list_rotation_jobs env parse_lid state_filter k t =
     and_then (case k of None \<Rightarrow> Ok None | Some s \<Rightarrow> and_then (parse_lid s) (\<lambda>l. Ok (Some l))) (\<lambda>key_filter.
     and_then (map_err (domain_from (je_display env)) (list_rotation_jobs (je_parse_error env) state_filter t)) (\<lambda>jobs.
       Ok (case key_filter of None \<Rightarrow> jobs | Some l \<Rightarrow> filter (\<lambda>j. job_parent_lid j = l \<or> dependent_lid j = l) jobs)))"

section \<open>The expiry scan\<close>

fun expire_jobs :: "timestamp \<Rightarrow> rotation_job list \<Rightarrow> rotation_table \<Rightarrow> nat \<times> rotation_table" where
  "expire_jobs now [] t = (0, t)"
| "expire_jobs now (j # js) t =
     (if now < job_expires_at j then expire_jobs now js t
      else case job_transition_to now JobExpired j of
          (Err _, _) \<Rightarrow> expire_jobs now js t
        | (Ok _, updated) \<Rightarrow> (case update_rotation_job updated t of
            (Err _, t) \<Rightarrow> expire_jobs now js t
          | (Ok _, t) \<Rightarrow> (case expire_jobs now js t of (n, t) \<Rightarrow> (Suc n, t))))"

definition run_rotation_expiry_scan ::
  "string \<Rightarrow> timestamp \<Rightarrow> rotation_table \<Rightarrow> (nat, keyrack_error) result \<times> rotation_table" where
  "run_rotation_expiry_scan parse_error now t = (case list_rotation_jobs parse_error (Some JobPending) t of
       Err e \<Rightarrow> (Err e, t)
     | Ok pending \<Rightarrow> (case expire_jobs now pending t of (n, t) \<Rightarrow>
         (case list_rotation_jobs parse_error (Some JobAcknowledged) t of
            Err e \<Rightarrow> (Err e, t)
          | Ok acknowledged \<Rightarrow> (case expire_jobs now acknowledged t of (m, t) \<Rightarrow> (Ok (n + m), t)))))"

section \<open>The result of a cascade\<close>

datatype ack_state = Acknowledged | TimedOut | AckError string

record subscriber_ack =
  subscriber_id :: string
  ack :: ack_state

record key_notification_status =
  notified_lid :: lid
  subscribers :: "subscriber_ack list"

record cascade_result =
  root_lid :: lid
  affected_keys :: "lid list"
  notification_status :: "key_notification_status list"
  duration_ms :: u64
  cascade_started_at :: timestamp
  cascade_completed_at :: timestamp

definition all_acknowledged :: "cascade_result \<Rightarrow> bool" where
  "all_acknowledged c \<longleftrightarrow> list_all (\<lambda>k. list_all (\<lambda>s. ack s = Acknowledged) (subscribers k)) (notification_status c)"

definition unacknowledged_count :: "cascade_result \<Rightarrow> nat" where
  "unacknowledged_count c = length (filter (\<lambda>k. list_ex (\<lambda>s. ack s \<noteq> Acknowledged) (subscribers k)) (notification_status c))"

lemma all_acknowledged_iff: "all_acknowledged c \<longleftrightarrow> unacknowledged_count c = 0"
  by (auto simp: all_acknowledged_def unacknowledged_count_def filter_empty_conv list_all_iff list_ex_iff)

section \<open>What the table holds\<close>

definition job_at :: "rotation_table \<Rightarrow> string \<Rightarrow> rotation_job option" where
  "job_at t i = (case map_of t i of Some row \<Rightarrow> (case jt_json row of Encodes j \<Rightarrow> Some j | Malformed \<Rightarrow> None) | None \<Rightarrow> None)"

definition jobs_ok :: "rotation_table \<Rightarrow> bool" where
  "jobs_ok t \<longleftrightarrow> distinct (map fst t) \<and> (\<forall>(i, row) \<in> set t. \<exists>j. row = row_of_job j \<and> job_id j = i)"

lemma jobs_ok_empty [simp]: "jobs_ok []"
  by (simp add: jobs_ok_def)

lemma jobs_ok_row: "jobs_ok t \<Longrightarrow> (i, row) \<in> set t \<Longrightarrow> \<exists>j. row = row_of_job j \<and> job_id j = i"
  by (auto simp: jobs_ok_def)

lemma job_at_iff:
  assumes "jobs_ok t"
  shows "job_at t i = Some j \<longleftrightarrow> (i, row_of_job j) \<in> set t"
proof
  assume "job_at t i = Some j"
  then obtain row where row: "map_of t i = Some row" "jt_json row = Encodes j"
    by (auto simp: job_at_def split: option.splits json.splits)
  with jobs_ok_row [OF assms map_of_SomeD [OF row(1)]] have "row = row_of_job j" by (auto simp: row_of_job_def)
  with row show "(i, row_of_job j) \<in> set t" by (auto dest: map_of_SomeD)
next
  assume "(i, row_of_job j) \<in> set t"
  then have "map_of t i = Some (row_of_job j)" using assms by (simp add: jobs_ok_def)
  then show "job_at t i = Some j" by (simp add: job_at_def row_of_job_def)
qed

lemma job_at_id: "jobs_ok t \<Longrightarrow> job_at t i = Some j \<Longrightarrow> job_id j = i"
  by (auto simp: job_at_iff row_of_job_def dest!: jobs_ok_row)

lemma job_at_None: "jobs_ok t \<Longrightarrow> job_at t i = None \<longleftrightarrow> map_of t i = None"
  by (auto simp: job_at_def row_of_job_def split: option.splits json.splits dest!: map_of_SomeD jobs_ok_row)

lemma map_of_update_rotation_job:
  "map_of (snd (update_rotation_job j t)) i = (if i = job_id j then map_option (\<lambda>_. row_of_job j) (map_of t i) else map_of t i)"
  by (induction t) (auto simp: update_rotation_job_def)

lemma jobs_ok_update [simp]: "jobs_ok t \<Longrightarrow> jobs_ok (snd (update_rotation_job j t))"
proof -
  have fst: "map fst (snd (update_rotation_job j t)) = map fst t"
    by (auto simp: update_rotation_job_def)
  assume "jobs_ok t"
  then show ?thesis unfolding jobs_ok_def fst by (auto simp: update_rotation_job_def)
qed

lemma job_at_update:
  "jobs_ok t \<Longrightarrow> job_at (snd (update_rotation_job j t)) i =
     (if i = job_id j then map_option (\<lambda>_. j) (job_at t i) else job_at t i)"
proof (cases "map_of t i")
  case (Some row)
  assume "jobs_ok t"
  then obtain j' where "row = row_of_job j'" using Some jobs_ok_row [OF _ map_of_SomeD] by blast
  with Some show ?thesis by (auto simp: job_at_def map_of_update_rotation_job row_of_job_def)
qed (auto simp: job_at_def map_of_update_rotation_job)

lemma job_at_create:
  assumes "jobs_ok t"
  shows "jobs_ok (snd (create_rotation_job j t))"
    and "job_at (snd (create_rotation_job j t)) i = (if i = job_id j then Some j else job_at t i)"
proof -
  have "set (AList.update k v al) \<subseteq> insert (k, v) (set al)" for k v and al :: "('k \<times> 'v) list"
    by (induction al) auto
  then show "jobs_ok (snd (create_rotation_job j t))"
    using assms unfolding jobs_ok_def create_rotation_job_def by (fastforce simp: distinct_update)
  show "job_at (snd (create_rotation_job j t)) i = (if i = job_id j then Some j else job_at t i)"
    by (simp add: job_at_def create_rotation_job_def update_conv' row_of_job_def)
qed

lemma get_rotation_job_at: "jobs_ok t \<Longrightarrow> get_rotation_job e i t = ok_or (Other (''rotation job not found: '' @ i)) (job_at t i)"
  by (auto simp: get_rotation_job_def job_at_def row_of_job_def from_str_def split: option.splits dest!: map_of_SomeD jobs_ok_row)

text \<open>A state filter finds exactly the jobs in that state, since the column agrees with the JSON.\<close>

definition job_entry :: "rotation_job \<Rightarrow> string \<times> job_row" where
  "job_entry j = (job_id j, row_of_job j)"

lemma job_entry_inject [simp]: "job_entry a = job_entry b \<longleftrightarrow> a = b"
  by (auto simp: job_entry_def row_of_job_def)

lemma jobs_ok_entries: "jobs_ok t \<Longrightarrow> \<exists>js. t = map job_entry js \<and> distinct (map job_id js)"
proof (induction t)
  case (Cons p t)
  then obtain js where "t = map job_entry js" "distinct (map job_id js)" by (auto simp: jobs_ok_def)
  moreover obtain j where "p = job_entry j" using Cons.prems by (auto simp: jobs_ok_def job_entry_def)
  ultimately show ?case
    using Cons.prems by (intro exI [of _ "j # js"]) (auto simp: jobs_ok_def job_entry_def image_iff)
qed simp

lemma decode_job_entries [simp]: "decode_jobs e (map job_entry js) = Ok js"
  by (induction js) (simp_all add: job_entry_def row_of_job_def from_str_def)

lemma list_rotation_jobs_state:
  assumes "jobs_ok t"
  obtains js where "list_rotation_jobs e (Some s) t = Ok js" "distinct (map job_id js)"
    "\<And>j. j \<in> set js \<longleftrightarrow> job_at t (job_id j) = Some j \<and> job_state j = s"
proof -
  obtain js where js: "t = map job_entry js" "distinct (map job_id js)" using jobs_ok_entries [OF assms] by blast
  let ?js = "filter (\<lambda>j. job_state j = s) js"
  have "filter (\<lambda>(_, row). jt_state row = s) t = map job_entry ?js"
    by (simp add: js(1) filter_map comp_def job_entry_def row_of_job_def)
  then have listed: "list_rotation_jobs e (Some s) t = Ok ?js" by (simp add: list_rotation_jobs_def)
  have dist: "distinct (map job_id ?js)" using js(2) by (rule distinct_map_filter)
  have "job_at t (job_id j) = Some j \<longleftrightarrow> job_entry j \<in> job_entry ` set js" for j
    using job_at_iff [OF assms, of "job_id j" j] by (simp only: job_entry_def [of j] js(1) set_map)
  then have mem: "job_at t (job_id j) = Some j \<longleftrightarrow> j \<in> set js" for j by auto
  have iff: "j \<in> set ?js \<longleftrightarrow> job_at t (job_id j) = Some j \<and> job_state j = s" for j
    unfolding mem by auto
  show ?thesis by (rule that [OF listed dist iff])
qed

section \<open>One change of a job\<close>

definition expired_job :: "rotation_job \<Rightarrow> rotation_job" where
  "expired_job j = j\<lparr>job_state := JobExpired\<rparr>"

lemma job_transition_Ok:
  "job_transition_to now target j = (Ok (), j') \<Longrightarrow>
     job_can_transition_to (job_state j) target \<and> job_state j' = target \<and> job_id j' = job_id j \<and>
     job_parent_lid j' = job_parent_lid j \<and> dependent_lid j' = dependent_lid j \<and> new_version j' = new_version j \<and>
     job_expires_at j' = job_expires_at j"
  by (auto simp: job_transition_to_def Let_def split: if_splits rotation_job_state.splits)

lemma job_transition_expired:
  "job_transition_to now JobExpired j = (if is_terminal (job_state j) then (Err (job_state j, JobExpired), j) else (Ok (), expired_job j))"
  by (cases "job_state j") (simp_all add: job_transition_to_def job_can_transition_to_def is_terminal_def expired_job_def)

text \<open>The jobs of one listing are expired one by one; each is still in the table as it was listed.\<close>

lemma expire_jobs_at:
  assumes "jobs_ok t" "distinct (map job_id js)" "\<And>j. j \<in> set js \<Longrightarrow> job_at t (job_id j) = Some j"
  shows "jobs_ok (snd (expire_jobs now js t)) \<and> job_at (snd (expire_jobs now js t)) i =
    map_option (\<lambda>j. if j \<in> set js \<and> job_is_expired now j then expired_job j else j) (job_at t i)"
  using assms
proof (induction js arbitrary: t)
  case Nil
  then show ?case by (simp add: map_option.id [unfolded id_def])
next
  case (Cons j js)
  let ?t = "snd (update_rotation_job (expired_job j) t)"
  have here: "job_at t (job_id j) = Some j" using Cons.prems by simp
  have skip: "map_option (\<lambda>k. if k \<in> set js \<and> job_is_expired now k then expired_job k else k) (job_at t i) =
      map_option (\<lambda>k. if k \<in> set (j # js) \<and> job_is_expired now k then expired_job k else k) (job_at t i)"
    if "\<not> job_is_expired now j" using that by (cases "job_at t i") auto
  show ?case
  proof (cases "job_is_expired now j")
    case False
    then have "expire_jobs now (j # js) t = expire_jobs now js t"
      by (auto simp: job_transition_expired job_is_expired_def not_less)
    then show ?thesis using Cons.IH [of t] Cons.prems skip [OF False] by simp
  next
    case True
    have other: "job_at ?t (job_id k) = Some k" if "k \<in> set js" for k
    proof -
      have "job_id k \<noteq> job_id j" using that Cons.prems(2) by (auto simp: image_iff)
      then show ?thesis using that Cons.prems by (simp add: job_at_update expired_job_def)
    qed
    have step: "snd (expire_jobs now (j # js) t) = snd (expire_jobs now js ?t)"
      using True by (simp add: job_transition_expired job_is_expired_def update_rotation_job_def split: prod.splits)
    have "map_option (\<lambda>k. if k \<in> set js \<and> job_is_expired now k then expired_job k else k) (job_at ?t i) =
        map_option (\<lambda>k. if k \<in> set (j # js) \<and> job_is_expired now k then expired_job k else k) (job_at t i)"
    proof (cases "i = job_id j")
      case True
      have "job_id (expired_job j) = job_id j" by (simp add: expired_job_def)
      then have "expired_job j \<notin> set js"
        using Cons.prems(2) image_eqI [of "job_id j" job_id "expired_job j" "set js"] by auto
      then show ?thesis using True here Cons.prems \<open>job_is_expired now j\<close>
        by (simp add: job_at_update) (simp add: expired_job_def)
    next
      case False
      then have "job_at ?t i = job_at t i" using Cons.prems by (simp add: job_at_update expired_job_def)
      moreover have "job_at t i = Some k \<Longrightarrow> k \<noteq> j" for k using False job_at_id [OF Cons.prems(1)] by auto
      ultimately show ?thesis by (cases "job_at t i") auto
    qed
    then show ?thesis
      unfolding step using Cons.IH [of ?t] Cons.prems other by simp
  qed
qed

lemma expiry_scan_jobs:
  assumes "jobs_ok t"
  shows "\<exists>n t'. run_rotation_expiry_scan e now t = (Ok n, t') \<and> jobs_ok t' \<and>
     (\<forall>i. job_at t' i = map_option (\<lambda>j. if job_is_expired now j then expired_job j else j) (job_at t i))"
proof -
  obtain ps where ps: "list_rotation_jobs e (Some JobPending) t = Ok ps" "distinct (map job_id ps)"
      "\<And>j. j \<in> set ps \<longleftrightarrow> job_at t (job_id j) = Some j \<and> job_state j = JobPending"
    by (rule list_rotation_jobs_state [OF assms, of e JobPending]) blast
  obtain n u where u: "expire_jobs now ps t = (n, u)" by (cases "expire_jobs now ps t")
  have first: "jobs_ok u" "\<And>i. job_at u i = map_option (\<lambda>j. if j \<in> set ps \<and> job_is_expired now j then expired_job j else j) (job_at t i)"
    using expire_jobs_at [OF assms ps(2) ps(3) [THEN iffD1, THEN conjunct1], where now = now, unfolded u snd_conv] by blast+
  obtain as where as: "list_rotation_jobs e (Some JobAcknowledged) u = Ok as" "distinct (map job_id as)"
      "\<And>j. j \<in> set as \<longleftrightarrow> job_at u (job_id j) = Some j \<and> job_state j = JobAcknowledged"
    by (rule list_rotation_jobs_state [OF first(1), of e JobAcknowledged]) blast
  obtain m v where v: "expire_jobs now as u = (m, v)" by (cases "expire_jobs now as u")
  have second: "jobs_ok v" "\<And>i. job_at v i = map_option (\<lambda>j. if j \<in> set as \<and> job_is_expired now j then expired_job j else j) (job_at u i)"
    using expire_jobs_at [OF first(1) as(2) as(3) [THEN iffD1, THEN conjunct1], where now = now, unfolded v snd_conv] by blast+
  have "job_at v i = map_option (\<lambda>j. if job_is_expired now j then expired_job j else j) (job_at t i)" for i
  proof (cases "job_at t i")
    case (Some j)
    have id: "job_id j = i" by (rule job_at_id [OF assms Some])
    show ?thesis
    proof (cases "job_state j")
      case JobPending
      then have "j \<in> set ps" using ps(3) id Some by simp
      then show ?thesis using Some JobPending second(2) [of i] first(2) [of i] as(3) by (auto simp: expired_job_def)
    next
      case JobAcknowledged
      then have "j \<notin> set ps" using ps(3) by simp
      moreover from this have "j \<in> set as" using as(3) first(2) [of i] Some id JobAcknowledged by simp
      ultimately show ?thesis using Some second(2) [of i] first(2) [of i] by simp
    qed (use Some second(2) [of i] first(2) [of i] in \<open>auto simp: job_is_expired_def is_terminal_def\<close>)
  qed (use second(2) [of i] first(2) [of i] in simp)
  then show ?thesis
    using second(1) by (simp add: run_rotation_expiry_scan_def ps(1) u as(1) v)
qed

section \<open>Any sequence of calls\<close>

text \<open>One call at a time. The id of a new job is a fresh UUID.\<close>

inductive jobs_step :: "rotation_table \<Rightarrow> rotation_table \<Rightarrow> bool" where
  create: "job_at t i = None \<Longrightarrow> jobs_step t (snd (create_rotation_job (rotation_job_new now i parent dependent version) t))"
| acknowledge: "jobs_step t (snd (acknowledge_rotation_job env now i t))"
| complete: "jobs_step t (snd (complete_rotation_job env now i t))"
| fail: "jobs_step t (snd (fail_rotation_job env now i reason t))"
| scan: "jobs_step t (snd (run_rotation_expiry_scan e now t))"

definition same_job :: "rotation_job \<Rightarrow> rotation_job \<Rightarrow> bool" where
  "same_job j k \<longleftrightarrow> job_id k = job_id j \<and> job_parent_lid k = job_parent_lid j \<and> dependent_lid k = dependent_lid j \<and>
     new_version k = new_version j \<and> job_expires_at k = job_expires_at j"

definition job_follows :: "rotation_job \<Rightarrow> rotation_job \<Rightarrow> bool" where
  "job_follows j k \<longleftrightarrow> k = j \<or> same_job j k \<and> (\<lambda>x y. job_can_transition_to x y)\<^sup>+\<^sup>+ (job_state j) (job_state k)"

lemma job_follows_refl [simp]: "job_follows j j"
  by (simp add: job_follows_def)

lemma job_follows_trans: "job_follows j k \<Longrightarrow> job_follows k l \<Longrightarrow> job_follows j l"
  by (auto simp: job_follows_def same_job_def dest: tranclp_trans)

lemma terminal_no_way_out: "(\<lambda>x y. job_can_transition_to x y)\<^sup>+\<^sup>+ s s' \<Longrightarrow> \<not> is_terminal s"
  by (induction rule: tranclp_induct) (auto simp: job_can_transition_to_def is_terminal_def elim: valid_job_transitions.elims)

lemma job_follows_transition: "job_transition_to now target j = (Ok (), k) \<Longrightarrow> job_follows j k"
  using job_transition_Ok [of now target j k] by (auto simp: job_follows_def same_job_def)

lemma job_follows_fail: "job_fail now reason j = (Ok (), k) \<Longrightarrow> job_follows j k"
  using job_transition_Ok [of now JobFailed "j\<lparr>failure_reason := Some reason\<rparr>" k]
  by (auto simp: job_follows_def same_job_def job_fail_def)

lemma change_rotation_job_follows:
  assumes "jobs_ok t" "\<And>j k. f j = (Ok (), k) \<Longrightarrow> job_follows j k"
  shows "jobs_ok (snd (change_rotation_job env f i t)) \<and>
    (job_at t i' = Some j \<longrightarrow> (\<exists>k. job_at (snd (change_rotation_job env f i t)) i' = Some k \<and> job_follows j k))"
proof (cases "job_at t i")
  case None
  then show ?thesis using assms(1) by (auto simp: change_rotation_job_def get_rotation_job_at)
next
  case (Some j0)
  have id: "job_id j0 = i" by (rule job_at_id [OF assms(1) Some])
  show ?thesis
  proof (cases "f j0")
    case (Pair r k)
    show ?thesis
    proof (cases r)
      case (Ok x)
      then have "job_follows j0 k" using assms(2) [of j0 k] Pair by simp
      then have "job_id k = i" using id by (auto simp: job_follows_def same_job_def)
      have "snd (change_rotation_job env f i t) = snd (update_rotation_job k t)"
        using assms(1) Some Pair Ok by (simp add: change_rotation_job_def get_rotation_job_at update_rotation_job_def)
      then show ?thesis
        using assms(1) Some \<open>job_follows j0 k\<close> \<open>job_id k = i\<close> by (auto simp: job_at_update)
    qed (use assms(1) Some Pair in \<open>auto simp: change_rotation_job_def get_rotation_job_at\<close>)
  qed
qed

lemma jobs_step_follows:
  assumes "jobs_step t t'" "jobs_ok t"
  shows "jobs_ok t' \<and> (job_at t i = Some j \<longrightarrow> (\<exists>k. job_at t' i = Some k \<and> job_follows j k))"
  using assms
proof (cases rule: jobs_step.cases)
  case (create i' now parent dependent version)
  then show ?thesis using job_at_create [OF assms(2)] by (auto simp: rotation_job_new_def)
next
  case (acknowledge env now i')
  then show ?thesis
    using change_rotation_job_follows [OF assms(2) job_follows_transition] by (simp add: acknowledge_rotation_job_def)
next
  case (complete env now i')
  then show ?thesis
    using change_rotation_job_follows [OF assms(2) job_follows_transition] by (simp add: complete_rotation_job_def)
next
  case (fail env now i' reason)
  then show ?thesis
    using change_rotation_job_follows [OF assms(2) job_follows_fail] by (simp add: fail_rotation_job_def)
next
  case (scan e now)
  have follows: "job_follows j (expired_job j)" if "job_is_expired now j" for j
    using that job_follows_transition [of now JobExpired j "expired_job j"]
    by (simp add: job_transition_expired job_is_expired_def)
  obtain n u where "run_rotation_expiry_scan e now t = (Ok n, u)" "jobs_ok u"
      "\<forall>i. job_at u i = map_option (\<lambda>j. if job_is_expired now j then expired_job j else j) (job_at t i)"
    using expiry_scan_jobs [OF assms(2)] by blast
  then show ?thesis using scan follows by simp
qed

lemma jobs_run_follows:
  assumes "jobs_step\<^sup>*\<^sup>* t t'" "jobs_ok t"
  shows "jobs_ok t' \<and> (job_at t i = Some j \<longrightarrow> (\<exists>k. job_at t' i = Some k \<and> job_follows j k))"
  using assms
proof (induction rule: rtranclp_induct)
  case (step u v)
  then show ?case using jobs_step_follows [OF step.hyps(2), of i] job_follows_trans by blast
qed auto

lemma complete_rotation_job_Ok:
  assumes "jobs_ok t" and "complete_rotation_job env now i t = (Ok k, t')"
  shows "job_at t' i = Some k \<and> job_state k = JobCompleted"
proof -
  obtain j where j: "job_at t i = Some j"
    using assms by (cases "job_at t i") (auto simp: complete_rotation_job_def change_rotation_job_def get_rotation_job_at)
  then have f: "job_transition_to now JobCompleted j = (Ok (), k)" and t': "t' = snd (update_rotation_job k t)"
    using assms by (auto simp: complete_rotation_job_def change_rotation_job_def get_rotation_job_at update_rotation_job_def
        split: prod.splits result.splits)
  from job_transition_Ok [OF f] job_at_id [OF assms(1) j] j assms(1) show ?thesis
    by (simp add: t' job_at_update)
qed

text \<open>A listing that is no longer current: expiring its jobs writes each of them over whatever the
  table holds under its id.\<close>

lemma expire_jobs_Cons:
  "snd (expire_jobs now (j # js) t) =
     snd (expire_jobs now js (if job_is_expired now j then snd (update_rotation_job (expired_job j) t) else t))"
  by (auto simp: job_transition_expired job_is_expired_def update_rotation_job_def not_less split: prod.splits)

lemma expire_jobs_frame:
  assumes "jobs_ok t"
  shows "jobs_ok (snd (expire_jobs now js t)) \<and>
    (i \<notin> job_id ` set js \<longrightarrow> job_at (snd (expire_jobs now js t)) i = job_at t i)"
  using assms
proof (induction js arbitrary: t)
  case (Cons j js)
  then show ?case
    unfolding expire_jobs_Cons by (auto simp: job_at_update expired_job_def)
qed simp

lemma expire_jobs_overwrites:
  assumes "jobs_ok t" "distinct (map job_id js)" "j \<in> set js" "job_is_expired now j" "job_at t (job_id j) \<noteq> None"
  shows "job_at (snd (expire_jobs now js t)) (job_id j) = Some (expired_job j)"
  using assms
proof (induction js arbitrary: t)
  case (Cons k js)
  let ?t = "snd (update_rotation_job (expired_job k) t)"
  have held: "job_at ?t (job_id j) \<noteq> None"
    using Cons.prems(1,5) by (auto simp: job_at_update expired_job_def)
  show ?case
  proof (cases "k = j")
    case True
    with Cons.prems have "job_id j \<notin> job_id ` set js" by simp
    with expire_jobs_frame [of ?t now js "job_id j"] True Cons.prems show ?thesis
      unfolding expire_jobs_Cons by (auto simp: job_at_update) (auto simp: expired_job_def)
  next
    case False
    with Cons.prems held Cons.IH [of ?t] Cons.IH [of t] show ?thesis unfolding expire_jobs_Cons by simp
  qed
qed simp

section \<open>Properties\<close>

text \<open>
  The expiry scan is exact. On a table whose rows agree with their jobs it succeeds, and it
  moves to \<open>Expired\<close> every job that is neither terminal nor before its expiry time and leaves every
  other job as it was.
\<close>

theorem expiry_scan_exact:
  assumes "jobs_ok t"
  shows "\<exists>n t'. run_rotation_expiry_scan e now t = (Ok n, t') \<and> jobs_ok t' \<and>
     (\<forall>i. job_at t' i = map_option (\<lambda>j. if job_is_expired now j then j\<lparr>job_state := JobExpired\<rparr> else j) (job_at t i))"
  using expiry_scan_jobs [OF assms, of e now] unfolding expired_job_def .

text \<open>
  Over any sequence of service calls and scans, one after the other, a job once stored stays
  stored with its keys, version and expiry time, its state moves only along valid transitions, and a
  terminal job never changes again.
\<close>

theorem job_lifecycle:
  assumes "jobs_step\<^sup>*\<^sup>* t t'" "jobs_ok t" "job_at t i = Some j"
  shows "\<exists>k. job_at t' i = Some k \<and> same_job j k \<and> job_can_transition_to\<^sup>*\<^sup>* (job_state j) (job_state k) \<and>
    (is_terminal (job_state j) \<longrightarrow> k = j)"
proof -
  obtain k where k: "job_at t' i = Some k" "job_follows j k" using jobs_run_follows [OF assms(1,2)] assms(3) by blast
  then show ?thesis using terminal_no_way_out [of "job_state j" "job_state k"]
    by (auto simp: job_follows_def same_job_def tranclp_into_rtranclp)
qed

definition sample_job :: "rotation_job_state \<Rightarrow> rotation_job" where
  "sample_job s = (rotation_job_new 0 ''job'' (Lid (fill 1)) (Lid (fill 2)) 2)\<lparr>job_state := s\<rparr>"

definition sample_jobs :: "rotation_job_state \<Rightarrow> rotation_table" where
  "sample_jobs s = [(''job'', row_of_job (sample_job s))]"

definition sample_job_env :: job_env where
  "sample_job_env = \<lparr>je_parse_error = [], je_display = (\<lambda>_. []), je_display_state = (\<lambda>_. [])\<rparr>"

lemma sample_jobs_at:
  "jobs_ok (sample_jobs s)" "job_at (sample_jobs s) ''job'' = Some (sample_job s)" "job_id (sample_job s) = ''job''"
  "job_state (sample_job s) = s" "job_expires_at (sample_job s) = 86400"
  by (simp_all add: sample_jobs_def sample_job_def jobs_ok_def job_at_def row_of_job_def rotation_job_new_def DEFAULT_EXPIRY_SECS_def)

theorem expiry_scan_exact_witness:
  "\<exists>n t'. run_rotation_expiry_scan [] 90000 (sample_jobs JobPending) = (Ok n, t') \<and> job_at t' ''job'' = Some (sample_job JobExpired)"
proof -
  obtain n t' where "run_rotation_expiry_scan [] 90000 (sample_jobs JobPending) = (Ok n, t')"
      "\<forall>i. job_at t' i = map_option (\<lambda>j. if job_is_expired 90000 j then j\<lparr>job_state := JobExpired\<rparr> else j) (job_at (sample_jobs JobPending) i)"
    using expiry_scan_exact [OF sample_jobs_at(1)] by blast
  moreover have "(sample_job JobPending)\<lparr>job_state := JobExpired\<rparr> = sample_job JobExpired" by (simp add: sample_job_def)
  ultimately show ?thesis by (simp add: sample_jobs_at job_is_expired_def is_terminal_def)
qed

theorem job_lifecycle_witness:
  "\<exists>k. job_at (snd (run_rotation_expiry_scan [] 90000 (sample_jobs JobCompleted))) ''job'' = Some k \<and> k = sample_job JobCompleted"
proof -
  have "jobs_step\<^sup>*\<^sup>* (sample_jobs JobCompleted) (snd (run_rotation_expiry_scan [] 90000 (sample_jobs JobCompleted)))"
    by (rule r_into_rtranclp) (rule jobs_step.scan)
  from job_lifecycle [OF this sample_jobs_at(1,2)] show ?thesis by (auto simp: sample_jobs_at is_terminal_def)
qed

text \<open>
  C37: The guarantee does not survive interleaving. A scan reads the acknowledged jobs, changes them
  and writes them back without comparing them with what is stored. Whatever calls are made after it
  read the table, when one of them completes a job the scan had read as overdue, the job is
  completed and stays completed until the scan's own write, which replaces it by the job as it was
  read, now expired and without its completion time.
\<close>

theorem completed_job_overwritten:
  assumes "jobs_ok t" and "list_rotation_jobs e (Some JobAcknowledged) t = Ok listed"
    and "job_at t i = Some j" and "job_state j = JobAcknowledged" and "job_expires_at j \<le> now"
    and "jobs_step\<^sup>*\<^sup>* t t0" and "complete_rotation_job env now' i t0 = (Ok k, t1)" and "jobs_step\<^sup>*\<^sup>* t1 t2"
  shows "job_at t2 i = Some k \<and> job_state k = JobCompleted \<and>
    job_at (snd (expire_jobs now listed t2)) i = Some (j\<lparr>job_state := JobExpired\<rparr>)"
proof -
  have t0: "jobs_ok t0" using jobs_run_follows [OF assms(6,1)] by blast
  have t1: "jobs_ok t1"
    using jobs_step_follows [OF jobs_step.complete t0, of env now' i] assms(7) by simp
  have k: "job_at t1 i = Some k" "job_state k = JobCompleted"
    using complete_rotation_job_Ok [OF t0 assms(7)] by simp_all
  then obtain k' where k': "job_at t2 i = Some k'" "job_follows k k'"
    using jobs_run_follows [OF assms(8) t1] by blast
  then have "k' = k"
    using k(2) terminal_no_way_out [of "job_state k" "job_state k'"] by (auto simp: job_follows_def is_terminal_def)
  moreover have "jobs_ok t2" using jobs_run_follows [OF assms(8) t1] by blast
  moreover obtain js where "list_rotation_jobs e (Some JobAcknowledged) t = Ok js" "distinct (map job_id js)"
    "\<And>j. j \<in> set js \<longleftrightarrow> job_at t (job_id j) = Some j \<and> job_state j = JobAcknowledged"
    by (rule list_rotation_jobs_state [OF assms(1), of e JobAcknowledged]) blast
  ultimately show ?thesis
    using k k' assms(2-5) job_at_id [OF assms(1,3)] expire_jobs_overwrites [of t2 js j now]
    by (simp add: job_is_expired_def is_terminal_def expired_job_def)
qed

theorem completed_job_overwritten_witness:
  "\<exists>k t1. complete_rotation_job sample_job_env 90000 ''job'' (sample_jobs JobAcknowledged) = (Ok k, t1) \<and>
     job_at t1 ''job'' = Some k \<and> job_state k = JobCompleted \<and>
     job_at (snd (expire_jobs 90000 [sample_job JobAcknowledged] t1)) ''job'' = Some (sample_job JobExpired)"
proof -
  have listed: "list_rotation_jobs [] (Some JobAcknowledged) (sample_jobs JobAcknowledged) = Ok [sample_job JobAcknowledged]"
    by (simp add: list_rotation_jobs_def sample_jobs_def row_of_job_def sample_jobs_at from_str_def)
  obtain k t1 where c: "complete_rotation_job sample_job_env 90000 ''job'' (sample_jobs JobAcknowledged) = (Ok k, t1)"
    by (auto simp: complete_rotation_job_def change_rotation_job_def get_rotation_job_at sample_jobs_at
        job_transition_to_def job_can_transition_to_def update_rotation_job_def)
  have "(sample_job JobAcknowledged)\<lparr>job_state := JobExpired\<rparr> = sample_job JobExpired" by (simp add: sample_job_def)
  with completed_job_overwritten [OF sample_jobs_at(1) listed sample_jobs_at(2), of 90000, OF _ _ rtranclp.rtrancl_refl c rtranclp.rtrancl_refl] c
  show ?thesis by (auto simp: sample_jobs_at)
qed

end
