(* ===== verification/Store.thy ===== *)
theory Store
  imports Store_Keys
begin

text \<open>
  The SQLite store as a whole: every operation that writes, as one step of a transition system, the
  invariants of its tables, and what any interleaving of operations keeps of a key.
\<close>

section \<open>Steps\<close>

text \<open>
  One call of any writing operation, successful or not. A closure is one that \<open>verify_closure\<close>
  produced, and the operation id of a new destruction claim is a fresh UUID, which is not nil.
\<close>

inductive store_step :: "store_env \<Rightarrow> sqlite_db \<Rightarrow> sqlite_db \<Rightarrow> bool" for env where
  create: "store_step env db (snd (create_key_store show_error r db))"
| update: "store_step env db (snd (update_key_store show_error r db))"
| reserve: "store_step env db (snd (reserve_a2 env q db))"
| dispatch: "store_step env db (snd (claim_a2_dispatch env operation owner db))"
| stage: "store_step env db (snd (stage_a2 env operation owner expected bytes db))"
| resolve: "verify_closure (core env) verifier q envelope c = Ok v \<Longrightarrow>
     store_step env db (snd (resolve_a2 env operation owner expected v db))"
| publish: "store_step env db (snd (publish_a2 env operation owner expected db))"
| withdraw: "store_step env db (snd (withdraw_a2 env operation db))"
| migration_reserve: "store_step env db (snd (migration_reserve env mq db))"
| migration_claim: "store_step env db (snd (migration_claim env operation uid epoch db))"
| migration_dispatch: "store_step env db (snd (migration_dispatch_tx env operation w safe db))"
| migration_stage: "store_step env db (snd (migration_stage env operation w envelopes db))"
| migration_commit: "store_step env db (snd (migration_commit env operation w db))"
| schedule: "store_step env db (snd (destruction_schedule env now l expected at allow db))"
| cancel: "store_step env db (snd (destruction_cancel now l expected db))"
| claim: "\<not> is_nil fresh \<Longrightarrow> store_step env db (snd (destruction_claim_tx env fresh l expected now db))"
| complete: "store_step env db (snd (destruction_complete now dc db))"

inductive_cases store_stepE: "store_step env db db'"

definition store_run :: "store_env \<Rightarrow> sqlite_db \<Rightarrow> sqlite_db \<Rightarrow> bool" where
  "store_run env = (store_step env)\<^sup>*\<^sup>*"

lemma store_run_induct [consumes 1, case_names refl step]:
  assumes "store_run env db db'" and "P db"
    and "\<And>x y. store_run env db x \<Longrightarrow> store_step env x y \<Longrightarrow> P x \<Longrightarrow> P y"
  shows "P db'"
  using assms unfolding store_run_def by (induction rule: rtranclp_induct) auto

lemma creation_tx_cases:
  obtains (failed) "snd (creation_tx body db) = db"
  | (committed) x db' where "body db = Ok (x, db')" and "creation_tx body db = (Ok x, db')"
  by (cases "body db") (auto simp: creation_tx_def)

section \<open>The key table\<close>

definition stored :: "sqlite_db \<Rightarrow> lid \<Rightarrow> key_record option" where
  "stored db l = (case map_of (db_keys db) l of
     Some row \<Rightarrow> (case kt_json row of Encodes r \<Rightarrow> Some r | Malformed \<Rightarrow> None) | None \<Rightarrow> None)"

definition row_ok :: "lid \<Rightarrow> key_row \<Rightarrow> bool" where
  "row_ok l row \<longleftrightarrow> (\<exists>r. kt_json row = Encodes r \<and> kr_lid r = l \<and> kt_occ row = uint (occ_version r) \<and>
     occ_version r \<le> i64_max \<and> is_ok (record_value r))"

definition keys_ok :: "sqlite_db \<Rightarrow> bool" where
  "keys_ok db \<longleftrightarrow> distinct (map fst (db_keys db)) \<and> (\<forall>(l, row) \<in> set (db_keys db). row_ok l row)"

lemma keys_ok_empty [simp]: "keys_ok empty_db"
  by (simp add: keys_ok_def empty_db_def)

lemma keys_ok_row: "keys_ok db \<Longrightarrow> map_of (db_keys db) l = Some row \<Longrightarrow> row_ok l row"
  by (auto simp: keys_ok_def dest: map_of_SomeD)

lemma decode_keys_ok:
  assumes "\<And>l row. (l, row) \<in> set rows \<Longrightarrow> row_ok l row"
  shows "\<exists>rs. decode_keys e rows = Ok rs \<and> map fst rows = map kr_lid rs \<and> map (\<lambda>p. kt_json (snd p)) rows = map Encodes rs"
  using assms
proof (induction rows)
  case (Cons p rows)
  obtain l row where p: "p = (l, row)" by (cases p)
  obtain r where r: "kt_json row = Encodes r" "kr_lid r = l" using Cons.prems [of l row] p by (auto simp: row_ok_def)
  obtain rs where "decode_keys e rows = Ok rs" "map fst rows = map kr_lid rs" "map (\<lambda>p. kt_json (snd p)) rows = map Encodes rs"
    using Cons by force
  with r show ?case by (intro exI [of _ "r # rs"]) (simp add: p from_str_def)
qed simp

lemma key_lookup_stored: "keys_ok db \<Longrightarrow> key_lookup db l = Ok (stored db l)"
proof (cases "map_of (db_keys db) l")
  case (Some row)
  assume "keys_ok db"
  then obtain r where "kt_json row = Encodes r" "kr_lid r = l" "kt_occ row = uint (occ_version r)"
    using keys_ok_row [OF _ Some] by (auto simp: row_ok_def)
  then have "and_then (from_str e (kt_json row)) f = f r" for e and f :: "key_record \<Rightarrow> (key_record option, keyrack_error) result"
    by (simp add: from_str_def)
  with Some \<open>kt_json row = Encodes r\<close> \<open>kr_lid r = l\<close> \<open>kt_occ row = uint (occ_version r)\<close> show ?thesis
    by (simp add: key_lookup_def stored_def)
qed (simp add: key_lookup_def stored_def)

lemma required_key_stored: "keys_ok db \<Longrightarrow> required_key db l = ok_or (KeyNotFound l) (stored db l)"
  by (simp add: required_key_def key_lookup_stored)

lemma stored_lid: "keys_ok db \<Longrightarrow> stored db l = Some r \<Longrightarrow>
    kr_lid r = l \<and> occ_version r \<le> i64_max \<and> is_ok (record_value r)"
  by (auto simp: stored_def row_ok_def split: option.splits json.splits dest!: keys_ok_row)

lemma stored_None: "keys_ok db \<Longrightarrow> stored db l = None \<longleftrightarrow> l \<notin> fst ` set (db_keys db)"
proof (cases "map_of (db_keys db) l")
  case (Some row)
  assume "keys_ok db"
  then have "stored db l \<noteq> None"
    using keys_ok_row [OF _ Some] Some by (auto simp: row_ok_def stored_def)
  then show ?thesis
    using map_of_SomeD [OF Some] by force
next
  case None
  then have "stored db l = None" by (simp add: stored_def)
  with None show ?thesis by (simp add: map_of_eq_None_iff)
qed

text \<open>Writing one row, and the record it holds afterwards.\<close>

definition put_key :: "key_record \<Rightarrow> sqlite_db \<Rightarrow> sqlite_db" where
  "put_key r db = db\<lparr>db_keys := AList.update (kr_lid r) \<lparr>kt_json = Encodes r, kt_occ = uint (occ_version r)\<rparr> (db_keys db)\<rparr>"

definition storable :: "key_record \<Rightarrow> bool" where
  "storable r \<longleftrightarrow> occ_version r \<le> i64_max \<and> is_ok (record_value r)"

lemma stored_put_key: "stored (put_key r db) l = (if l = kr_lid r then Some r else stored db l)"
  by (simp add: stored_def put_key_def update_conv')

lemma keys_ok_put_key: "keys_ok db \<Longrightarrow> storable r \<Longrightarrow> keys_ok (put_key r db)"
proof -
  assume "keys_ok db" "storable r"
  then have "row_ok (kr_lid r) \<lparr>kt_json = Encodes r, kt_occ = uint (occ_version r)\<rparr>"
    "distinct (map fst (AList.update (kr_lid r) \<lparr>kt_json = Encodes r, kt_occ = uint (occ_version r)\<rparr> (db_keys db)))"
    by (auto simp: row_ok_def storable_def keys_ok_def distinct_update)
  moreover have "set (AList.update k v al) \<subseteq> insert (k, v) (set al)" for k v and al :: "('k \<times> 'v) list"
    by (induction al) auto
  ultimately show ?thesis
    using \<open>keys_ok db\<close> unfolding keys_ok_def put_key_def by fastforce
qed

lemma keys_ok_frame: "db_keys db' = db_keys db \<Longrightarrow> keys_ok db' = keys_ok db"
  by (simp add: keys_ok_def)

lemma stored_frame: "db_keys db' = db_keys db \<Longrightarrow> stored db' = stored db"
  by (simp add: stored_def fun_eq_iff)

lemma map_update_conv:
  assumes "distinct (map fst al)" and "k \<in> fst ` set al"
  shows "map (\<lambda>(k', x). (k', if k' = k then v else x)) al = AList.update k v al"
  using assms
proof (induction al)
  case (Cons p al)
  show ?case
  proof (cases "fst p = k")
    case True
    then have "map (\<lambda>(k', x). (k', if k' = k then v else x)) al = al"
      using Cons.prems by (intro map_idI) (force simp: image_iff)
    with True show ?thesis by (cases p) simp
  next
    case False
    with Cons show ?thesis by (cases p) auto
  qed
qed simp

section \<open>Fences\<close>

definition fenced :: "sqlite_db \<Rightarrow> lid \<Rightarrow> bool" where
  "fenced db l \<longleftrightarrow> l \<in> fst ` set (destruction_journals db)"

text \<open>
  A claimed key is held at its claimed snapshot until it is completed, and destroyed afterwards
  with the same versions.
\<close>

definition fence_ok :: "sqlite_db \<Rightarrow> lid \<Rightarrow> destruction_row \<Rightarrow> bool" where
  "fence_ok db l d \<longleftrightarrow> (\<exists>s r. dt_json d = Encodes s \<and> kr_lid s = l \<and> kr_state s = PendingDeletion \<and>
     \<not> is_nil (dt_operation d) \<and> stored db l = Some r \<and>
     (if dt_completed d then kr_state r = Destroyed \<and> key_versions r = key_versions s else r = s))"

definition fences_ok :: "sqlite_db \<Rightarrow> bool" where
  "fences_ok db \<longleftrightarrow> distinct (map fst (destruction_journals db)) \<and>
     (\<forall>(l, d) \<in> set (destruction_journals db). fence_ok db l d)"

lemma fences_ok_empty [simp]: "fences_ok empty_db"
  by (simp add: fences_ok_def empty_db_def)

lemma fenced_state: "fences_ok db \<Longrightarrow> fenced db l \<Longrightarrow> \<exists>r. stored db l = Some r \<and> kr_state r \<in> {PendingDeletion, Destroyed}"
  by (force simp: fences_ok_def fenced_def fence_ok_def split: if_splits)

lemma destruction_guard_Ok [simp]: "destruction_guard db l = Ok () \<longleftrightarrow> \<not> fenced db l"
  by (simp add: destruction_guard_def fenced_def)

lemma guard_all_Ok [simp]: "guard_all g ls = Ok () \<longleftrightarrow> (\<forall>l \<in> set ls. g l = Ok ())"
  by (induction ls) auto

lemma set_wrapping_parents:
  "set (wrapping_parents r) = {vk_lid (pw_parent m) | v m. v \<in> set (key_versions r) \<and> material v = ParentWrapped m}"
  by (force simp: wrapping_parents_def split: key_material.splits)

lemma destruction_guard_write_Ok [simp]:
  "destruction_guard_write db r = Ok () \<longleftrightarrow>
     \<not> fenced db (kr_lid r) \<and> (\<forall>v \<in> set (key_versions r). \<forall>m. material v = ParentWrapped m \<longrightarrow> \<not> fenced db (vk_lid (pw_parent m)))"
  by (auto simp: destruction_guard_write_def set_wrapping_parents)

section \<open>What one write may change\<close>

text \<open>
  A write of record \<open>r\<close>: over an existing record it advances the counter by one and keeps
  compromise history, and each wrapped version has an unfenced parent or was a version of the
  existing, not destroyed, record.
\<close>

definition key_change :: "sqlite_db \<Rightarrow> key_record \<Rightarrow> bool" where
  "key_change db r \<longleftrightarrow>
     (\<forall>p. stored db (kr_lid r) = Some p \<longrightarrow> unat (occ_version r) = unat (occ_version p) + 1 \<and>
        (has_compromise_history p \<longrightarrow> has_compromise_history r)) \<and>
     (\<forall>v \<in> set (key_versions r). \<forall>m. material v = ParentWrapped m \<longrightarrow>
        \<not> fenced db (vk_lid (pw_parent m)) \<or>
        (\<exists>p w. stored db (kr_lid r) = Some p \<and> kr_state p \<noteq> Destroyed \<and> w \<in> set (key_versions p) \<and>
           version_number w = version_number v \<and> material w = material v))"

text \<open>Operations other than a claim and its completion.\<close>

definition quiet :: "sqlite_db \<Rightarrow> sqlite_db \<Rightarrow> bool" where
  "quiet db db' \<longleftrightarrow> destruction_journals db' = destruction_journals db \<and> destroyed_parents db' = destroyed_parents db \<and>
     (db_keys db' = db_keys db \<or>
      (\<exists>r. db_keys db' = db_keys (put_key r db) \<and> storable r \<and> key_change db r \<and> \<not> fenced db (kr_lid r)))"

lemma quiet_refl [simp]: "quiet db db"
  by (simp add: quiet_def)

lemma quiet_tx:
  assumes "\<And>x db'. body db = Ok (x, db') \<Longrightarrow> quiet db db'"
  shows "quiet db (snd (creation_tx body db))"
  using assms by (cases rule: creation_tx_cases [of body db]) auto

text \<open>Operations that touch only journals, envelopes and schedules.\<close>

lemma quiet_frame:
  "destruction_journals db' = destruction_journals db \<Longrightarrow> destroyed_parents db' = destroyed_parents db \<Longrightarrow>
     db_keys db' = db_keys db \<Longrightarrow> quiet db db'"
  by (simp add: quiet_def)

lemma put_key_frame [simp]:
  "destruction_journals (put_key r db) = destruction_journals db" "destroyed_parents (put_key r db) = destroyed_parents db"
  by (simp_all add: put_key_def)

lemma quiet_put:
  "destruction_journals db' = destruction_journals db \<Longrightarrow> destroyed_parents db' = destroyed_parents db \<Longrightarrow>
     db_keys db' = db_keys (put_key r db) \<Longrightarrow> storable r \<Longrightarrow> key_change db r \<Longrightarrow> \<not> fenced db (kr_lid r) \<Longrightarrow> quiet db db'"
  by (auto simp: quiet_def)

lemma save_journal_frame:
  "save_journal env j db = Ok (u, db') \<Longrightarrow>
     \<exists>cs. db' = db\<lparr>creation_journals := cs\<rparr>"
  by (auto simp: save_journal_def split: option.splits)

lemma save_migration_frame:
  "save_migration env j db = Ok (u, db') \<Longrightarrow> \<exists>ms. db' = db\<lparr>migration_journals := ms\<rparr>"
  by (auto simp: save_migration_def)

lemma insert_envelopes_frame:
  "insert_envelopes env operation vs es db = Ok (u, db') \<Longrightarrow> \<exists>ms. db' = db\<lparr>migration_envelopes := ms\<rparr>"
proof (induction env operation vs es db rule: insert_envelopes.induct)
  case (1 env operation v vs e es db)
  then show ?case by (auto split: if_splits)
qed (auto intro!: exI [of _ "migration_envelopes db'"])

lemma quiet_reserve: "quiet db (snd (reserve_a2 env q db))"
proof -
  have "quiet db (snd (creation_tx (reserve_body env q) db))"
    by (rule quiet_tx) (auto simp: reserve_body_def Let_def quiet_def split: option.splits if_splits)
  then show ?thesis by (simp add: reserve_a2_def split: result.splits)
qed

lemma quiet_dispatch: "quiet db (snd (claim_a2_dispatch env operation owner db))"
  unfolding claim_a2_dispatch_def
  by (rule quiet_tx) (auto simp: claim_a2_body_def quiet_def split: if_splits dest!: save_journal_frame)

lemma quiet_stage: "quiet db (snd (stage_a2 env operation owner expected bytes db))"
  unfolding stage_a2_def
  by (rule quiet_tx) (auto simp: stage_a2_body_def quiet_def split: if_splits dest!: save_journal_frame)

lemma quiet_resolve: "quiet db (snd (resolve_a2 env operation owner expected v db))"
  unfolding resolve_a2_def
  by (rule quiet_tx) (auto simp: resolve_a2_body_def quiet_def dest!: save_journal_frame)

lemma quiet_withdraw: "quiet db (snd (withdraw_a2 env operation db))"
  unfolding withdraw_a2_def
  by (rule quiet_tx) (auto simp: withdraw_a2_body_def quiet_def split: option.splits if_splits)

lemma quiet_migration_reserve: "quiet db (snd (migration_reserve env q db))"
proof -
  have "quiet db (snd (creation_tx (migration_reserve_body env q) db))"
    by (rule quiet_tx) (auto simp: migration_reserve_body_def Let_def quiet_def split: option.splits if_splits)
  then show ?thesis by (simp add: migration_reserve_def split: result.splits)
qed

lemma quiet_migration_claim: "quiet db (snd (migration_claim env operation owner epoch db))"
  unfolding migration_claim_def
  by (rule quiet_tx) (auto simp: migration_claim_body_def quiet_def dest!: save_migration_frame)

lemma quiet_migration_dispatch: "quiet db (snd (migration_dispatch_tx env operation w safe db))"
  unfolding migration_dispatch_tx_def
  by (rule quiet_tx) (auto simp: migration_dispatch_body_def quiet_def dest!: save_migration_frame)

lemma quiet_migration_stage: "quiet db (snd (migration_stage env operation w envelopes db))"
  unfolding migration_stage_def
  by (rule quiet_tx) (auto simp: migration_stage_body_def quiet_def Let_def split: if_splits
      dest!: save_migration_frame insert_envelopes_frame)

text \<open>Operations that write a key row.\<close>

lemma occ_bound: "occ_version r \<le> i64_max \<Longrightarrow> unat (occ_version r + 1) = unat (occ_version r) + 1"
  by (simp add: word_le_nat_alt i64_max_unat unat_word_ariths)

lemma update_key_row_1:
  "update_key_row l row expected db = (rows, db') \<Longrightarrow> rows \<noteq> 0 \<Longrightarrow>
     (\<exists>old. map_of (db_keys db) l = Some old \<and> kt_occ old = expected) \<and>
     db' = db\<lparr>db_keys := AList.update l row (db_keys db)\<rparr>"
  by (auto simp: update_key_row_def split: option.splits if_splits)

lemma has_compromise_persisted [simp]: "has_compromise_history (persisted r) = has_compromise_history r"
  by (simp add: persisted_def has_compromise_history_def)

lemma persisted_simps [simp]:
  "kr_lid (persisted r) = kr_lid r" "occ_version (persisted r) = occ_version r" "kr_state (persisted r) = kr_state r"
  "key_versions (persisted r) = key_versions r" "parent_lid (persisted r) = parent_lid r"
  by (simp_all add: persisted_def)

lemma i64_try_from_Ok [simp]: "i64_try_from e n = Ok i \<longleftrightarrow> n \<le> i64_max \<and> i = uint n"
  by (auto simp: i64_try_from_def)

lemma record_to_string_Ok [simp]: "record_to_string e r = Ok t \<longleftrightarrow> is_ok (record_value r) \<and> t = Encodes r"
  by (auto simp: record_to_string_def)

lemma quiet_create:
  assumes "keys_ok db"
  shows "quiet db (snd (create_key_store show_error r db))"
proof -
  have "quiet db (snd (creation_tx (create_key_body r \<lparr>kt_json = Encodes (persisted r), kt_occ = uint (occ_version r)\<rparr>) db))"
    if "storable (persisted r)"
  proof (rule quiet_tx)
    fix x db'
    assume "create_key_body r \<lparr>kt_json = Encodes (persisted r), kt_occ = uint (occ_version r)\<rparr> db = Ok (x, db')"
    then have g: "destruction_guard_write db r = Ok ()" "stored db (kr_lid r) = None"
      and db': "db' = put_key (persisted r) db"
      using stored_None [OF assms] by (auto simp: create_key_body_def put_key_def split: if_splits)
    then have "key_change db (persisted r)" "\<not> fenced db (kr_lid (persisted r))"
      by (auto simp: key_change_def)
    with that db' show "quiet db db'" by (intro quiet_put [of _ _ "persisted r"]) auto
  qed
  then show ?thesis
    by (auto simp: create_key_store_def storable_def is_ok_iff split: result.splits)
qed

lemma row_update_Ok:
  "(case update_key_row l row e db1 of (rows, db2) \<Rightarrow>
    if rows = 0 then (case map_of (db_keys db2) l of Some a \<Rightarrow> Err (f a) | None \<Rightarrow> Err g) else Ok ((), db2)) = Ok (x, db') \<longleftrightarrow>
   (\<exists>rows. update_key_row l row e db1 = (rows, db') \<and> rows \<noteq> 0)"
  by (cases "update_key_row l row e db1") (auto split: option.splits)

lemma update_key_body_Ok:
  assumes "keys_ok db" and "occ_version r \<le> i64_max" and "occ_version r \<noteq> 0"
    and "update_key_body r \<lparr>kt_json = Encodes (persisted r), kt_occ = uint (occ_version r)\<rparr> db = Ok (x, db')"
  obtains p where "stored db (kr_lid r) = Some p" and "unat (occ_version r) = unat (occ_version p) + 1"
    and "has_compromise_history p \<longrightarrow> has_compromise_history r" and "destruction_guard_write db r = Ok ()"
    and "migration_guard_update db p r = Ok ()" and "creation_guard_update db p r = Ok ()" and "kr_state r \<noteq> Destroyed"
    and "destruction_journals db' = destruction_journals db" and "destroyed_parents db' = destroyed_parents db"
    and "db_keys db' = db_keys (put_key (persisted r) db)"
proof -
  obtain p u db1 rows where p: "stored db (kr_lid r) = Some p" and occ: "occ_version p = occ_version r - 1"
    and comp: "has_compromise_history p \<longrightarrow> has_compromise_history r"
    and guards: "migration_guard_update db p r = Ok ()" "creation_guard_update db p r = Ok ()"
    and g: "destruction_guard_update r db = Ok (u, db1)"
    and row: "update_key_row (kr_lid r) \<lparr>kt_json = Encodes (persisted r), kt_occ = uint (occ_version r)\<rparr>
        (uint (occ_version r) - 1) db1 = (rows, db')" "rows \<noteq> 0"
    using assms(4)
    by (auto simp: update_key_body_def required_key_stored [OF assms(1)] row_update_Ok split: if_splits)
  have db1: "destruction_guard_write db r = Ok ()" "kr_state r \<noteq> Destroyed" "db_keys db1 = db_keys db"
    "destruction_journals db1 = destruction_journals db" "destroyed_parents db1 = destroyed_parents db"
    using g by (auto simp: destruction_guard_update_def split: if_splits)
  have "unat (occ_version r) = unat (occ_version p) + 1"
    using occ assms(3) by (simp add: unat_sub_if' word_le_nat_alt unat_eq_zero [symmetric] Suc_leI)
  moreover have "db' = db1\<lparr>db_keys := AList.update (kr_lid r)
      \<lparr>kt_json = Encodes (persisted r), kt_occ = uint (occ_version r)\<rparr> (db_keys db1)\<rparr>"
    using update_key_row_1 [OF row] by blast
  ultimately show thesis
    using that p comp guards db1 by (simp add: put_key_def)
qed

lemma quiet_update:
  assumes "keys_ok db"
  shows "quiet db (snd (update_key_store show_error r db))"
proof -
  let ?row = "\<lparr>kt_json = Encodes (persisted r), kt_occ = uint (occ_version r)\<rparr>"
  have "quiet db (snd (creation_tx (update_key_body r ?row) db))"
    if "storable (persisted r)" and nonzero: "occ_version r \<noteq> 0"
  proof (rule quiet_tx)
    fix x db'
    assume body: "update_key_body r ?row db = Ok (x, db')"
    have bound: "occ_version r \<le> i64_max" using that(1) by (simp add: storable_def)
    show "quiet db db'"
    proof (rule update_key_body_Ok [OF assms bound nonzero body])
      fix p
      assume "stored db (kr_lid r) = Some p" and "unat (occ_version r) = unat (occ_version p) + 1"
        and "has_compromise_history p \<longrightarrow> has_compromise_history r" and "destruction_guard_write db r = Ok ()"
        and frame: "destruction_journals db' = destruction_journals db" "destroyed_parents db' = destroyed_parents db"
          "db_keys db' = db_keys (put_key (persisted r) db)"
      then have "key_change db (persisted r)" "\<not> fenced db (kr_lid (persisted r))"
        by (auto simp: key_change_def)
      with frame that show "quiet db db'" by (intro quiet_put [of _ _ "persisted r"]) auto
    qed
  qed
  then show ?thesis
    by (auto simp: update_key_store_def storable_def is_ok_iff split: result.splits)
qed

lemma save_key_Ok:
  assumes "save_key r expected db = Ok (u, db')"
  shows "storable r \<and> db' = put_key r db"
proof -
  obtain rows where "storable r"
    and row: "update_key_row (kr_lid r) \<lparr>kt_json = Encodes r, kt_occ = uint (occ_version r)\<rparr> (uint expected) db = (rows, db')"
    "rows = 1"
    using assms by (auto simp: save_key_def storable_def Let_def split: prod.splits if_splits)
  then show ?thesis
    using update_key_row_1 [OF row(1)] by (simp add: put_key_def)
qed

lemma transition_to_Ok:
  "fst (transition_to now s r) = Ok x \<Longrightarrow>
     snd (transition_to now s r) = r\<lparr>was_compromised := has_compromise_history r \<or> s = Compromised, kr_state := s,
       occ_version := occ_version r + 1, updated_at := now\<rparr> \<and> can_transition_to (kr_state r) s"
  by (auto simp: transition_to_def Let_def split: if_splits)

lemma checked_record_Ok:
  "keys_ok db \<Longrightarrow> checked_record db l expected = Ok r \<Longrightarrow>
     stored db l = Some r \<and> kr_lid r = l \<and> occ_version r = expected \<and> unat (expected + 1) = unat expected + 1"
  using stored_lid [of db l r] occ_bound [of r]
  by (auto simp: checked_record_def required_key_stored split: if_splits)

lemma quiet_same_versions:
  assumes "stored db l = Some p" and "kr_lid p = l" and "unat (occ_version p + 1) = unat (occ_version p) + 1"
    and "kr_state p \<noteq> Destroyed" and "\<not> fenced db l"
    and "kr_lid r = l" "occ_version r = occ_version p + 1" "key_versions r = key_versions p" "storable r"
    "has_compromise_history p \<Longrightarrow> has_compromise_history r"
    and "destruction_journals db' = destruction_journals db" "destroyed_parents db' = destroyed_parents db"
    "db_keys db' = db_keys (put_key r db)"
  shows "quiet db db'"
proof (rule quiet_put)
  show "key_change db r"
    using assms by (auto simp: key_change_def)
qed (use assms in auto)

lemma quiet_schedule:
  assumes "keys_ok db"
  shows "quiet db (snd (destruction_schedule env now l expected at allow db))"
  unfolding destruction_schedule_def
proof (rule quiet_tx)
  fix x db'
  assume "destruction_schedule_body env now l expected at allow db = Ok (x, db')"
  then obtain p y u db1 where g: "\<not> fenced db l" and p: "checked_record db l expected = Ok p"
    and t: "fst (transition_to now PendingDeletion p) = Ok y"
    and s: "save_key ((snd (transition_to now PendingDeletion p))\<lparr>scheduled_deletion_at := Some at\<rparr>) expected db = Ok (u, db1)"
    and db': "destruction_journals db' = destruction_journals db1" "destroyed_parents db' = destroyed_parents db1"
      "db_keys db' = db_keys db1"
    by (auto simp: destruction_schedule_body_def Let_def)
  note tr = transition_to_Ok [OF t] and pr = checked_record_Ok [OF assms p]
  show "quiet db db'"
    by (rule quiet_same_versions [of _ l p "(snd (transition_to now PendingDeletion p))\<lparr>scheduled_deletion_at := Some at\<rparr>"])
       (use g tr pr save_key_Ok [OF s] db' in \<open>auto simp: has_compromise_history_def\<close>)
qed

lemma quiet_cancel:
  assumes "keys_ok db"
  shows "quiet db (snd (destruction_cancel now l expected db))"
  unfolding destruction_cancel_def
proof (rule quiet_tx)
  fix x db'
  assume "destruction_cancel_body now l expected db = Ok (x, db')"
  then obtain p y u db1 where g: "\<not> fenced db l" and p: "checked_record db l expected = Ok p"
    and t: "fst (transition_to now Disabled p) = Ok y"
    and s: "save_key ((snd (transition_to now Disabled p))\<lparr>scheduled_deletion_at := None\<rparr>) expected db = Ok (u, db1)"
    and db': "destruction_journals db' = destruction_journals db1" "destroyed_parents db' = destroyed_parents db1"
      "db_keys db' = db_keys db1"
    by (auto simp: destruction_cancel_body_def Let_def split: if_splits)
  note tr = transition_to_Ok [OF t] and pr = checked_record_Ok [OF assms p]
  show "quiet db db'"
    by (rule quiet_same_versions [of _ l p "(snd (transition_to now Disabled p))\<lparr>scheduled_deletion_at := None\<rparr>"])
       (use g tr pr save_key_Ok [OF s] db' in \<open>auto simp: has_compromise_history_def\<close>)
qed

text \<open>A publication: its parent is enabled, so it is not fenced; the other versions were there before.\<close>

lemma validate_records_facts:
  assumes "validate_records env q current parent = Ok ()"
  shows "\<exists>m. request_material q = Ok m \<and> kr_lid parent = vk_lid (pw_parent m) \<and> kr_state parent = Enabled"
    and "validate_child q current = Ok ()"
proof -
  show "\<exists>m. request_material q = Ok m \<and> kr_lid parent = vk_lid (pw_parent m) \<and> kr_state parent = Enabled"
    using assms by (auto simp: validate_records_def parent_eligible_def split: if_splits)
  obtain m :: parent_wrapped_material and pv :: key_version_record where "(case material pv of
         ProviderResident h (Some provider) \<Rightarrow>
           if provider \<noteq> pw_provider_ref m \<or> handle_spec h \<noteq> cq_parent_spec q
           then Err (invalid ''parent binding mismatch'')
           else validate_child q current
       | _ \<Rightarrow> Err (invalid ''requires explicitly bound resident parent'')) = Ok ()"
    using assms by (auto simp: validate_records_def split: if_splits)
  then show "validate_child q current = Ok ()"
    by (cases "material pv") (auto split: option.splits if_splits)
qed

lemma validate_child_state:
  "validate_child q (Some cur) = Ok () \<Longrightarrow> kr_state cur = Enabled \<and> \<not> has_compromise_history cur"
  by (auto simp: validate_child_def split: option.splits if_splits)

lemma request_material_primary:
  "request_material q = Ok m \<longleftrightarrow> (\<exists>v. primary_version (cq_record q) = Some v \<and> material v = ParentWrapped m)"
proof (cases "primary_version (cq_record q)")
  case (Some v)
  then show ?thesis by (cases "material v") (auto simp: request_material_def)
qed (simp add: request_material_def)

lemma validate_child_new:
  assumes "validate_child q None = Ok ()" and "request_material q = Ok m"
  shows "\<exists>v. key_versions (cq_record q) = [v] \<and> material v = ParentWrapped m"
proof -
  have "length (key_versions (cq_record q)) = 1"
    using assms(1) by (auto simp: validate_child_def split: option.splits if_splits)
  then obtain v where v: "key_versions (cq_record q) = [v]" by (auto simp: length_Suc_conv)
  with assms(2) show ?thesis by (auto simp: request_material_primary primary_version_def split: if_splits)
qed

lemma published_change:
  assumes ok: "keys_ok db" "fences_ok db" and valid: "validate_records env q (stored db (kr_lid (cq_record q))) parent = Ok ()"
    and parent: "stored db (kr_lid parent) = Some parent"
  shows "key_change db (cq_record q)" and "\<not> fenced db (kr_lid (cq_record q))"
proof -
  let ?r = "cq_record q"
  obtain m where m: "request_material q = Ok m" "kr_lid parent = vk_lid (pw_parent m)" "kr_state parent = Enabled"
    and child: "validate_child q (stored db (kr_lid ?r)) = Ok ()"
    using validate_records_facts [OF valid] by blast
  have enabled: "\<not> fenced db l" if "stored db l = Some x" "kr_state x = Enabled" for l x
    using fenced_state [OF ok(2), of l] that by auto
  then have up: "\<not> fenced db (vk_lid (pw_parent m))" using parent m by auto
  have "key_change db ?r \<and> \<not> fenced db (kr_lid ?r)"
  proof (cases "stored db (kr_lid ?r)")
    case None
    then obtain v where "key_versions ?r = [v]" "material v = ParentWrapped m"
      using validate_child_new child m(1) by fastforce
    with None up show ?thesis
      using fenced_state [OF ok(2), of "kr_lid ?r"] by (auto simp: key_change_def)
  next
    case (Some cur)
    then have c: "validate_child q (Some cur) = Ok ()" using child by simp
    obtain v where v: "primary_version ?r = Some v"
      "key_versions ?r = map (\<lambda>x. x\<lparr>is_primary := False\<rparr>) (key_versions cur) @ [v]"
      "unat (occ_version ?r) = unat (occ_version cur) + 1"
      using validate_child_history [OF c] by blast
    then have "material v = ParentWrapped m" using m(1) by (auto simp: request_material_primary)
    with Some v up validate_child_state [OF c] enabled [OF Some] show ?thesis
      by (auto simp: key_change_def)
  qed
  then show "key_change db ?r" and "\<not> fenced db (kr_lid ?r)" by auto
qed

lemma write_published_Ok:
  assumes "keys_ok db" and "write_published env (stored db (kr_lid r)) r db = Ok (u, db')"
  shows "storable r \<and> db' = put_key r db"
proof (cases "stored db (kr_lid r)")
  case None
  with assms show ?thesis
    by (auto simp: write_published_def storable_def put_key_def Let_def split: if_splits)
next
  case (Some cur)
  then have "kr_lid r \<in> fst ` set (db_keys db)" using stored_None [OF assms(1), of "kr_lid r"] by auto
  then show ?thesis
    using assms Some by (auto simp: write_published_def storable_def put_key_def Let_def keys_ok_def map_update_conv)
qed

lemma quiet_publish:
  assumes "keys_ok db" and "fences_ok db"
  shows "quiet db (snd (publish_a2 env operation owner expected db))"
  unfolding publish_a2_def
proof (rule quiet_tx)
  fix x db'
  assume body: "publish_a2_body env operation owner expected db = Ok (x, db')"
  show "quiet db db'"
  proof (cases "db' = db")
    case False
    with body obtain j0 and m :: parent_wrapped_material and parent r j u db1 v where
      "stored db (vk_lid (pw_parent m)) = Some parent"
      and pub: "publication (core env) owner expected (stored db (kr_lid (cq_record (cj_request j0)))) parent j0 = Ok (r, j)"
      and w: "write_published env (stored db (kr_lid (cq_record (cj_request j0)))) r db = Ok (u, db1)"
      and s: "save_journal (core env) j db1 = Ok (v, db')"
      by (auto simp: publish_a2_body_def key_lookup_stored [OF assms(1)] required_key_stored [OF assms(1)]
          split: option.splits)
    moreover from pub have r: "r = cq_record (cj_request j0)"
      and "validate_records (core env) (cj_request j0) (stored db (kr_lid (cq_record (cj_request j0)))) parent = Ok ()"
      by (simp_all add: publication_Ok_iff)
    moreover have "stored db (kr_lid parent) = Some parent"
      using calculation(1) stored_lid [OF assms(1)] by auto
    ultimately have "key_change db r" "\<not> fenced db (kr_lid r)"
      using published_change [OF assms] by auto
    moreover have "storable r" "db1 = put_key r db" using write_published_Ok [OF assms(1)] w r by auto
    ultimately show ?thesis
      using save_journal_frame [OF s] by (intro quiet_put [of _ _ r]) auto
  qed simp
qed

text \<open>A committed migration: the snapshots are unfenced and every version is bound to the new parent.\<close>

lemma validate_snapshots_same:
  assumes "validate_snapshots env q child old new = Ok ()"
  shows "validate_migration env q = Ok () \<and> child = mq_child q \<and> old = mq_old_parent q \<and> new = mq_new_parent q"
proof -
  have step: "same_snapshots ((x, y) # ps) = Ok () \<longleftrightarrow> x = y \<and> is_ok (record_value x) \<and> same_snapshots ps = Ok ()" for x y ps
    using same_json_Ok_True [of x y] by (cases "same_json x y") (auto split: if_splits)
  show ?thesis
    using assms by (simp add: validate_snapshots_def step del: same_snapshots.simps(2))
qed

lemma migration_snapshots_Ok:
  assumes "keys_ok db" and "migration_snapshots env q db = Ok ()"
  shows "validate_migration env q = Ok ()" and "stored db (kr_lid (mq_child q)) = Some (mq_child q)"
    and "\<not> fenced db (kr_lid (mq_child q))" and "\<not> fenced db (kr_lid (mq_new_parent q))"
    and "stored db (kr_lid (mq_new_parent q)) = Some (mq_new_parent q)"
    and "stored db (kr_lid (mq_old_parent q)) = Some (mq_old_parent q)"
  using assms by (auto simp: migration_snapshots_def required_key_stored dest!: validate_snapshots_same)

lemma migrated_change:
  assumes "keys_ok db" and "migration_snapshots env q db = Ok ()"
  shows "key_change db (mq_proposed q)" and "kr_lid (mq_proposed q) = kr_lid (mq_child q)"
proof -
  note s = migration_snapshots_Ok [OF assms]
  obtain vs where vs: "mq_proposed q = expected_record q vs" "list_all2 (rebound env q) (key_versions (mq_child q)) vs"
    using validate_migration_proposed [OF s(1)] by blast
  have child: "\<not> has_compromise_history (mq_child q)" "occ_version (mq_child q) \<le> i64_max"
    using s(1) stored_lid [OF assms(1) s(2)] by (auto simp: validate_migration_Ok_iff migration_identity_ok_def Let_def)
  have "vk_lid (pw_parent m) = kr_lid (mq_new_parent q)" if "w \<in> set vs" "material w = ParentWrapped m" for w m
    using that vs(2) by (auto simp: list_all2_conv_all_nth in_set_conv_nth dest!: spec dest: rebound_wrapped)
  moreover have pr: "kr_lid (mq_proposed q) = kr_lid (mq_child q)" "occ_version (mq_proposed q) = occ_version (mq_child q) + 1"
    "key_versions (mq_proposed q) = vs"
    by (subst vs(1), simp add: expected_record_def)+
  ultimately show "key_change db (mq_proposed q)"
    using s child occ_bound [OF child(2)] by (auto simp: key_change_def)
  show "kr_lid (mq_proposed q) = kr_lid (mq_child q)" by (rule pr)
qed

lemma retire_creations_frame:
  "retire_creations env l db = Ok (u, db') \<Longrightarrow> \<exists>rs. db' = db\<lparr>retired_journals := rs\<rparr>"
  by (auto simp: retire_creations_def Let_def split: if_splits)

lemma erase_frame [simp]:
  "db_keys (erase_migration_envelopes l (erase_creations l db)) = db_keys db"
  "destruction_journals (erase_migration_envelopes l (erase_creations l db)) = destruction_journals db"
  "destroyed_parents (erase_migration_envelopes l (erase_creations l db)) = destroyed_parents db"
  "deletion_schedules (erase_migration_envelopes l (erase_creations l db)) = deletion_schedules db"
  by (simp_all add: erase_migration_envelopes_def erase_creations_def)

lemma row_put_Ok:
  "(case update_key_row l row e db1 of (rows, db2) \<Rightarrow> if rows \<noteq> Suc 0 then Err x else f db2) = Ok y \<longleftrightarrow>
     (\<exists>db2. update_key_row l row e db1 = (Suc 0, db2) \<and> f db2 = Ok y)"
  by (cases "update_key_row l row e db1") auto

lemma migration_commit_body_Ok [consumes 2, case_names already moved]:
  assumes ok: "keys_ok db" and body: "migration_commit_body env operation w db = Ok (r, db')"
  obtains (already) j where "db' = db" and "required_migration (core env) db operation = Ok j" and "mj_phase j = MCommitted"
      and "r = mq_proposed (mj_request j)"
  | (moved) j olds result rs db1 where "required_migration (core env) db operation = Ok j" and "require_owner j w = Ok ()"
      and "mj_phase j = MStaged" and "migration_snapshots (core env) (mj_request j) db = Ok ()"
      and "verify_staged env operation j (key_versions (mq_proposed (mj_request j))) db = Ok ()"
      and "old_envelopes_of env db (key_versions (mq_child (mj_request j))) = Ok olds"
      and "terminal_result (core env) olds j = Ok result" and "r = mq_proposed (mj_request j)" and "storable r"
      and "retire_creations env (kr_lid (mq_child (mj_request j))) db = Ok ((), db\<lparr>retired_journals := rs\<rparr>)"
      and "db1 = put_key r (erase_migration_envelopes (kr_lid (mq_child (mj_request j)))
             (erase_creations (kr_lid (mq_child (mj_request j))) (db\<lparr>retired_journals := rs\<rparr>)))"
      and "save_migration (core env) (j\<lparr>mj_result := Some result, mj_phase := MCommitted\<rparr>) db1 = Ok ((), db')"
proof (cases "db' = db \<and> (\<exists>j. required_migration (core env) db operation = Ok j \<and> mj_phase j = MCommitted \<and>
      r = mq_proposed (mj_request j))")
  case True
  then show ?thesis using already by blast
next
  case False
  then obtain j olds result db0 db2 where j: "required_migration (core env) db operation = Ok j" "require_owner j w = Ok ()"
      "mj_phase j = MStaged" "migration_snapshots (core env) (mj_request j) db = Ok ()"
      "verify_staged env operation j (key_versions (mq_proposed (mj_request j))) db = Ok ()"
      "old_envelopes_of env db (key_versions (mq_child (mj_request j))) = Ok olds"
      "terminal_result (core env) olds j = Ok result" "r = mq_proposed (mj_request j)" "storable r"
    and ret: "retire_creations env (kr_lid (mq_child (mj_request j))) db = Ok ((), db0)"
    and row: "update_key_row (kr_lid r) \<lparr>kt_json = Encodes r, kt_occ = uint (occ_version r)\<rparr>
        (uint (occ_version (mq_child (mj_request j))))
        (erase_migration_envelopes (kr_lid (mq_child (mj_request j))) (erase_creations (kr_lid (mq_child (mj_request j))) db0)) = (1, db2)"
    and save: "save_migration (core env) (j\<lparr>mj_result := Some result, mj_phase := MCommitted\<rparr>) db2 = Ok ((), db')"
    using body by (auto simp: migration_commit_body_def Let_def row_put_Ok storable_def split: if_splits)
  obtain rs where "db0 = db\<lparr>retired_journals := rs\<rparr>" using retire_creations_frame [OF ret] by blast
  with j ret save update_key_row_1 [OF row] show ?thesis
    by (intro moved [of j olds result rs db2]) (auto simp: put_key_def)
qed

lemma quiet_migration_commit:
  assumes "keys_ok db"
  shows "quiet db (snd (migration_commit env operation w db))"
  unfolding migration_commit_def
proof (rule quiet_tx)
  fix r db'
  assume body: "migration_commit_body env operation w db = Ok (r, db')"
  from assms body show "quiet db db'"
  proof (cases rule: migration_commit_body_Ok)
    case (moved j olds result rs db1)
    note s = migrated_change [OF assms moved(4)] migration_snapshots_Ok [OF assms moved(4)]
    show ?thesis
      by (rule quiet_put [of _ _ r])
         (use moved s save_migration_frame [OF moved(12)] in \<open>auto simp: put_key_def\<close>)
  qed simp
qed

end
