(* ===== verification/Store_Invariants.thy ===== *)
theory Store_Invariants
  imports Store
begin

text \<open>
  What every interleaving of store operations keeps: well-formed key rows, fenced claims, a strictly
  advancing record, and the containment of a destruction to the dependents its operator approved.
\<close>

section \<open>Claims and completions\<close>

lemma mark_losses_frame:
  "mark_losses l es db = Ok (u, db') \<Longrightarrow>
     \<exists>ds. db' = db\<lparr>destroyed_parents := ds\<rparr> \<and> set (destroyed_parents db) \<subseteq> set ds"
proof (induction l es db rule: mark_losses.induct)
  case (1 l db)
  then show ?case by (auto intro!: exI [of _ "destroyed_parents db"])
next
  case (2 l edge edges db)
  then obtain found where f: "key_lookup db (fst edge) = Ok found" by auto
  obtain c v p t where e: "edge = (c, v, p, t)" by (cases edge)
  from 2(1) [OF f] 2(2) f e show ?case
    by (cases found) (fastforce split: if_splits)+
qed

lemma mark_losses_complete:
  assumes "mark_losses l es db = Ok (u, db')" and "keys_ok db"
    and "(c, n, p, t) \<in> set es" and "stored db c = Some child" and "is_live_edge l (c, n, p, t) child"
  shows "(c, n, l, p) \<in> set (destroyed_parents db')"
  using assms
proof (induction es arbitrary: db)
  case (Cons edge es)
  let ?next = "case stored db (fst edge) of
         Some child \<Rightarrow>
           if is_live_edge l edge child
           then (case edge of (c, version, parent_version, _) \<Rightarrow>
             db\<lparr>destroyed_parents := List.insert (c, version, l, parent_version) (destroyed_parents db)\<rparr>)
           else db
       | None \<Rightarrow> db"
  have rest: "mark_losses l es ?next = Ok (u, db')"
    using Cons.prems by (simp add: key_lookup_stored)
  have "db_keys ?next = db_keys db"
    by (cases edge) (auto split: option.splits)
  then have same: "keys_ok ?next" "stored ?next = stored db"
    using Cons.prems(2) by (auto simp: keys_ok_def stored_def fun_eq_iff)
  show ?case
  proof (cases "edge = (c, n, p, t)")
    case True
    then have "(c, n, l, p) \<in> set (destroyed_parents ?next)" using Cons.prems by auto
    then show ?thesis using mark_losses_frame [OF rest] by auto
  next
    case False
    then show ?thesis using Cons.IH [OF rest] Cons.prems same by auto
  qed
qed simp

text \<open>The census of the store: every live edge of every stored key is among the dependents.\<close>

lemma key_row_record_stored:
  assumes "keys_ok db" and "(l, row) \<in> set (db_keys db)"
  shows "\<exists>r. key_row_record (l, row) = Ok r \<and> stored db l = Some r"
proof -
  have m: "map_of (db_keys db) l = Some row" using assms by (simp add: keys_ok_def)
  obtain r where "kt_json row = Encodes r" "kr_lid r = l" "kt_occ row = uint (occ_version r)"
    using keys_ok_row [OF assms(1) m] by (auto simp: row_ok_def)
  with m show ?thesis
    by (auto simp: key_row_record_def from_str_def stored_def)
qed

lemma store_dependencies_edges:
  assumes "keys_ok db" and "store_dependencies env l db = Ok d" and "stored db c = Some r"
  shows "edges_into l r \<subseteq> set (dependents d)"
proof -
  obtain d1 where d1: "include_keys l (db_keys db) (row_counts l db) = Ok d1"
    and d: "set (dependents d1) \<subseteq> set (dependents d)"
    using assms(2) by (auto simp: store_dependencies_def Let_def)
  obtain rs where rs: "try_map key_row_record (db_keys db) = Ok rs"
    "set (dependents d1) = set (dependents (row_counts l db)) \<union> (\<Union>r \<in> set rs. edges_into l r)"
    using include_keys_result [OF d1] by blast
  obtain row where row: "(c, row) \<in> set (db_keys db)"
    using stored_None [OF assms(1), of c] assms(3) by auto
  then obtain r' where "key_row_record (c, row) = Ok r'" "stored db c = Some r'"
    using key_row_record_stored [OF assms(1)] by blast
  then have "r \<in> set rs"
    using rs(1) row assms(3) by (auto simp: try_map_Ok_iff list_all2_conv_all_nth in_set_conv_nth) force
  then show ?thesis
    using rs(2) d by auto
qed

section \<open>The effect of one step\<close>

definition claim_row :: "uuid \<Rightarrow> key_record \<Rightarrow> destruction_row" where
  "claim_row operation r = \<lparr>dt_operation = operation, dt_json = Encodes r, dt_completed = False\<rparr>"

definition complete_row :: "lid \<Rightarrow> (lid \<times> destruction_row) list \<Rightarrow> (lid \<times> destruction_row) list" where
  "complete_row l rows = map (\<lambda>(k, x). (k, if k = l then x\<lparr>dt_completed := True\<rparr> else x)) rows"

definition destroyed_form :: "timestamp \<Rightarrow> key_record \<Rightarrow> key_record" where
  "destroyed_form now s = s\<lparr>occ_version := occ_version s + 1, kr_state := Destroyed, updated_at := now\<rparr>"

inductive store_effect :: "sqlite_db \<Rightarrow> sqlite_db \<Rightarrow> bool" for db db' where
  quiet: "quiet db db' \<Longrightarrow> store_effect db db'"
| marked: "db_keys db' = db_keys db \<Longrightarrow> destruction_journals db' = destruction_journals db \<Longrightarrow>
     set (destroyed_parents db) \<subseteq> set (destroyed_parents db') \<Longrightarrow> store_effect db db'"
| claimed: "stored db l = Some p \<Longrightarrow> \<not> fenced db l \<Longrightarrow> prepare_claim p expected now = Ok r \<Longrightarrow> storable r \<Longrightarrow>
     \<not> is_nil operation \<Longrightarrow> db_keys db' = db_keys (put_key r db) \<Longrightarrow>
     destruction_journals db' = AList.update l (claim_row operation r) (destruction_journals db) \<Longrightarrow>
     set (destroyed_parents db) \<subseteq> set (destroyed_parents db') \<Longrightarrow> store_effect db db'"
| completed: "map_of (destruction_journals db) l = Some d \<Longrightarrow> \<not> dt_completed d \<Longrightarrow> stored db l = Some s \<Longrightarrow>
     unat (occ_version s) + 1 \<le> unat i64_max \<Longrightarrow> storable (destroyed_form now s) \<Longrightarrow>
     db_keys db' = db_keys (put_key (destroyed_form now s) db) \<Longrightarrow>
     destruction_journals db' = complete_row l (destruction_journals db) \<Longrightarrow>
     destroyed_parents db' = destroyed_parents db \<Longrightarrow> store_effect db db'"

lemma record_loss_markers_frame:
  "record_loss_markers env l db = Ok (u, db') \<Longrightarrow>
     \<exists>ds. db' = db\<lparr>destroyed_parents := ds\<rparr> \<and> set (destroyed_parents db) \<subseteq> set ds"
  by (auto simp: record_loss_markers_def dest: mark_losses_frame)

lemma destruction_claim_body_Ok [consumes 2, case_names recovered fresh]:
  assumes ok: "keys_ok db" and body: "destruction_claim_body env fresh l expected now db = Ok (x, db')"
  obtains "fenced db l" and "db_keys db' = db_keys db" and "destruction_journals db' = destruction_journals db"
    and "set (destroyed_parents db) \<subseteq> set (destroyed_parents db')"
  | p r d i ds where "\<not> fenced db l" and "stored db l = Some p" and "prepare_claim p expected now = Ok r"
    and "store_dependencies (core env) l db = Ok d" and "store_intent db p = Ok i"
    and "validate_intent d (case i of Some i \<Rightarrow> i | None \<Rightarrow> no_intent) = Ok ()"
    and "record_loss_markers (core env) l
           (db\<lparr>destruction_journals := AList.update l (claim_row fresh r) (destruction_journals db)\<rparr>) =
         Ok ((), db\<lparr>destruction_journals := AList.update l (claim_row fresh r) (destruction_journals db),
               destroyed_parents := ds\<rparr>)"
    and "set (destroyed_parents db) \<subseteq> set ds" and "x = Some (fresh, r, False)" and "storable r"
    and "db' = put_key r (db\<lparr>destruction_journals := AList.update l (claim_row fresh r) (destruction_journals db),
               destroyed_parents := ds\<rparr>)"
proof (cases "map_of (destruction_journals db) l")
  case (Some row)
  then have "recover_claim env l expected row db = Ok (x, db')"
    using body by (simp add: destruction_claim_body_def)
  then have "db' = db \<or> (\<exists>db1. record_loss_markers (core env) l db = Ok ((), db'))"
    by (auto simp: recover_claim_def split: if_splits)
  moreover have "fenced db l" using map_of_SomeD [OF Some] by (force simp: fenced_def)
  ultimately show ?thesis
    using that(1) by (auto dest!: record_loss_markers_frame)
next
  case None
  let ?db = "\<lambda>r. db\<lparr>destruction_journals := AList.update l (claim_row fresh r) (destruction_journals db)\<rparr>"
  obtain p d i r db1 where p: "stored db l = Some p" "store_dependencies (core env) l db = Ok d" "store_intent db p = Ok i"
      "validate_intent d (case i of Some i \<Rightarrow> i | None \<Rightarrow> no_intent) = Ok ()" "prepare_claim p expected now = Ok r"
    and m: "record_loss_markers (core env) l (?db r) = Ok ((), db1)" and s: "save_key r expected db1 = Ok ((), db')"
    and x: "x = Some (fresh, r, False)"
    using body None by (auto simp: destruction_claim_body_def required_key_stored [OF ok] claim_row_def Let_def split: if_splits)
  obtain ds where ds: "db1 = (?db r)\<lparr>destroyed_parents := ds\<rparr>" "set (destroyed_parents db) \<subseteq> set ds"
    using record_loss_markers_frame [OF m] by auto
  have "\<not> fenced db l" using None by (simp add: fenced_def map_of_eq_None_iff)
  with p m ds x save_key_Ok [OF s] show ?thesis
    by (intro that(2) [of p r d i ds]) auto
qed

lemma destruction_complete_body_Ok:
  assumes ok: "keys_ok db" and body: "destruction_complete_body now c db = Ok (r, db')" and "db' \<noteq> db"
  obtains d where "map_of (destruction_journals db) (kr_lid (dc_record c)) = Some d" and "\<not> dt_completed d"
    and "dt_json d = Encodes (dc_record c)" and "dt_operation d = dc_operation c"
    and "stored db (kr_lid (dc_record c)) = Some (dc_record c)"
    and "unat (occ_version (dc_record c)) + 1 \<le> unat i64_max" and "r = destroyed_form now (dc_record c)" and "storable r"
    and "db_keys db' = db_keys (put_key r db)"
    and "destruction_journals db' = complete_row (kr_lid (dc_record c)) (destruction_journals db)"
    and "destroyed_parents db' = destroyed_parents db"
proof -
  let ?l = "kr_lid (dc_record c)"
  have same: "(if p then Ok False else same_json a b) = Ok x \<and> (if \<not> x then Err e else Y) = Ok z \<longleftrightarrow>
      \<not> p \<and> x \<and> a = b \<and> is_ok (record_value a) \<and> Y = Ok z" for p a b x e and Y :: "('a, keyrack_error) result" and z
    using same_json_Ok_True [of a b] by auto
  obtain d snapshot current db1 where d: "map_of (destruction_journals db) ?l = Some d" "\<not> dt_completed d"
      "dt_json d = Encodes snapshot" "dt_operation d = dc_operation c" "snapshot = dc_record c"
    and cur: "stored db ?l = Some current" "completed_record now c current = Ok r"
    and s: "save_key r (occ_version current) (erase_migration_envelopes ?l (erase_creations ?l (retire_creations_once ?l db))) = Ok ((), db1)"
    and db': "db_keys db' = db_keys db1" "destroyed_parents db' = destroyed_parents db1"
      "destruction_journals db' = complete_row ?l (destruction_journals db1)"
    using body assms(3)
    by (auto simp: destruction_complete_body_def Let_def required_key_stored [OF ok] from_str_def complete_row_def same
        split: if_splits json.splits)
  have "db1 = put_key r (erase_migration_envelopes ?l (erase_creations ?l (retire_creations_once ?l db)))" "storable r"
    using save_key_Ok [OF s] by auto
  with d cur db' show thesis
    by (intro that [of d]) (auto simp: completed_record_Ok_iff destroyed_form_def put_key_def retire_creations_once_def)
qed

lemma store_effect_refl [simp]: "store_effect db db"
  by (rule store_effect.quiet) simp

lemma claim_effect:
  assumes "keys_ok db" and "\<not> is_nil fresh"
  shows "store_effect db (snd (destruction_claim_tx env fresh l expected now db))"
proof -
  let ?body = "destruction_claim_body env fresh l expected now"
  have "store_effect db (snd (creation_tx ?body db))"
  proof (cases rule: creation_tx_cases [of ?body db])
    case failed
    then show ?thesis by simp
  next
    case (committed x db')
    from assms(1) committed(1) have "store_effect db db'"
    proof (cases rule: destruction_claim_body_Ok)
      case recovered
      then show ?thesis by (intro store_effect.marked)
    next
      case (fresh p r d i ds)
      then show ?thesis
        using assms(2) by (intro store_effect.claimed [of _ l p expected now r fresh]) (auto simp: put_key_def)
    qed
    with committed show ?thesis by simp
  qed
  then show ?thesis by (cases "creation_tx ?body db") (simp add: destruction_claim_tx_def)
qed

lemma complete_effect:
  assumes "keys_ok db"
  shows "store_effect db (snd (destruction_complete now c db))"
  unfolding destruction_complete_def
proof (cases rule: creation_tx_cases [of "destruction_complete_body now c" db])
  case (committed r db')
  have "store_effect db db'"
  proof (cases "db' = db")
    case False
    show ?thesis
      by (rule destruction_complete_body_Ok [OF assms committed(1) False])
         (rule store_effect.completed [of _ "kr_lid (dc_record c)" _ "dc_record c" now], auto)
  qed simp
  with committed show "store_effect db (snd (creation_tx (destruction_complete_body now c) db))" by simp
qed simp

lemmas quiet_steps =
  quiet_create quiet_update quiet_reserve quiet_dispatch quiet_stage quiet_resolve quiet_publish quiet_withdraw
  quiet_migration_reserve quiet_migration_claim quiet_migration_dispatch quiet_migration_stage
  quiet_migration_commit quiet_schedule quiet_cancel

lemma store_step_effect:
  "store_step env db db' \<Longrightarrow> keys_ok db \<Longrightarrow> fences_ok db \<Longrightarrow> store_effect db db'"
  by (erule store_stepE) (auto intro: store_effect.quiet quiet_steps claim_effect complete_effect)

section \<open>Invariants\<close>

lemma stored_eq_put:
  "db_keys db' = db_keys (put_key r db) \<Longrightarrow> stored db' l = (if l = kr_lid r then Some r else stored db l)"
  using stored_frame [of db' "put_key r db"] stored_put_key [of r db l] by simp

lemma destroyed_form_simps [simp]:
  "kr_lid (destroyed_form now s) = kr_lid s" "key_versions (destroyed_form now s) = key_versions s"
  "kr_state (destroyed_form now s) = Destroyed" "occ_version (destroyed_form now s) = occ_version s + 1"
  by (simp_all add: destroyed_form_def)

lemma prepare_claim_frame:
  "prepare_claim p expected now = Ok r \<Longrightarrow> kr_lid r = kr_lid p \<and> key_versions r = key_versions p \<and>
     kr_state r = PendingDeletion \<and> kr_state p = PendingDeletion \<and> was_compromised r = was_compromised p \<and>
     unat (occ_version r) = unat (occ_version p) + 1"
  using prepared_occ(1) [of p expected now r] by (auto simp: prepare_claim_Ok_iff)

lemma effect_keys_ok: "store_effect db db' \<Longrightarrow> keys_ok db \<Longrightarrow> keys_ok db'"
proof (induction rule: store_effect.induct)
  case quiet
  then show ?case
    using keys_ok_frame [of db' db] keys_ok_frame [of db' "put_key r db" for r] keys_ok_put_key
    by (auto simp: quiet_def)
qed (use keys_ok_frame [of db' db] keys_ok_frame [of db' "put_key r db" for r] keys_ok_put_key in auto)

lemma set_AList_update:
  "distinct (map fst al) \<Longrightarrow> (a, b) \<in> set (AList.update k v al) \<longleftrightarrow> (a = k \<and> b = v) \<or> (a \<noteq> k \<and> (a, b) \<in> set al)"
proof -
  assume d: "distinct (map fst al)"
  then have "(a, b) \<in> set (AList.update k v al) \<longleftrightarrow> map_of (AList.update k v al) a = Some b"
    by (simp add: distinct_update)
  also have "\<dots> \<longleftrightarrow> (a = k \<and> b = v) \<or> (a \<noteq> k \<and> map_of al a = Some b)"
    by (auto simp: update_conv')
  finally show ?thesis using d by simp
qed

lemma fence_ok_stored: "fence_ok db l d \<Longrightarrow> stored db' l = stored db l \<Longrightarrow> fence_ok db' l d"
  by (simp add: fence_ok_def)

lemma effect_fences_ok:
  assumes "store_effect db db'" and ok: "keys_ok db" and f: "fences_ok db"
  shows "fences_ok db'"
  using assms(1)
proof (cases rule: store_effect.cases)
  case quiet
  then show ?thesis
  proof (cases "db_keys db' = db_keys db")
    case True
    with quiet f show ?thesis
      using stored_frame [of db' db] by (auto simp: fences_ok_def quiet_def intro: fence_ok_stored)
  next
    case False
    with quiet obtain r where "db_keys db' = db_keys (put_key r db)" "\<not> fenced db (kr_lid r)"
      "destruction_journals db' = destruction_journals db"
      by (auto simp: quiet_def)
    then have "destruction_journals db' = destruction_journals db"
      and "(l, d) \<in> set (destruction_journals db) \<Longrightarrow> stored db' l = stored db l" for l d
      by (force simp: stored_eq_put fenced_def)+
    with f show ?thesis by (auto simp: fences_ok_def intro: fence_ok_stored)
  qed
next
  case marked
  with f show ?thesis
    using stored_frame [of db' db] by (auto simp: fences_ok_def intro: fence_ok_stored)
next
  case (claimed l p expected now r operation)
  have l: "kr_lid r = l" using prepare_claim_frame [OF claimed(3)] stored_lid [OF ok claimed(1)] by simp
  have st: "stored db' k = (if k = l then Some r else stored db k)" for k
    using stored_eq_put [OF claimed(6)] l by simp
  have "fence_ok db' l (claim_row operation r)"
    using l st claimed(5) prepare_claim_frame [OF claimed(3)] by (simp add: fence_ok_def claim_row_def)
  moreover have "fence_ok db' k d" if "(k, d) \<in> set (destruction_journals db)" "k \<noteq> l" for k d
    using f that st by (auto simp: fences_ok_def intro: fence_ok_stored)
  moreover have "distinct (map fst (destruction_journals db))" using f by (simp add: fences_ok_def)
  ultimately show ?thesis
    unfolding fences_ok_def claimed(7) by (auto simp: set_AList_update distinct_update)
next
  case (completed l d s now)
  have l: "kr_lid s = l" using stored_lid [OF ok completed(3)] by simp
  have st: "stored db' k = (if k = l then Some (destroyed_form now s) else stored db k)" for k
    using stored_eq_put [OF completed(6)] l by simp
  have D: "distinct (map fst (destruction_journals db))" using f by (simp add: fences_ok_def)
  have "fence_ok db' k x" if mem: "(k, x) \<in> set (complete_row l (destruction_journals db))" for k x
  proof -
    obtain y where y: "(k, y) \<in> set (destruction_journals db)" "x = (if k = l then y\<lparr>dt_completed := True\<rparr> else y)"
      using mem by (force simp: complete_row_def)
    have yok: "fence_ok db k y" using f y(1) by (auto simp: fences_ok_def)
    show ?thesis
    proof (cases "k = l")
      case True
      then have "y = d" using D y(1) completed(1) by (metis map_of_is_SomeI option.inject)
      with True y yok completed(2,3) st show ?thesis by (auto simp: fence_ok_def)
    qed (use y yok st fence_ok_stored in auto)
  qed
  moreover have "map fst (complete_row l (destruction_journals db)) = map fst (destruction_journals db)"
    by (simp add: complete_row_def comp_def case_prod_beta)
  ultimately show ?thesis
    unfolding fences_ok_def completed(7) using D by auto
qed

lemma step_ok: "store_step env db db' \<Longrightarrow> keys_ok db \<Longrightarrow> fences_ok db \<Longrightarrow> keys_ok db' \<and> fences_ok db'"
  using store_step_effect effect_keys_ok effect_fences_ok by blast

lemma run_ok: "store_run env db db' \<Longrightarrow> keys_ok db \<Longrightarrow> fences_ok db \<Longrightarrow> keys_ok db' \<and> fences_ok db'"
  by (induction rule: store_run_induct) (auto dest: step_ok)

section \<open>The history of one key\<close>

lemma effect_history:
  assumes "store_effect db db'" and ok: "keys_ok db" "fences_ok db" and p: "stored db l = Some p"
  shows "\<exists>p'. stored db' l = Some p' \<and> (p' = p \<or> unat (occ_version p') = unat (occ_version p) + 1) \<and>
    (has_compromise_history p \<longrightarrow> has_compromise_history p')"
  using assms(1)
proof (cases rule: store_effect.cases)
  case quiet
  show ?thesis
  proof (cases "db_keys db' = db_keys db")
    case True
    then show ?thesis using stored_frame [of db' db] p by auto
  next
    case False
    with quiet obtain r where "db_keys db' = db_keys (put_key r db)" "key_change db r" by (auto simp: quiet_def)
    with p show ?thesis by (auto simp: stored_eq_put key_change_def)
  qed
next
  case marked
  then show ?thesis using stored_frame [of db' db] p by auto
next
  case (claimed k q expected now r operation)
  have "kr_lid r = k" using prepare_claim_frame [OF claimed(3)] stored_lid [OF ok(1) claimed(1)] by simp
  with claimed p prepare_claim_frame [OF claimed(3)] show ?thesis
    by (auto simp: stored_eq_put has_compromise_history_def)
next
  case (completed k d s now)
  have "kr_lid s = k" using stored_lid [OF ok(1) completed(3)] by simp
  moreover have "unat (occ_version s + 1) = unat (occ_version s) + 1"
    using stored_lid [OF ok(1) completed(3)] occ_bound [of s] by simp
  moreover have "kr_state s = PendingDeletion"
    using ok(2) map_of_SomeD [OF completed(1)] completed(2,3) by (auto simp: fences_ok_def fence_ok_def)
  then have "has_compromise_history s \<longrightarrow> has_compromise_history (destroyed_form now s)"
    by (auto simp: has_compromise_history_def destroyed_form_def)
  ultimately show ?thesis using completed p by (auto simp: stored_eq_put)
qed

lemma run_history:
  assumes "store_run env db db'" and "keys_ok db" "fences_ok db" and "stored db l = Some p"
  shows "\<exists>p'. stored db' l = Some p' \<and> unat (occ_version p) \<le> unat (occ_version p') \<and>
    (occ_version p' = occ_version p \<longrightarrow> p' = p) \<and> (has_compromise_history p \<longrightarrow> has_compromise_history p')"
  using assms(1)
proof (induction rule: store_run_induct)
  case refl
  then show ?case using assms(4) by blast
next
  case (step x y)
  then obtain q where q: "stored x l = Some q" "unat (occ_version p) \<le> unat (occ_version q)"
    "occ_version q = occ_version p \<longrightarrow> q = p" "has_compromise_history p \<longrightarrow> has_compromise_history q" by blast
  have ok: "keys_ok x" "fences_ok x" using run_ok [OF step(1)] assms by blast+
  obtain q' where "stored y l = Some q'" "q' = q \<or> unat (occ_version q') = unat (occ_version q) + 1"
    "has_compromise_history q \<longrightarrow> has_compromise_history q'"
    using effect_history [OF store_step_effect [OF step(2) ok] ok q(1)] by blast
  with q show ?case by fastforce
qed

section \<open>A fenced key is frozen\<close>

lemma fst_complete_row [simp]: "fst ` set (complete_row l rows) = fst ` set rows"
  by (force simp: complete_row_def)

lemma effect_fenced: "store_effect db db' \<Longrightarrow> fenced db l \<Longrightarrow> fenced db' l"
  by (erule store_effect.cases) (simp_all add: quiet_def fenced_def dom_update)

lemma effect_frozen:
  assumes "store_effect db db'" and ok: "keys_ok db" "fences_ok db" and f: "fenced db l" and r: "stored db l = Some r"
  shows "stored db' l = Some r \<or> (kr_state r = PendingDeletion \<and> (\<exists>now. stored db' l = Some (destroyed_form now r)))"
  using assms(1)
proof (cases rule: store_effect.cases)
  case quiet
  then show ?thesis
    using f r stored_frame [of db' db] by (auto simp: quiet_def stored_eq_put split: if_splits)
next
  case marked
  then show ?thesis using r stored_frame [of db' db] by simp
next
  case (claimed k q expected now p operation)
  have "kr_lid p = k" using prepare_claim_frame [OF claimed(3)] stored_lid [OF ok(1) claimed(1)] by simp
  with claimed f r show ?thesis by (auto simp: stored_eq_put)
next
  case (completed k d s now)
  have "kr_lid s = k" using stored_lid [OF ok(1) completed(3)] by simp
  moreover have "kr_state s = PendingDeletion"
    using ok(2) map_of_SomeD [OF completed(1)] completed(2,3) by (auto simp: fences_ok_def fence_ok_def)
  ultimately show ?thesis using completed r by (auto simp: stored_eq_put)
qed

lemma run_frozen:
  assumes "store_run env db db'" and "keys_ok db" "fences_ok db" and "fenced db l" "stored db l = Some r"
  shows "fenced db' l \<and> (stored db' l = Some r \<or> (kr_state r = PendingDeletion \<and> (\<exists>now. stored db' l = Some (destroyed_form now r))))"
  using assms(1)
proof (induction rule: store_run_induct)
  case refl
  then show ?case using assms by blast
next
  case (step x y)
  have ok: "keys_ok x" "fences_ok x" using run_ok [OF step(1)] assms by blast+
  note e = store_step_effect [OF step(2) ok]
  from step(3) effect_fenced [OF e] effect_frozen [OF e ok] show ?case by fastforce
qed

section \<open>No new dependents under a fence\<close>

definition wrapped_under :: "sqlite_db \<Rightarrow> lid \<Rightarrow> (lid \<times> u64 \<times> parent_wrapped_material) set" where
  "wrapped_under db l = {(c, version_number v, m) | c r v m. stored db c = Some r \<and> kr_state r \<noteq> Destroyed \<and>
     v \<in> set (key_versions r) \<and> material v = ParentWrapped m \<and> vk_lid (pw_parent m) = l}"

lemma wrapped_under_put:
  assumes put: "db_keys db' = db_keys (put_key r db)"
    and old: "\<And>v m. kr_state r \<noteq> Destroyed \<Longrightarrow> v \<in> set (key_versions r) \<Longrightarrow> material v = ParentWrapped m \<Longrightarrow>
      vk_lid (pw_parent m) = l \<Longrightarrow> \<exists>p w. stored db (kr_lid r) = Some p \<and> kr_state p \<noteq> Destroyed \<and>
        w \<in> set (key_versions p) \<and> version_number w = version_number v \<and> material w = material v"
  shows "wrapped_under db' l \<subseteq> wrapped_under db l"
proof
  fix x
  assume "x \<in> wrapped_under db' l"
  then obtain c s v m where x: "x = (c, version_number v, m)" and s: "stored db' c = Some s" "kr_state s \<noteq> Destroyed"
    and v: "v \<in> set (key_versions s)" "material v = ParentWrapped m" "vk_lid (pw_parent m) = l"
    by (auto simp: wrapped_under_def)
  show "x \<in> wrapped_under db l"
  proof (cases "c = kr_lid r")
    case True
    then have "s = r" using s stored_eq_put [OF put] by simp
    with old s v obtain p w where "stored db c = Some p" "kr_state p \<noteq> Destroyed" "w \<in> set (key_versions p)"
      "version_number w = version_number v" "material w = ParentWrapped m"
      using True by metis
    moreover from this have "x = (c, version_number w, m)" using x by simp
    ultimately show ?thesis using v(3) unfolding wrapped_under_def by blast
  next
    case False
    with s stored_eq_put [OF put] have "stored db c = Some s" by simp
    with x s v show ?thesis unfolding wrapped_under_def by blast
  qed
qed

lemma claimed_wrapped_under:
  assumes "keys_ok db" and "stored db k = Some p" and "prepare_claim p expected now = Ok r"
    and "db_keys db' = db_keys (put_key r db)"
  shows "wrapped_under db' l \<subseteq> wrapped_under db l"
  using prepare_claim_frame [OF assms(3)] stored_lid [OF assms(1,2)] assms(2)
  by (intro wrapped_under_put [OF assms(4)]) auto

lemma effect_wrapped_under:
  assumes "store_effect db db'" and ok: "keys_ok db" and f: "fenced db l"
  shows "wrapped_under db' l \<subseteq> wrapped_under db l"
  using assms(1)
proof (cases rule: store_effect.cases)
  case quiet
  show ?thesis
  proof (cases "db_keys db' = db_keys db")
    case True
    then show ?thesis using stored_frame [of db' db] by (simp add: wrapped_under_def)
  next
    case False
    with quiet obtain r where put: "db_keys db' = db_keys (put_key r db)" and c: "key_change db r"
      by (auto simp: quiet_def)
    show ?thesis
      using c f unfolding key_change_def by (intro wrapped_under_put [OF put]) blast
  qed
next
  case marked
  then show ?thesis using stored_frame [of db' db] by (simp add: wrapped_under_def)
next
  case (claimed k q expected now p operation)
  then show ?thesis using claimed_wrapped_under [OF ok] by blast
next
  case (completed k d s now)
  then show ?thesis by (intro wrapped_under_put) auto
qed

lemma run_wrapped_under:
  assumes "store_run env db db'" and "keys_ok db" "fences_ok db" and "fenced db l"
  shows "fenced db' l \<and> wrapped_under db' l \<subseteq> wrapped_under db l"
  using assms(1)
proof (induction rule: store_run_induct)
  case refl
  then show ?case using assms by simp
next
  case (step x y)
  have ok: "keys_ok x" "fences_ok x" using run_ok [OF step(1)] assms by blast+
  note e = store_step_effect [OF step(2) ok]
  from step(3) effect_fenced [OF e] effect_wrapped_under [OF e ok(1)] show ?case by blast
qed

section \<open>Properties\<close>

text \<open>
  C3: no update is lost and no compromise is forgotten. Once a key is stored, whatever operations of
  any clients follow, the key stays stored; its concurrency counter never decreases, a record with
  the same counter is the same record, and a compromise stays in its history.
\<close>

theorem stored_key_history:
  assumes "store_run env empty_db db" and "store_run env db db'" and "stored db l = Some r"
  shows "\<exists>r'. stored db' l = Some r' \<and> unat (occ_version r) \<le> unat (occ_version r') \<and>
    (occ_version r' = occ_version r \<longrightarrow> r' = r) \<and> (has_compromise_history r \<longrightarrow> has_compromise_history r')"
  using run_history [OF assms(2)] run_ok [OF assms(1)] assms(3) by simp

text \<open>
  C27: a destruction claim freezes its key. Once the claim is in the journal, every operation leaves
  the record as claimed, except the completion, which destroys it and touches nothing but its
  state, counter and timestamp; nothing changes it afterwards.
\<close>

theorem claimed_key_frozen:
  assumes "store_run env empty_db db" and "fenced db l" and "store_run env db db'"
  shows "\<exists>r. stored db l = Some r \<and> fenced db' l \<and>
    (stored db' l = Some r \<or> (kr_state r = PendingDeletion \<and> (\<exists>now. stored db' l = Some (destroyed_form now r))))"
proof -
  have ok: "keys_ok db" "fences_ok db" using run_ok [OF assms(1)] by simp_all
  obtain r where "stored db l = Some r" using fenced_state [OF ok(2) assms(2)] by blast
  with run_frozen [OF assms(3) ok assms(2)] show ?thesis by blast
qed

lemma wrapped_under_approved:
  assumes ok: "keys_ok db" and d: "store_dependencies env l db = Ok d" and i: "validate_intent d i = Ok ()"
    and "(c, n, m) \<in> wrapped_under db l" and "c \<noteq> l"
  shows "(c, n, nz_get (vk_version (pw_parent m)), ident_str (pw_material_ref m)) \<in> set (approved_dependents i)"
proof -
  obtain r v where r: "stored db c = Some r" "kr_state r \<noteq> Destroyed" "v \<in> set (key_versions r)"
    "material v = ParentWrapped m" "vk_lid (pw_parent m) = l" "n = version_number v"
    using assms(4) by (auto simp: wrapped_under_def)
  moreover have "kr_lid r = c" using stored_lid [OF ok r(1)] by simp
  ultimately have "(c, n, nz_get (vk_version (pw_parent m)), ident_str (pw_material_ref m)) \<in> edges_into l r"
    using assms(5) by (auto simp: edges_into_def)
  then show ?thesis
    using store_dependencies_edges [OF ok d r(1)] i by (auto simp: validate_intent_Ok_iff)
qed

text \<open>
  C1: a destruction loses only what its operator approved. After a new claim on a key, and whatever
  operations follow (up to and after its completion), every version of a live key wrapped under it
  was among the dependents approved for that deletion, and opening such a version reports that its
  wrapping parent is destroyed. In particular no key can be created, updated, published or migrated
  under a parent that is being destroyed.
\<close>

theorem destruction_loses_only_approved:
  assumes run: "store_run env empty_db db" and fresh: "\<not> is_nil fresh" and new: "\<not> fenced db l"
    and claim: "destruction_claim_tx env fresh l expected now db = (Ok (Some c), db1)"
    and later: "store_run env db1 db2"
  shows "\<exists>p i. stored db l = Some p \<and> store_intent db p = Ok i \<and>
    (\<forall>(c, n, m) \<in> wrapped_under db2 l. c \<noteq> l \<longrightarrow>
      (c, n, nz_get (vk_version (pw_parent m)), ident_str (pw_material_ref m)) \<in>
        set (approved_dependents (case i of Some i \<Rightarrow> i | None \<Rightarrow> no_intent))) \<and>
    (\<forall>k r n v m. stored db2 k = Some r \<longrightarrow> get_version r n = Some v \<longrightarrow> material v = ParentWrapped m \<longrightarrow>
      vk_lid (pw_parent m) = l \<longrightarrow> migration_snapshot env k n db2 = Err WrappingParentDestroyed)"
proof -
  have ok: "keys_ok db" "fences_ok db" using run_ok [OF run] by simp_all
  obtain x where body: "destruction_claim_body env fresh l expected now db = Ok (x, db1)"
    using claim by (cases rule: creation_tx_cases [of "destruction_claim_body env fresh l expected now" db])
      (auto simp: destruction_claim_tx_def creation_tx_def split: result.splits)
  from ok(1) body show ?thesis
  proof (cases rule: destruction_claim_body_Ok)
    case recovered
    then show ?thesis using new by simp
  next
    case (fresh p r d i ds)
    have e: "store_effect db db1"
      using claim_effect [OF ok(1) assms(2), of env l expected now] claim by simp
    have ok1: "keys_ok db1" "fences_ok db1" using effect_keys_ok [OF e ok(1)] effect_fences_ok [OF e ok] by simp_all
    have "fenced db1 l" using fresh(11) by (simp add: fenced_def put_key_def dom_update)
    note under = run_wrapped_under [OF later ok1 this]
    have "wrapped_under db1 l \<subseteq> wrapped_under db l"
      using claimed_wrapped_under [OF ok(1) fresh(2,3)] fresh(11) by (simp add: put_key_def)
    with under have sub: "wrapped_under db2 l \<subseteq> wrapped_under db l" by blast
    have "keys_ok db2" using run_ok [OF later ok1] by simp
    then have "migration_snapshot env k n db2 = Err WrappingParentDestroyed"
      if "stored db2 k = Some r" "get_version r n = Some v" "material v = ParentWrapped m" "vk_lid (pw_parent m) = l"
      for k r n v m
      using that under by (simp add: migration_snapshot_def required_key_stored loss_decided_def fenced_def)
    with fresh(2,5) sub wrapped_under_approved [OF ok(1) fresh(4,6)] show ?thesis by blast
  qed
qed

section \<open>Concrete runs\<close>

definition sample_store :: store_env where
  "sample_store = \<lparr>core = sample_env, uuid_parse = (\<lambda>_. Some (fill 7)), sql_text = (\<lambda>_. [])\<rparr>"

lemma run_refl [simp]: "store_run env db db"
  by (simp add: store_run_def)

lemma run_step: "store_run env db x \<Longrightarrow> store_step env x y \<Longrightarrow> store_run env db y"
  by (simp add: store_run_def rtranclp.rtrancl_into_rtrancl)

text \<open>A store holding one resident key, created from empty.\<close>

definition one_key :: "key_record \<Rightarrow> sqlite_db" where
  "one_key r = put_key r empty_db"

definition sample_stored :: "key_state \<Rightarrow> key_record" where
  "sample_stored s = (sample_record s)\<lparr>scheduled_deletion_at := Some 3\<rparr>"

lemmas sample_stored_defs = sample_stored_def sample_record_def sample_version_def version_provider_resident_def

lemma sample_stored_simps [simp]:
  "kr_lid (sample_stored s) = Lid (fill 1)" "occ_version (sample_stored s) = 4" "kr_state (sample_stored s) = s"
  "parent_lid (sample_stored s) = None" "was_compromised (sample_stored s) = False"
  by (simp_all add: sample_stored_defs)

lemma sample_stored_storable: "storable (sample_stored s)"
  by (simp add: storable_def sample_stored_defs record_value_def serialize_version_def i64_max_def word_le_nat_alt)

lemma sample_stored_parents [simp]: "wrapping_parents (sample_stored s) = []"
  by (simp add: wrapping_parents_def sample_stored_defs)

lemma sample_created:
  assumes "s \<noteq> Compromised"
  shows "snd (create_key_store (\<lambda>_. []) (sample_stored s) empty_db) = one_key (sample_stored s)"
proof -
  have p: "persisted (sample_stored s) = sample_stored s"
    using assms by (simp add: persisted_def has_compromise_history_def sample_stored_defs)
  obtain w where w: "record_value (sample_stored s) = Ok w"
    using sample_stored_storable [of s] by (auto simp: storable_def is_ok_iff)
  have "create_key_body (sample_stored s) \<lparr>kt_json = Encodes (sample_stored s), kt_occ = 4\<rparr> empty_db =
      Ok ((), one_key (sample_stored s))"
    by (simp add: create_key_body_def migration_guard_record_def migration_guard_def migration_active_def
        creation_guard_create_def exists_row_def destruction_guard_write_def destruction_guard_def empty_db_def
        one_key_def put_key_def)
  then show ?thesis
    using p w by (simp add: create_key_store_def i64_try_from_def i64_max_def creation_tx_def word_le_nat_alt)
qed

lemma store_sample_run: "s \<noteq> Compromised \<Longrightarrow> store_run sample_store empty_db (one_key (sample_stored s))"
  using run_step [OF run_refl store_step.create, of sample_store empty_db "\<lambda>_. []" "sample_stored s"]
  by (simp add: sample_created)

lemma sample_stored_key: "stored (one_key r) (kr_lid r) = Some r"
  by (simp add: one_key_def stored_put_key)

theorem stored_key_history_witness:
  "\<exists>r. stored (snd (update_key_store (\<lambda>_. []) ((sample_stored Disabled)\<lparr>occ_version := 5\<rparr>) (one_key (sample_stored Enabled))))
         (Lid (fill 1)) = Some r \<and> 4 \<le> unat (occ_version r)"
proof -
  have "store_run sample_store (one_key (sample_stored Enabled))
      (snd (update_key_store (\<lambda>_. []) ((sample_stored Disabled)\<lparr>occ_version := 5\<rparr>) (one_key (sample_stored Enabled))))"
    by (rule run_step [OF run_refl store_step.update])
  from stored_key_history [OF store_sample_run this, of "Lid (fill 1)" "sample_stored Enabled"]
  show ?thesis using sample_stored_key [of "sample_stored Enabled"] by auto
qed

definition sample_claimed_record :: key_record where
  "sample_claimed_record = (sample_stored PendingDeletion)\<lparr>occ_version := 5, updated_at := 10\<rparr>"

definition sample_fence :: destruction_claim where
  "sample_fence = \<lparr>dc_operation = fill 5, dc_record = sample_claimed_record, dc_recovered = False\<rparr>"

definition claimed_db :: sqlite_db where
  "claimed_db = put_key sample_claimed_record ((one_key (sample_stored PendingDeletion))\<lparr>
     destruction_journals := [(Lid (fill 1), claim_row (fill 5) sample_claimed_record)]\<rparr>)"

lemma sample_dependencies:
  "store_dependencies e (Lid (fill 1)) ((one_key (sample_stored PendingDeletion))\<lparr>destruction_journals := js\<rparr>) =
     Ok (row_counts (Lid (fill 1)) empty_db)"
  by (simp add: store_dependencies_def required_key_def key_lookup_def one_key_def put_key_def empty_db_def
      from_str_def key_row_record_def include_record_def count_logical_child_def logical_only_child_def
      row_counts_def count_rows_def creation_edges_def migration_edges_def migration_join_def Let_def)
     (simp add: sample_stored_defs)

lemma sample_claim_prepared:
  "prepare_claim (sample_stored PendingDeletion) 4 10 = Ok sample_claimed_record"
  by (simp add: prepare_claim_Ok_iff sample_claimed_record_def)
     (simp add: sample_stored_defs validate_destruction_history_def primary_version_def i64_max_def word_le_nat_alt)

lemma store_sample_claim:
  "destruction_claim_tx sample_store (fill 5) (Lid (fill 1)) 4 10 (one_key (sample_stored PendingDeletion)) =
     (Ok (Some sample_fence), claimed_db)"
proof -
  let ?db = "one_key (sample_stored PendingDeletion)"
  have deps: "store_dependencies e (Lid (fill 1)) ?db = Ok (row_counts (Lid (fill 1)) empty_db)" for e
    using sample_dependencies [of e "[]"] by (simp add: one_key_def put_key_def empty_db_def)
  have own: "validate_owned_envelopes sample_store (sample_stored PendingDeletion) ?db = Ok ()"
    by (simp add: validate_owned_envelopes_def sample_stored_defs owned_version_def)
  have keys: "keys_ok ?db"
    by (simp add: one_key_def keys_ok_put_key sample_stored_storable)
  have stored: "stored ?db (Lid (fill 1)) = Some (sample_stored PendingDeletion)"
    using sample_stored_key [of "sample_stored PendingDeletion"] by simp
  have intent: "store_intent ?db (sample_stored PendingDeletion) = Ok None"
    "destruction_journals ?db = []" "destroyed_parents ?db = []"
    by (simp_all add: store_intent_def one_key_def put_key_def empty_db_def)
  have free: "validate_intent (row_counts (Lid (fill 1)) empty_db) no_intent = Ok ()"
    by (simp add: validate_intent_Ok_iff row_counts_def count_rows_def empty_db_def)
  have marks: "record_loss_markers e (Lid (fill 1)) (?db\<lparr>destruction_journals := js\<rparr>) =
      Ok ((), ?db\<lparr>destruction_journals := js\<rparr>)" for e js
    by (simp add: record_loss_markers_def sample_dependencies) (simp add: row_counts_def)
  have save: "save_key sample_claimed_record 4 (?db\<lparr>destruction_journals := js\<rparr>) =
      Ok ((), put_key sample_claimed_record (?db\<lparr>destruction_journals := js\<rparr>))" for js
    using prepared_record_value [OF sample_claim_prepared]
    by (simp add: save_key_def record_to_string_def i64_try_from_def i64_max_def word_le_nat_alt update_key_row_def
        sample_claimed_record_def one_key_def put_key_def empty_db_def)
  have body: "destruction_claim_body sample_store (fill 5) (Lid (fill 1)) 4 10 ?db =
      Ok (Some (fill 5, sample_claimed_record, False), claimed_db)"
    using prepared_record_value [OF sample_claim_prepared]
    by (simp add: destruction_claim_body_def intent required_key_stored [OF keys] stored deps free own
        sample_claim_prepared record_to_string_def exists_row_def Let_def marks save)
       (simp add: claimed_db_def claim_row_def)
  have "\<not> is_nil (fill 5)" by (simp add: is_nil_def)
  then have "claim_committed (fill 5) sample_claimed_record = Ok sample_fence"
    using claim_committed_prepared [OF sample_claim_prepared] by (simp add: sample_fence_def)
  with body show ?thesis by (simp add: destruction_claim_tx_def creation_tx_def)
qed

lemma sample_claim_run: "store_run sample_store empty_db claimed_db"
proof -
  have "store_run sample_store empty_db (snd (destruction_claim_tx sample_store (fill 5) (Lid (fill 1)) 4 10
      (one_key (sample_stored PendingDeletion))))"
    by (rule run_step [OF store_sample_run store_step.claim]) (simp_all add: is_nil_def)
  then show ?thesis by (simp add: store_sample_claim)
qed

theorem claimed_key_frozen_witness:
  "\<exists>r. stored (snd (update_key_store (\<lambda>_. []) ((sample_stored Enabled)\<lparr>occ_version := 6\<rparr>) claimed_db)) (Lid (fill 1)) = Some r \<and>
     kr_state r \<in> {PendingDeletion, Destroyed}"
proof -
  have "fenced claimed_db (Lid (fill 1))" by (simp add: fenced_def claimed_db_def put_key_def)
  moreover have "store_run sample_store claimed_db
      (snd (update_key_store (\<lambda>_. []) ((sample_stored Enabled)\<lparr>occ_version := 6\<rparr>) claimed_db))"
    by (rule run_step [OF run_refl store_step.update])
  moreover have "stored claimed_db (Lid (fill 1)) = Some sample_claimed_record"
    by (simp add: claimed_db_def stored_put_key sample_claimed_record_def)
  ultimately show ?thesis
    using claimed_key_frozen [OF sample_claim_run] by (force simp: sample_claimed_record_def)
qed

theorem destruction_loses_only_approved_witness:
  "\<exists>p i. stored (one_key (sample_stored PendingDeletion)) (Lid (fill 1)) = Some p \<and>
     store_intent (one_key (sample_stored PendingDeletion)) p = Ok i"
proof -
  have "\<not> is_nil (fill 5)" "\<not> fenced (one_key (sample_stored PendingDeletion)) (Lid (fill 1))"
    by (simp_all add: is_nil_def fenced_def one_key_def put_key_def empty_db_def)
  from destruction_loses_only_approved [OF store_sample_run this store_sample_claim run_refl] show ?thesis by auto
qed

end
