(* ===== verification/Lifecycle.thy ===== *)
theory Lifecycle
  imports Rotation Store_Invariants
begin

text \<open>
  The key lifecycle of the service (\<open>keyrack-service/src/domain.rs\<close>) over the storage interface
  (\<open>keyrack-core/src/storage.rs\<close>). The storage is a record of the trait's methods on a state \<open>'s\<close>; the
  locale \<open>key_storage\<close> states what the service relies on, and the SQLite store interprets it. Each
  storage call is one transaction. \<open>tick\<close> gives the clock reading taken when a key is changed.
  Log lines, metrics, notifications and the audit record of a cascade are not modelled: their
  failures are ignored by the code.
\<close>

section \<open>The storage interface\<close>

record 's storage =
  so_get_key :: "lid \<Rightarrow> 's \<Rightarrow> (key_record, keyrack_error) result"
  so_get_key_for_use :: "lid \<Rightarrow> 's \<Rightarrow> (key_record, keyrack_error) result"
  so_check_migration_fence :: "lid \<Rightarrow> 's \<Rightarrow> (unit, keyrack_error) result"
  so_create_key :: "key_record \<Rightarrow> 's \<Rightarrow> (unit, keyrack_error) result \<times> 's"
  so_update_key :: "key_record \<Rightarrow> 's \<Rightarrow> (unit, keyrack_error) result \<times> 's"
  so_list_children :: "lid \<Rightarrow> 's \<Rightarrow> (key_record list, keyrack_error) result"
  so_create_rotation_job :: "rotation_job \<Rightarrow> 's \<Rightarrow> (unit, keyrack_error) result \<times> 's"

text \<open>The trait's default for storages without a cache.\<close>

definition default_get_key_for_use ::
  "(lid \<Rightarrow> 's \<Rightarrow> (key_record, keyrack_error) result) \<Rightarrow> lid \<Rightarrow> 's \<Rightarrow> (key_record, keyrack_error) result" where
  "default_get_key_for_use get l s = get l s"

section \<open>State changes of one key\<close>

record service_env =
  se_display :: "keyrack_error \<Rightarrow> string"
  se_display_state :: "key_state \<Rightarrow> string"

definition parse_lid :: "string \<Rightarrow> (lid, domain_error) result" where
  "parse_lid s = map_err (\<lambda>_. InvalidArgument (''invalid key_id: '' @ s)) (lid_from_str s)"

definition transition_err :: "service_env \<Rightarrow> key_state \<times> key_state \<Rightarrow> domain_error" where
  "transition_err env = (\<lambda>(from, target).
     FailedPrecondition (''cannot transition from '' @ se_display_state env from @ '' to '' @ se_display_state env target))"

definition service_get_key :: "service_env \<Rightarrow> 's storage \<Rightarrow> string \<Rightarrow> 's \<Rightarrow> (key_record, domain_error) result" where
  "service_get_key env st key s =
     and_then (parse_lid key) (\<lambda>l. map_err (domain_from (se_display env)) (so_get_key st l s))"

text \<open>The common tail of the state-changing calls: transition the record and write it.\<close>

definition transition_key ::
  "service_env \<Rightarrow> 's storage \<Rightarrow> timestamp \<Rightarrow> key_state \<Rightarrow> key_record \<Rightarrow> 's \<Rightarrow> (key_record, domain_error) result \<times> 's" where
  "transition_key env st now target r s = (case transition_to now target r of
       (Err x, _) \<Rightarrow> (Err (transition_err env x), s)
     | (Ok _, r) \<Rightarrow> (case so_update_key st r s of
         (Err e, s) \<Rightarrow> (Err (domain_from (se_display env) e), s)
       | (Ok _, s) \<Rightarrow> (Ok r, s)))"

definition enable_key ::
  "service_env \<Rightarrow> 's storage \<Rightarrow> timestamp \<Rightarrow> string \<Rightarrow> 's \<Rightarrow> (key_record, domain_error) result \<times> 's" where
  "enable_key env st now key s =
     (case and_then (parse_lid key) (\<lambda>l.
        and_then (map_err (domain_from (se_display env)) (so_check_migration_fence st l s)) (\<lambda>_.
          map_err (domain_from (se_display env)) (so_get_key_for_use st l s))) of
        Err e \<Rightarrow> (Err e, s)
      | Ok r \<Rightarrow> transition_key env st now Enabled r s)"

definition report_key_compromise ::
  "service_env \<Rightarrow> 's storage \<Rightarrow> timestamp \<Rightarrow> string \<Rightarrow> 's \<Rightarrow> (key_record, domain_error) result \<times> 's" where
  "report_key_compromise env st now key s =
     (case and_then (parse_lid key) (\<lambda>l. map_err (domain_from (se_display env)) (so_get_key_for_use st l s)) of
        Err e \<Rightarrow> (Err e, s)
      | Ok r \<Rightarrow> transition_key env st now Compromised r s)"

definition service_update_key ::
  "service_env \<Rightarrow> 's storage \<Rightarrow> timestamp \<Rightarrow> string \<Rightarrow> string option \<Rightarrow> 's \<Rightarrow> (key_record, domain_error) result \<times> 's" where
  "service_update_key env st now key desc s = (case service_get_key env st key s of
       Err e \<Rightarrow> (Err e, s)
     | Ok r \<Rightarrow>
         let r = (case desc of None \<Rightarrow> r | Some d \<Rightarrow> r\<lparr>description := d\<rparr>);
             r = r\<lparr>occ_version := occ_version r + 1, updated_at := now\<rparr>
         in (case so_update_key st r s of
             (Err e, s) \<Rightarrow> (Err (domain_from (se_display env) e), s)
           | (Ok _, s) \<Rightarrow> (Ok r, s)))"

section \<open>Disabling a key and what is beneath it\<close>

text \<open>
  The loop over the children of one key; \<open>queue\<close> is the stack of keys whose children are still to be
  visited, its top first.
\<close>

fun cascade_children ::
  "service_env \<Rightarrow> 's storage \<Rightarrow> (lid \<Rightarrow> timestamp) \<Rightarrow> key_record list \<Rightarrow> lid list \<Rightarrow> nat \<Rightarrow> 's \<Rightarrow>
     (lid list \<times> nat, keyrack_error) result \<times> 's" where
  "cascade_children env st tick [] queue n s = (Ok (queue, n), s)"
| "cascade_children env st tick (child # cs) queue n s =
     (if kr_state child = Enabled
      then (case transition_to (tick (kr_lid child)) Disabled child of
          (Err _, _) \<Rightarrow> cascade_children env st tick cs queue n s
        | (Ok _, child) \<Rightarrow> (case so_update_key st child s of
            (Err e, s) \<Rightarrow> (Err (CascadeDisableFailed (''descendant '' @ display_lid (kr_lid child) @ '': '' @ se_display env e)), s)
          | (Ok _, s) \<Rightarrow> cascade_children env st tick cs (kr_lid child # queue) (n + 1) s))
      else cascade_children env st tick cs queue n s)"

partial_function (option) cascade_loop ::
  "service_env \<Rightarrow> 's storage \<Rightarrow> (lid \<Rightarrow> timestamp) \<Rightarrow> lid list \<Rightarrow> nat \<Rightarrow> 's \<Rightarrow> ((nat, keyrack_error) result \<times> 's) option" where
  "cascade_loop env st tick queue n s = (case queue of
       [] \<Rightarrow> Some (Ok n, s)
     | parent # queue \<Rightarrow> (case so_list_children st parent s of
         Err e \<Rightarrow> Some (Err e, s)
       | Ok cs \<Rightarrow> (case cascade_children env st tick cs queue n s of
           (Err e, s) \<Rightarrow> Some (Err e, s)
         | (Ok (queue, n), s) \<Rightarrow> cascade_loop env st tick queue n s)))"

definition disable_key ::
  "service_env \<Rightarrow> 's storage \<Rightarrow> (lid \<Rightarrow> timestamp) \<Rightarrow> lid \<Rightarrow> 's \<Rightarrow> ((key_record \<times> nat, keyrack_error) result \<times> 's) option" where
  "disable_key env st tick l s =
     (case and_then (so_check_migration_fence st l s) (\<lambda>_. so_get_key_for_use st l s) of
        Err e \<Rightarrow> Some (Err e, s)
      | Ok r \<Rightarrow> (case transition_to (tick l) Disabled r of
          (Err (from, target), _) \<Rightarrow> Some (Err (InvalidStateTransition l from target), s)
        | (Ok _, r) \<Rightarrow> (case so_update_key st r s of
            (Err e, s) \<Rightarrow> Some (Err e, s)
          | (Ok _, s) \<Rightarrow> (case cascade_loop env st tick [l] 0 s of
              None \<Rightarrow> None
            | Some (Err e, s) \<Rightarrow> Some (Err e, s)
            | Some (Ok n, s) \<Rightarrow> Some (Ok (r, n), s)))))"

section \<open>What the service relies on\<close>

locale key_storage =
  fixes st :: "'s storage"
    and view :: "'s \<Rightarrow> lid \<Rightarrow> key_record option"
    and inv :: "'s \<Rightarrow> bool"
  assumes finite_view: "inv s \<Longrightarrow> finite (dom (view s))"
    and view_lid: "inv s \<Longrightarrow> view s l = Some r \<Longrightarrow> kr_lid r = l"
    and get_key_for_use: "inv s \<Longrightarrow> so_get_key_for_use st l s = ok_or (KeyNotFound l) (view s l)"
    and list_children: "inv s \<Longrightarrow> \<exists>cs. so_list_children st p s = Ok cs \<and> distinct (map kr_lid cs) \<and>
       set cs = {r. view s (kr_lid r) = Some r \<and> parent_lid r = Some p}"
    and update_ok: "inv s \<Longrightarrow> so_update_key st r s = (Ok u, s') \<Longrightarrow> inv s' \<and> view s' = (view s)(kr_lid r \<mapsto> persisted r)"
    and update_err: "inv s \<Longrightarrow> so_update_key st r s = (Err e, s') \<Longrightarrow> s' = s"

section \<open>The cascade\<close>

definition disabled_form :: "(lid \<Rightarrow> timestamp) \<Rightarrow> key_record \<Rightarrow> key_record" where
  "disabled_form tick r = snd (transition_to (tick (kr_lid r)) Disabled r)"

definition disable_all :: "(lid \<Rightarrow> timestamp) \<Rightarrow> lid set \<Rightarrow> (lid \<Rightarrow> key_record option) \<Rightarrow> lid \<Rightarrow> key_record option" where
  "disable_all tick D v c = (if c \<in> D then map_option (disabled_form tick) (v c) else v c)"

text \<open>The keys the cascade reaches: through children that are enabled.\<close>

definition enabled_child :: "(lid \<Rightarrow> key_record option) \<Rightarrow> lid \<Rightarrow> lid \<Rightarrow> bool" where
  "enabled_child v p c \<longleftrightarrow> (\<exists>r. v c = Some r \<and> parent_lid r = Some p \<and> kr_state r = Enabled)"

definition cascade_set :: "(lid \<Rightarrow> key_record option) \<Rightarrow> lid \<Rightarrow> lid set" where
  "cascade_set v l = {c. (enabled_child v)\<^sup>+\<^sup>+ l c}"

definition enabled_keys :: "(lid \<Rightarrow> key_record option) \<Rightarrow> lid set" where
  "enabled_keys v = {c. \<exists>r. v c = Some r \<and> kr_state r = Enabled}"

lemma transition_Ok_persisted: "transition_to now target r = (Ok x, r') \<Longrightarrow> persisted r' = r' \<and> kr_lid r' = kr_lid r \<and> parent_lid r' = parent_lid r \<and> kr_state r' = target"
  by (auto simp: transition_to_def Let_def persisted_def has_compromise_history_def split: if_splits)

lemma transition_enabled: "kr_state r = Enabled \<Longrightarrow> transition_to now Disabled r = (Ok Disabled, snd (transition_to now Disabled r))"
  by (simp add: transition_to_def Let_def)

lemma disabled_form_simps [simp]:
  "kr_lid (disabled_form tick r) = kr_lid r" "parent_lid (disabled_form tick r) = parent_lid r"
  "kr_state r = Enabled \<Longrightarrow> kr_state (disabled_form tick r) = Disabled"
  by (simp_all add: disabled_form_def transition_to_def Let_def)

lemma persisted_disabled_form: "kr_state r = Enabled \<Longrightarrow> persisted (disabled_form tick r) = disabled_form tick r"
  unfolding disabled_form_def using transition_Ok_persisted [OF transition_enabled] by blast

lemma disable_all_empty [simp]: "disable_all tick {} v = v"
  by (simp add: disable_all_def fun_eq_iff)

lemma disable_all_union: "D \<inter> K = {} \<Longrightarrow> disable_all tick K (disable_all tick D v) = disable_all tick (D \<union> K) v"
  by (auto simp: disable_all_def fun_eq_iff)

lemma disable_all_update:
  "v c = Some r \<Longrightarrow> kr_lid r = c \<Longrightarrow> v(c \<mapsto> disabled_form tick r) = disable_all tick {c} v"
  by (auto simp: disable_all_def fun_eq_iff)

definition enabled_lids :: "key_record list \<Rightarrow> lid set" where
  "enabled_lids cs = kr_lid ` {r \<in> set cs. kr_state r = Enabled}"

lemma enabled_lids_simps [simp]:
  "enabled_lids [] = {}"
  "enabled_lids (r # cs) = (if kr_state r = Enabled then insert (kr_lid r) (enabled_lids cs) else enabled_lids cs)"
  "finite (enabled_lids cs)"
  by (auto simp: enabled_lids_def)

lemma enabled_lids_notin: "kr_lid r \<notin> kr_lid ` set cs \<Longrightarrow> kr_lid r \<notin> enabled_lids cs"
  by (auto simp: enabled_lids_def)

context key_storage
begin

text \<open>The write of one enabled child.\<close>

lemma disable_child:
  assumes "inv s" "view s (kr_lid r) = Some r" "kr_state r = Enabled" "so_update_key st (disabled_form tick r) s = (Ok u, s1)"
  shows "inv s1" "view s1 = disable_all tick {kr_lid r} (view s)"
  using update_ok [OF assms(1,4)] disable_all_update [of "view s" "kr_lid r" r tick] assms(2) persisted_disabled_form [OF assms(3)]
  by simp_all

lemma cascade_children_Cons:
  assumes "kr_state r = Enabled"
  shows "cascade_children env st tick (r # cs) queue n s = (case so_update_key st (disabled_form tick r) s of
      (Err e, s) \<Rightarrow> (Err (CascadeDisableFailed (''descendant '' @ display_lid (kr_lid r) @ '': '' @ se_display env e)), s)
    | (Ok _, s) \<Rightarrow> cascade_children env st tick cs (kr_lid r # queue) (n + 1) s)"
  using assms transition_enabled [OF assms, of "tick (kr_lid r)", folded disabled_form_def]
  by (simp split: prod.splits result.splits)

text \<open>One pass over the listed children: the enabled ones are disabled, pushed and counted; when a
  write fails, some of them are disabled.\<close>

lemma cascade_children_Ok:
  assumes "inv s" "distinct (map kr_lid cs)" "\<And>r. r \<in> set cs \<Longrightarrow> view s (kr_lid r) = Some r"
    and "cascade_children env st tick cs queue n s = (Ok (queue', n'), s')"
  shows "inv s' \<and> view s' = disable_all tick (enabled_lids cs) (view s) \<and> n' = n + card (enabled_lids cs) \<and>
    set queue' = enabled_lids cs \<union> set queue \<and> length queue' = card (enabled_lids cs) + length queue"
  using assms
proof (induction cs arbitrary: queue n s)
  case (Cons r cs)
  show ?case
  proof (cases "kr_state r = Enabled")
    case False
    then show ?thesis using Cons.IH [of s queue n] Cons.prems by simp
  next
    case True
    then obtain u s1 where u: "so_update_key st (disabled_form tick r) s = (Ok u, s1)"
        "cascade_children env st tick cs (kr_lid r # queue) (n + 1) s1 = (Ok (queue', n'), s')"
      using Cons.prems(4) cascade_children_Cons by (auto split: prod.splits result.splits)
    note s1 = disable_child [OF Cons.prems(1) Cons.prems(3) [OF list.set_intros(1)] True u(1)]
    have rest: "view s1 (kr_lid q) = Some q" if "q \<in> set cs" for q
      using that Cons.prems(2) Cons.prems(3) [of q] s1 by (auto simp: disable_all_def image_iff)
    have new: "kr_lid r \<notin> enabled_lids cs" using Cons.prems(2) by (intro enabled_lids_notin) simp
    have "view s' = disable_all tick ({kr_lid r} \<union> enabled_lids cs) (view s)"
      using Cons.IH [OF s1(1) _ rest u(2)] Cons.prems(2) s1(2) new by (simp add: disable_all_union)
    then show ?thesis
      using Cons.IH [OF s1(1) _ rest u(2)] Cons.prems(2) new True by simp
  qed
qed simp

lemma cascade_children_Err:
  assumes "inv s" "distinct (map kr_lid cs)" "\<And>r. r \<in> set cs \<Longrightarrow> view s (kr_lid r) = Some r"
    and "cascade_children env st tick cs queue n s = (Err e, s')"
  shows "inv s' \<and> (\<exists>K \<subseteq> enabled_lids cs. view s' = disable_all tick K (view s))"
  using assms
proof (induction cs arbitrary: queue n s)
  case (Cons r cs)
  show ?case
  proof (cases "kr_state r = Enabled")
    case False
    then show ?thesis using Cons.IH [of s queue n] Cons.prems by simp
  next
    case True
    show ?thesis
    proof (cases "so_update_key st (disabled_form tick r) s")
      case (Pair x s1)
      show ?thesis
      proof (cases x)
        case (Err e')
        then have "s' = s" using update_err [OF Cons.prems(1)] Pair Cons.prems(4) cascade_children_Cons [OF True] by auto
        then show ?thesis using Cons.prems(1) by (auto intro!: exI [of _ "{}"])
      next
        case (Ok u)
        note s1 = disable_child [OF Cons.prems(1) Cons.prems(3) [OF list.set_intros(1)] True Pair [unfolded Ok]]
        have rest: "view s1 (kr_lid q) = Some q" if "q \<in> set cs" for q
          using that Cons.prems(2) Cons.prems(3) [of q] s1 by (auto simp: disable_all_def image_iff)
        have rec: "cascade_children env st tick cs (kr_lid r # queue) (n + 1) s1 = (Err e, s')"
          using Cons.prems(4) Pair Ok cascade_children_Cons [OF True] by simp
        have dist: "distinct (map kr_lid cs)" using Cons.prems(2) by simp
        obtain K where K: "inv s'" "K \<subseteq> enabled_lids cs" "view s' = disable_all tick K (view s1)"
          using Cons.IH [OF s1(1) dist rest rec] by blast
        have "kr_lid r \<notin> K" using K(2) Cons.prems(2) enabled_lids_notin [of r cs] by auto
        then have "view s' = disable_all tick ({kr_lid r} \<union> K) (view s)" using K(3) s1(2) by (simp add: disable_all_union)
        then show ?thesis using K True by (intro conjI exI [of _ "{kr_lid r} \<union> K"]) auto
      qed
    qed
  qed
qed simp

text \<open>
  The state of the loop over the stack, against the view \<open>v\<close> right after the key \<open>l\<close> itself was
  disabled: the keys \<open>D\<close> disabled so far belong to the cascade, and a key that is neither on the stack
  nor unreached has all its enabled children in \<open>D\<close>.
\<close>

definition cascading :: "(lid \<Rightarrow> timestamp) \<Rightarrow> (lid \<Rightarrow> key_record option) \<Rightarrow> lid \<Rightarrow> lid set \<Rightarrow> lid list \<Rightarrow> nat \<Rightarrow> 's \<Rightarrow> bool" where
  "cascading tick v l D queue n s \<longleftrightarrow> inv s \<and> view s = disable_all tick D v \<and> D \<subseteq> cascade_set v l \<and> finite D \<and> n = card D \<and>
     set queue \<subseteq> insert l D \<and> (\<forall>p \<in> insert l D. p \<notin> set queue \<longrightarrow> (\<forall>c. enabled_child v p c \<longrightarrow> c \<in> D))"

lemma cascade_set_enabled: "c \<in> cascade_set v l \<Longrightarrow> \<exists>r. v c = Some r \<and> kr_state r = Enabled"
  unfolding cascade_set_def mem_Collect_eq by (induction rule: tranclp_induct) (auto simp: enabled_child_def)

lemma cascade_set_step: "p \<in> insert l (cascade_set v l) \<Longrightarrow> enabled_child v p c \<Longrightarrow> c \<in> cascade_set v l"
  by (auto simp: cascade_set_def intro: tranclp.trancl_into_trancl)

text \<open>The enabled children listed for \<open>p\<close> are its enabled children in \<open>v\<close> that are not yet in \<open>D\<close>.\<close>

lemma listed_children:
  assumes "inv s" "view s = disable_all tick D v" "D \<subseteq> cascade_set v l"
    and "set cs = {r. view s (kr_lid r) = Some r \<and> parent_lid r = Some p}"
  shows "enabled_lids cs = {c. enabled_child v p c \<and> c \<notin> D}"
proof (intro set_eqI iffI)
  fix c assume "c \<in> enabled_lids cs"
  then obtain r where r: "view s c = Some r" "parent_lid r = Some p" "kr_state r = Enabled"
    by (auto simp: enabled_lids_def assms(4))
  have "c \<notin> D"
  proof
    assume "c \<in> D"
    then obtain q where "v c = Some q" "kr_state q = Enabled" using cascade_set_enabled [of c v l] assms(3) by blast
    then show False using r(1,3) \<open>c \<in> D\<close> by (auto simp: assms(2) disable_all_def)
  qed
  then show "c \<in> {c. enabled_child v p c \<and> c \<notin> D}"
    using r by (auto simp: assms(2) disable_all_def enabled_child_def)
next
  fix c assume "c \<in> {c. enabled_child v p c \<and> c \<notin> D}"
  then obtain r where r: "view s c = Some r" "parent_lid r = Some p" "kr_state r = Enabled"
    by (auto simp: assms(2) disable_all_def enabled_child_def)
  moreover have "kr_lid r = c" by (rule view_lid [OF assms(1) r(1)])
  ultimately show "c \<in> enabled_lids cs" by (auto simp: enabled_lids_def assms(4))
qed

lemma cascading_step:
  assumes "cascading tick v l D (p # queue) n s" "so_list_children st p s = Ok cs"
    and "set cs = {r. view s (kr_lid r) = Some r \<and> parent_lid r = Some p}" "distinct (map kr_lid cs)"
    and "cascade_children env st tick cs queue n s = (Ok (queue', n'), s')"
  shows "cascading tick v l (D \<union> enabled_lids cs) queue' n' s'" "length queue' = card (enabled_lids cs) + length queue"
    "D \<inter> enabled_lids cs = {}"
proof -
  note J = assms(1) [unfolded cascading_def]
  have new: "enabled_lids cs = {c. enabled_child v p c \<and> c \<notin> D}"
    using listed_children [of s tick D v l cs p] J assms(3) by simp
  have eff: "inv s' \<and> view s' = disable_all tick (enabled_lids cs) (view s) \<and> n' = n + card (enabled_lids cs) \<and>
      set queue' = enabled_lids cs \<union> set queue \<and> length queue' = card (enabled_lids cs) + length queue"
    by (rule cascade_children_Ok [OF _ assms(4) _ assms(5)]) (use J assms(3) in auto)
  show disj: "D \<inter> enabled_lids cs = {}" using new by auto
  have p: "p \<in> insert l (cascade_set v l)" using J by auto
  have "enabled_lids cs \<subseteq> cascade_set v l" using cascade_set_step [OF p] new by auto
  moreover have "view s' = disable_all tick (D \<union> enabled_lids cs) v" using eff J disj by (simp add: disable_all_union)
  moreover have "\<forall>q \<in> insert l (D \<union> enabled_lids cs). q \<notin> set queue' \<longrightarrow> (\<forall>c. enabled_child v q c \<longrightarrow> c \<in> D \<union> enabled_lids cs)"
    using J eff new by (auto split: if_splits)
  ultimately show "cascading tick v l (D \<union> enabled_lids cs) queue' n' s'"
    using J eff disj by (auto simp: cascading_def card_Un_disjoint)
  show "length queue' = card (enabled_lids cs) + length queue" using eff by blast
qed

lemma cascade_set_complete:
  assumes "cascading tick v l D [] n s"
  shows "D = cascade_set v l"
proof -
  have "c \<in> D" if "(enabled_child v)\<^sup>+\<^sup>+ l c" for c
    using that assms by (induction rule: tranclp_induct) (auto simp: cascading_def)
  then show ?thesis using assms by (auto simp: cascading_def cascade_set_def)
qed

lemma finite_cascade_set:
  assumes "inv s" "view s = disable_all tick D v"
  shows "finite (cascade_set v l)"
proof (rule finite_subset)
  show "cascade_set v l \<subseteq> dom (view s)"
  proof
    fix c assume "c \<in> cascade_set v l"
    then obtain r where "v c = Some r" using cascade_set_enabled by blast
    then show "c \<in> dom (view s)" by (simp add: assms(2) disable_all_def dom_def)
  qed
qed (rule finite_view [OF assms(1)])

lemma cascade_loop_result:
  assumes "cascading tick v l D queue n s"
  shows "\<exists>r s'. cascade_loop env st tick queue n s = Some (r, s') \<and> inv s' \<and> (case r of
      Ok m \<Rightarrow> view s' = disable_all tick (cascade_set v l) v \<and> m = card (cascade_set v l)
    | Err e \<Rightarrow> \<exists>K \<subseteq> cascade_set v l. view s' = disable_all tick K v)"
  using assms
proof (induction "length queue + card (cascade_set v l - D)" arbitrary: D queue n s rule: less_induct)
  case less
  note J = less.prems [unfolded cascading_def]
  have inv: "inv s" and view: "view s = disable_all tick D v" and D: "D \<subseteq> cascade_set v l" using J by blast+
  show ?case
  proof (cases queue)
    case Nil
    then have "D = cascade_set v l" using less.prems cascade_set_complete by blast
    then show ?thesis using J Nil by (subst cascade_loop.simps) simp
  next
    case (Cons p rest)
    obtain cs where cs: "so_list_children st p s = Ok cs" "distinct (map kr_lid cs)"
        "set cs = {r. view s (kr_lid r) = Some r \<and> parent_lid r = Some p}"
      using list_children [OF inv, of p] by blast
    have mem: "\<And>r. r \<in> set cs \<Longrightarrow> view s (kr_lid r) = Some r" using cs(3) by simp
    show ?thesis
    proof (cases "cascade_children env st tick cs rest n s")
      case (Pair x s1)
      show ?thesis
      proof (cases x)
        case (Err e)
        obtain K where K: "inv s1" "K \<subseteq> enabled_lids cs" "view s1 = disable_all tick K (view s)"
          using cascade_children_Err [OF inv cs(2) mem Pair [unfolded Err]] by blast
        have new: "enabled_lids cs = {c. enabled_child v p c \<and> c \<notin> D}"
          by (rule listed_children [OF inv view D cs(3)])
        have "p \<in> insert l (cascade_set v l)" using J Cons by auto
        then have "D \<union> K \<subseteq> cascade_set v l" using cascade_set_step new K(2) D by blast
        moreover have "D \<inter> K = {}" using new K(2) by blast
        then have "view s1 = disable_all tick (D \<union> K) v" unfolding K(3) view by (rule disable_all_union)
        ultimately show ?thesis
          using K(1) Cons cs(1) Pair Err by (subst cascade_loop.simps) (auto intro!: exI [of _ "D \<union> K"])
      next
        case (Ok y)
        obtain queue' n' where y: "y = (queue', n')" by (cases y)
        note step = cascading_step [OF less.prems [unfolded Cons] cs(1,3,2) Pair [unfolded Ok y]]
        have fin: "finite (cascade_set v l)" by (rule finite_cascade_set [OF inv view])
        have sub: "enabled_lids cs \<subseteq> cascade_set v l - D" using step(1,3) by (auto simp: cascading_def)
        have "card (cascade_set v l - D - enabled_lids cs) = card (cascade_set v l - D) - card (enabled_lids cs)"
          by (rule card_Diff_subset [OF _ sub]) simp
        moreover have "card (enabled_lids cs) \<le> card (cascade_set v l - D)" using sub fin by (simp add: card_mono)
        moreover have "cascade_set v l - D - enabled_lids cs = cascade_set v l - (D \<union> enabled_lids cs)" by auto
        ultimately have "length queue' + card (cascade_set v l - (D \<union> enabled_lids cs)) < length queue + card (cascade_set v l - D)"
          using step(2) Cons by simp
        from less.hyps [OF this step(1)] show ?thesis
          using Cons cs(1) Pair Ok y by (subst cascade_loop.simps) simp
      qed
    qed
  qed
qed

lemma cascading_init:
  assumes "inv s" "kr_lid r = l" "view s l = Some r"
  shows "cascading tick (view s) l {} [l] 0 s"
  using assms by (auto simp: cascading_def)

text \<open>What a call of \<open>disable_key\<close> does, in every case.\<close>

lemma disable_key_result:
  assumes "inv s"
  shows "\<exists>r s'. disable_key env st tick l s = Some (r, s') \<and> inv s' \<and> (case r of
      Ok (rec, m) \<Rightarrow> \<exists>r0 v. view s l = Some r0 \<and> transition_to (tick l) Disabled r0 = (Ok Disabled, rec) \<and> v = (view s)(l \<mapsto> rec) \<and>
        view s' = disable_all tick (cascade_set v l) v \<and> m = card (cascade_set v l)
    | Err e \<Rightarrow> view s' = view s \<or>
        (\<exists>r0 rec v K. view s l = Some r0 \<and> transition_to (tick l) Disabled r0 = (Ok Disabled, rec) \<and> v = (view s)(l \<mapsto> rec) \<and>
           K \<subseteq> cascade_set v l \<and> view s' = disable_all tick K v))"
proof (cases "and_then (so_check_migration_fence st l s) (\<lambda>_. so_get_key_for_use st l s)")
  case (Err e)
  then show ?thesis using assms by (simp add: disable_key_def)
next
  case (Ok r0)
  then have r0: "view s l = Some r0" using get_key_for_use [OF assms, of l] by (cases "so_check_migration_fence st l s") auto
  obtain x rec where t: "transition_to (tick l) Disabled r0 = (x, rec)" by (cases "transition_to (tick l) Disabled r0")
  show ?thesis
  proof (cases x)
    case (Err p)
    then show ?thesis using Ok t assms by (cases p) (simp add: disable_key_def)
  next
    case x: (Ok y)
    have rec: "persisted rec = rec" "kr_lid rec = l" "y = Disabled"
      using transition_Ok_persisted [OF t [unfolded x]] view_lid [OF assms r0] t x
      by (auto simp: transition_to_def Let_def split: if_splits)
    obtain u s1 where u: "so_update_key st rec s = (u, s1)" by (cases "so_update_key st rec s")
    show ?thesis
    proof (cases u)
      case (Err e)
      then show ?thesis using Ok t x u assms update_err [OF assms, of rec e s1] by (auto simp: disable_key_def)
    next
      case uo: (Ok z)
      then have s1: "inv s1" "view s1 = (view s)(l \<mapsto> rec)" using update_ok [OF assms, of rec z s1] u rec by simp_all
      then obtain r s' where loop: "cascade_loop env st tick [l] 0 s1 = Some (r, s')" "inv s'" "case r of
          Ok m \<Rightarrow> view s' = disable_all tick (cascade_set (view s1) l) (view s1) \<and> m = card (cascade_set (view s1) l)
        | Err e \<Rightarrow> \<exists>K \<subseteq> cascade_set (view s1) l. view s' = disable_all tick K (view s1)"
        using cascade_loop_result [OF cascading_init [OF s1(1) rec(2)], where env = env and tick = tick] by auto
      show ?thesis
        using loop r0 t x u uo rec s1 Ok by (cases r) (auto simp: disable_key_def)
    qed
  qed
qed

end

section \<open>The SQLite store as a storage\<close>

record sqlite_state =
  ss_db :: sqlite_db
  ss_jobs :: rotation_table

record sqlite_texts =
  sq_parse_error :: string
  sq_show_codec_error :: "codec_error \<Rightarrow> string"

definition on_db :: "('a \<times> sqlite_db) \<Rightarrow> sqlite_state \<Rightarrow> 'a \<times> sqlite_state" where
  "on_db p s = (case p of (x, db) \<Rightarrow> (x, s\<lparr>ss_db := db\<rparr>))"

definition sqlite_storage :: "sqlite_texts \<Rightarrow> sqlite_state storage" where
  "sqlite_storage q =
     \<lparr>so_get_key = \<lambda>l s. get_key (sq_parse_error q) l (ss_db s),
      so_get_key_for_use = default_get_key_for_use (\<lambda>l s. get_key (sq_parse_error q) l (ss_db s)),
      so_check_migration_fence = \<lambda>l s. migration_guard (ss_db s) l,
      so_create_key = \<lambda>r s. on_db (create_key_store (sq_show_codec_error q) r (ss_db s)) s,
      so_update_key = \<lambda>r s. on_db (update_key_store (sq_show_codec_error q) r (ss_db s)) s,
      so_list_children = \<lambda>p s. list_children (sq_parse_error q) p (ss_db s),
      so_create_rotation_job = \<lambda>j s. (case create_rotation_job j (ss_jobs s) of (x, t) \<Rightarrow> (x, s\<lparr>ss_jobs := t\<rparr>))\<rparr>"

lemma list_all_keys:
  assumes "keys_ok db"
  shows "\<exists>rs. decode_keys e (db_keys db) = Ok rs \<and> distinct (map kr_lid rs) \<and> set rs = {r. stored db (kr_lid r) = Some r}"
proof -
  obtain rs where rs: "decode_keys e (db_keys db) = Ok rs" "map fst (db_keys db) = map kr_lid rs"
      "map (\<lambda>p. kt_json (snd p)) (db_keys db) = map Encodes rs"
    using decode_keys_ok [of "db_keys db" e] assms by (auto simp: keys_ok_def)
  have dist: "distinct (map fst (db_keys db))" using assms by (simp add: keys_ok_def)
  have len: "length rs = length (db_keys db)" using arg_cong [OF rs(2), of length] by simp
  have nth: "fst (db_keys db ! i) = kr_lid (rs ! i)" "kt_json (snd (db_keys db ! i)) = Encodes (rs ! i)" if "i < length rs" for i
    using that len arg_cong [OF rs(2), of "\<lambda>x. x ! i"] arg_cong [OF rs(3), of "\<lambda>x. x ! i"] by simp_all
  have "r \<in> set rs \<longleftrightarrow> stored db (kr_lid r) = Some r" for r
  proof
    assume "r \<in> set rs"
    then obtain i where i: "i < length rs" "rs ! i = r" by (auto simp: in_set_conv_nth)
    then have "db_keys db ! i \<in> set (db_keys db)" using len by simp
    then have "map_of (db_keys db) (kr_lid r) = Some (snd (db_keys db ! i))"
      using dist nth(1) [OF i(1)] i(2) by (simp add: map_of_eq_Some_iff [OF dist]) (metis prod.collapse)
    then show "stored db (kr_lid r) = Some r" using nth(2) [OF i(1)] i(2) by (simp add: stored_def)
  next
    assume "stored db (kr_lid r) = Some r"
    then obtain row where "(kr_lid r, row) \<in> set (db_keys db)" "kt_json row = Encodes r"
      by (auto simp: stored_def split: option.splits json.splits dest: map_of_SomeD)
    then show "r \<in> set rs" using nth len by (fastforce simp: in_set_conv_nth)
  qed
  then show ?thesis using rs dist by auto
qed

lemma update_key_store_Ok:
  assumes "keys_ok db" "update_key_store show_error r db = (Ok u, db')"
  obtains p where "stored db (kr_lid r) = Some p" "unat (occ_version r) = unat (occ_version p) + 1"
    "keys_ok db'" "stored db' = (stored db)(kr_lid r \<mapsto> persisted r)"
proof -
  let ?row = "\<lparr>kt_json = Encodes (persisted r), kt_occ = uint (occ_version r)\<rparr>"
  obtain x where body: "update_key_body r ?row db = Ok (x, db')"
    and facts: "occ_version r \<noteq> 0" "is_ok (record_value (persisted r))" "occ_version r \<le> i64_max"
    using assms(2)
    by (auto simp: update_key_store_def creation_tx_def is_ok_def split: if_splits result.splits)
  obtain p where p: "stored db (kr_lid r) = Some p" "unat (occ_version r) = unat (occ_version p) + 1"
      "db_keys db' = db_keys (put_key (persisted r) db)"
    by (rule update_key_body_Ok [OF assms(1) facts(3,1) body])
  have "storable (persisted r)" using facts by (simp add: storable_def)
  then have "keys_ok db'" using keys_ok_frame [OF p(3)] keys_ok_put_key [OF assms(1)] by simp
  moreover have "stored db' = (stored db)(kr_lid r \<mapsto> persisted r)"
    using stored_frame [OF p(3)] by (simp add: fun_eq_iff stored_put_key)
  ultimately show ?thesis using that p by blast
qed

lemma update_key_store_Err: "update_key_store show_error r db = (Err e, db') \<Longrightarrow> db' = db"
  by (auto simp: update_key_store_def creation_tx_def split: if_splits result.splits)

lemma get_key_stored: "keys_ok db \<Longrightarrow> get_key e l db = ok_or (KeyNotFound l) (stored db l)"
  by (auto simp: get_key_def stored_def from_str_def row_ok_def split: option.splits dest!: keys_ok_row)

lemma finite_stored: "finite (dom (stored db))"
  by (rule finite_subset [of _ "dom (map_of (db_keys db))"]) (auto simp: stored_def finite_dom_map_of split: option.splits)

interpretation sqlite: key_storage "sqlite_storage q" "\<lambda>s. stored (ss_db s)" "\<lambda>s. keys_ok (ss_db s)"
proof
  fix s :: sqlite_state
  assume ok: "keys_ok (ss_db s)"
  show "finite (dom (stored (ss_db s)))" by (rule finite_stored)
  show "so_get_key_for_use (sqlite_storage q) l s = ok_or (KeyNotFound l) (stored (ss_db s) l)" for l
    by (simp add: sqlite_storage_def default_get_key_for_use_def get_key_stored [OF ok])
  show "stored (ss_db s) l = Some r \<Longrightarrow> kr_lid r = l" for l r
    using stored_lid [OF ok] by blast
  obtain rs where rs: "decode_keys (sq_parse_error q) (db_keys (ss_db s)) = Ok rs" "distinct (map kr_lid rs)"
      "set rs = {r. stored (ss_db s) (kr_lid r) = Some r}"
    using list_all_keys [OF ok] by blast
  show "\<exists>cs. so_list_children (sqlite_storage q) p s = Ok cs \<and> distinct (map kr_lid cs) \<and>
      set cs = {r. stored (ss_db s) (kr_lid r) = Some r \<and> parent_lid r = Some p}" for p
    using rs by (intro exI [of _ "filter (\<lambda>r. parent_lid r = Some p) rs"])
      (auto simp: sqlite_storage_def list_children_def distinct_map_filter)
  show "keys_ok (ss_db s') \<and> stored (ss_db s') = (stored (ss_db s))(kr_lid r \<mapsto> persisted r)"
    if "so_update_key (sqlite_storage q) r s = (Ok u, s')" for r u s'
  proof -
    have "update_key_store (sq_show_codec_error q) r (ss_db s) = (Ok u, ss_db s')"
      using that by (auto simp: sqlite_storage_def on_db_def split: prod.splits)
    then show ?thesis by (rule update_key_store_Ok [OF ok]) simp
  qed
  show "s' = s" if "so_update_key (sqlite_storage q) r s = (Err e, s')" for r e s'
    using that update_key_store_Err [of "sq_show_codec_error q" r "ss_db s" e]
    by (auto simp: sqlite_storage_def on_db_def split: prod.splits)
qed

end
