(* ===== verification/Disabling.thy ===== *)
theory Disabling
  imports Lifecycle
begin

text \<open>
  The effect of \<open>disable_key\<close> (\<open>keyrack-service/src/domain.rs\<close>) on the SQLite store, from the
  interface lemmas of \<open>Lifecycle\<close>, and the keys its cascade does not reach.
\<close>

section \<open>The effect of disabling a key\<close>

text \<open>
  C17: Disabling a key in the SQLite store always returns, also where parent links form a cycle. When it
  succeeds, the key is disabled, the keys reached from it through enabled children are exactly the ones
  disabled with it, their number is the reported count, and no other key changes. When a write fails,
  each key is as before or in its disabled form: the call never leaves a key in any other state.
\<close>

theorem disable_key_cascades:
  assumes "keys_ok (ss_db s)"
  shows "\<exists>r s'. disable_key env (sqlite_storage q) tick l s = Some (r, s') \<and> keys_ok (ss_db s') \<and> (case r of
      Ok (rec, n) \<Rightarrow> \<exists>old v. stored (ss_db s) l = Some old \<and> transition_to (tick l) Disabled old = (Ok Disabled, rec) \<and>
        v = (stored (ss_db s))(l \<mapsto> rec) \<and> n = card (cascade_set v l) \<and>
        (\<forall>c. stored (ss_db s') c = (if c \<in> cascade_set v l then map_option (disabled_form tick) (v c) else v c))
    | Err e \<Rightarrow> \<forall>c. stored (ss_db s') c = stored (ss_db s) c \<or>
        (\<exists>old new. stored (ss_db s) c = Some old \<and> stored (ss_db s') c = Some new \<and>
           transition_to (tick c) Disabled old = (Ok Disabled, new)))"
proof -
  obtain r s' where run: "disable_key env (sqlite_storage q) tick l s = Some (r, s')" "keys_ok (ss_db s')"
    and post: "case r of
        Ok (rec, m) \<Rightarrow> \<exists>r0 v. stored (ss_db s) l = Some r0 \<and> transition_to (tick l) Disabled r0 = (Ok Disabled, rec) \<and>
          v = (stored (ss_db s))(l \<mapsto> rec) \<and> stored (ss_db s') = disable_all tick (cascade_set v l) v \<and> m = card (cascade_set v l)
      | Err e \<Rightarrow> stored (ss_db s') = stored (ss_db s) \<or>
          (\<exists>r0 rec v K. stored (ss_db s) l = Some r0 \<and> transition_to (tick l) Disabled r0 = (Ok Disabled, rec) \<and>
             v = (stored (ss_db s))(l \<mapsto> rec) \<and> K \<subseteq> cascade_set v l \<and> stored (ss_db s') = disable_all tick K v)"
    using sqlite.disable_key_result [OF assms, of env q tick l] by blast
  show ?thesis
  proof (cases r)
    case (Ok p)
    with run post show ?thesis by (cases p) (auto simp: disable_all_def)
  next
    case (Err e)
    have "stored (ss_db s') c = stored (ss_db s) c \<or>
        (\<exists>old new. stored (ss_db s) c = Some old \<and> stored (ss_db s') c = Some new \<and>
           transition_to (tick c) Disabled old = (Ok Disabled, new))" for c
      using post unfolding Err result.case
    proof
      assume "\<exists>r0 rec v K. stored (ss_db s) l = Some r0 \<and> transition_to (tick l) Disabled r0 = (Ok Disabled, rec) \<and>
             v = (stored (ss_db s))(l \<mapsto> rec) \<and> K \<subseteq> cascade_set v l \<and> stored (ss_db s') = disable_all tick K v"
      then obtain r0 rec v K where *: "stored (ss_db s) l = Some r0" "transition_to (tick l) Disabled r0 = (Ok Disabled, rec)"
          "v = (stored (ss_db s))(l \<mapsto> rec)" "K \<subseteq> cascade_set v l" "stored (ss_db s') = disable_all tick K v" by blast
      have rec: "kr_state rec = Disabled" using transition_Ok_persisted [OF *(2)] by simp
      show ?thesis
      proof (cases "c \<in> K")
        case True
        then obtain r where r: "v c = Some r" "kr_state r = Enabled" using *(4) sqlite.cascade_set_enabled by blast
        then have c: "c \<noteq> l" "stored (ss_db s) c = Some r" using *(3) rec by (auto split: if_splits)
        have "kr_lid r = c" using stored_lid [OF assms c(2)] by simp
        then show ?thesis using *(5) True r c transition_enabled [OF r(2), of "tick c"] by (simp add: disable_all_def disabled_form_def)
      next
        case False
        then show ?thesis using * by (cases "c = l") (simp_all add: disable_all_def)
      qed
    qed simp
    with run show ?thesis unfolding Err by auto
  qed
qed

definition family_record :: "byte \<Rightarrow> lid option \<Rightarrow> key_state \<Rightarrow> key_record" where
  "family_record k parent s = (sample_stored s)\<lparr>kr_lid := Lid (fill k), parent_lid := parent\<rparr>"

definition family :: "key_state \<Rightarrow> sqlite_state" where
  "family s = \<lparr>ss_db = put_key (family_record 3 (Some (Lid (fill 2))) Enabled)
     (put_key (family_record 2 (Some (Lid (fill 1))) s) (put_key (family_record 1 None Enabled) empty_db)), ss_jobs = []\<rparr>"

lemmas family_defs = family_def family_record_def

lemma family_keys [simp]:
  "kr_lid (family_record k p s) = Lid (fill k)" "parent_lid (family_record k p s) = p" "kr_state (family_record k p s) = s"
  "occ_version (family_record k p s) = 4" "wrapping_parents (family_record k p s) = []"
  by (simp_all add: family_record_def wrapping_parents_def) (simp add: sample_stored_defs)

lemma family_storable: "storable (family_record k p s)"
  by (simp add: storable_def family_record_def sample_stored_defs record_value_def serialize_version_def i64_max_def word_le_nat_alt)

lemma family_ok: "keys_ok (ss_db (family s))"
  by (simp add: family_def keys_ok_put_key family_storable)

definition unjournaled :: "sqlite_db \<Rightarrow> bool" where
  "unjournaled db \<longleftrightarrow> creation_journals db = [] \<and> migration_journals db = [] \<and> destruction_journals db = []"

lemma unjournaled_guards:
  assumes "unjournaled db" "parent_lid r = parent_lid p" "list_all is_resident (key_versions p)"
  shows "migration_guard_update db p r = Ok ()" "creation_guard_update db p r = Ok ()" "destruction_guard_write db r = Ok ()"
proof -
  have g: "migration_guard db l = Ok ()" "destruction_guard db l = Ok ()" for l
    using assms(1) by (simp_all add: unjournaled_def migration_guard_def migration_active_def exists_row_def destruction_guard_def)
  then have "migration_guard_record db x = Ok ()" for x by (simp add: migration_guard_record_def guard_all_Ok)
  moreover have "\<not> list_ex (\<lambda>v. \<not> is_resident v) (key_versions p)" using assms(3) by (auto simp: list_ex_iff list_all_iff)
  ultimately show "migration_guard_update db p r = Ok ()"
    using assms(1,2) by (simp add: migration_guard_update_def unjournaled_def exists_row_def)
  show "creation_guard_update db p r = Ok ()"
    using assms(1) by (simp add: creation_guard_update_def unjournaled_def exists_row_def)
  show "destruction_guard_write db r = Ok ()" using g by (simp add: destruction_guard_write_def guard_all_Ok)
qed

text \<open>A write in a store without journals is refused only for its version number, its history or its bytes.\<close>

lemma update_unjournaled:
  assumes "keys_ok db" "unjournaled db" "stored db (kr_lid r) = Some p" "unat (occ_version r) = unat (occ_version p) + 1"
    and "storable (persisted r)" "has_compromise_history p \<longrightarrow> has_compromise_history r" "parent_lid r = parent_lid p"
    and "list_all is_resident (key_versions p)" "kr_state r \<noteq> Destroyed"
  shows "\<exists>db'. update_key_store show_error r db = (Ok (), db')"
proof -
  note guards = unjournaled_guards [OF assms(2,7,8)]
  have req: "required_key db (kr_lid r) = Ok p" using required_key_stored [OF assms(1), of "kr_lid r"] assms(3) by simp
  obtain row where row: "map_of (db_keys db) (kr_lid r) = Some row" "kt_occ row = uint (occ_version p)"
    using assms(3) keys_ok_row [OF assms(1), of "kr_lid r"]
    by (auto simp: stored_def row_ok_def split: option.splits)
  have occ: "uint (occ_version r) - 1 = uint (occ_version p)"
    using arg_cong [OF assms(4), of int] by simp
  have nz: "occ_version r \<noteq> 0" using assms(4) by auto
  have "unat (occ_version r - 1) = unat (occ_version p)"
    using assms(4) nz by (simp add: unat_sub_if' word_le_nat_alt unat_eq_zero [symmetric] Suc_leI)
  then have prev: "occ_version p = occ_version r - 1" by (simp add: word_unat_eq_iff)
  obtain w where w: "record_value (persisted r) = Ok w" "occ_version r \<le> i64_max" using assms(5) by (auto simp: storable_def is_ok_iff)
  obtain db1 where g: "destruction_guard_update r db = Ok ((), db1)" "db_keys db1 = db_keys db"
    using guards(3) req assms(9) by (auto simp: destruction_guard_update_def)
  have "update_key_row (kr_lid r) x (uint (occ_version r) - 1) db1 = (1, db1\<lparr>db_keys := AList.update (kr_lid r) x (db_keys db1)\<rparr>)" for x
    unfolding occ using row g(2) by (simp add: update_key_row_def)
  then have "\<exists>db'. update_key_body r \<lparr>kt_json = Encodes (persisted r), kt_occ = uint (occ_version r)\<rparr> db = Ok ((), db')"
    unfolding update_key_body_def req using prev assms(6) guards(1,2) g by simp
  then show ?thesis using w nz by (auto simp: update_key_store_def i64_try_from_def creation_tx_def)
qed

lemma family_stored: "stored (ss_db (family s)) l =
    (if l = Lid (fill 3) then Some (family_record 3 (Some (Lid (fill 2))) Enabled)
     else if l = Lid (fill 2) then Some (family_record 2 (Some (Lid (fill 1))) s)
     else if l = Lid (fill 1) then Some (family_record 1 None Enabled) else None)"
  by (simp add: family_def stored_put_key) (simp add: stored_def empty_db_def)

lemma disabled_family_storable:
  "storable (disabled_form tick (family_record k p Enabled))" "persisted (disabled_form tick (family_record k p Enabled)) = disabled_form tick (family_record k p Enabled)"
  using persisted_disabled_form [of "family_record k p Enabled" tick]
  by (simp_all add: storable_def disabled_form_def transition_to_def Let_def family_record_def sample_stored_defs record_value_def
      serialize_version_def i64_max_def word_le_nat_alt can_transition_to_def)

lemma family_root_disabled:
  "\<exists>s1. so_update_key (sqlite_storage q) (disabled_form tick (family_record 1 None Enabled)) (family s) = (Ok (), s1)"
proof -
  let ?r = "family_record 1 None Enabled"
  have "\<exists>db'. update_key_store (sq_show_codec_error q) (disabled_form tick ?r) (ss_db (family s)) = (Ok (), db')"
  proof (rule update_unjournaled [where p = ?r])
    show "unjournaled (ss_db (family s))" by (simp add: unjournaled_def family_def put_key_def empty_db_def)
    show "list_all is_resident (key_versions ?r)" by (simp add: family_record_def sample_stored_defs is_resident_def)
  qed (simp_all add: family_ok family_stored disabled_family_storable,
       simp_all add: disabled_form_def transition_to_def Let_def has_compromise_history_def)
  then show ?thesis by (auto simp: sqlite_storage_def on_db_def)
qed

lemma disable_family:
  "\<exists>s'. disable_key env (sqlite_storage q) tick (Lid (fill 1)) (family Disabled) =
     Some (Ok (disabled_form tick (family_record 1 None Enabled), 0), s') \<and>
     stored (ss_db s') = (stored (ss_db (family Disabled)))(Lid (fill 1) \<mapsto> disabled_form tick (family_record 1 None Enabled))"
proof -
  let ?st = "sqlite_storage q" and ?r = "family_record 1 None Enabled" and ?m = "family_record 2 (Some (Lid (fill 1))) Disabled"
  obtain s1 where up: "so_update_key ?st (disabled_form tick ?r) (family Disabled) = (Ok (), s1)"
    using family_root_disabled by blast
  have s1: "keys_ok (ss_db s1)" "stored (ss_db s1) = (stored (ss_db (family Disabled)))(Lid (fill 1) \<mapsto> disabled_form tick ?r)"
    using sqlite.update_ok [OF family_ok up] disabled_family_storable(2) [of tick 1 None] by simp_all
  obtain cs where cs: "so_list_children ?st (Lid (fill 1)) s1 = Ok cs" "distinct (map kr_lid cs)"
      "set cs = {r. stored (ss_db s1) (kr_lid r) = Some r \<and> parent_lid r = Some (Lid (fill 1))}"
    using sqlite.list_children [OF s1(1)] by blast
  have "r \<in> set cs \<longleftrightarrow> r = ?m" for r
    unfolding cs(3) s1(2) by (auto simp: family_stored split: if_splits)
  then have only: "set cs = {?m}" by blast
  then have "length cs = 1" using distinct_card [of cs] cs(2) by (simp add: distinct_map)
  then obtain m where "cs = [m]" by (cases cs) simp_all
  then have "cs = [?m]" using only by (simp only: list.set singleton_insert_inj_eq)
  then have loop: "cascade_loop env ?st tick [Lid (fill 1)] 0 s1 = Some (Ok 0, s1)"
    using cs(1) cascade_loop.simps [of env ?st tick "[Lid (fill 1)]" 0 s1] cascade_loop.simps [of env ?st tick "[]" 0 s1] by simp
  have t: "transition_to (tick (Lid (fill 1))) Disabled ?r = (Ok Disabled, disabled_form tick ?r)"
    unfolding disabled_form_def family_keys by (rule transition_enabled) simp
  have fence: "so_check_migration_fence ?st (Lid (fill 1)) (family Disabled) = Ok ()"
    by (simp add: sqlite_storage_def migration_guard_def migration_active_def family_def put_key_def empty_db_def exists_row_def)
  have get: "so_get_key_for_use ?st (Lid (fill 1)) (family Disabled) = Ok ?r"
    using sqlite.get_key_for_use [OF family_ok] by (simp add: family_stored)
  show ?thesis using s1(2) by (intro exI [of _ s1]) (simp add: disable_key_def fence get t up loop)
qed

text \<open>The keys below another one, by a path of parent links that does not pass the target.\<close>

definition below :: "(lid \<Rightarrow> key_record option) \<Rightarrow> lid \<Rightarrow> lid \<Rightarrow> lid \<Rightarrow> bool" where
  "below v l = (\<lambda>x y. y \<noteq> l \<and> (\<exists>r. v y = Some r \<and> parent_lid r = Some x))\<^sup>+\<^sup>+"

lemma cascade_set_parent:
  assumes "y \<in> cascade_set v l" and "v y = Some r" and "parent_lid r = Some x"
  shows "x \<in> insert l (cascade_set v l)"
proof -
  obtain z where z: "enabled_child v z y" "z = l \<or> (enabled_child v)\<^sup>+\<^sup>+ l z"
    using assms(1) unfolding cascade_set_def by (auto elim: tranclp.cases)
  then have "z = x" using assms(2,3) by (simp add: enabled_child_def)
  with z(2) show ?thesis by (auto simp: cascade_set_def)
qed

lemma below_not_reached:
  assumes "below v l p d" and "p \<noteq> l" and "p \<notin> cascade_set w l" and "\<And>y. y \<noteq> l \<Longrightarrow> w y = v y"
  shows "d \<noteq> l \<and> d \<notin> cascade_set w l"
  using assms(1) unfolding below_def
proof (induction rule: tranclp_induct)
  case (base y)
  with assms(2-4) cascade_set_parent [of y w l _ p] show ?case by auto
next
  case (step y z)
  with assms(4) cascade_set_parent [of z w l _ y] show ?case by auto
qed

text \<open>
  C38: The cascade does not pass a key that is not enabled. Whether disabling a key succeeds or fails,
  every key below another key that is not enabled, by parent links that do not lead through the
  target, is left exactly as it was, the enabled ones included. The documentation of \<open>disable_key\<close>
  promises that every enabled key beneath the target is disabled.
\<close>

theorem cascade_stops_at_disabled_child:
  assumes "keys_ok (ss_db s)" and "disable_key env (sqlite_storage q) tick l s = Some (r, s')"
    and "stored (ss_db s) p = Some pr" and "kr_state pr \<noteq> Enabled" and "p \<noteq> l" and "below (stored (ss_db s)) l p d"
  shows "stored (ss_db s') d = stored (ss_db s) d"
proof -
  have kept: "disable_all tick K v d = stored (ss_db s) d"
    if v: "v = (stored (ss_db s))(l \<mapsto> rec)" and K: "K \<subseteq> cascade_set v l" for K v rec
  proof -
    have "v p = Some pr" using v assms(3,5) by simp
    then have "p \<notin> cascade_set v l" using assms(4) sqlite.cascade_set_enabled by fastforce
    then have "d \<noteq> l \<and> d \<notin> cascade_set v l"
      by (rule below_not_reached [OF assms(6,5)]) (simp add: v)
    with v K show ?thesis by (auto simp: disable_all_def)
  qed
  have "case r of
      Ok (rec, m) \<Rightarrow> \<exists>r0 v. stored (ss_db s) l = Some r0 \<and> transition_to (tick l) Disabled r0 = (Ok Disabled, rec) \<and>
        v = (stored (ss_db s))(l \<mapsto> rec) \<and> stored (ss_db s') = disable_all tick (cascade_set v l) v \<and> m = card (cascade_set v l)
    | Err e \<Rightarrow> stored (ss_db s') = stored (ss_db s) \<or>
        (\<exists>r0 rec v K. stored (ss_db s) l = Some r0 \<and> transition_to (tick l) Disabled r0 = (Ok Disabled, rec) \<and>
           v = (stored (ss_db s))(l \<mapsto> rec) \<and> K \<subseteq> cascade_set v l \<and> stored (ss_db s') = disable_all tick K v)"
    using sqlite.disable_key_result [OF assms(1), of env q tick l] assms(2) by auto
  then show ?thesis using kept by (cases r) (auto split: prod.splits)
qed

definition sample_service :: service_env where
  "sample_service = \<lparr>se_display = (\<lambda>_. ''error''), se_display_state = (\<lambda>_. ''state'')\<rparr>"

definition sample_texts :: sqlite_texts where
  "sample_texts = \<lparr>sq_parse_error = ''parse'', sq_show_codec_error = (\<lambda>_. ''codec'')\<rparr>"

theorem disable_key_cascades_witness:
  "\<exists>rec s'. disable_key sample_service (sqlite_storage sample_texts) (\<lambda>_. 9) (Lid (fill 1)) (family Disabled) = Some (Ok (rec, 0), s') \<and>
     card (cascade_set ((stored (ss_db (family Disabled)))(Lid (fill 1) \<mapsto> rec)) (Lid (fill 1))) = 0"
proof -
  obtain rec s' where run: "disable_key sample_service (sqlite_storage sample_texts) (\<lambda>_. 9) (Lid (fill 1)) (family Disabled) =
      Some (Ok (rec, 0), s')"
    using disable_family [of sample_service sample_texts "\<lambda>_. 9"] by blast
  have "0 = card (cascade_set ((stored (ss_db (family Disabled)))(Lid (fill 1) \<mapsto> rec)) (Lid (fill 1)))"
    using disable_key_cascades [OF family_ok, of sample_service sample_texts "\<lambda>_. 9" "Lid (fill 1)" Disabled]
    unfolding run by (elim exE conjE) (simp only: option.inject prod.inject, elim conjE, hypsubst, simp only: result.case prod.case, elim exE conjE, hypsubst)
  then show ?thesis using run by metis
qed

theorem cascade_stops_at_disabled_child_witness:
  "\<exists>rec s' child grandchild. disable_key sample_service (sqlite_storage sample_texts) (\<lambda>_. 9) (Lid (fill 1)) (family Disabled) =
       Some (Ok (rec, 0), s') \<and>
     stored (ss_db s') (Lid (fill 2)) = Some child \<and> parent_lid child = Some (Lid (fill 1)) \<and>
     stored (ss_db s') (Lid (fill 3)) = Some grandchild \<and> parent_lid grandchild = Some (Lid (fill 2)) \<and>
     kr_state grandchild = Enabled"
proof -
  obtain rec s' where run: "disable_key sample_service (sqlite_storage sample_texts) (\<lambda>_. 9) (Lid (fill 1)) (family Disabled) =
      Some (Ok (rec, 0), s')" and after: "stored (ss_db s') = (stored (ss_db (family Disabled)))(Lid (fill 1) \<mapsto> rec)"
    using disable_family [of sample_service sample_texts "\<lambda>_. 9"] by blast
  have "below (stored (ss_db (family Disabled))) (Lid (fill 1)) (Lid (fill 2)) (Lid (fill 3))"
    unfolding below_def by (rule tranclp.r_into_trancl) (simp add: family_stored)
  from cascade_stops_at_disabled_child [OF family_ok run _ _ _ this]
  have "stored (ss_db s') (Lid (fill 3)) = stored (ss_db (family Disabled)) (Lid (fill 3))"
    by (simp add: family_stored)
  with run after show ?thesis by (auto simp: family_stored)
qed

end
