(* ===== verification/Rotate_Key.thy ===== *)
theory Rotate_Key
  imports Disabling
begin

text \<open>
  Key rotation (\<open>rotate_key\<close> in \<open>keyrack-service/src/domain.rs\<close>) over the storage interface: the checks,
  the traversal of the logical descendants, the new resident version on the provider of the primary one,
  its write with the clean-up of a refused one, and the rotation jobs. The rotation of a wrapped key,
  which runs a creation journal against a provider, is the argument \<open>rotate_wrapped\<close>; \<open>busy\<close> says whether a
  rotation of the key is in flight in this process. A provider is a pair of operations on a state \<open>'w\<close>; a
  missing default provider is the panic of the registry, \<^term>\<open>None\<close>. Audit records and notifications,
  whose failures are ignored, are not modelled.
\<close>

section \<open>The traversal\<close>

fun visit_children :: "key_record list \<Rightarrow> lid list \<Rightarrow> lid list \<Rightarrow> lid list \<Rightarrow> lid list \<times> lid list \<times> lid list" where
  "visit_children [] queue visited deps = (queue, visited, deps)"
| "visit_children (dep # cs) queue visited deps =
     (if kr_lid dep \<in> set visited then visit_children cs queue visited deps
      else visit_children cs (kr_lid dep # queue) (kr_lid dep # visited) (deps @ [kr_lid dep]))"

partial_function (option) collect_dependents ::
  "'s storage \<Rightarrow> 's \<Rightarrow> lid list \<Rightarrow> lid list \<Rightarrow> lid list \<Rightarrow> (lid list, keyrack_error) result option" where
  "collect_dependents st s queue visited deps = (case queue of
       [] \<Rightarrow> Some (Ok deps)
     | parent # queue \<Rightarrow> (case so_list_children st parent s of
         Err e \<Rightarrow> Some (Err e)
       | Ok cs \<Rightarrow> (case visit_children cs queue visited deps of
           (queue, visited, deps) \<Rightarrow> collect_dependents st s queue visited deps)))"

section \<open>The new version\<close>

record ('p, 'w) key_provider =
  kp_generate_key :: "'p \<Rightarrow> key_spec \<Rightarrow> 'w \<Rightarrow> (key_handle, keyrack_error) result \<times> 'w"
  kp_destroy_key :: "'p \<Rightarrow> key_handle \<Rightarrow> 'w \<Rightarrow> (unit, keyrack_error) result \<times> 'w"

definition WRAPPED_UNSUPPORTED :: string where
  "WRAPPED_UNSUPPORTED = ''parent-wrapped material is not supported by this operation''"

definition wrapped_history :: "key_record \<Rightarrow> (bool, domain_error) result" where
  "wrapped_history r =
     (let n = length (filter (\<lambda>v. \<not> is_resident v) (key_versions r)) in
      if n = 0 then Ok False
      else if n = length (key_versions r) \<and> parent_lid r \<noteq> None then Ok True
      else Err (FailedPrecondition WRAPPED_UNSUPPORTED))"

definition rotated_record :: "'p registry \<Rightarrow> timestamp \<Rightarrow> timestamp \<Rightarrow> key_handle \<Rightarrow> u64 \<Rightarrow> key_record \<Rightarrow> key_record" where
  "rotated_record g created updated h n r =
     (let binding = (case effective_provider_ref r (current_key_version r) of Some p \<Rightarrow> p | None \<Rightarrow> reg_default g) in
      r\<lparr>key_versions := map (\<lambda>v. v\<lparr>is_primary := False\<rparr>) (key_versions r) @
           [version_provider_resident n h (Some binding) created True],
        current_key_version := n, occ_version := occ_version r + 1, updated_at := updated\<rparr>)"

definition discard_unpublished_version :: "('p, 'w) key_provider \<Rightarrow> 'p \<Rightarrow> key_handle \<Rightarrow> 'w \<Rightarrow> 'w" where
  "discard_unpublished_version pv p h w = snd (kp_destroy_key pv p h w)"

definition rotate_resident ::
  "service_env \<Rightarrow> 's storage \<Rightarrow> 'p registry \<Rightarrow> ('p, 'w) key_provider \<Rightarrow> timestamp \<Rightarrow> timestamp \<Rightarrow> key_record \<Rightarrow> u64 \<Rightarrow>
     's \<Rightarrow> 'w \<Rightarrow> ((key_record, domain_error) result \<times> 's \<times> 'w) option" where
  "rotate_resident env st g pv created updated r n s w =
     (case resolve_for_primary registry_resolve registry_default_entry g r of
        None \<Rightarrow> None
      | Some (Err e) \<Rightarrow> Some (Err (domain_from (se_display env) e), s, w)
      | Some (Ok entry) \<Rightarrow> (case kp_generate_key pv (entry_provider entry) (kr_key_spec r) w of
          (Err e, w) \<Rightarrow> Some (Err (domain_from (se_display env) e), s, w)
        | (Ok h, w) \<Rightarrow>
            let r = rotated_record g created updated h n r in
            (case so_update_key st r s of
               (Ok _, s) \<Rightarrow> Some (Ok r, s, w)
             | (Err e, s) \<Rightarrow> Some (Err (domain_from (se_display env) e), s,
                 case e of
                   OptimisticConcurrencyConflict _ _ _ \<Rightarrow> discard_unpublished_version pv (entry_provider entry) h w
                 | _ \<Rightarrow> w))))"

section \<open>The call\<close>

record rotate_key_result =
  rk_record :: key_record
  rk_new_version :: u64
  rk_jobs_created :: nat
  rk_jobs_failed :: nat

fun enqueue_jobs ::
  "'s storage \<Rightarrow> (lid \<Rightarrow> timestamp) \<Rightarrow> (lid \<Rightarrow> string) \<Rightarrow> lid \<Rightarrow> u64 \<Rightarrow> lid list \<Rightarrow> nat \<Rightarrow> nat \<Rightarrow> 's \<Rightarrow> nat \<times> nat \<times> 's" where
  "enqueue_jobs st tick new_id l n [] created failed s = (created, failed, s)"
| "enqueue_jobs st tick new_id l n (d # ds) created failed s =
     (case so_create_rotation_job st (rotation_job_new (tick d) (new_id d) l d n) s of
        (Err _, s) \<Rightarrow> enqueue_jobs st tick new_id l n ds created (failed + 1) s
      | (Ok _, s) \<Rightarrow> enqueue_jobs st tick new_id l n ds (created + 1) failed s)"

definition rotation_in_progress :: domain_error where
  "rotation_in_progress = DomainProviderUnavailable ''another rotation of this key is in progress; retry after it finishes''"

definition rotation_slot :: "(lid \<Rightarrow> bool) \<Rightarrow> lid \<Rightarrow> (unit, domain_error) result" where
  "rotation_slot busy l = (if busy l then Err rotation_in_progress else Ok ())"

definition rotate_preflight ::
  "service_env \<Rightarrow> 's storage \<Rightarrow> lid \<Rightarrow> 's \<Rightarrow> (key_record \<times> bool \<times> u64, domain_error) result" where
  "rotate_preflight env st l s =
     and_then (map_err (domain_from (se_display env)) (so_check_migration_fence st l s)) (\<lambda>_.
     and_then (map_err (domain_from (se_display env)) (so_get_key_for_use st l s)) (\<lambda>r.
     if \<not> permits_encrypt r then Err (FailedPrecondition ''key must be Enabled to rotate'')
     else and_then (wrapped_history r) (\<lambda>w.
     and_then (ok_or (FailedPrecondition ''key version number exhausted'') (checked_add (current_key_version r) 1)) (\<lambda>n.
     if get_version r n \<noteq> None then Err (FailedPrecondition ''next key version already exists'')
     else Ok (r, w, n)))))"

definition rotate_key ::
  "service_env \<Rightarrow> 's storage \<Rightarrow> 'p registry \<Rightarrow> ('p, 'w) key_provider \<Rightarrow>
     (lid \<Rightarrow> 's \<Rightarrow> 'w \<Rightarrow> (key_record, domain_error) result \<times> 's \<times> 'w) \<Rightarrow> (lid \<Rightarrow> bool) \<Rightarrow>
     timestamp \<Rightarrow> timestamp \<Rightarrow> (lid \<Rightarrow> timestamp) \<Rightarrow> (lid \<Rightarrow> string) \<Rightarrow> lid \<Rightarrow> 's \<Rightarrow> 'w \<Rightarrow>
     ((rotate_key_result, domain_error) result \<times> 's \<times> 'w) option" where
  "rotate_key env st g pv rotate_wrapped busy made written tick new_id l s w =
     (case rotate_preflight env st l s of
        Err e \<Rightarrow> Some (Err e, s, w)
      | Ok (r, all_wrapped, n) \<Rightarrow> (case collect_dependents st s [l] [l] [] of
          None \<Rightarrow> None
        | Some (Err e) \<Rightarrow> Some (Err (domain_from (se_display env) e), s, w)
        | Some (Ok deps) \<Rightarrow> (case rotation_slot busy l of
            Err e \<Rightarrow> Some (Err e, s, w)
          | Ok _ \<Rightarrow>
              (case (if all_wrapped then Some (rotate_wrapped l s w) else rotate_resident env st g pv made written r n s w) of
                 None \<Rightarrow> None
               | Some (Err e, s, w) \<Rightarrow> Some (Err e, s, w)
               | Some (Ok r, s, w) \<Rightarrow>
                   (case enqueue_jobs st tick new_id l (current_key_version r) deps 0 0 s of
                      (created, failed, s) \<Rightarrow>
                        Some (Ok \<lparr>rk_record = r, rk_new_version = current_key_version r,
                                  rk_jobs_created = created, rk_jobs_failed = failed\<rparr>, s, w))))))"

section \<open>The descendants of a key\<close>

definition child_of :: "(lid \<Rightarrow> key_record option) \<Rightarrow> lid \<Rightarrow> lid \<Rightarrow> bool" where
  "child_of v p c \<longleftrightarrow> (\<exists>r. v c = Some r \<and> parent_lid r = Some p)"

definition descendants :: "(lid \<Rightarrow> key_record option) \<Rightarrow> lid \<Rightarrow> lid set" where
  "descendants v l = {c. (child_of v)\<^sup>+\<^sup>+ l c}"

lemma descendants_stored: "descendants v l \<subseteq> dom v"
proof
  fix c assume "c \<in> descendants v l"
  then have "\<exists>p. child_of v p c" unfolding descendants_def by (blast elim: tranclp.cases)
  then show "c \<in> dom v" by (auto simp: child_of_def)
qed

lemma descendants_step: "p \<in> insert l (descendants v l) \<Longrightarrow> child_of v p c \<Longrightarrow> c \<in> descendants v l"
  by (auto simp: descendants_def intro: tranclp.trancl_into_trancl)

lemma visit_children_new:
  "visit_children cs queue visited deps = (queue', visited', deps') \<Longrightarrow>
     \<exists>new. distinct new \<and> set new = kr_lid ` set cs - set visited \<and> queue' = rev new @ queue \<and> visited' = rev new @ visited \<and> deps' = deps @ new"
proof (induction cs arbitrary: queue visited deps)
  case (Cons c cs)
  show ?case
  proof (cases "kr_lid c \<in> set visited")
    case True
    then show ?thesis using Cons.IH [of queue visited deps] Cons.prems by auto
  next
    case False
    then obtain new where "distinct new" "set new = kr_lid ` set cs - set (kr_lid c # visited)" "queue' = rev new @ kr_lid c # queue"
        "visited' = rev new @ kr_lid c # visited" "deps' = (deps @ [kr_lid c]) @ new"
      using Cons.IH [of "kr_lid c # queue" "kr_lid c # visited" "deps @ [kr_lid c]"] Cons.prems by auto
    then show ?thesis using False by (intro exI [of _ "kr_lid c # new"]) auto
  qed
qed simp

text \<open>The loop invariant: what is visited and no longer queued has all its children visited.\<close>

definition traversing :: "(lid \<Rightarrow> key_record option) \<Rightarrow> lid \<Rightarrow> lid list \<Rightarrow> lid list \<Rightarrow> lid list \<Rightarrow> bool" where
  "traversing v l queue visited deps \<longleftrightarrow> set visited = insert l (set deps) \<and> l \<notin> set deps \<and> distinct deps \<and> set deps \<subseteq> descendants v l \<and>
     set queue \<subseteq> set visited \<and> (\<forall>p \<in> set visited. p \<notin> set queue \<longrightarrow> (\<forall>c. child_of v p c \<longrightarrow> c \<in> set visited))"

lemma traversing_step:
  assumes "traversing v l (p # queue) visited deps" "kr_lid ` set cs = {c. child_of v p c}"
    and "visit_children cs queue visited deps = (queue', visited', deps')" and fin: "finite (descendants v l)"
  shows "traversing v l queue' visited' deps'" "length queue' + card (descendants v l - set deps') = length queue + card (descendants v l - set deps)"
proof -
  obtain new where new: "distinct new" "set new = {c. child_of v p c} - set visited" "queue' = rev new @ queue" "visited' = rev new @ visited" "deps' = deps @ new"
    using visit_children_new [OF assms(3)] assms(2) by auto
  have J: "set visited = insert l (set deps)" "l \<notin> set deps" "distinct deps" "set deps \<subseteq> descendants v l" "p \<in> set visited" "set queue \<subseteq> set visited"
    using assms(1) by (auto simp: traversing_def)
  have closed: "c \<in> set visited" if "q \<in> set visited" "q \<notin> set (p # queue)" "child_of v q c" for q c
    using assms(1) that unfolding traversing_def by blast
  have sub: "set new \<subseteq> descendants v l" using descendants_step [of p l v] J(1,4,5) new(2) by auto
  have disj: "set new \<inter> set visited = {}" using new(2) by auto
  show "traversing v l queue' visited' deps'"
    unfolding traversing_def
  proof (intro conjI ballI impI allI)
    fix q c assume q: "q \<in> set visited'" "q \<notin> set queue'" "child_of v q c"
    then have "q \<in> set visited" "q \<notin> set queue" using new(3,4) by auto
    then show "c \<in> set visited'" using closed [of q c] q(3) new(2,4) by (cases "q = p") auto
  qed (use J new sub disj in auto)
  have "set new \<subseteq> descendants v l - set deps" using sub disj J(1) by auto
  then have small: "length new \<le> card (descendants v l - set deps)"
    using card_mono [of "descendants v l - set deps" "set new"] fin distinct_card [OF new(1)] by simp
  have "card (descendants v l - set deps') = card (descendants v l - set deps - set new)" using new(5) by (simp add: Diff_eq Int_assoc)
  also have "\<dots> = card (descendants v l - set deps) - card (set new)"
    using sub disj J(1) by (intro card_Diff_subset) auto
  finally show "length queue' + card (descendants v l - set deps') = length queue + card (descendants v l - set deps)"
    using new(1,3) small by (simp add: distinct_card)
qed

text \<open>A record that may be used has no compromise history, so it is stored as it is.\<close>

lemma persisted_rotated: "permits_encrypt r \<Longrightarrow> persisted (rotated_record g a b h n r) = rotated_record g a b h n r"
  by (simp add: persisted_def rotated_record_def Let_def has_compromise_history_def permits_encrypt_def)

locale rotation_storage = key_storage +
  assumes create_job: "inv s \<Longrightarrow> so_create_rotation_job st j s = (x, s') \<Longrightarrow> inv s' \<and> view s' = view s"
begin

lemma collect_dependents_result:
  assumes "inv s" "traversing (view s) l queue visited deps"
  shows "\<exists>ds. collect_dependents st s queue visited deps = Some (Ok ds) \<and> distinct ds \<and> set ds = descendants (view s) l - {l}"
  using assms(2)
proof (induction "length queue + card (descendants (view s) l - set deps)" arbitrary: queue visited deps rule: less_induct)
  case less
  show ?case
  proof (cases queue)
    case Nil
    have J: "set visited = insert l (set deps)" "l \<notin> set deps" "distinct deps" "set deps \<subseteq> descendants (view s) l"
      using less.prems Nil by (auto simp: traversing_def)
    have "\<forall>p \<in> set visited. p \<notin> set queue \<longrightarrow> (\<forall>c. child_of (view s) p c \<longrightarrow> c \<in> set visited)"
      using less.prems unfolding traversing_def by (elim conjE)
    then have closed: "c \<in> set visited" if "p \<in> set visited" "child_of (view s) p c" for p c
      using that Nil by simp
    have "c \<in> set visited" if "(child_of (view s))\<^sup>+\<^sup>+ l c" for c
      using that by (induction rule: tranclp_induct) (use closed J(1) in auto)
    then have "set deps = descendants (view s) l - {l}" using J by (auto simp: descendants_def)
    then show ?thesis using Nil J(3) by (subst collect_dependents.simps) simp
  next
    case (Cons p rest)
    obtain cs where cs: "so_list_children st p s = Ok cs" "set cs = {r. view s (kr_lid r) = Some r \<and> parent_lid r = Some p}"
      using list_children [OF assms(1), of p] by blast
    have kids: "kr_lid ` set cs = {c. child_of (view s) p c}"
    proof (intro set_eqI iffI)
      fix c assume "c \<in> {c. child_of (view s) p c}"
      then obtain r where r: "view s c = Some r" "parent_lid r = Some p" by (auto simp: child_of_def)
      have "kr_lid r = c" by (rule view_lid [OF assms(1) r(1)])
      with r show "c \<in> kr_lid ` set cs" unfolding cs(2) by (intro image_eqI [of _ _ r]) simp_all
    qed (auto simp: cs(2) child_of_def)
    obtain queue' visited' deps' where v: "visit_children cs rest visited deps = (queue', visited', deps')" by (metis prod_cases3)
    have fin: "finite (descendants (view s) l)" by (rule finite_subset [OF descendants_stored finite_view [OF assms(1)]])
    note step = traversing_step [OF less.prems [unfolded Cons] kids v fin]
    have "length queue' + card (descendants (view s) l - set deps') < length queue + card (descendants (view s) l - set deps)"
      using step(2) Cons by simp
    from less.hyps [OF this step(1)] show ?thesis
      using Cons cs(1) v by (subst collect_dependents.simps) simp
  qed
qed

lemma enqueue_jobs_result:
  assumes "inv s" "enqueue_jobs st tick new_id l n ds a b s = (created, failed, s')"
  shows "inv s' \<and> view s' = view s \<and> created + failed = a + b + length ds"
  using assms
proof (induction ds arbitrary: a b s)
  case (Cons d ds)
  obtain x s1 where x: "so_create_rotation_job st (rotation_job_new (tick d) (new_id d) l d n) s = (x, s1)" by fastforce
  note s1 = create_job [OF Cons.prems(1) x]
  show ?case using Cons.prems(2) Cons.IH [of s1] s1 x by (cases x) fastforce+
qed simp

lemma rotate_preflight_Ok:
  assumes "inv s" "rotate_preflight env st l s = Ok (r, w, n)"
  shows "view s l = Some r \<and> permits_encrypt r \<and> wrapped_history r = Ok w \<and> unat n = unat (current_key_version r) + 1 \<and> get_version r n = None"
  using assms get_key_for_use [OF assms(1), of l]
  by (auto simp: rotate_preflight_def map_err_Ok_iff split: if_splits dest!: checked_add_Some)

lemma rotate_resident_result:
  assumes "inv s" "registry_wf_default g" "view s l = Some r" "permits_encrypt r" "get_version r (current_key_version r) \<noteq> None"
  shows "\<exists>x s' w'. rotate_resident env st g pv a b r n s w = Some (x, s', w') \<and> inv s' \<and> (case x of
      Ok new \<Rightarrow> \<exists>e h. registry_resolve g (case effective_provider_ref r (current_key_version r) of Some p \<Rightarrow> p | None \<Rightarrow> reg_default g) = Ok e \<and>
        kp_generate_key pv (entry_provider e) (kr_key_spec r) w = (Ok h, w') \<and> new = rotated_record g a b h n r \<and> view s' = (view s)(l \<mapsto> new)
    | Err _ \<Rightarrow> s' = s)"
proof -
  let ?b = "case effective_provider_ref r (current_key_version r) of Some p \<Rightarrow> p | None \<Rightarrow> reg_default g"
  have lid: "kr_lid r = l" by (rule view_lid [OF assms(1,3)])
  have res: "resolve_for_primary registry_resolve registry_default_entry g r = Some (registry_resolve g ?b)"
    using dynamic_reg.version_lookup [OF assms(2), of r "current_key_version r"] assms(5) by (auto simp: resolve_for_primary_def)
  show ?thesis
  proof (cases "registry_resolve g ?b")
    case (Err e)
    then show ?thesis using res assms(1) by (simp add: rotate_resident_def)
  next
    case (Ok e)
    obtain y w1 where y: "kp_generate_key pv (entry_provider e) (kr_key_spec r) w = (y, w1)" by fastforce
    show ?thesis
    proof (cases y)
      case (Err z)
      then show ?thesis using res Ok y assms(1) by (simp add: rotate_resident_def)
    next
      case h: (Ok h)
      let ?new = "rotated_record g a b h n r"
      obtain u s1 where u: "so_update_key st ?new s = (u, s1)" by fastforce
      have new: "kr_lid ?new = l" "persisted ?new = ?new" using lid persisted_rotated [OF assms(4)] by (simp_all add: rotated_record_def Let_def)
      show ?thesis
      proof (cases u)
        case (Err z)
        then show ?thesis using update_err [OF assms(1) u [unfolded Err]] res Ok y h u assms(1) by (simp add: rotate_resident_def Let_def)
      next
        case (Ok z)
        then show ?thesis
          using update_ok [OF assms(1) u [unfolded Ok]] new res \<open>registry_resolve g ?b = Ok e\<close> y h u by (simp add: rotate_resident_def Let_def)
      qed
    qed
  qed
qed

lemma rotate_key_result:
  assumes "inv s" "registry_wf_default g" "view s l = Some r" "list_all is_resident (key_versions r)"
    and "get_version r (current_key_version r) \<noteq> None"
  shows "\<exists>x s' w'. rotate_key env st g pv rotate_wrapped busy made written tick new_id l s w = Some (x, s', w') \<and> inv s' \<and> (case x of
      Ok res \<Rightarrow> \<exists>e h n. registry_resolve g (case effective_provider_ref r (current_key_version r) of Some p \<Rightarrow> p | None \<Rightarrow> reg_default g) = Ok e \<and>
        kp_generate_key pv (entry_provider e) (kr_key_spec r) w = (Ok h, w') \<and> unat n = unat (current_key_version r) + 1 \<and> get_version r n = None \<and>
        rk_record res = rotated_record g made written h n r \<and> rk_new_version res = n \<and> view s' = (view s)(l \<mapsto> rk_record res) \<and>
        rk_jobs_created res + rk_jobs_failed res = card (descendants (view s) l - {l})
    | Err _ \<Rightarrow> view s' = view s)"
proof (cases "rotate_preflight env st l s")
  case (Err e)
  then show ?thesis using assms(1) by (simp add: rotate_key_def)
next
  case (Ok p)
  obtain r' wr n where p: "p = (r', wr, n)" by (cases p)
  note pre = rotate_preflight_Ok [OF assms(1) Ok [unfolded p]]
  have r': "r' = r" "\<not> wr" "permits_encrypt r" "unat n = unat (current_key_version r) + 1" "get_version r n = None"
    using pre assms(3,4) by (auto simp: wrapped_history_def filter_empty_conv list_all_iff)
  have "traversing (view s) l [l] [l] []" by (simp add: traversing_def)
  then obtain ds where ds: "collect_dependents st s [l] [l] [] = Some (Ok ds)" "distinct ds" "set ds = descendants (view s) l - {l}"
    using collect_dependents_result [OF assms(1)] by blast
  show ?thesis
  proof (cases "rotation_slot busy l")
    case slot: (Err e)
    then show ?thesis using Ok p ds(1) assms(1) by (simp add: rotate_key_def)
  next
    case slot: (Ok u)
    obtain x s1 w1 where x: "rotate_resident env st g pv made written r n s w = Some (x, s1, w1)" "inv s1"
      and post: "case x of
        Ok new \<Rightarrow> \<exists>e h. registry_resolve g (case effective_provider_ref r (current_key_version r) of Some p \<Rightarrow> p | None \<Rightarrow> reg_default g) = Ok e \<and>
          kp_generate_key pv (entry_provider e) (kr_key_spec r) w = (Ok h, w1) \<and> new = rotated_record g made written h n r \<and> view s1 = (view s)(l \<mapsto> new)
      | Err _ \<Rightarrow> s1 = s"
      using rotate_resident_result [OF assms(1,2,3) r'(3) assms(5), of env pv made written n w] by (elim exE conjE) (rule that)
    show ?thesis
    proof (cases x)
      case (Err e)
      then show ?thesis using Ok p r'(1,2) ds(1) slot x post by (simp add: rotate_key_def)
    next
      case new: (Ok new)
      obtain c f s2 where jobs: "enqueue_jobs st tick new_id l (current_key_version new) ds 0 0 s1 = (c, f, s2)" by (metis prod_cases3)
      have "inv s2 \<and> view s2 = view s1 \<and> c + f = length ds" using enqueue_jobs_result [OF x(2) jobs] by simp
      moreover have "length ds = card (descendants (view s) l - {l})" using distinct_card [OF ds(2)] ds(3) by simp
      moreover have "rotate_key env st g pv rotate_wrapped busy made written tick new_id l s w =
          Some (Ok \<lparr>rk_record = new, rk_new_version = current_key_version new, rk_jobs_created = c, rk_jobs_failed = f\<rparr>, s2, w1)"
        using Ok p r'(1,2) ds(1) slot x(1) new jobs by (simp add: rotate_key_def)
      ultimately show ?thesis using post new r'(4,5) by (auto simp: rotated_record_def Let_def)
    qed
  qed
qed

end

interpretation sqlite_rotation: rotation_storage "sqlite_storage q" "\<lambda>s. stored (ss_db s)" "\<lambda>s. keys_ok (ss_db s)"
  by unfold_locales (auto simp: sqlite_storage_def split: prod.splits)

section \<open>The effect of a rotation\<close>

text \<open>
  C18: Rotating a key with resident material over the SQLite store always returns, also where parent links
  form a cycle. When it succeeds, the new record is the old one with its versions kept in order, none of
  them primary, and one new primary version of the next number, generated by the provider the primary
  version was bound to and bound to it; it is stored, no other key changes, and every proper descendant
  is counted once, as a created or a failed rotation job. When it fails, the key table is unchanged.
\<close>

theorem rotate_key_keeps_history:
  assumes "registry_new ps dflt = Ok g0" "registry_run g0 g" "keys_ok (ss_db s)" "stored (ss_db s) l = Some old"
    and "list_all is_resident (key_versions old)" "get_version old (current_key_version old) \<noteq> None"
  shows "\<exists>x s' w'. rotate_key env (sqlite_storage q) g pv rotate_wrapped busy made written tick new_id l s w = Some (x, s', w') \<and> (case x of
      Ok res \<Rightarrow> \<exists>e h n binding. binding = (case effective_provider_ref old (current_key_version old) of Some p \<Rightarrow> p | None \<Rightarrow> dflt) \<and>
        registry_resolve g binding = Ok e \<and> kp_generate_key pv (entry_provider e) (kr_key_spec old) w = (Ok h, w') \<and>
        unat n = unat (current_key_version old) + 1 \<and> get_version old n = None \<and> rk_new_version res = n \<and>
        rk_record res = old\<lparr>key_versions := map (\<lambda>v. v\<lparr>is_primary := False\<rparr>) (key_versions old) @
            [version_provider_resident n h (Some binding) made True],
          current_key_version := n, occ_version := occ_version old + 1, updated_at := written\<rparr> \<and>
        stored (ss_db s') = (stored (ss_db s))(l \<mapsto> rk_record res) \<and>
        rk_jobs_created res + rk_jobs_failed res = card (descendants (stored (ss_db s)) l - {l})
    | Err _ \<Rightarrow> stored (ss_db s') = stored (ss_db s))"
proof -
  have g: "registry_wf_default g" "reg_default g = dflt"
    using registry_new_wf [OF assms(1)] registry_run_wf [OF assms(2)] by auto
  obtain x s' w' where run: "rotate_key env (sqlite_storage q) g pv rotate_wrapped busy made written tick new_id l s w = Some (x, s', w')"
    and post: "case x of
      Ok res \<Rightarrow> \<exists>e h n. registry_resolve g (case effective_provider_ref old (current_key_version old) of Some p \<Rightarrow> p | None \<Rightarrow> reg_default g) = Ok e \<and>
        kp_generate_key pv (entry_provider e) (kr_key_spec old) w = (Ok h, w') \<and> unat n = unat (current_key_version old) + 1 \<and> get_version old n = None \<and>
        rk_record res = rotated_record g made written h n old \<and> rk_new_version res = n \<and> stored (ss_db s') = (stored (ss_db s))(l \<mapsto> rk_record res) \<and>
        rk_jobs_created res + rk_jobs_failed res = card (descendants (stored (ss_db s)) l - {l})
    | Err _ \<Rightarrow> stored (ss_db s') = stored (ss_db s)"
    using sqlite_rotation.rotate_key_result [OF assms(3) g(1) assms(4-6), of env q pv rotate_wrapped busy made written tick new_id w]
    by (elim exE conjE) (rule that)
  show ?thesis
  proof (cases x)
    case (Ok res)
    from post [unfolded Ok result.case] show ?thesis
      unfolding run Ok g(2) rotated_record_def Let_def by (elim exE conjE) (intro exI conjI, rule refl, simp)
  next
    case (Err e)
    then show ?thesis using run post by simp
  qed
qed

definition single_provider :: "nat registry" where
  "single_provider = \<lparr>reg_providers = [(ProviderRef ''default'', \<lparr>entry_provider = 0, entry_class = Software\<rparr>)], reg_default = ProviderRef ''default''\<rparr>"

definition counting_provider :: "(nat, nat) key_provider" where
  "counting_provider = \<lparr>kp_generate_key = (\<lambda>p spec w. (Ok \<lparr>key_id = ''new'', handle_spec = spec\<rparr>, w + 1)), kp_destroy_key = (\<lambda>p h w. (Ok (), w))\<rparr>"

lemma family_rotated_storable:
  "storable (rotated_record single_provider a b \<lparr>key_id = ''new'', handle_spec = Aes256\<rparr> 4 (family_record 1 None Enabled))"
  by (simp add: storable_def rotated_record_def Let_def family_record_def sample_stored_defs record_value_def
      serialize_version_def i64_max_def word_le_nat_alt)

lemma family_preflight:
  "rotate_preflight env (sqlite_storage q) (Lid (fill 1)) (family Enabled) = Ok (family_record 1 None Enabled, False, 4)"
proof -
  let ?r = "family_record 1 None Enabled"
  have fence: "so_check_migration_fence (sqlite_storage q) (Lid (fill 1)) (family Enabled) = Ok ()"
    by (simp add: sqlite_storage_def migration_guard_def migration_active_def family_def put_key_def empty_db_def exists_row_def)
  have get: "so_get_key_for_use (sqlite_storage q) (Lid (fill 1)) (family Enabled) = Ok ?r"
    using sqlite.get_key_for_use [OF family_ok] by (simp add: family_stored)
  have "permits_encrypt ?r" "wrapped_history ?r = Ok False" "current_key_version ?r = 3" "get_version ?r 4 = None"
    by (simp_all add: permits_encrypt_def has_compromise_history_def state_permits_encrypt_def family_record_def sample_stored_defs
        wrapped_history_def is_resident_def get_version_def)
  then show ?thesis by (simp add: rotate_preflight_def fence get checked_add_def)
qed

lemma family_rotated:
  "\<exists>s1. so_update_key (sqlite_storage q) (rotated_record single_provider a b \<lparr>key_id = ''new'', handle_spec = Aes256\<rparr> 4 (family_record 1 None Enabled)) (family Enabled) =
     (Ok (), s1)"
proof -
  let ?r = "family_record 1 None Enabled" and ?h = "\<lparr>key_id = ''new'', handle_spec = Aes256\<rparr>"
  let ?new = "rotated_record single_provider a b ?h 4 ?r"
  have use: "permits_encrypt ?r"
    by (simp add: permits_encrypt_def has_compromise_history_def state_permits_encrypt_def family_record_def)
  have "\<exists>db'. update_key_store (sq_show_codec_error q) ?new (ss_db (family Enabled)) = (Ok (), db')"
  proof (rule update_unjournaled [where p = ?r])
    show "unjournaled (ss_db (family Enabled))" by (simp add: unjournaled_def family_def put_key_def empty_db_def)
    show "list_all is_resident (key_versions ?r)" by (simp add: family_record_def sample_stored_defs is_resident_def)
    show "storable (persisted ?new)" using family_rotated_storable [of a b] by (simp add: persisted_rotated [OF use])
  qed (simp_all add: family_ok family_stored rotated_record_def Let_def has_compromise_history_def)
  then show ?thesis by (auto simp: sqlite_storage_def on_db_def)
qed

theorem rotate_key_keeps_history_witness:
  "\<exists>res s' w' h. rotate_key sample_service (sqlite_storage sample_texts) single_provider counting_provider (\<lambda>_ s w. (Err (Internal []), s, w))
       (\<lambda>_. False) 9 10 (\<lambda>_. 11) (\<lambda>_. ''job'') (Lid (fill 1)) (family Enabled) (7 :: nat) = Some (Ok res, s', w') \<and>
     rk_new_version res = 4 \<and>
     key_versions (rk_record res) = [sample_version\<lparr>is_primary := False\<rparr>, version_provider_resident 4 h (Some (ProviderRef ''default'')) 9 True] \<and>
     stored (ss_db s') (Lid (fill 1)) = Some (rk_record res)"
proof -
  let ?r = "family_record 1 None Enabled" and ?st = "sqlite_storage sample_texts"
  let ?new = "rotated_record single_provider 9 10 \<lparr>key_id = ''new'', handle_spec = Aes256\<rparr> 4 ?r"
  have facts: "current_key_version ?r = 3" "key_versions ?r = [sample_version]" "kr_provider_ref ?r = None" "kr_key_spec ?r = Aes256"
      "version_provider_ref sample_version = None" "version_number sample_version = 3" "is_resident sample_version"
    by (simp_all add: family_record_def sample_stored_defs version_provider_ref_def is_resident_def)
  obtain ds where ds: "collect_dependents ?st (family Enabled) [Lid (fill 1)] [Lid (fill 1)] [] = Some (Ok ds)"
    using sqlite_rotation.collect_dependents_result [OF family_ok, of Enabled "Lid (fill 1)" "[Lid (fill 1)]" "[Lid (fill 1)]" "[]" sample_texts]
    by (auto simp: traversing_def)
  obtain s1 where up: "so_update_key ?st ?new (family Enabled) = (Ok (), s1)" using family_rotated by blast
  have res: "rotate_resident sample_service ?st single_provider counting_provider 9 10 ?r 4 (family Enabled) 7 = Some (Ok ?new, s1, 8)"
  proof -
    have "registry_default_entry single_provider = Some \<lparr>entry_provider = 0, entry_class = Software\<rparr>"
      by (simp add: registry_default_entry_def single_provider_def)
    moreover have "kp_generate_key counting_provider p spec w = (Ok \<lparr>key_id = ''new'', handle_spec = spec\<rparr>, w + 1)" for p spec w
      by (simp add: counting_provider_def)
    ultimately show ?thesis
      using up by (simp add: rotate_resident_def resolve_for_primary_def resolve_for_version_def facts get_version_def Let_def)
  qed
  obtain res s' where run: "rotate_key sample_service ?st single_provider counting_provider (\<lambda>_ s w. (Err (Internal []), s, w))
       (\<lambda>_. False) 9 10 (\<lambda>_. 11) (\<lambda>_. ''job'') (Lid (fill 1)) (family Enabled) 7 = Some (Ok res, s', 8)"
    using ds res by (cases "enqueue_jobs ?st (\<lambda>_. 11) (\<lambda>_. ''job'') (Lid (fill 1)) (current_key_version ?new) ds 0 0 s1")
      (simp add: rotate_key_def family_preflight rotation_slot_def)
  have reg: "registry_new [(ProviderRef ''default'', \<lparr>entry_provider = 0, entry_class = Software\<rparr>)] (ProviderRef ''default'') = Ok single_provider"
    by (simp add: registry_new_def collect_providers_def single_provider_def Let_def)
  have "stored (ss_db (family Enabled)) (Lid (fill 1)) = Some ?r" "list_all is_resident (key_versions ?r)"
      "get_version ?r (current_key_version ?r) \<noteq> None"
    by (simp_all add: family_stored facts get_version_def)
  from rotate_key_keeps_history [OF reg registry_run.run_refl family_ok this, of sample_service sample_texts counting_provider
      "\<lambda>_ s w. (Err (Internal []), s, w)" "\<lambda>_. False" 9 10 "\<lambda>_. 11" "\<lambda>_. ''job''" 7]
  obtain h n where "unat n = 4" "rk_new_version res = n"
      "key_versions (rk_record res) = [sample_version\<lparr>is_primary := False\<rparr>, version_provider_resident n h (Some (ProviderRef ''default'')) 9 True]"
      "stored (ss_db s') (Lid (fill 1)) = Some (rk_record res)"
    unfolding run by (auto simp: facts effective_provider_ref_def get_version_def)
  moreover have "n = 4" using \<open>unat n = 4\<close> by (simp add: word_unat_eq_iff)
  ultimately show ?thesis using run by (intro exI [of _ res] exI [of _ s'] exI [of _ 8] exI [of _ h]) simp
qed

end
