(* ===== verification/Deletion_Scan.thy ===== *)
theory Deletion_Scan
  imports Provider_Registry Store_Invariants
begin

text \<open>
  The deletion worker (\<open>keyrack-service/src/workers.rs\<close>): one pass that claims every due key, destroys
  the provider material of the claimed snapshot and completes the destruction. The storage is a
  record of the trait's methods; the providers are the parameter \<open>dk_destroy\<close> on a state \<open>'w\<close>. Audit
  events are appended to a log in the order of emission, without their timestamp and id; the code
  ignores a failed emission. The registry is the same for all passes of a run. A Rust panic
  (the registry's missing default) is \<^term>\<open>None\<close>. Metrics and log lines are not modelled.
\<close>

section \<open>Audit events of the worker\<close>

text \<open>Of an event, the fields the worker chooses: the action, the key, the result and the metadata.\<close>

datatype deletion_action = KeyDestroyed | KeyDestructionRefused | KeyDestructionRetried | KeyDestructionDeferred | ProviderDestroyKey

datatype deletion_result = Success | Error

datatype event_value = TextValue string | NumberValue u64 | BoolValue bool

record deletion_event =
  ev_action :: deletion_action
  ev_resource :: string
  ev_result :: deletion_result
  ev_metadata :: "(string \<times> event_value) list"

definition key_event :: "deletion_action \<Rightarrow> lid \<Rightarrow> deletion_result \<Rightarrow> (string \<times> event_value) list \<Rightarrow> deletion_event" where
  "key_event a l x m = \<lparr>ev_action = a, ev_resource = display_lid l, ev_result = x, ev_metadata = m\<rparr>"

section \<open>Interfaces\<close>

datatype destroy_outcome = Completed | AlreadyAbsent

record ('p, 'w) destroy_env =
  dk_destroy :: "'p \<Rightarrow> key_handle \<Rightarrow> 'w \<Rightarrow> (destroy_outcome, keyrack_error) result \<times> 'w"
  dk_display :: "keyrack_error \<Rightarrow> string"
  dk_uuid :: "uuid \<Rightarrow> string"

record 's destruction_storage =
  ds_list_keys :: "key_filter \<Rightarrow> 's \<Rightarrow> (key_record list \<times> string option, keyrack_error) result \<times> 's"
  ds_claim_destruction :: "lid \<Rightarrow> u64 \<Rightarrow> timestamp \<Rightarrow> 's \<Rightarrow> (destruction_claim option, keyrack_error) result \<times> 's"
  ds_complete_destruction :: "destruction_claim \<Rightarrow> 's \<Rightarrow> (key_record, keyrack_error) result \<times> 's"

text \<open>The trait's default for providers that do not report a prior absence.\<close>

definition default_destroy_with_outcome ::
  "('p \<Rightarrow> key_handle \<Rightarrow> 'w \<Rightarrow> (unit, keyrack_error) result \<times> 'w) \<Rightarrow>
     'p \<Rightarrow> key_handle \<Rightarrow> 'w \<Rightarrow> (destroy_outcome, keyrack_error) result \<times> 'w" where
  "default_destroy_with_outcome destroy p h w = (case destroy p h w of (x, w) \<Rightarrow> (and_then x (\<lambda>_. Ok Completed), w))"

section \<open>Destroying the material of one claim\<close>

definition emit_destroy_event ::
  "('p, 'w) destroy_env \<Rightarrow> destruction_claim \<Rightarrow> u64 \<Rightarrow> (destroy_outcome, string) result \<Rightarrow> deletion_event list \<Rightarrow> deletion_event list" where
  "emit_destroy_event env c n x log = log @ [key_event ProviderDestroyKey (kr_lid (dc_record c))
     (if is_ok x then Success else Error)
     ([(''key_version'', NumberValue n), (''operation_id'', TextValue (dk_uuid env (dc_operation c))),
       (''recovered'', BoolValue (dc_recovered c))] @
      (if x = Ok AlreadyAbsent then [(''reason'', TextValue ''provider_key_already_absent'')] else []) @
      (case x of Err reason \<Rightarrow> [(''error'', TextValue reason)] | Ok _ \<Rightarrow> []))]"

definition version_binding :: "'p registry \<Rightarrow> key_record \<Rightarrow> key_version_record \<Rightarrow> provider_ref" where
  "version_binding g r v = (case effective_provider_ref r (version_number v) of Some p \<Rightarrow> p | None \<Rightarrow> reg_default g)"

text \<open>Pin one instance for each effective binding, before the first effect.\<close>

fun pin_providers ::
  "'p registry \<Rightarrow> key_record \<Rightarrow> key_version_record list \<Rightarrow> 'p providers \<Rightarrow>
     ('p providers, u64 \<times> keyrack_error) result option" where
  "pin_providers g r [] ps = Some (Ok ps)"
| "pin_providers g r (v # vs) ps =
     (if map_of ps (version_binding g r v) \<noteq> None then pin_providers g r vs ps
      else case resolve_for_version registry_resolve registry_default_entry g r (version_number v) of
          None \<Rightarrow> None
        | Some (Ok e) \<Rightarrow> pin_providers g r vs (AList.update (version_binding g r v) e ps)
        | Some (Err e) \<Rightarrow> Some (Err (version_number v, e)))"

fun destroy_versions ::
  "('p, 'w) destroy_env \<Rightarrow> 'p registry \<Rightarrow> destruction_claim \<Rightarrow> 'p providers \<Rightarrow> key_version_record list \<Rightarrow>
     'w \<Rightarrow> deletion_event list \<Rightarrow> bool \<times> 'w \<times> deletion_event list" where
  "destroy_versions env g c ps [] w log = (True, w, log)"
| "destroy_versions env g c ps (v # vs) w log = (case resident_handle v of
       Err _ \<Rightarrow> (False, w, log)
     | Ok h \<Rightarrow> (case map_of ps (version_binding g (dc_record c) v) of
         None \<Rightarrow> (False, w, log)
       | Some e \<Rightarrow> (case dk_destroy env (entry_provider e) h w of
           (Ok outcome, w) \<Rightarrow>
             destroy_versions env g c ps vs w (emit_destroy_event env c (version_number v) (Ok outcome) log)
         | (Err x, w) \<Rightarrow>
             (False, w, emit_destroy_event env c (version_number v) (Err (dk_display env x)) log))))"

definition destroy_backend_material ::
  "('p, 'w) destroy_env \<Rightarrow> 'p registry \<Rightarrow> destruction_claim \<Rightarrow> 'w \<Rightarrow> deletion_event list \<Rightarrow>
     (bool \<times> 'w \<times> deletion_event list) option" where
  "destroy_backend_material env g c w log =
     (let r = dc_record c; resident = filter is_resident (key_versions r) in
      case validate_destruction_history r of
        Err e \<Rightarrow> Some (False, w, emit_destroy_event env c (current_key_version r) (Err (dk_display env e)) log)
      | Ok _ \<Rightarrow> (case pin_providers g r resident [] of
          None \<Rightarrow> None
        | Some (Err (n, e)) \<Rightarrow> Some (False, w, emit_destroy_event env c n (Err (dk_display env e)) log)
        | Some (Ok ps) \<Rightarrow> Some (destroy_versions env g c ps resident w log)))"

definition emit_destruction_progress ::
  "('p, 'w) destroy_env \<Rightarrow> destruction_claim \<Rightarrow> deletion_action \<Rightarrow> string \<Rightarrow> deletion_event list \<Rightarrow> deletion_event list" where
  "emit_destruction_progress env c a reason log = log @ [key_event a (kr_lid (dc_record c))
     (if a = KeyDestructionRetried then Success else Error)
     [(''operation_id'', TextValue (dk_uuid env (dc_operation c))), (''reason'', TextValue reason)]]"

section \<open>One pass\<close>

definition refusal_label :: "keyrack_error \<Rightarrow> string" where
  "refusal_label e = (case e of
       DeletionDependencyRefused reason _ \<Rightarrow>
         if reason \<in> {''in_flight_journal'', ''dependent_data_loss_not_approved'', ''dependent_outside_approved_snapshot''}
         then reason else ''storage_refusal''
     | _ \<Rightarrow> ''storage_refusal'')"

definition refusal_event :: "lid \<Rightarrow> keyrack_error \<Rightarrow> deletion_event" where
  "refusal_event l e = key_event KeyDestructionRefused l Error
     ((''reason'', TextValue (refusal_label e)) # (case e of
        DeletionDependencyRefused _ counts \<Rightarrow> [(''dependency_counts'', TextValue counts)] | _ \<Rightarrow> []))"

record ('s, 'w) scan_state =
  sc_store :: 's
  sc_world :: 'w
  sc_log :: "deletion_event list"
  sc_destroyed :: nat
  sc_failed :: nat

definition scan_failed :: "('s, 'w) scan_state \<Rightarrow> ('s, 'w) scan_state" where
  "scan_failed x = x\<lparr>sc_failed := sc_failed x + 1\<rparr>"

definition serve_claim ::
  "('p, 'w) destroy_env \<Rightarrow> 's destruction_storage \<Rightarrow> 'p registry \<Rightarrow> lid \<Rightarrow> destruction_claim \<Rightarrow>
     ('s, 'w) scan_state \<Rightarrow> ('s, 'w) scan_state option" where
  "serve_claim env st g l c x =
     (let log = (if dc_recovered c
                 then emit_destruction_progress env c KeyDestructionRetried ''durable_claim_resumed'' (sc_log x) else sc_log x)
      in case destroy_backend_material env g c (sc_world x) log of
        None \<Rightarrow> None
      | Some (False, w, log) \<Rightarrow>
          Some (scan_failed (x\<lparr>sc_world := w,
            sc_log := emit_destruction_progress env c KeyDestructionDeferred ''provider_outcome_unconfirmed'' log\<rparr>))
      | Some (True, w, log) \<Rightarrow> (case ds_complete_destruction st c (sc_store x) of
          (Err _, s) \<Rightarrow>
            Some (scan_failed (x\<lparr>sc_store := s, sc_world := w,
              sc_log := log @ [key_event KeyDestructionDeferred l Error
                [(''operation_id'', TextValue (dk_uuid env (dc_operation c))), (''reason'', TextValue ''completion_unconfirmed'')]]\<rparr>))
        | (Ok _, s) \<Rightarrow>
            Some (x\<lparr>sc_store := s, sc_world := w, sc_log := log @ [key_event KeyDestroyed l Success []],
                    sc_destroyed := sc_destroyed x + 1\<rparr>)))"

definition scan_item ::
  "('p, 'w) destroy_env \<Rightarrow> 's destruction_storage \<Rightarrow> 'p registry \<Rightarrow> timestamp \<Rightarrow> key_record \<Rightarrow>
     ('s, 'w) scan_state \<Rightarrow> ('s, 'w) scan_state option" where
  "scan_item env st g now r x =
     (if \<not> (case scheduled_deletion_at r of Some t \<Rightarrow> t \<le> now | None \<Rightarrow> False) then Some x
      else case ds_claim_destruction st (kr_lid r) (occ_version r) now (sc_store x) of
          (Ok None, s) \<Rightarrow> Some (x\<lparr>sc_store := s\<rparr>)
        | (Err e, s) \<Rightarrow> Some (scan_failed (x\<lparr>sc_store := s, sc_log := sc_log x @ [refusal_event (kr_lid r) e]\<rparr>))
        | (Ok (Some c), s) \<Rightarrow> serve_claim env st g (kr_lid r) c (x\<lparr>sc_store := s\<rparr>))"

fun scan_items ::
  "('p, 'w) destroy_env \<Rightarrow> 's destruction_storage \<Rightarrow> 'p registry \<Rightarrow> timestamp \<Rightarrow> key_record list \<Rightarrow>
     ('s, 'w) scan_state \<Rightarrow> ('s, 'w) scan_state option" where
  "scan_items env st g now [] x = Some x"
| "scan_items env st g now (r # rs) x = (case scan_item env st g now r x of
       None \<Rightarrow> None
     | Some x \<Rightarrow> scan_items env st g now rs x)"

definition pending_filter :: key_filter where
  "pending_filter = \<lparr>kf_state = Some PendingDeletion, kf_owner = None, kf_user_tags = [], kf_limit = None, kf_cursor = None\<rparr>"

definition run_deletion_scan_at ::
  "('p, 'w) destroy_env \<Rightarrow> 's destruction_storage \<Rightarrow> 'p registry \<Rightarrow> timestamp \<Rightarrow> 's \<Rightarrow> 'w \<Rightarrow> deletion_event list \<Rightarrow>
     ((unit, keyrack_error) result \<times> ('s, 'w) scan_state) option" where
  "run_deletion_scan_at env st g now s w log =
     (let start = (\<lambda>s. \<lparr>sc_store = s, sc_world = w, sc_log = log, sc_destroyed = 0, sc_failed = 0\<rparr>) in
      case ds_list_keys st pending_filter s of
        (Err e, s) \<Rightarrow> Some (Err e, start s)
      | (Ok (items, _), s) \<Rightarrow> map_option (\<lambda>x. (Ok (), x)) (scan_items env st g now items (start s)))"

text \<open>The worker: one pass at each timer tick; the error of a pass is logged and the loop goes on.\<close>

fun deletion_worker ::
  "('p, 'w) destroy_env \<Rightarrow> 's destruction_storage \<Rightarrow> 'p registry \<Rightarrow> timestamp list \<Rightarrow> 's \<Rightarrow> 'w \<Rightarrow> deletion_event list \<Rightarrow>
     ('s \<times> 'w \<times> deletion_event list) option" where
  "deletion_worker env st g [] s w log = Some (s, w, log)"
| "deletion_worker env st g (now # ticks) s w log = (case run_deletion_scan_at env st g now s w log of
       None \<Rightarrow> None
     | Some (_, x) \<Rightarrow> deletion_worker env st g ticks (sc_store x) (sc_world x) (sc_log x))"

section \<open>What the pass relies on\<close>

text \<open>A provider never brings destroyed material back, and a successful call leaves the handle without material.\<close>

definition provider_contract :: "('p, 'w) destroy_env \<Rightarrow> ('w \<Rightarrow> ('p \<times> key_handle) set) \<Rightarrow> bool" where
  "provider_contract env live \<longleftrightarrow> (\<forall>p h w x w'. dk_destroy env p h w = (x, w') \<longrightarrow>
     live w' \<subseteq> live w \<and> (is_ok x \<longrightarrow> (p, h) \<notin> live w'))"

lemmas provider_contractD = provider_contract_def [THEN iffD1, rule_format]

definition material_gone :: "'p registry \<Rightarrow> ('w \<Rightarrow> ('p \<times> key_handle) set) \<Rightarrow> key_record \<Rightarrow> 'w \<Rightarrow> bool" where
  "material_gone g live r w \<longleftrightarrow> (\<forall>v \<in> set (key_versions r). \<forall>h. resident_handle v = Ok h \<longrightarrow>
     (\<exists>e. registry_resolve g (version_binding g r v) = Ok e \<and> (entry_provider e, h) \<notin> live w))"

text \<open>Fences stay, and the record of a destroyed key is final.\<close>

definition keeps_fences :: "('s \<Rightarrow> lid \<Rightarrow> key_record option) \<Rightarrow> ('s \<Rightarrow> lid \<Rightarrow> bool) \<Rightarrow> 's \<Rightarrow> 's \<Rightarrow> bool" where
  "keeps_fences view fence s s' \<longleftrightarrow> (\<forall>l. fence s l \<longrightarrow> fence s' l \<and>
     (\<forall>r. view s l = Some r \<and> kr_state r = Destroyed \<longrightarrow> view s' l = Some r))"

locale destruction_contract =
  fixes st :: "'s destruction_storage"
    and view :: "'s \<Rightarrow> lid \<Rightarrow> key_record option"
    and fence :: "'s \<Rightarrow> lid \<Rightarrow> bool"
    and inv :: "'s \<Rightarrow> bool"
  assumes list_law: "inv s \<Longrightarrow> ds_list_keys st f s = (items, s') \<Longrightarrow> inv s' \<and> keeps_fences view fence s s'"
    and claim_law: "inv s \<Longrightarrow> ds_claim_destruction st l n now s = (x, s') \<Longrightarrow> inv s' \<and> keeps_fences view fence s s' \<and>
       (\<forall>c. x = Ok (Some c) \<longrightarrow> kr_lid (dc_record c) = l \<and> fence s' l)"
    and complete_law: "inv s \<Longrightarrow> ds_complete_destruction st c s = (y, s') \<Longrightarrow> inv s' \<and> keeps_fences view fence s s' \<and>
       (\<forall>r. y = Ok r \<longrightarrow> fence s' (kr_lid (dc_record c)) \<and> view s' (kr_lid (dc_record c)) = Some r \<and> kr_state r = Destroyed \<and>
          key_versions r = key_versions (dc_record c) \<and> kr_provider_ref r = kr_provider_ref (dc_record c))"

section \<open>Pinning and destroying\<close>

lemma get_version_member: "v \<in> set (key_versions r) \<Longrightarrow> get_version r (version_number v) \<noteq> None"
  by (auto simp: get_version_def find_None_iff)

lemma binding_resolved:
  assumes "registry_wf_default g" "v \<in> set (key_versions r)"
  shows "resolve_for_version registry_resolve registry_default_entry g r (version_number v) =
    Some (registry_resolve g (version_binding g r v))"
  using dynamic_reg.version_lookup [OF assms(1), of r "version_number v"] get_version_member [OF assms(2)]
  by (auto simp: version_binding_def)

lemma pin_providers_total:
  assumes "registry_wf_default g" "set vs \<subseteq> set (key_versions r)" "\<forall>b e. map_of ps b = Some e \<longrightarrow> registry_resolve g b = Ok e"
  shows "\<exists>x. pin_providers g r vs ps = Some x \<and>
    (\<forall>ps'. x = Ok ps' \<longrightarrow> (\<forall>b e. map_of ps' b = Some e \<longrightarrow> registry_resolve g b = Ok e))"
  using assms(2,3)
proof (induction vs arbitrary: ps)
  case (Cons v vs)
  then show ?case
    using binding_resolved [OF assms(1), of v r] Cons.IH [of ps] Cons.IH [of "AList.update (version_binding g r v) e ps" for e]
    by (cases "registry_resolve g (version_binding g r v)") (auto simp: update_conv')
qed simp

lemma emit_destroy_event_shape:
  "\<exists>es. emit_destroy_event env c n x log = log @ es \<and>
     (\<forall>e \<in> set es. ev_action e = ProviderDestroyKey \<and> ev_resource e = display_lid (kr_lid (dc_record c)))"
  by (simp add: emit_destroy_event_def key_event_def)

lemma destroy_versions_effect:
  assumes "provider_contract env live" "destroy_versions env g c ps vs w log = (done', w', log')"
  shows "live w' \<subseteq> live w \<and> (\<exists>es. log' = log @ es \<and> (\<forall>e \<in> set es. ev_action e = ProviderDestroyKey \<and> ev_resource e = display_lid (kr_lid (dc_record c)))) \<and>
    (done' \<longrightarrow> (\<forall>v \<in> set vs. \<exists>h e. resident_handle v = Ok h \<and> map_of ps (version_binding g (dc_record c) v) = Some e \<and>
       (entry_provider e, h) \<notin> live w'))"
  using assms(2)
proof (induction vs arbitrary: w log)
  case (Cons v vs)
  show ?case
  proof (cases "resident_handle v")
    case (Ok h)
    show ?thesis
    proof (cases "map_of ps (version_binding g (dc_record c) v)")
      case (Some e)
      obtain x w1 where d: "dk_destroy env (entry_provider e) h w = (x, w1)" by fastforce
      note law = provider_contractD [OF assms(1) d]
      show ?thesis
      proof (cases x)
        case x: (Ok outcome)
        then have rest: "destroy_versions env g c ps vs w1 (emit_destroy_event env c (version_number v) (Ok outcome) log) = (done', w', log')"
          using Cons.prems Ok Some d by simp
        have "(entry_provider e, h) \<notin> live w1" "live w1 \<subseteq> live w" using law x by auto
        with Cons.IH [OF rest] Ok Some show ?thesis
          by (auto simp: emit_destroy_event_def key_event_def)
      qed (use Cons.prems Ok Some d law in \<open>auto simp: emit_destroy_event_def key_event_def\<close>)
    qed (use Cons.prems Ok in auto)
  qed (use Cons.prems in auto)
qed auto

lemma destroy_backend_material_effect:
  assumes "provider_contract env live" "registry_wf_default g"
  shows "\<exists>d w' es. destroy_backend_material env g c w log = Some (d, w', log @ es) \<and> live w' \<subseteq> live w \<and>
    (\<forall>e \<in> set es. ev_action e = ProviderDestroyKey \<and> ev_resource e = display_lid (kr_lid (dc_record c))) \<and>
    (d \<longrightarrow> material_gone g live (dc_record c) w')"
proof (cases "validate_destruction_history (dc_record c)")
  case (Err e)
  then have "destroy_backend_material env g c w log =
      Some (False, w, emit_destroy_event env c (current_key_version (dc_record c)) (Err (dk_display env e)) log)"
    by (simp add: destroy_backend_material_def)
  moreover obtain es where "emit_destroy_event env c (current_key_version (dc_record c)) (Err (dk_display env e)) log = log @ es"
      "\<forall>e \<in> set es. ev_action e = ProviderDestroyKey \<and> ev_resource e = display_lid (kr_lid (dc_record c))"
    using emit_destroy_event_shape by blast
  ultimately show ?thesis by (intro exI [of _ False] exI [of _ w] exI [of _ es]) simp
next
  case (Ok u)
  let ?vs = "filter is_resident (key_versions (dc_record c))"
  have "set ?vs \<subseteq> set (key_versions (dc_record c))" "\<forall>b e. map_of ([] :: 'a providers) b = Some e \<longrightarrow> registry_resolve g b = Ok e" by auto
  from pin_providers_total [OF assms(2) this]
  obtain x where x: "pin_providers g (dc_record c) ?vs [] = Some x"
      "\<forall>ps. x = Ok ps \<longrightarrow> (\<forall>b e. map_of ps b = Some e \<longrightarrow> registry_resolve g b = Ok e)" by blast
  show ?thesis
  proof (cases x)
    case (Err p)
    then have "destroy_backend_material env g c w log = Some (False, w, emit_destroy_event env c (fst p) (Err (dk_display env (snd p))) log)"
      using x(1) Ok by (cases p) (simp add: destroy_backend_material_def)
    moreover obtain es where "emit_destroy_event env c (fst p) (Err (dk_display env (snd p))) log = log @ es"
        "\<forall>e \<in> set es. ev_action e = ProviderDestroyKey \<and> ev_resource e = display_lid (kr_lid (dc_record c))"
      using emit_destroy_event_shape by blast
    ultimately show ?thesis by (intro exI [of _ False] exI [of _ w] exI [of _ es]) simp
  next
    case p: (Ok ps)
    obtain d w' log' where run: "destroy_versions env g c ps ?vs w log = (d, w', log')" by (metis prod_cases3)
    note eff = destroy_versions_effect [OF assms(1) run]
    obtain es where es: "log' = log @ es" "\<forall>e \<in> set es. ev_action e = ProviderDestroyKey \<and> ev_resource e = display_lid (kr_lid (dc_record c))"
      using eff by blast
    have "material_gone g live (dc_record c) w'" if all: d unfolding material_gone_def
    proof (intro ballI allI impI)
      fix v h assume v: "v \<in> set (key_versions (dc_record c))" "resident_handle v = Ok h"
      then have "v \<in> set ?vs" by (auto simp: is_resident_def resident_handle_def split: key_material.splits)
      then obtain e where "map_of ps (version_binding g (dc_record c) v) = Some e" "(entry_provider e, h) \<notin> live w'"
        using eff all v(2) by fastforce
      then show "\<exists>e. registry_resolve g (version_binding g (dc_record c) v) = Ok e \<and> (entry_provider e, h) \<notin> live w'"
        using x(2) p by blast
    qed
    then show ?thesis using Ok x(1) p run es eff by (auto simp: destroy_backend_material_def)
  qed
qed

lemma material_gone_mono: "material_gone g live r w \<Longrightarrow> live w' \<subseteq> live w \<Longrightarrow> material_gone g live r w'"
  by (fastforce simp: material_gone_def)

lemma material_gone_cong:
  "key_versions r = key_versions q \<Longrightarrow> kr_provider_ref r = kr_provider_ref q \<Longrightarrow> material_gone g live r w = material_gone g live q w"
  by (simp add: material_gone_def version_binding_def effective_provider_ref_def get_version_def cong: option.case_cong)

section \<open>The pass\<close>

lemma display_lid_inject [simp]: "display_lid l = display_lid k \<longleftrightarrow> l = k"
  by (metis lid_from_str_display result.inject(1))

definition reported_destroyed :: "lid \<Rightarrow> deletion_event list \<Rightarrow> bool" where
  "reported_destroyed l log \<longleftrightarrow> (\<exists>e \<in> set log. ev_action e = KeyDestroyed \<and> ev_resource e = display_lid l)"

definition provider_called :: "lid \<Rightarrow> deletion_event list \<Rightarrow> bool" where
  "provider_called l log \<longleftrightarrow> (\<exists>e \<in> set log. ev_action e = ProviderDestroyKey \<and> ev_resource e = display_lid l)"

lemma log_marks [simp]:
  "reported_destroyed l [] = False" "provider_called l [] = False"
  "reported_destroyed l (log @ es) = (reported_destroyed l log \<or> reported_destroyed l es)"
  "provider_called l (log @ es) = (provider_called l log \<or> provider_called l es)"
  "reported_destroyed l [e] = (ev_action e = KeyDestroyed \<and> ev_resource e = display_lid l)"
  "provider_called l [e] = (ev_action e = ProviderDestroyKey \<and> ev_resource e = display_lid l)"
  by (auto simp: reported_destroyed_def provider_called_def)

lemma key_event_simps [simp]:
  "ev_action (key_event a l x m) = a" "ev_resource (key_event a l x m) = display_lid l"
  "ev_action (refusal_event l e) = KeyDestructionRefused"
  by (simp_all add: key_event_def refusal_event_def)

lemma scan_failed_simps [simp]:
  "sc_store (scan_failed x) = sc_store x" "sc_world (scan_failed x) = sc_world x" "sc_log (scan_failed x) = sc_log x"
  by (simp_all add: scan_failed_def)

context destruction_contract
begin

definition honest :: "'p registry \<Rightarrow> ('w \<Rightarrow> ('p \<times> key_handle) set) \<Rightarrow> 's \<Rightarrow> 'w \<Rightarrow> deletion_event list \<Rightarrow> bool" where
  "honest g live s w log \<longleftrightarrow> inv s \<and>
     (\<forall>l. reported_destroyed l log \<longrightarrow> fence s l \<and> (\<exists>r. view s l = Some r \<and> kr_state r = Destroyed \<and> material_gone g live r w)) \<and>
     (\<forall>l. provider_called l log \<longrightarrow> fence s l)"

lemma honest_store: "honest g live s w log \<Longrightarrow> inv s' \<Longrightarrow> keeps_fences view fence s s' \<Longrightarrow> honest g live s' w log"
  unfolding honest_def keeps_fences_def by blast

lemma honest_world: "honest g live s w log \<Longrightarrow> live w' \<subseteq> live w \<Longrightarrow> honest g live s w' log"
proof -
  assume h: "honest g live s w log" and w: "live w' \<subseteq> live w"
  have gone: "material_gone g live r w \<Longrightarrow> material_gone g live r w'" for r
    by (rule material_gone_mono [where live = live and w = w]) (assumption, rule w)
  show ?thesis using h unfolding honest_def by (metis gone)
qed

lemma honest_note:
  assumes "honest g live s w log" "\<forall>e \<in> set es. ev_action e \<noteq> KeyDestroyed"
    and "\<forall>l. provider_called l es \<longrightarrow> fence s l"
  shows "honest g live s w (log @ es)"
  using assms by (auto simp: honest_def reported_destroyed_def)

lemma serve_claim_honest:
  assumes env: "provider_contract env live" "registry_wf_default g"
    and h: "honest g live (sc_store x) (sc_world x) (sc_log x)" and c: "kr_lid (dc_record c) = l" "fence (sc_store x) l"
  shows "\<exists>y. serve_claim env st g l c x = Some y \<and> honest g live (sc_store y) (sc_world y) (sc_log y)"
proof -
  define log where "log = (if dc_recovered c then emit_destruction_progress env c KeyDestructionRetried ''durable_claim_resumed'' (sc_log x) else sc_log x)"
  have log: "honest g live (sc_store x) (sc_world x) log"
    using honest_note [OF h] h by (auto simp: log_def emit_destruction_progress_def)
  obtain d w es where m: "destroy_backend_material env g c (sc_world x) log = Some (d, w, log @ es)" "live w \<subseteq> live (sc_world x)"
      "\<And>e. e \<in> set es \<Longrightarrow> ev_action e = ProviderDestroyKey \<and> ev_resource e = display_lid l" "d \<Longrightarrow> material_gone g live (dc_record c) w"
    using destroy_backend_material_effect [OF env, of c "sc_world x" log] c(1) by auto
  have es: "honest g live (sc_store x) w (log @ es)"
    using m(3) c(2) by (intro honest_note [OF honest_world [OF log m(2)]]) (auto simp: provider_called_def)
  show ?thesis
  proof (cases d)
    case False
    then have "serve_claim env st g l c x = Some (scan_failed (x\<lparr>sc_world := w,
        sc_log := emit_destruction_progress env c KeyDestructionDeferred ''provider_outcome_unconfirmed'' (log @ es)\<rparr>))"
      using m(1) by (simp add: serve_claim_def log_def Let_def)
    moreover have "honest g live (sc_store x) w (emit_destruction_progress env c KeyDestructionDeferred ''provider_outcome_unconfirmed'' (log @ es))"
      unfolding emit_destruction_progress_def by (rule honest_note [OF es]) simp_all
    ultimately show ?thesis by simp
  next
    case True
    obtain y s' where y: "ds_complete_destruction st c (sc_store x) = (y, s')" by fastforce
    have law: "inv s'" "keeps_fences view fence (sc_store x) s'"
      and done': "\<And>r. y = Ok r \<Longrightarrow> fence s' l \<and> view s' l = Some r \<and> kr_state r = Destroyed \<and> key_versions r = key_versions (dc_record c) \<and>
        kr_provider_ref r = kr_provider_ref (dc_record c)"
      using complete_law [OF _ y] h c(1) by (auto simp: honest_def)
    have s': "honest g live s' w (log @ es)" by (rule honest_store [OF es law])
    show ?thesis
    proof (cases y)
      case (Ok r)
      have "material_gone g live r w" using m(4) [OF True] material_gone_cong [of r "dc_record c" g live w] done' [OF Ok] by simp
      then have "honest g live s' w ((log @ es) @ [key_event KeyDestroyed l Success []])"
        using s' done' [OF Ok] by (auto simp: honest_def simp del: append_assoc)
      then show ?thesis using True m(1) y Ok by (simp add: serve_claim_def log_def Let_def)
    next
      case (Err e)
      let ?ev = "key_event KeyDestructionDeferred l Error
        [(''operation_id'', TextValue (dk_uuid env (dc_operation c))), (''reason'', TextValue ''completion_unconfirmed'')]"
      have "honest g live s' w ((log @ es) @ [?ev])" by (rule honest_note [OF s']) simp_all
      then show ?thesis using True m(1) y Err by (simp add: serve_claim_def log_def Let_def)
    qed
  qed
qed

lemma scan_item_honest:
  assumes env: "provider_contract env live" "registry_wf_default g"
    and h: "honest g live (sc_store x) (sc_world x) (sc_log x)"
  shows "\<exists>y. scan_item env st g now r x = Some y \<and> honest g live (sc_store y) (sc_world y) (sc_log y)"
proof (cases "case scheduled_deletion_at r of Some t \<Rightarrow> t \<le> now | None \<Rightarrow> False")
  case True
  obtain z s' where z: "ds_claim_destruction st (kr_lid r) (occ_version r) now (sc_store x) = (z, s')" by fastforce
  have law: "inv s'" "keeps_fences view fence (sc_store x) s'"
    and claimed: "\<And>c. z = Ok (Some c) \<Longrightarrow> kr_lid (dc_record c) = kr_lid r \<and> fence s' (kr_lid r)"
    using claim_law [OF _ z] h by (auto simp: honest_def)
  note s' = honest_store [OF h law]
  consider (refused) e where "z = Err e" | (none) "z = Ok None" | (claim) c where "z = Ok (Some c)"
    by (cases z) (auto split: option.splits)
  then show ?thesis
  proof cases
    case refused
    have "honest g live s' (sc_world x) (sc_log x @ [refusal_event (kr_lid r) e])" by (rule honest_note [OF s']) simp_all
    then show ?thesis using True z refused by (simp add: scan_item_def)
  next
    case none
    then show ?thesis using True z s' by (simp add: scan_item_def)
  next
    case claim
    then show ?thesis
      using True z s' claimed serve_claim_honest [OF env, of "x\<lparr>sc_store := s'\<rparr>" c "kr_lid r"] by (simp add: scan_item_def)
  qed
qed (use h in \<open>simp add: scan_item_def\<close>)

lemma scan_items_honest:
  assumes "provider_contract env live" "registry_wf_default g"
    and "honest g live (sc_store x) (sc_world x) (sc_log x)"
  shows "\<exists>y. scan_items env st g now rs x = Some y \<and> honest g live (sc_store y) (sc_world y) (sc_log y)"
  using assms(3)
proof (induction rs arbitrary: x)
  case (Cons r rs)
  obtain y where "scan_item env st g now r x = Some y" "honest g live (sc_store y) (sc_world y) (sc_log y)"
    using scan_item_honest [OF assms(1,2) Cons.prems] by blast
  with Cons.IH [of y] show ?case by simp
qed simp

lemma deletion_scan_honest:
  assumes "provider_contract env live" "registry_wf_default g" "honest g live s w log"
  shows "\<exists>res y. run_deletion_scan_at env st g now s w log = Some (res, y) \<and> honest g live (sc_store y) (sc_world y) (sc_log y)"
proof -
  obtain items s' where s': "ds_list_keys st pending_filter s = (items, s')" by fastforce
  have "inv s" using assms(3) by (simp add: honest_def)
  from list_law [OF this s'] have h: "honest g live s' w log" using honest_store [OF assms(3)] by blast
  show ?thesis
  proof (cases items)
    case (Ok p)
    then show ?thesis
      using s' scan_items_honest [OF assms(1,2), of "\<lparr>sc_store = s', sc_world = w, sc_log = log, sc_destroyed = 0, sc_failed = 0\<rparr>" now "fst p"] h
      by (cases p) (auto simp: run_deletion_scan_at_def)
  qed (use s' h in \<open>simp add: run_deletion_scan_at_def\<close>)
qed

lemma deletion_worker_honest:
  assumes "provider_contract env live" "registry_wf_default g" "honest g live s w log"
  shows "\<exists>s' w' log'. deletion_worker env st g ticks s w log = Some (s', w', log') \<and> honest g live s' w' log'"
  using assms(3)
proof (induction ticks arbitrary: s w log)
  case (Cons now ticks)
  obtain res y where y: "run_deletion_scan_at env st g now s w log = Some (res, y)" "honest g live (sc_store y) (sc_world y) (sc_log y)"
    using deletion_scan_honest [OF assms(1,2) Cons.prems] by blast
  show ?case using Cons.IH [OF y(2)] by (simp add: y(1))
qed simp

end

section \<open>The SQLite store shared with other processes\<close>

text \<open>
  Before each call of the worker other callers may run any store operations; \<open>sh_others\<close> is what they
  do before the given call, \<open>sh_fresh\<close> and \<open>sh_now\<close> the operation id and the clock reading the store takes.
\<close>

record shared_store =
  sh_db :: sqlite_db
  sh_calls :: nat
  sh_others :: "nat \<Rightarrow> sqlite_db \<Rightarrow> sqlite_db"
  sh_fresh :: "nat \<Rightarrow> uuid"
  sh_now :: "nat \<Rightarrow> timestamp"

definition others_act :: "shared_store \<Rightarrow> shared_store" where
  "others_act s = s\<lparr>sh_db := sh_others s (sh_calls s) (sh_db s), sh_calls := sh_calls s + 1\<rparr>"

definition shared_storage :: "store_env \<Rightarrow> string \<Rightarrow> shared_store destruction_storage" where
  "shared_storage env parse_error =
     \<lparr>ds_list_keys = \<lambda>f s. let s = others_act s in (list_keys parse_error f (sh_db s), s),
      ds_claim_destruction = \<lambda>l n now s. let s = others_act s in
        (case destruction_claim_tx env (sh_fresh s (sh_calls s)) l n now (sh_db s) of (x, db) \<Rightarrow> (x, s\<lparr>sh_db := db\<rparr>)),
      ds_complete_destruction = \<lambda>c s. let s = others_act s in
        (case destruction_complete (sh_now s (sh_calls s)) c (sh_db s) of (x, db) \<Rightarrow> (x, s\<lparr>sh_db := db\<rparr>))\<rparr>"

definition shared_ok :: "store_env \<Rightarrow> shared_store \<Rightarrow> bool" where
  "shared_ok env s \<longleftrightarrow> keys_ok (sh_db s) \<and> fences_ok (sh_db s) \<and>
     (\<forall>n db. store_run env db (sh_others s n db)) \<and> (\<forall>n. \<not> is_nil (sh_fresh s n))"

lemma run_keeps_fences:
  assumes "store_run env db db'" "keys_ok db" "fences_ok db" "fenced db l"
  shows "fenced db' l" "stored db l = Some r \<Longrightarrow> kr_state r = Destroyed \<Longrightarrow> stored db' l = Some r"
proof -
  obtain p where p: "stored db l = Some p" using fenced_state [OF assms(3,4)] by blast
  show "fenced db' l" using run_frozen [OF assms p] by simp
  show "stored db' l = Some r" if "stored db l = Some r" "kr_state r = Destroyed"
    using run_frozen [OF assms that(1)] that(2) by auto
qed

lemma shared_run:
  assumes "shared_ok env s" "store_run env (sh_db s) db"
  shows "shared_ok env (s\<lparr>sh_db := db, sh_calls := n\<rparr>)"
    "keeps_fences (\<lambda>s. stored (sh_db s)) (\<lambda>s. fenced (sh_db s)) s (s\<lparr>sh_db := db, sh_calls := n\<rparr>)"
  using assms run_ok [OF assms(2)] run_keeps_fences [OF assms(2)] by (auto simp: shared_ok_def keeps_fences_def)

lemma claim_tx_fences:
  assumes "keys_ok db" "destruction_claim_tx env fresh l n now db = (Ok (Some c), db')"
  shows "kr_lid (dc_record c) = l \<and> fenced db' l"
proof -
  let ?body = "destruction_claim_body env fresh l n now"
  obtain x where x: "?body db = Ok (Some x, db')" "dc_record c = fst (snd x)"
    using assms(2) by (cases "?body db")
      (auto simp: destruction_claim_tx_def creation_tx_def claim_committed_def claim_recovered_def split: option.splits if_splits)
  from assms(1) x(1) show ?thesis
  proof (cases rule: destruction_claim_body_Ok)
    case recovered
    obtain row where row: "map_of (destruction_journals db) l = Some row" "recover_claim env l n row db = Ok (Some x, db')"
      using recovered(1) x(1) by (cases "map_of (destruction_journals db) l")
        (auto simp: fenced_def map_of_eq_None_iff destruction_claim_body_def)
    then have "kr_lid (fst (snd x)) = l" by (auto simp: recover_claim_def split: if_splits)
    then show ?thesis using recovered x(2) by (simp add: fenced_def)
  next
    case (fresh p r d i ds)
    have "kr_lid r = l" using prepare_claim_frame [OF fresh(3)] stored_lid [OF assms(1) fresh(2)] by simp
    then show ?thesis using fresh x(2) by (simp add: fenced_def put_key_def dom_update)
  qed
qed

lemma complete_tx_destroyed:
  assumes ok: "keys_ok db" and "destruction_complete now c db = (Ok r, db')"
  shows "fenced db' (kr_lid (dc_record c)) \<and> stored db' (kr_lid (dc_record c)) = Some r \<and> kr_state r = Destroyed \<and>
    key_versions r = key_versions (dc_record c) \<and> kr_provider_ref r = kr_provider_ref (dc_record c)"
proof -
  let ?l = "kr_lid (dc_record c)"
  have body: "destruction_complete_body now c db = Ok (r, db')"
    using assms(2) by (auto simp: destruction_complete_def creation_tx_def split: result.splits)
  show ?thesis
  proof (cases "db' = db")
    case False
    from ok body False obtain d where "map_of (destruction_journals db) ?l = Some d" "r = destroyed_form now (dc_record c)"
      "db_keys db' = db_keys (put_key r db)" "destruction_journals db' = complete_row ?l (destruction_journals db)"
      by (rule destruction_complete_body_Ok)
    then show ?thesis
      by (auto simp: stored_eq_put fenced_def destroyed_form_def complete_row_def dest!: map_of_SomeD intro!: rev_image_eqI)
  next
    case True
    obtain row where row: "map_of (destruction_journals db) ?l = Some row" using body by (auto simp: destruction_complete_body_def Let_def)
    have fence: "fenced db ?l" using map_of_SomeD [OF row] by (force simp: fenced_def)
    have "dt_completed row"
    proof (rule ccontr)
      assume open': "\<not> dt_completed row"
      have "destruction_journals db' = complete_row ?l (destruction_journals db)"
        using body row open' same_json_Ok_True
        by (auto simp: destruction_complete_body_def Let_def complete_row_def retire_creations_once_def split: if_splits dest!: save_key_Ok)
      then have "destruction_journals db = complete_row ?l (destruction_journals db)" using True by simp
      then have "(?l, row) \<in> set (complete_row ?l (destruction_journals db))" using map_of_SomeD [OF row] by simp
      then show False using open' by (auto simp: complete_row_def split: if_splits)
    qed
    then have cur: "stored db ?l = Some r" "validate_completed_record now c r = Ok ()"
      using body row by (auto simp: destruction_complete_body_def Let_def required_key_stored [OF ok] split: if_splits)
    obtain e where e: "completed_record now c (dc_record c) = Ok e" "e\<lparr>updated_at := updated_at r\<rparr> = r"
      using cur(2) same_json_Ok_True by (auto simp: validate_completed_record_def split: if_splits)
    have "kr_state (e\<lparr>updated_at := updated_at r\<rparr>) = Destroyed" "key_versions (e\<lparr>updated_at := updated_at r\<rparr>) = key_versions (dc_record c)"
      "kr_provider_ref (e\<lparr>updated_at := updated_at r\<rparr>) = kr_provider_ref (dc_record c)"
      using e(1) by (simp_all add: completed_record_Ok_iff)
    then show ?thesis unfolding e(2) using True fence cur(1) by simp
  qed
qed

interpretation shared: destruction_contract "shared_storage env parse_error" "\<lambda>s. stored (sh_db s)" "\<lambda>s. fenced (sh_db s)" "shared_ok env"
proof
  fix s :: shared_store
  assume ok: "shared_ok env s"
  let ?s = "others_act s"
  have run: "store_run env (sh_db s) (sh_db ?s)" using ok by (simp add: shared_ok_def others_act_def)
  have act: "others_act s = s\<lparr>sh_db := sh_db ?s, sh_calls := sh_calls s + 1\<rparr>" by (simp add: others_act_def)
  have keys: "keys_ok (sh_db ?s)" using run_ok [OF run] ok by (simp add: shared_ok_def)
  have later: "shared_ok env (?s\<lparr>sh_db := db\<rparr>) \<and>
      keeps_fences (\<lambda>s. stored (sh_db s)) (\<lambda>s. fenced (sh_db s)) s (?s\<lparr>sh_db := db\<rparr>)" if "store_step env (sh_db ?s) db" for db
  proof -
    have "?s\<lparr>sh_db := db\<rparr> = s\<lparr>sh_db := db, sh_calls := sh_calls s + 1\<rparr>" by (simp add: others_act_def)
    then show ?thesis using shared_run [OF ok run_step [OF run that], of "sh_calls s + 1"] by simp
  qed
  show "shared_ok env s' \<and> keeps_fences (\<lambda>s. stored (sh_db s)) (\<lambda>s. fenced (sh_db s)) s s'"
    if "ds_list_keys (shared_storage env parse_error) f s = (items, s')" for f items s'
  proof -
    have "s' = s\<lparr>sh_db := sh_db ?s, sh_calls := sh_calls s + 1\<rparr>" using that act by (simp add: shared_storage_def Let_def)
    then show ?thesis using shared_run [OF ok run, of "sh_calls s + 1"] by simp
  qed
  show "shared_ok env s' \<and> keeps_fences (\<lambda>s. stored (sh_db s)) (\<lambda>s. fenced (sh_db s)) s s' \<and>
      (\<forall>c. x = Ok (Some c) \<longrightarrow> kr_lid (dc_record c) = l \<and> fenced (sh_db s') l)"
    if call: "ds_claim_destruction (shared_storage env parse_error) l n now s = (x, s')" for l n now x s'
  proof -
    obtain db where db: "destruction_claim_tx env (sh_fresh ?s (sh_calls ?s)) l n now (sh_db ?s) = (x, db)" "s' = ?s\<lparr>sh_db := db\<rparr>"
      using call by (auto simp: shared_storage_def Let_def split: prod.splits)
    have "\<not> is_nil (sh_fresh ?s (sh_calls ?s))" using ok by (simp add: shared_ok_def others_act_def)
    from store_step.claim [OF this, of env "sh_db ?s" l n now] db(1) have "store_step env (sh_db ?s) db" by simp
    with later db claim_tx_fences [OF keys, of env] show ?thesis by auto
  qed
  show "shared_ok env s' \<and> keeps_fences (\<lambda>s. stored (sh_db s)) (\<lambda>s. fenced (sh_db s)) s s' \<and>
      (\<forall>r. y = Ok r \<longrightarrow> fenced (sh_db s') (kr_lid (dc_record c)) \<and> stored (sh_db s') (kr_lid (dc_record c)) = Some r \<and> kr_state r = Destroyed \<and>
         key_versions r = key_versions (dc_record c) \<and> kr_provider_ref r = kr_provider_ref (dc_record c))"
    if call: "ds_complete_destruction (shared_storage env parse_error) c s = (y, s')" for c y s'
  proof -
    obtain db where db: "destruction_complete (sh_now ?s (sh_calls ?s)) c (sh_db ?s) = (y, db)" "s' = ?s\<lparr>sh_db := db\<rparr>"
      using call by (auto simp: shared_storage_def Let_def split: prod.splits)
    from store_step.complete [of env "sh_db ?s" "sh_now ?s (sh_calls ?s)" c] db(1) have "store_step env (sh_db ?s) db" by simp
    with later db complete_tx_destroyed [OF keys] show ?thesis by auto
  qed
qed

section \<open>Properties of the pass\<close>

text \<open>
  C2: With a fixed provider registry, the deletion worker over the SQLite store completes every pass,
  whatever other callers do to the store between its calls. Every key it reports as destroyed is destroyed in the store, and no provider
  holds material for any resident version of it any more; every key for which it called a provider is
  fenced. So no key is marked destroyed while its material lives, and no material is destroyed without
  a durable claim.
\<close>

theorem deletion_worker_destroys_material:
  assumes "registry_new ps dflt = Ok g0" "registry_run g0 g" "provider_contract env live"
    and "store_run senv empty_db (sh_db s)" "\<And>n db. store_run senv db (sh_others s n db)" "\<And>n. \<not> is_nil (sh_fresh s n)"
  shows "\<exists>s' w' log. deletion_worker env (shared_storage senv parse_error) g ticks s w [] = Some (s', w', log) \<and>
    (\<forall>l. reported_destroyed l log \<longrightarrow>
       (\<exists>r. stored (sh_db s') l = Some r \<and> kr_state r = Destroyed \<and> material_gone g live r w')) \<and>
    (\<forall>l. provider_called l log \<longrightarrow> fenced (sh_db s') l)"
proof -
  have "registry_wf_default g" using registry_new_wf [OF assms(1)] registry_run_wf [OF assms(2)] by blast
  moreover have "shared.honest senv g live s w []"
    using run_ok [OF assms(4)] assms(5,6) by (simp add: shared.honest_def shared_ok_def)
  ultimately show ?thesis
    using shared.deletion_worker_honest [OF assms(3), of g senv s w "[]" parse_error ticks] by (auto simp: shared.honest_def)
qed

section \<open>The rows a pass never sees\<close>

lemma claim_tx_keys:
  assumes "keys_ok db" "destruction_claim_tx env fresh k n now db = (x, db')"
  shows "db_keys db' = db_keys db \<or> (\<exists>r. kr_lid r = k \<and> stored db k \<noteq> None \<and> db_keys db' = db_keys (put_key r db))"
proof -
  let ?body = "destruction_claim_body env fresh k n now"
  have db': "db' = snd (creation_tx ?body db)" using assms(2) by (auto simp: destruction_claim_tx_def split: prod.splits)
  show ?thesis
  proof (cases rule: creation_tx_cases [of ?body db])
    case (committed y db1)
    from assms(1) committed(1) show ?thesis
    proof (cases rule: destruction_claim_body_Ok)
      case (fresh p r d i ds)
      have "kr_lid r = k" using prepare_claim_frame [OF fresh(3)] stored_lid [OF assms(1) fresh(2)] by simp
      then show ?thesis using fresh db' committed by (auto simp: put_key_def)
    qed (use db' committed in simp)
  qed (use db' in simp)
qed

lemma complete_tx_keys:
  assumes "keys_ok db" "destruction_complete now c db = (x, db')"
  shows "db_keys db' = db_keys db \<or>
    (\<exists>r. kr_lid r = kr_lid (dc_record c) \<and> stored db (kr_lid (dc_record c)) \<noteq> None \<and> db_keys db' = db_keys (put_key r db))"
proof -
  have db': "db' = snd (creation_tx (destruction_complete_body now c) db)" using assms(2) by (simp add: destruction_complete_def)
  show ?thesis
  proof (cases rule: creation_tx_cases [of "destruction_complete_body now c" db])
    case (committed y db1)
    show ?thesis
    proof (cases "db1 = db")
      case False
      have eq: "db' = db1" using db' committed by simp
      show ?thesis
        by (rule destruction_complete_body_Ok [OF assms(1) committed(1) False])
           (rule disjI2, rule exI [of _ y], use eq in simp)
    qed (use db' committed in simp)
  qed (use db' in simp)
qed

definition row_kept :: "store_env \<Rightarrow> lid list \<Rightarrow> lid \<Rightarrow> key_record option \<Rightarrow> shared_store \<Rightarrow> bool" where
  "row_kept env ks l v s \<longleftrightarrow> shared_ok env s \<and> sh_others s = (\<lambda>_ db. db) \<and> map fst (db_keys (sh_db s)) = ks \<and> stored (sh_db s) l = v"

lemma row_kept_put:
  assumes "row_kept env ks l v s" "shared_ok env s'" "sh_others s' = sh_others s" "k \<noteq> l"
    and "db_keys (sh_db s') = db_keys (sh_db s) \<or>
      (\<exists>r. kr_lid r = k \<and> stored (sh_db s) k \<noteq> None \<and> db_keys (sh_db s') = db_keys (put_key r (sh_db s)))"
  shows "row_kept env ks l v s'"
  using assms(5)
proof
  assume "\<exists>r. kr_lid r = k \<and> stored (sh_db s) k \<noteq> None \<and> db_keys (sh_db s') = db_keys (put_key r (sh_db s))"
  then obtain r where r: "kr_lid r = k" "stored (sh_db s) k \<noteq> None" "db_keys (sh_db s') = db_keys (put_key r (sh_db s))" by blast
  have "keys_ok (sh_db s)" using assms(1) by (simp add: row_kept_def shared_ok_def)
  from stored_None [OF this, of k] r(2) have "k \<in> fst ` set (db_keys (sh_db s))" by simp
  then have "map fst (db_keys (sh_db s')) = map fst (db_keys (sh_db s))" unfolding r(3) using r(1) by (simp add: put_key_def update_keys)
  moreover have "stored (sh_db s') l = stored (sh_db s) l" using stored_eq_put [OF r(3), of l] r(1) assms(4) by simp
  ultimately show ?thesis using assms(1-3) by (simp only: row_kept_def)
next
  assume eq: "db_keys (sh_db s') = db_keys (sh_db s)"
  then show ?thesis using assms(1-3) stored_frame [OF eq] by (simp only: row_kept_def)
qed

lemma scan_item_row_kept:
  assumes kept: "row_kept senv ks l v (sc_store x)" and other: "kr_lid r \<noteq> l"
    and item: "scan_item env (shared_storage senv e) g now r x = Some y"
  shows "row_kept senv ks l v (sc_store y)"
proof (cases "case scheduled_deletion_at r of Some t \<Rightarrow> t \<le> now | None \<Rightarrow> False")
  case True
  have still: "sh_db (others_act s) = sh_db s" "sh_others (others_act s) = sh_others s" if "row_kept senv ks l v s" for s
    using that by (simp_all add: row_kept_def others_act_def)
  obtain z s where z: "ds_claim_destruction (shared_storage senv e) (kr_lid r) (occ_version r) now (sc_store x) = (z, s)" by fastforce
  have ok: "shared_ok senv (sc_store x)" using kept by (simp add: row_kept_def)
  note law = shared.claim_law [OF ok z]
  obtain db f where db: "s = (others_act (sc_store x))\<lparr>sh_db := db\<rparr>"
      "destruction_claim_tx senv f (kr_lid r) (occ_version r) now (sh_db (sc_store x)) = (z, db)"
    using z still [OF kept] by (auto simp: shared_storage_def Let_def split: prod.splits)
  have keys: "keys_ok (sh_db (sc_store x))" using ok by (simp add: shared_ok_def)
  have s: "row_kept senv ks l v s"
    by (rule row_kept_put [OF kept _ _ other]) (use law db still [OF kept] claim_tx_keys [OF keys db(2)] in simp_all)
  show ?thesis
  proof (cases "\<exists>c. z = Ok (Some c)")
    case False
    then show ?thesis using item True z s by (auto simp: scan_item_def split: result.splits option.splits)
  next
    case True
    then obtain c where c: "z = Ok (Some c)" by blast
    then have lid: "kr_lid (dc_record c) \<noteq> l" and oks: "shared_ok senv s" using law other by auto
    obtain a s' where a: "ds_complete_destruction (shared_storage senv e) c s = (a, s')" by fastforce
    obtain db' t where db': "s' = (others_act s)\<lparr>sh_db := db'\<rparr>" "destruction_complete t c (sh_db s) = (a, db')"
      using a still [OF s] by (auto simp: shared_storage_def Let_def split: prod.splits)
    have keys': "keys_ok (sh_db s)" using oks by (simp add: shared_ok_def)
    have s': "row_kept senv ks l v s'"
      by (rule row_kept_put [OF s _ _ lid])
         (use shared.complete_law [OF oks a] db' still [OF s] complete_tx_keys [OF keys' db'(2)] in simp_all)
    have "serve_claim env (shared_storage senv e) g (kr_lid r) c (x\<lparr>sc_store := s\<rparr>) = Some y"
      using item z c \<open>case scheduled_deletion_at r of Some t \<Rightarrow> t \<le> now | None \<Rightarrow> False\<close> by (simp add: scan_item_def)
    then have "sc_store y = s \<or> sc_store y = s'"
      using a by (auto simp: serve_claim_def Let_def split: option.splits bool.splits result.splits)
    then show ?thesis using s s' by auto
  qed
qed (use item kept in \<open>simp add: scan_item_def\<close>)

lemma scan_items_row_kept:
  "row_kept senv ks l v (sc_store x) \<Longrightarrow> l \<notin> kr_lid ` set rs \<Longrightarrow> scan_items env (shared_storage senv e) g now rs x = Some y \<Longrightarrow>
     row_kept senv ks l v (sc_store y)"
proof (induction rs arbitrary: x)
  case (Cons r rs)
  then obtain x1 where x1: "scan_item env (shared_storage senv e) g now r x = Some x1"
      "scan_items env (shared_storage senv e) g now rs x1 = Some y" by (auto split: option.splits)
  have "row_kept senv ks l v (sc_store x1)" using Cons.prems(2) by (intro scan_item_row_kept [OF Cons.prems(1) _ x1(1)]) auto
  then show ?case using Cons.IH [OF _ _ x1(2)] Cons.prems(2) by simp
qed simp

text \<open>The listing of a pass stops at the first hundred rows, before the filter is applied.\<close>

lemma listed_rows:
  assumes "keys_ok db" "list_keys e pending_filter db = Ok (items, cursor)"
  shows "kr_lid ` set items \<subseteq> set (take 100 (map fst (db_keys db)))"
proof -
  let ?rows = "take 100 (db_keys db)"
  have "row_ok l row" if "(l, row) \<in> set ?rows" for l row
    using that assms(1) in_set_takeD [of "(l, row)" 100 "db_keys db"] by (auto simp: keys_ok_def)
  then obtain rs where rs: "decode_keys e ?rows = Ok rs" "map fst ?rows = map kr_lid rs" using decode_keys_ok [of ?rows e] by blast
  then have "set items \<subseteq> set rs" using assms(2) by (auto simp: list_keys_def pending_filter_def)
  then have "kr_lid ` set items \<subseteq> set (map kr_lid rs)" by auto
  then show ?thesis unfolding rs(2) [symmetric] by (simp add: take_map)
qed

lemma deletion_scan_row_kept:
  assumes kept: "row_kept senv ks l v s" and far: "l \<notin> set (take 100 ks)"
    and run: "run_deletion_scan_at env (shared_storage senv e) g now s w log = Some (res, y)"
  shows "row_kept senv ks l v (sc_store y)"
proof -
  let ?s = "others_act s"
  have s: "row_kept senv ks l v ?s" using kept by (simp add: row_kept_def shared_ok_def others_act_def)
  have listed: "ds_list_keys (shared_storage senv e) pending_filter s = (list_keys e pending_filter (sh_db ?s), ?s)"
    by (simp add: shared_storage_def Let_def)
  show ?thesis
  proof (cases "list_keys e pending_filter (sh_db ?s)")
    case (Err x)
    then show ?thesis using run s listed by (auto simp: run_deletion_scan_at_def)
  next
    case (Ok p)
    obtain items c where p: "p = (items, c)" by (cases p)
    have "l \<notin> kr_lid ` set items" using listed_rows [OF _ Ok [unfolded p]] s far by (auto simp: row_kept_def shared_ok_def)
    then show ?thesis
      using run Ok p listed s by (auto simp: run_deletion_scan_at_def intro: scan_items_row_kept [rotated 2])
  qed
qed

lemma deletion_worker_row_kept:
  assumes "row_kept senv ks l v s" "l \<notin> set (take 100 ks)"
    and "deletion_worker env (shared_storage senv e) g ticks s w log = Some (s', w', log')"
  shows "row_kept senv ks l v s'"
  using assms(1,3)
proof (induction ticks arbitrary: s w log)
  case (Cons now ticks)
  then obtain res x where x: "run_deletion_scan_at env (shared_storage senv e) g now s w log = Some (res, x)"
      "deletion_worker env (shared_storage senv e) g ticks (sc_store x) (sc_world x) (sc_log x) = Some (s', w', log')"
    by (auto split: option.splits)
  show ?case by (rule Cons.IH [OF deletion_scan_row_kept [OF Cons.prems(1) assms(2) x(1)] x(2)])
qed simp

text \<open>
  C39: A key outside the first hundred rows of the key table is never destroyed by the deletion worker.
  However often the worker runs and however long the key is overdue, its record stays as it is: each
  pass lists at most a hundred rows, of keys in any state, follows no cursor, and never removes a row.
\<close>

theorem deletion_worker_misses_later_rows:
  assumes "store_run senv empty_db (sh_db s)" "sh_others s = (\<lambda>_ db. db)" "\<And>n. \<not> is_nil (sh_fresh s n)"
    and "l \<notin> set (take 100 (map fst (db_keys (sh_db s))))"
    and "deletion_worker env (shared_storage senv parse_error) g ticks s w log = Some (s', w', log')"
  shows "stored (sh_db s') l = stored (sh_db s) l"
proof -
  let ?ks = "map fst (db_keys (sh_db s))"
  have "row_kept senv ?ks l (stored (sh_db s) l) s"
    using run_ok [OF assms(1)] assms(2,3) by (simp add: row_kept_def shared_ok_def)
  from deletion_worker_row_kept [OF this assms(4,5)] show ?thesis by (simp add: row_kept_def)
qed

section \<open>Sample runs\<close>

definition sample_shared :: "sqlite_db \<Rightarrow> shared_store" where
  "sample_shared db = \<lparr>sh_db = db, sh_calls = 0, sh_others = (\<lambda>_ db. db), sh_fresh = (\<lambda>_. fill 5), sh_now = (\<lambda>_. 11)\<rparr>"

definition sample_providers :: "nat registry" where
  "sample_providers = \<lparr>reg_providers = [(ProviderRef ''default'', \<lparr>entry_provider = 0, entry_class = Software\<rparr>)], reg_default = ProviderRef ''default''\<rparr>"

definition sample_destroy :: "(nat, (nat \<times> key_handle) set) destroy_env" where
  "sample_destroy = \<lparr>dk_destroy = (\<lambda>p h w. (Ok Completed, w - {(p, h)})), dk_display = (\<lambda>_. []), dk_uuid = (\<lambda>_. [])\<rparr>"

lemma sample_registry: "registry_new [(ProviderRef ''default'', \<lparr>entry_provider = 0, entry_class = Software\<rparr>)] (ProviderRef ''default'') = Ok sample_providers"
  by (simp add: registry_new_def collect_providers_def sample_providers_def Let_def)

lemma sample_contract: "provider_contract sample_destroy id"
  by (auto simp: provider_contract_def sample_destroy_def)

lemma sample_destroyed_storable: "storable (destroyed_form 11 sample_claimed_record)"
  by (simp add: storable_def destroyed_form_def sample_claimed_record_def sample_stored_defs record_value_def serialize_version_def
      i64_max_def word_le_nat_alt)

lemma sample_complete: "\<exists>db. destruction_complete 11 sample_fence claimed_db = (Ok (destroyed_form 11 sample_claimed_record), db)"
proof -
  have keys: "keys_ok claimed_db" using run_ok [OF sample_claim_run] by simp
  have st: "stored claimed_db (Lid (fill 1)) = Some sample_claimed_record" by (simp add: claimed_db_def stored_put_key sample_claimed_record_def)
  have val: "is_ok (record_value sample_claimed_record)" using stored_lid [OF keys st] by simp
  have same: "same_json sample_claimed_record sample_claimed_record = Ok True" using same_json_Ok_True val by blast
  have lid: "kr_lid sample_claimed_record = Lid (fill 1)" "occ_version sample_claimed_record = 5" by (simp_all add: sample_claimed_record_def)
  have comp: "completed_record 11 sample_fence sample_claimed_record = Ok (destroyed_form 11 sample_claimed_record)"
    using val by (simp add: completed_record_Ok_iff sample_fence_def destroyed_form_def lid i64_max_def)
  have row: "map_of (destruction_journals claimed_db) (Lid (fill 1)) = Some (claim_row (fill 5) sample_claimed_record)"
    by (simp add: claimed_db_def put_key_def)
  have save: "\<exists>db1. save_key (destroyed_form 11 sample_claimed_record) 5 (erase_migration_envelopes l (erase_creations l (retire_creations_once l claimed_db))) = Ok ((), db1)" for l
    using sample_destroyed_storable
    by (auto simp: save_key_def record_to_string_def i64_try_from_def storable_def is_ok_iff update_key_row_def lid
        erase_migration_envelopes_def erase_creations_def retire_creations_once_def claimed_db_def put_key_def one_key_def update_conv')
       (simp add: i64_max_def word_le_nat_alt)
  then obtain db1 where "save_key (destroyed_form 11 sample_claimed_record) 5 (erase_migration_envelopes (Lid (fill 1))
      (erase_creations (Lid (fill 1)) (retire_creations_once (Lid (fill 1)) claimed_db))) = Ok ((), db1)" by blast
  then have "\<exists>db. destruction_complete_body 11 sample_fence claimed_db = Ok (destroyed_form 11 sample_claimed_record, db)"
    using row same comp st
    by (simp add: destruction_complete_body_def Let_def required_key_stored [OF keys] from_str_def claim_row_def sample_fence_def lid)
  then show ?thesis by (auto simp: destruction_complete_def creation_tx_def)
qed

lemma sample_scan:
  "\<exists>x. run_deletion_scan_at sample_destroy (shared_storage sample_store []) sample_providers 10
      (sample_shared (one_key (sample_stored PendingDeletion))) w [] = Some (Ok (), x) \<and> reported_destroyed (Lid (fill 1)) (sc_log x)"
proof -
  let ?r = "sample_stored PendingDeletion"
  have listed: "list_keys [] pending_filter (one_key ?r) = Ok ([?r], None)"
    by (simp add: list_keys_def pending_filter_def one_key_def put_key_def empty_db_def from_str_def filter_accepts_def)
  have due: "scheduled_deletion_at ?r = Some 3" by (simp add: sample_stored_def)
  have versions: "key_versions sample_claimed_record = [sample_version]" "kr_provider_ref sample_claimed_record = None"
    by (simp_all add: sample_claimed_record_def sample_stored_def sample_record_def)
  have hist: "validate_destruction_history sample_claimed_record = Ok ()"
    by (simp add: sample_claimed_record_def sample_stored_defs validate_destruction_history_def primary_version_def)
  obtain h where h: "resident_handle sample_version = Ok h" "is_resident sample_version"
    "version_provider_ref sample_version = None"
    by (simp add: sample_version_def version_provider_resident_def resident_handle_def is_resident_def version_provider_ref_def)
  have pin: "pin_providers sample_providers sample_claimed_record [sample_version] [] =
      Some (Ok [(ProviderRef ''default'', \<lparr>entry_provider = 0, entry_class = Software\<rparr>)])"
    by (simp add: version_binding_def effective_provider_ref_def get_version_def versions h resolve_for_version_def
        registry_default_entry_def sample_providers_def)
  have destroy: "\<exists>w' log'. destroy_backend_material sample_destroy sample_providers sample_fence w log = Some (True, w', log')" for w log
    using hist pin h by (simp add: destroy_backend_material_def sample_fence_def versions Let_def version_binding_def
        effective_provider_ref_def get_version_def sample_providers_def) (simp add: sample_destroy_def)
  obtain db where complete: "destruction_complete 11 sample_fence claimed_db = (Ok (destroyed_form 11 sample_claimed_record), db)"
    using sample_complete by blast
  obtain w' log' where d: "destroy_backend_material sample_destroy sample_providers sample_fence w [] = Some (True, w', log')"
    using destroy by blast
  have rec: "\<not> dc_recovered sample_fence" by (simp add: sample_fence_def)
  show ?thesis
    by (simp add: run_deletion_scan_at_def shared_storage_def others_act_def sample_shared_def Let_def listed scan_item_def due
        store_sample_claim serve_claim_def rec d complete)
qed

theorem deletion_worker_destroys_material_witness:
  "\<exists>s' w' log r. deletion_worker sample_destroy (shared_storage sample_store []) sample_providers [10]
      (sample_shared (one_key (sample_stored PendingDeletion))) {(0, h) | h. True} [] = Some (s', w', log) \<and>
     stored (sh_db s') (Lid (fill 1)) = Some r \<and> kr_state r = Destroyed \<and> material_gone sample_providers id r w'"
proof -
  let ?s = "sample_shared (one_key (sample_stored PendingDeletion))" and ?w = "{(0, h) | h. True}"
  obtain x where x: "run_deletion_scan_at sample_destroy (shared_storage sample_store []) sample_providers 10 ?s ?w [] = Some (Ok (), x)"
      "reported_destroyed (Lid (fill 1)) (sc_log x)"
    using sample_scan by blast
  have "store_run sample_store empty_db (sh_db ?s)" "store_run sample_store db (sh_others ?s n db)" "\<not> is_nil (sh_fresh ?s n)" for n db
    by (simp_all add: sample_shared_def store_sample_run is_nil_def)
  from deletion_worker_destroys_material [OF sample_registry registry_run.run_refl sample_contract this, of "[]" "[10]" ?w]
  show ?thesis using x by auto
qed

text \<open>A key table of many rows, each a key that is due.\<close>

definition due_record :: "byte \<Rightarrow> key_record" where
  "due_record k = (sample_stored PendingDeletion)\<lparr>kr_lid := Lid (fill k)\<rparr>"

definition due_rows :: "byte list \<Rightarrow> sqlite_db" where
  "due_rows ks = fold (\<lambda>k. put_key (due_record k)) ks empty_db"

lemma due_rows_snoc: "due_rows (ks @ [k]) = put_key (due_record k) (due_rows ks)"
  by (simp add: due_rows_def)

lemma due_record_simps [simp]: "kr_lid (due_record k) = Lid (fill k)" "persisted (due_record k) = due_record k" "storable (due_record k)"
  by (simp_all add: due_record_def persisted_def has_compromise_history_def storable_def sample_stored_defs record_value_def
      serialize_version_def i64_max_def word_le_nat_alt)

lemma due_rows_journals:
  "creation_journals (due_rows ks) = [] \<and> migration_journals (due_rows ks) = [] \<and> destruction_journals (due_rows ks) = []"
  by (induction ks rule: rev_induct) (simp_all add: due_rows_snoc, simp_all add: due_rows_def empty_db_def put_key_def)

lemma due_rows_keys: "distinct ks \<Longrightarrow> map fst (db_keys (due_rows ks)) = map (\<lambda>k. Lid (fill k)) ks"
proof (induction ks rule: rev_induct)
  case (snoc k ks)
  then have keys: "map fst (db_keys (due_rows ks)) = map (\<lambda>k. Lid (fill k)) ks" "Lid (fill k) \<notin> set (map (\<lambda>k. Lid (fill k)) ks)" by auto
  have "Lid (fill k) \<notin> set (map fst (db_keys (due_rows ks)))" using keys(2) unfolding keys(1) .
  then show ?case using keys(1) by (simp add: due_rows_snoc put_key_def update_keys del: set_map)
qed (simp add: due_rows_def empty_db_def)

lemma due_rows_run: "distinct ks \<Longrightarrow> store_run sample_store empty_db (due_rows ks)"
proof (induction ks rule: rev_induct)
  case (snoc k ks)
  have "Lid (fill k) \<notin> set (map (\<lambda>k. Lid (fill k)) ks)" using snoc.prems by auto
  then have new: "Lid (fill k) \<notin> fst ` set (db_keys (due_rows ks))"
    using snoc.prems due_rows_keys [of ks] by (metis distinct_append list.set_map)
  have parents: "wrapping_parents (due_record k) = []" "parent_lid (due_record k) = None" "occ_version (due_record k) = 4"
    using sample_stored_parents [of PendingDeletion] by (simp_all add: due_record_def wrapping_parents_def)
  have body: "create_key_body (due_record k) row (due_rows ks) =
      Ok ((), (due_rows ks)\<lparr>db_keys := AList.update (Lid (fill k)) row (db_keys (due_rows ks))\<rparr>)" for row
    using new due_rows_journals [of ks]
    by (simp add: create_key_body_def migration_guard_record_def migration_guard_def migration_active_def exists_row_def
        creation_guard_create_def destruction_guard_write_def destruction_guard_def parents del: destruction_guard_write_Ok)
  have "snd (create_key_store (\<lambda>_. []) (due_record k) (due_rows ks)) = due_rows (ks @ [k])"
    using due_record_simps(3) [of k] parents(3)
    by (auto simp: create_key_store_def storable_def is_ok_iff i64_try_from_def creation_tx_def body due_rows_snoc put_key_def)
  then have "store_step sample_store (due_rows ks) (due_rows (ks @ [k]))"
    using store_step.create [of sample_store "due_rows ks" "\<lambda>_. []" "due_record k"] by simp
  then show ?case using snoc by (auto intro: run_step)
qed (simp add: due_rows_def)

definition full_table :: "byte list" where
  "full_table = map of_nat [0..<101]"

lemma full_table_distinct: "distinct full_table"
  by (simp add: full_table_def distinct_map inj_on_def word_of_nat_eq_iff take_bit_nat_eq_self)

lemma full_table_last: "full_table = take 100 full_table @ [100]"
  by (simp add: full_table_def take_map upt_rec [of _ 101] flip: map_append)

theorem deletion_worker_misses_later_rows_witness:
  "\<exists>s' w' log'. deletion_worker sample_destroy (shared_storage sample_store []) sample_providers [10, 70, 130]
      (sample_shared (due_rows full_table)) {} [] = Some (s', w', log') \<and> stored (sh_db s') (Lid (fill 100)) = Some (due_record 100)"
proof -
  let ?s = "sample_shared (due_rows full_table)"
  have ok: "store_run sample_store empty_db (sh_db ?s)" "sh_others ?s = (\<lambda>_ db. db)" "\<not> is_nil (sh_fresh ?s n)" for n
    by (simp_all add: sample_shared_def due_rows_run full_table_distinct is_nil_def)
  have "registry_wf_default sample_providers" using registry_new_wf [OF sample_registry] by blast
  moreover have "shared.honest sample_store sample_providers id ?s {} []"
    using run_ok [OF ok(1)] ok(2,3) by (simp add: shared.honest_def shared_ok_def)
  ultimately obtain s' w' log' where run: "deletion_worker sample_destroy (shared_storage sample_store []) sample_providers [10, 70, 130] ?s {} [] = Some (s', w', log')"
    using shared.deletion_worker_honest [OF sample_contract] by blast
  have "100 \<notin> set (take 100 full_table)" using full_table_distinct full_table_last by (metis distinct_append disjoint_insert(1) list.set(2))
  then have "Lid (fill 100) \<notin> set (take 100 (map fst (db_keys (sh_db ?s))))"
    by (auto simp: sample_shared_def due_rows_keys [OF full_table_distinct] take_map)
  from deletion_worker_misses_later_rows [OF ok this run] have "stored (sh_db s') (Lid (fill 100)) = stored (due_rows full_table) (Lid (fill 100))"
    by (simp add: sample_shared_def)
  also have "\<dots> = Some (due_record 100)" by (subst full_table_last) (simp add: due_rows_snoc stored_put_key)
  finally show ?thesis using run by blast
qed

end
