(* ===== verification/Delivery.thy ===== *)
theory Delivery
  imports Custody "HOL-Library.AList"
begin

text \<open>
  The release gate of the crypto worker (\<open>keyrack-crypto-worker\<close>: \<open>release_state.rs\<close> and
  \<open>delivery.rs\<close>). Every method of \<open>Delivery\<close> holds one mutex, so a call is one atomic step; the
  writer thread and the request loop interleave between calls. A clock reading is an argument, one
  per reading the code takes. JSON, base64 and the operating system's pipe are parameters: \<open>sink\<close>
  is the pipe's \<open>write\<close>, threaded through the state of the outside world.
\<close>

section \<open>The transition kernel\<close>

datatype worker_error = Credential | Authority | Expired | Replay | ContextE | MaterialE | Limit | CryptoE

record policy =
  pol_generation :: "u64 option"
  pol_fenced :: bool
  pol_stopped :: bool

record window =
  incarnation_matches :: bool
  wn_generation :: u64
  wn_not_before :: u64
  wn_expires :: u64

datatype release_phase = Pending | Committed | Suppressed | Indeterminate

definition policy_default :: policy where
  "policy_default = \<lparr>pol_generation = None, pol_fenced = False, pol_stopped = False\<rparr>"

definition allows :: "policy \<Rightarrow> window \<Rightarrow> u64 \<Rightarrow> bool" where
  "allows p w now \<longleftrightarrow> \<not> pol_stopped p \<and> \<not> pol_fenced p \<and> incarnation_matches w \<and> wn_generation w \<noteq> 0 \<and>
     (case pol_generation p of None \<Rightarrow> True | Some g \<Rightarrow> g = wn_generation w) \<and>
     now \<ge> wn_not_before w \<and> now < wn_expires w"

definition admit :: "policy \<Rightarrow> window \<Rightarrow> u64 \<Rightarrow> bool \<times> policy" where
  "admit p w now =
     (if \<not> allows p w now then (False, p) else (True, p\<lparr>pol_generation := Some (wn_generation w)\<rparr>))"

definition policy_fence :: "policy \<Rightarrow> bool \<Rightarrow> bool \<times> policy" where
  "policy_fence p validated = (if \<not> validated then (False, p) else (True, p\<lparr>pol_fenced := True\<rparr>))"

definition policy_stop :: "policy \<Rightarrow> policy" where
  "policy_stop p = p\<lparr>pol_stopped := True\<rparr>"

definition policy_release ::
  "policy \<Rightarrow> release_phase \<Rightarrow> window \<Rightarrow> u64 \<Rightarrow> ('w \<Rightarrow> (bool, 'e) result \<times> 'w) \<Rightarrow> 'w \<Rightarrow>
     (release_phase, 'e) result \<times> release_phase \<times> 'w" where
  "policy_release p ph w now write_record world =
     (if ph \<noteq> Pending then (Ok ph, ph, world)
      else if allows p w now then
        (case write_record world of
           (Ok True, world) \<Rightarrow> (Ok Committed, Committed, world)
         | (Ok False, world) \<Rightarrow> (Ok Pending, Pending, world)
         | (Err e, world) \<Rightarrow> (Err e, Indeterminate, world))
      else (Ok Suppressed, Suppressed, world))"

section \<open>State\<close>

definition ATOMIC :: nat where "ATOMIC = 512"
definition QUEUED :: nat where "QUEUED = 4"
definition RESULTS :: nat where "RESULTS = 3"
definition OUTCOMES :: nat where "OUTCOMES = 4096"

record authority =
  au_worker :: string
  au_generation :: u64
  au_sequence :: u64
  au_grant_sha256 :: "32 bytes"
  au_not_before :: u64
  au_expires :: u64

record capsule =
  cp_id :: u64
  cp_worker :: string
  cp_generation :: u64
  cp_sequence :: u64
  cp_grant_sha256 :: string
  cp_key :: string

record chunk =
  ck_id :: "u64 option"
  ck_part :: nat
  ck_data :: string
  ck_last :: bool

record delivery_env =
  to_vec_capsule :: "capsule \<Rightarrow> byte list option"
  to_vec_chunk :: "chunk \<Rightarrow> byte list option"
  to_vec_suppressed :: "u64 \<Rightarrow> byte list option"
  b64_encode :: "byte list \<Rightarrow> string"

record release_outcome =
  oc_authority :: authority
  oc_phase :: release_phase

record prepared =
  pr_authority :: authority
  pr_key :: "32 bytes"
  pr_encoded :: string

record job =
  job_id :: "u64 option"
  job_records :: "byte list list"

record delivery =
  dl_worker :: string
  dl_policy :: policy
  dl_next :: u64
  dl_permits :: "(u64 \<times> 32 bytes) list"
  dl_outcomes :: "(u64, release_outcome) btreemap"
  dl_faulted :: bool
  dl_queue :: "job list"

text \<open>\<open>Prepared::new\<close>: a message is sealed once, under a fresh random transport key.\<close>

definition prepared_new ::
  "delivery_env \<Rightarrow> (32 bytes \<Rightarrow> byte list \<Rightarrow> byte list option) \<Rightarrow> 32 bytes \<Rightarrow> authority \<Rightarrow> byte list option \<Rightarrow>
     (prepared, worker_error) result" where
  "prepared_new env seal key a value =
     and_then (ok_or MaterialE value) (\<lambda>plain.
     if 65536 < length plain then Err Limit
     else and_then (ok_or CryptoE (seal key plain)) (\<lambda>bytes.
       Ok \<lparr>pr_authority = a, pr_key = key, pr_encoded = b64_encode env bytes\<rparr>))"

definition get_mut :: "'k \<Rightarrow> ('v \<Rightarrow> 'v) \<Rightarrow> ('k \<times> 'v) list \<Rightarrow> ('k \<times> 'v) list" where
  "get_mut k f m = map (\<lambda>(k', v). (k', if k' = k then f v else v)) m"

definition suppress_outcome :: "release_outcome \<Rightarrow> release_outcome" where
  "suppress_outcome oc = (if oc_phase oc = Pending then oc\<lparr>oc_phase := Suppressed\<rparr> else oc)"

definition suppress :: "u64 \<Rightarrow> delivery \<Rightarrow> delivery" where
  "suppress i s = s\<lparr>dl_outcomes := get_mut i suppress_outcome (dl_outcomes s),
     dl_permits := AList.delete i (dl_permits s)\<rparr>"

definition suppress_pending :: "delivery \<Rightarrow> delivery" where
  "suppress_pending s =
     s\<lparr>dl_outcomes := fold (\<lambda>(i, _). get_mut i suppress_outcome) (dl_permits s) (dl_outcomes s), dl_permits := []\<rparr>"

definition fail_transport :: "delivery \<Rightarrow> delivery" where
  "fail_transport s =
     (suppress_pending (s\<lparr>dl_faulted := True, dl_policy := policy_stop (dl_policy s)\<rparr>))\<lparr>dl_queue := []\<rparr>"

definition record_bytes :: "byte list option \<Rightarrow> (byte list, worker_error) result" where
  "record_bytes value = and_then (ok_or MaterialE value) (\<lambda>bytes.
     let bytes = bytes @ [10] in if ATOMIC < length bytes then Err Limit else Ok bytes)"

fun slices :: "nat \<Rightarrow> 'a list \<Rightarrow> 'a list list" where
  "slices n xs = (if n = 0 \<or> xs = [] then [] else take n xs # slices n (drop n xs))"

declare slices.simps [simp del]

definition chunks :: "delivery_env \<Rightarrow> u64 option \<Rightarrow> string \<Rightarrow> (byte list list, worker_error) result" where
  "chunks env i encoded =
     try_map (\<lambda>(part, bytes).
       and_then (ok_or MaterialE (from_utf8 bytes)) (\<lambda>data.
       record_bytes (to_vec_chunk env
         \<lparr>ck_id = i, ck_part = part, ck_data = data, ck_last = ((part + 1) * 256 \<ge> length encoded)\<rparr>)))
       (enumerate 0 (slices 256 (as_bytes encoded)))"

section \<open>Operations\<close>

definition delivery_new :: "string \<Rightarrow> delivery" where
  "delivery_new worker = \<lparr>dl_worker = worker, dl_policy = policy_default, dl_next = 0, dl_permits = [],
     dl_outcomes = [], dl_faulted = False, dl_queue = []\<rparr>"

definition window_of :: "delivery \<Rightarrow> authority \<Rightarrow> window" where
  "window_of s a = \<lparr>incarnation_matches = (au_worker a = dl_worker s), wn_generation = au_generation a,
     wn_not_before = au_not_before a, wn_expires = au_expires a\<rparr>"

definition allowed :: "delivery \<Rightarrow> authority \<Rightarrow> u64 \<Rightarrow> bool" where
  "allowed s a now = allows (dl_policy s) (window_of s a) now"

definition enqueue ::
  "delivery_env \<Rightarrow> u64 \<Rightarrow> u64 \<Rightarrow> prepared \<Rightarrow> delivery \<Rightarrow> (unit, worker_error) result \<times> delivery" where
  "enqueue env now1 now2 p s =
     (if \<not> allowed s (pr_authority p) now1 then (Err Expired, s)
      else if QUEUED \<le> length (dl_queue s) \<or> RESULTS \<le> length (dl_permits s) \<or> OUTCOMES \<le> length (dl_outcomes s)
      then (Err Limit, s)
      else case checked_add (dl_next s) 1 of
        None \<Rightarrow> (Err Limit, s)
      | Some i \<Rightarrow>
          (let s = s\<lparr>dl_next := i\<rparr> in
           case chunks env (Some i) (pr_encoded p) of
             Err e \<Rightarrow> (Err e, s)
           | Ok records \<Rightarrow>
               (let (admitted, pol) = admit (dl_policy s) (window_of s (pr_authority p)) now2 in
                if \<not> admitted then (Err Expired, s)
                else (Ok (), s\<lparr>dl_policy := pol,
                  dl_outcomes := bt_insert i \<lparr>oc_authority = pr_authority p, oc_phase = Pending\<rparr> (dl_outcomes s),
                  dl_permits := AList.update i (pr_key p) (dl_permits s),
                  dl_queue := dl_queue s @ [\<lparr>job_id = Some i, job_records = records\<rparr>]\<rparr>))))"

definition control :: "delivery_env \<Rightarrow> byte list option \<Rightarrow> delivery \<Rightarrow> (unit, worker_error) result \<times> delivery" where
  "control env value s = (case value of
       None \<Rightarrow> (Err MaterialE, s)
     | Some bytes \<Rightarrow>
         (let encoded = b64_encode env bytes in
          if 90000 < length encoded then (Err Limit, s)
          else if pol_stopped (dl_policy s) \<or> QUEUED \<le> length (dl_queue s) then (Err Limit, s)
          else case chunks env None encoded of
            Err e \<Rightarrow> (Err e, s)
          | Ok records \<Rightarrow> (Ok (), s\<lparr>dl_queue := dl_queue s @ [\<lparr>job_id = None, job_records = records\<rparr>]\<rparr>)))"

definition fence ::
  "string \<Rightarrow> u64 \<Rightarrow> ('x \<Rightarrow> ('o, worker_error) result \<times> 'x) \<Rightarrow> 'x \<Rightarrow> delivery \<Rightarrow>
     ('o \<times> in_flight_disposition, worker_error) result \<times> 'x \<times> delivery" where
  "fence worker gen apply_core x s =
     (if dl_worker s \<noteq> worker \<or> gen = 0 \<or>
         list_ex (\<lambda>(_, oc). au_worker (oc_authority oc) \<noteq> worker \<or> gen \<le> au_generation (oc_authority oc))
           (dl_outcomes s)
      then (Err Authority, x, s)
      else case apply_core x of
        (Err e, x) \<Rightarrow> (Err e, x, s)
      | (Ok observation, x) \<Rightarrow>
          (let s = suppress_pending (s\<lparr>dl_policy := snd (policy_fence (dl_policy s) True)\<rparr>) in
           if dl_faulted s \<or> list_ex (\<lambda>(_, oc). oc_phase oc \<in> {Pending, Indeterminate}) (dl_outcomes s)
           then (Err MaterialE, x, s)
           else (Ok (observation,
                  if list_ex (\<lambda>(_, oc). oc_phase oc = Suppressed) (dl_outcomes s)
                  then FurtherReleaseBlocked else Drained), x, s)))"

definition stop :: "delivery \<Rightarrow> delivery" where
  "stop s = (suppress_pending (s\<lparr>dl_policy := policy_stop (dl_policy s)\<rparr>))\<lparr>dl_queue := []\<rparr>"

text \<open>\<open>expire\<close> indexes the outcome of every permit; a missing one panics. \<open>tick\<close> gives the reading
  taken for each permit.\<close>

definition expire :: "(u64 \<Rightarrow> u64) \<Rightarrow> delivery \<Rightarrow> delivery option" where
  "expire tick s =
     (if list_ex (\<lambda>(i, _). map_of (dl_outcomes s) i = None) (dl_permits s) then None
      else Some (fold suppress
        (map fst (filter (\<lambda>(i, _). \<not> allowed s (oc_authority (the (map_of (dl_outcomes s) i))) (tick i)) (dl_permits s))) s))"

definition active :: "u64 \<Rightarrow> u64 \<Rightarrow> delivery \<Rightarrow> (bool, worker_error) result \<times> delivery" where
  "active now i s = (case map_of (dl_outcomes s) i of
       None \<Rightarrow> (Err MaterialE, s)
     | Some oc \<Rightarrow> (case oc_phase oc of
           Pending \<Rightarrow>
             if map_of (dl_permits s) i = None then (Err MaterialE, s)
             else if allowed s (oc_authority oc) now then (Ok True, s)
             else (Ok False, suppress i s)
         | Suppressed \<Rightarrow> (Ok False, s)
         | _ \<Rightarrow> (Err MaterialE, s)))"

section \<open>Writing\<close>

datatype write_result = Wrote nat | WouldBlock | Interrupted | OtherError

type_synonym 'w sink = "byte list \<Rightarrow> 'w \<Rightarrow> write_result \<times> 'w"

definition atomic :: "'w sink \<Rightarrow> byte list \<Rightarrow> 'w \<Rightarrow> (bool, worker_error) result \<times> 'w" where
  "atomic sink bytes world = (case sink bytes world of
       (Wrote n, world) \<Rightarrow> (if n = length bytes then Ok True else Err MaterialE, world)
     | (WouldBlock, world) \<Rightarrow> (Ok False, world)
     | (Interrupted, world) \<Rightarrow> (Ok False, world)
     | (OtherError, world) \<Rightarrow> (Err MaterialE, world))"

text \<open>\<open>Pipe::write\<close> refuses a record that one atomic write cannot carry; \<open>os\<close> is the system call.\<close>

definition pipe_write :: "'w sink \<Rightarrow> 'w sink" where
  "pipe_write os bytes world = (if bytes = [] \<or> ATOMIC < length bytes then (OtherError, world) else os bytes world)"

definition capsule_of :: "delivery_env \<Rightarrow> u64 \<Rightarrow> authority \<Rightarrow> 32 bytes \<Rightarrow> capsule" where
  "capsule_of env i a key = \<lparr>cp_id = i, cp_worker = au_worker a, cp_generation = au_generation a,
     cp_sequence = au_sequence a, cp_grant_sha256 = b64_encode env (bytes_list (au_grant_sha256 a)),
     cp_key = b64_encode env (bytes_list key)\<rparr>"

definition release ::
  "delivery_env \<Rightarrow> 'w sink \<Rightarrow> u64 \<Rightarrow> u64 \<Rightarrow> u64 \<Rightarrow> delivery \<Rightarrow> 'w \<Rightarrow>
     (release_phase, worker_error) result \<times> delivery \<times> 'w" where
  "release env sink now1 now2 i s world = (case map_of (dl_outcomes s) i of
       None \<Rightarrow> (Err MaterialE, s, world)
     | Some oc \<Rightarrow>
         if oc_phase oc \<in> {Committed, Suppressed} then (Ok (oc_phase oc), s, world)
         else if oc_phase oc = Indeterminate then (Err MaterialE, s, world)
         else if \<not> allowed s (oc_authority oc) now1 then (Ok Suppressed, suppress i s, world)
         else case map_of (dl_permits s) i of
           None \<Rightarrow> (Err MaterialE, s, world)
         | Some key \<Rightarrow>
             (case record_bytes (to_vec_capsule env (capsule_of env i (oc_authority oc) key)) of
                Err e \<Rightarrow> (Err e, fail_transport s, world)
              | Ok bytes \<Rightarrow>
                  (let (r, ph, world) = policy_release (dl_policy s) (oc_phase oc) (window_of s (oc_authority oc)) now2
                         (atomic sink bytes) world;
                       s = s\<lparr>dl_outcomes := get_mut i (\<lambda>oc. oc\<lparr>oc_phase := ph\<rparr>) (dl_outcomes s)\<rparr>;
                       s = (if r \<noteq> Ok Pending then s\<lparr>dl_permits := AList.delete i (dl_permits s)\<rparr> else s);
                       s = (if is_ok r then s else fail_transport s)
                   in (r, s, world))))"

text \<open>The clock readings one writer step may take.\<close>

record readings =
  rd_expire :: "u64 \<Rightarrow> u64"
  rd_active :: u64
  rd_allowed :: u64
  rd_release :: u64

definition suppressed_notice :: "delivery_env \<Rightarrow> u64 \<Rightarrow> (byte list list, worker_error) result" where
  "suppressed_notice env i =
     and_then (ok_or MaterialE (to_vec_suppressed env i)) (\<lambda>bytes. chunks env None (b64_encode env bytes))"

definition write_current ::
  "delivery_env \<Rightarrow> 'w sink \<Rightarrow> readings \<Rightarrow> job \<Rightarrow> delivery \<Rightarrow> 'w \<Rightarrow>
     (unit, worker_error) result \<times> job option \<times> delivery \<times> 'w" where
  "write_current env sink rd j s world = (case job_records j of
       bytes # rest \<Rightarrow>
         (case atomic sink bytes world of
            (Err e, world) \<Rightarrow> (Err e, Some j, s, world)
          | (Ok written, world) \<Rightarrow> (Ok (), Some (if written then j\<lparr>job_records := rest\<rparr> else j), s, world))
     | [] \<Rightarrow> (case job_id j of
           None \<Rightarrow> (Ok (), None, s, world)
         | Some i \<Rightarrow>
             (case release env sink (rd_allowed rd) (rd_release rd) i s world of
                (Err e, s, world) \<Rightarrow> (Err e, Some j, s, world)
              | (Ok Committed, s, world) \<Rightarrow> (Ok (), None, s, world)
              | (Ok Pending, s, world) \<Rightarrow> (Ok (), Some j, s, world)
              | (Ok Indeterminate, s, world) \<Rightarrow> (Err MaterialE, Some j, s, world)
              | (Ok Suppressed, s, world) \<Rightarrow>
                  (case suppressed_notice env i of
                     Err e \<Rightarrow> (Err e, Some (j\<lparr>job_id := None\<rparr>), s, world)
                   | Ok records \<Rightarrow> (Ok (), Some \<lparr>job_id = None, job_records = records\<rparr>, s, world)))))"

definition next_job :: "job option \<Rightarrow> delivery \<Rightarrow> job option \<times> delivery" where
  "next_job current s = (case (current, dl_queue s) of
       (None, j # rest) \<Rightarrow> (Some j, s\<lparr>dl_queue := rest\<rparr>)
     | _ \<Rightarrow> (current, s))"

definition serve ::
  "delivery_env \<Rightarrow> 'w sink \<Rightarrow> readings \<Rightarrow> job \<Rightarrow> delivery \<Rightarrow> 'w \<Rightarrow>
     (unit, worker_error) result \<times> job option \<times> delivery \<times> 'w" where
  "serve env sink rd j s world = (case job_id j of
       None \<Rightarrow> write_current env sink rd j s world
     | Some i \<Rightarrow>
         (case active (rd_active rd) i s of
            (Err e, s) \<Rightarrow> (Err e, Some j, s, world)
          | (Ok True, s) \<Rightarrow> write_current env sink rd j s world
          | (Ok False, s) \<Rightarrow>
              (case suppressed_notice env i of
                 Err e \<Rightarrow> (Err e, Some (j\<lparr>job_id := None\<rparr>), s, world)
               | Ok records \<Rightarrow> write_current env sink rd \<lparr>job_id = None, job_records = records\<rparr> s world)))"

definition step_inner ::
  "delivery_env \<Rightarrow> 'w sink \<Rightarrow> readings \<Rightarrow> job option \<Rightarrow> delivery \<Rightarrow> 'w \<Rightarrow>
     ((unit, worker_error) result \<times> job option \<times> delivery \<times> 'w) option" where
  "step_inner env sink rd current s world =
     map_option (\<lambda>s.
       if pol_stopped (dl_policy s) then (Ok (), None, s, world)
       else (case next_job current s of
           (None, s) \<Rightarrow> (Ok (), None, s, world)
         | (Some j, s) \<Rightarrow> serve env sink rd j s world))
       (expire (rd_expire rd) s)"

definition writer_step ::
  "delivery_env \<Rightarrow> 'w sink \<Rightarrow> readings \<Rightarrow> job option \<Rightarrow> delivery \<Rightarrow> 'w \<Rightarrow>
     ((unit, worker_error) result \<times> job option \<times> delivery \<times> 'w) option" where
  "writer_step env sink rd current s world =
     map_option (\<lambda>(r, current, s, world). if is_ok r then (r, current, s, world) else (r, None, fail_transport s, world))
       (step_inner env sink rd current s world)"

section \<open>Outcomes and permits\<close>

lemma map_of_get_mut: "map_of (get_mut k f m) = (map_of m)(k := map_option f (map_of m k))"
  by (induction m) (auto simp: get_mut_def)

lemma get_mut_keys [simp]: "map fst (get_mut k f m) = map fst m" "length (get_mut k f m) = length m"
    "fst ` set (get_mut k f m) = fst ` set m" "bt_sorted (get_mut k f m) = bt_sorted m"
  by (induction m) (auto simp: get_mut_def bt_sorted_def)

lemma length_bt_insert_le: "length (bt_insert k v m) \<le> Suc (length m)"
  by (induction m) auto

lemma length_update_le: "length (AList.update k v al) \<le> Suc (length al)"
  by (induction al) auto

lemma suppress_outcome_simps [simp]:
  "oc_authority (suppress_outcome oc) = oc_authority oc"
  "oc_phase (suppress_outcome oc) = (if oc_phase oc = Pending then Suppressed else oc_phase oc)"
  "suppress_outcome (suppress_outcome oc) = suppress_outcome oc"
  by (auto simp: suppress_outcome_def)

lemma suppress_outcome_id: "oc_phase oc \<noteq> Pending \<Longrightarrow> suppress_outcome oc = oc"
  by (simp add: suppress_outcome_def)

lemma fold_suppress_outcomes:
  fixes ps :: "(u64 \<times> 'p) list"
  defines "after m \<equiv> fold (\<lambda>(i, _). get_mut i suppress_outcome) ps m"
  shows "map_of (after m) k = (if k \<in> fst ` set ps then map_option suppress_outcome (map_of m k) else map_of m k)"
    and "map fst (after m) = map fst m" and "length (after m) = length m"
    and "bt_sorted (after m) = bt_sorted m"
proof -
  show "map_of (after m) k = (if k \<in> fst ` set ps then map_option suppress_outcome (map_of m k) else map_of m k)"
    unfolding after_def
    by (induction ps arbitrary: m) (auto simp: map_of_get_mut option.map_comp comp_def)
  show "map fst (after m) = map fst m" "length (after m) = length m" "bt_sorted (after m) = bt_sorted m"
    unfolding after_def by (induction ps arbitrary: m) auto
qed

definition phase_of :: "delivery \<Rightarrow> u64 \<Rightarrow> release_phase option" where
  "phase_of s i = map_option oc_phase (map_of (dl_outcomes s) i)"

definition permitted :: "delivery \<Rightarrow> u64 set" where
  "permitted s = dom (map_of (dl_permits s))"

definition recorded :: "delivery \<Rightarrow> u64 set" where
  "recorded s = dom (map_of (dl_outcomes s))"

definition pending :: "delivery \<Rightarrow> u64 set" where
  "pending s = {i. phase_of s i = Some Pending}"

text \<open>A permit is held exactly while its outcome is pending, every outcome belongs to this
  incarnation and generation, and a closed gate holds no permit.\<close>

definition permits_pending :: "delivery \<Rightarrow> bool" where
  "permits_pending s \<longleftrightarrow> bt_sorted (dl_outcomes s) \<and> distinct (map fst (dl_permits s)) \<and>
     permitted s = pending s \<and> recorded s \<subseteq> {..dl_next s}"

definition one_generation :: "delivery \<Rightarrow> bool" where
  "one_generation s \<longleftrightarrow> (\<forall>i oc. map_of (dl_outcomes s) i = Some oc \<longrightarrow>
     au_worker (oc_authority oc) = dl_worker s \<and> au_generation (oc_authority oc) \<noteq> 0 \<and>
     pol_generation (dl_policy s) = Some (au_generation (oc_authority oc)))"

definition closed_empty :: "delivery \<Rightarrow> bool" where
  "closed_empty s \<longleftrightarrow> (pol_fenced (dl_policy s) \<or> pol_stopped (dl_policy s) \<longrightarrow> dl_permits s = []) \<and>
     (dl_faulted s \<longrightarrow> pol_stopped (dl_policy s)) \<and>
     (\<forall>i. phase_of s i = Some Indeterminate \<longrightarrow> dl_faulted s)"

definition within_limits :: "delivery \<Rightarrow> bool" where
  "within_limits s \<longleftrightarrow> length (dl_queue s) \<le> QUEUED \<and> length (dl_permits s) \<le> RESULTS \<and>
     length (dl_outcomes s) \<le> OUTCOMES"

definition delivery_ok :: "delivery \<Rightarrow> bool" where
  "delivery_ok s \<longleftrightarrow> permits_pending s \<and> one_generation s \<and> closed_empty s \<and> within_limits s"

lemma permitted_empty: "permitted s = {} \<longleftrightarrow> dl_permits s = []"
  by (simp add: permitted_def dom_map_of_conv_image_fst)

lemma delivery_ok_new: "delivery_ok (delivery_new worker)"
  by (simp add: delivery_ok_def permits_pending_def one_generation_def closed_empty_def within_limits_def
      permitted_def pending_def recorded_def phase_of_def delivery_new_def policy_default_def)

lemma delivery_ok_quiet:
  assumes "delivery_ok s" and "length q \<le> QUEUED" and "dl_next s \<le> n"
  shows "delivery_ok (s\<lparr>dl_next := n, dl_queue := q\<rparr>)"
  using assms by (fastforce simp: delivery_ok_def permits_pending_def one_generation_def closed_empty_def within_limits_def
      permitted_def pending_def recorded_def phase_of_def)

lemma phase_suppress: "phase_of (suppress i s) k =
    (if k = i \<and> phase_of s i = Some Pending then Some Suppressed else phase_of s k)"
  by (cases "map_of (dl_outcomes s) i") (auto simp: phase_of_def suppress_def map_of_get_mut)

lemma suppress_sets [simp]: "permitted (suppress i s) = permitted s - {i}"
    "pending (suppress i s) = pending s - {i}" "recorded (suppress i s) = recorded s"
  by (auto simp: permitted_def pending_def recorded_def phase_suppress)
    (auto simp: suppress_def AList.delete_conv' map_of_get_mut split: if_splits)

lemma suppress_frame [simp]: "dl_policy (suppress i s) = dl_policy s" "dl_worker (suppress i s) = dl_worker s"
    "dl_next (suppress i s) = dl_next s" "dl_faulted (suppress i s) = dl_faulted s" "dl_queue (suppress i s) = dl_queue s"
    "bt_sorted (dl_outcomes (suppress i s)) = bt_sorted (dl_outcomes s)"
    "length (dl_outcomes (suppress i s)) = length (dl_outcomes s)"
  by (simp_all add: suppress_def)

lemma delivery_ok_suppress: "delivery_ok s \<Longrightarrow> delivery_ok (suppress i s)"
proof -
  assume ok: "delivery_ok s"
  have p: "permits_pending (suppress i s)"
    using ok by (simp add: delivery_ok_def permits_pending_def) (simp add: suppress_def AList.distinct_delete)
  have g: "one_generation (suppress i s)"
    using ok by (auto simp: delivery_ok_def one_generation_def suppress_def map_of_get_mut)
  have c: "closed_empty (suppress i s)"
    using ok by (auto simp: delivery_ok_def closed_empty_def phase_suppress simp flip: permitted_empty)
  have "within_limits (suppress i s)"
    using ok AList.length_delete_le [of i "dl_permits s"]
    by (simp add: delivery_ok_def within_limits_def) (simp add: suppress_def)
  with p g c show ?thesis by (simp add: delivery_ok_def)
qed

lemma delivery_ok_suppress_all: "delivery_ok s \<Longrightarrow> delivery_ok (fold suppress ids s)"
  by (induction ids arbitrary: s) (auto intro: delivery_ok_suppress)

text \<open>Closing the gate: every pending outcome is suppressed and no permit remains.\<close>

lemma phase_suppress_pending: "phase_of (suppress_pending s) k =
    (if k \<in> permitted s \<and> phase_of s k = Some Pending then Some Suppressed else phase_of s k)"
  by (cases "map_of (dl_outcomes s) k")
    (auto simp: phase_of_def suppress_pending_def fold_suppress_outcomes permitted_def dom_map_of_conv_image_fst)

lemma suppress_pending_sets [simp]: "permitted (suppress_pending s) = {}"
    "pending (suppress_pending s) = pending s - permitted s" "recorded (suppress_pending s) = recorded s"
  by (auto simp: pending_def phase_suppress_pending)
    (auto simp: suppress_pending_def permitted_def recorded_def fold_suppress_outcomes split: if_splits)

lemma suppress_pending_frame [simp]: "dl_policy (suppress_pending s) = dl_policy s"
    "dl_worker (suppress_pending s) = dl_worker s" "dl_next (suppress_pending s) = dl_next s"
    "dl_faulted (suppress_pending s) = dl_faulted s" "dl_queue (suppress_pending s) = dl_queue s"
    "dl_permits (suppress_pending s) = []"
    "bt_sorted (dl_outcomes (suppress_pending s)) = bt_sorted (dl_outcomes s)"
    "length (dl_outcomes (suppress_pending s)) = length (dl_outcomes s)"
  by (simp_all add: suppress_pending_def fold_suppress_outcomes)

lemma suppress_pending_authority:
  "map_of (dl_outcomes (suppress_pending s)) i = Some oc \<Longrightarrow>
     \<exists>oc'. map_of (dl_outcomes s) i = Some oc' \<and> oc_authority oc = oc_authority oc'"
  by (auto simp: suppress_pending_def fold_suppress_outcomes split: if_splits)

text \<open>\<open>shut\<close> is the common body of \<open>fence\<close>, \<open>stop\<close> and \<open>fail_transport\<close>.\<close>

definition shut :: "policy \<Rightarrow> bool \<Rightarrow> job list \<Rightarrow> delivery \<Rightarrow> delivery" where
  "shut pol faulted q s = (suppress_pending (s\<lparr>dl_policy := pol, dl_faulted := faulted\<rparr>))\<lparr>dl_queue := q\<rparr>"

lemma shut_sets [simp]: "permitted (shut pol faulted q s) = {}"
    "pending (shut pol faulted q s) = pending s - permitted s" "recorded (shut pol faulted q s) = recorded s"
proof -
  let ?s = "s\<lparr>dl_policy := pol, dl_faulted := faulted\<rparr>"
  have "permitted ?s = permitted s" "pending ?s = pending s" "recorded ?s = recorded s"
    by (simp_all add: permitted_def pending_def recorded_def phase_of_def)
  moreover have "permitted (shut pol faulted q s) = permitted (suppress_pending ?s)"
    "pending (shut pol faulted q s) = pending (suppress_pending ?s)"
    "recorded (shut pol faulted q s) = recorded (suppress_pending ?s)"
    by (simp_all add: shut_def permitted_def pending_def recorded_def phase_of_def)
  ultimately show "permitted (shut pol faulted q s) = {}"
    "pending (shut pol faulted q s) = pending s - permitted s" "recorded (shut pol faulted q s) = recorded s"
    by simp_all
qed

lemma phase_shut: "phase_of (shut pol faulted q s) k =
    (if k \<in> permitted s \<and> phase_of s k = Some Pending then Some Suppressed else phase_of s k)"
proof -
  have "phase_of (t\<lparr>dl_queue := q\<rparr>) k = phase_of t k" "phase_of (s\<lparr>dl_policy := pol, dl_faulted := faulted\<rparr>) k = phase_of s k"
    "permitted (s\<lparr>dl_policy := pol, dl_faulted := faulted\<rparr>) = permitted s" for t
    by (simp_all add: phase_of_def permitted_def)
  then show ?thesis by (simp only: shut_def phase_suppress_pending)
qed

lemma shut_frame [simp]: "dl_policy (shut pol faulted q s) = pol" "dl_worker (shut pol faulted q s) = dl_worker s"
    "dl_next (shut pol faulted q s) = dl_next s" "dl_faulted (shut pol faulted q s) = faulted"
    "dl_queue (shut pol faulted q s) = q" "dl_permits (shut pol faulted q s) = []"
    "bt_sorted (dl_outcomes (shut pol faulted q s)) = bt_sorted (dl_outcomes s)"
    "length (dl_outcomes (shut pol faulted q s)) = length (dl_outcomes s)"
  by (simp_all add: shut_def)

lemma shut_authority:
  "map_of (dl_outcomes (shut pol faulted q s)) i = Some oc \<Longrightarrow>
     \<exists>oc'. map_of (dl_outcomes s) i = Some oc' \<and> oc_authority oc = oc_authority oc'"
  using suppress_pending_authority [of "s\<lparr>dl_policy := pol, dl_faulted := faulted\<rparr>" i oc]
  by (simp add: shut_def)

lemma fail_transport_shut: "fail_transport s = shut (policy_stop (dl_policy s)) True [] s"
  by (simp add: fail_transport_def shut_def suppress_pending_def)

lemma stop_shut: "stop s = shut (policy_stop (dl_policy s)) (dl_faulted s) [] s"
  by (simp add: stop_def shut_def)

definition sealed :: "delivery \<Rightarrow> delivery" where
  "sealed s = shut (snd (policy_fence (dl_policy s) True)) (dl_faulted s) (dl_queue s) s"

lemma fence_sealed:
  "suppress_pending (s\<lparr>dl_policy := snd (policy_fence (dl_policy s) True)\<rparr>) = sealed s"
  by (simp add: sealed_def shut_def suppress_pending_def)

lemma policy_simps [simp]: "pol_generation (policy_stop p) = pol_generation p" "pol_stopped (policy_stop p)"
    "pol_fenced (policy_stop p) = pol_fenced p"
    "pol_generation (snd (policy_fence p True)) = pol_generation p" "pol_fenced (snd (policy_fence p True))"
    "pol_stopped (snd (policy_fence p True)) = pol_stopped p"
  by (simp_all add: policy_stop_def policy_fence_def)

lemma delivery_ok_shut:
  assumes ok: "delivery_ok s" and pol: "pol_generation pol = pol_generation (dl_policy s)"
    and "length q \<le> QUEUED" and "dl_faulted s \<longrightarrow> faulted" and "faulted \<longrightarrow> pol_stopped pol"
  shows "delivery_ok (shut pol faulted q s)"
proof -
  have "permits_pending (shut pol faulted q s)"
    using ok by (simp add: delivery_ok_def permits_pending_def)
  moreover have "one_generation (shut pol faulted q s)"
    using ok pol by (fastforce simp: delivery_ok_def one_generation_def dest: shut_authority)
  moreover have "closed_empty (shut pol faulted q s)"
    using ok assms(4,5) by (auto simp: delivery_ok_def closed_empty_def phase_shut split: if_splits)
  moreover have "within_limits (shut pol faulted q s)"
    using ok assms(3) by (simp add: delivery_ok_def within_limits_def)
  ultimately show ?thesis by (simp add: delivery_ok_def)
qed

lemma delivery_ok_closings:
  assumes "delivery_ok s"
  shows "delivery_ok (fail_transport s)" and "delivery_ok (stop s)" and "delivery_ok (sealed s)"
proof -
  have "length (dl_queue s) \<le> QUEUED" "dl_faulted s \<longrightarrow> pol_stopped (dl_policy s)"
    using assms by (simp_all add: delivery_ok_def within_limits_def closed_empty_def)
  then show "delivery_ok (fail_transport s)" "delivery_ok (stop s)" "delivery_ok (sealed s)"
    unfolding fail_transport_shut stop_shut sealed_def by (simp_all add: delivery_ok_shut [OF assms])
qed

text \<open>Settling the outcome of one delivery.\<close>

definition settle :: "u64 \<Rightarrow> release_phase \<Rightarrow> delivery \<Rightarrow> delivery" where
  "settle i ph s = s\<lparr>dl_outcomes := get_mut i (\<lambda>oc. oc\<lparr>oc_phase := ph\<rparr>) (dl_outcomes s),
     dl_permits := AList.delete i (dl_permits s)\<rparr>"

lemma phase_settle: "phase_of (settle i ph s) k = (if k = i \<and> i \<in> recorded s then Some ph else phase_of s k)"
  by (cases "map_of (dl_outcomes s) i") (auto simp: phase_of_def settle_def map_of_get_mut recorded_def)

lemma settle_sets: "permitted (settle i ph s) = permitted s - {i}" "recorded (settle i ph s) = recorded s"
  by (auto simp: settle_def permitted_def AList.delete_conv' recorded_def map_of_get_mut split: if_splits)

lemma pending_settle: "ph \<noteq> Pending \<Longrightarrow> pending (settle i ph s) = pending s - {i}"
  unfolding pending_def phase_settle by (auto simp: recorded_def phase_of_def split: if_splits)

lemma settle_wf:
  assumes ok: "delivery_ok s" and "ph \<noteq> Pending"
  shows "permits_pending (settle i ph s)" and "one_generation (settle i ph s)" and "within_limits (settle i ph s)"
proof -
  show "permits_pending (settle i ph s)"
    using ok assms(2) by (auto simp: delivery_ok_def permits_pending_def settle_sets pending_settle)
      (auto simp: settle_def AList.distinct_delete)
  show "one_generation (settle i ph s)"
    using ok by (auto simp: delivery_ok_def one_generation_def settle_def map_of_get_mut split: if_splits)
  show "within_limits (settle i ph s)"
    using ok AList.length_delete_le [of i "dl_permits s"]
    by (simp add: delivery_ok_def within_limits_def settle_def)
qed

lemma delivery_ok_settle:
  assumes ok: "delivery_ok s" and "ph = Committed \<or> ph = Suppressed"
  shows "delivery_ok (settle i ph s)"
proof -
  have "closed_empty (settle i ph s)"
    using ok assms(2) by (auto simp: delivery_ok_def closed_empty_def phase_settle split: if_splits)
      (auto simp: settle_def)
  with settle_wf [OF ok, of ph i] assms(2) show ?thesis by (auto simp: delivery_ok_def)
qed

text \<open>A capsule write that failed leaves its outcome indeterminate and faults the transport.\<close>

definition broken :: "u64 \<Rightarrow> delivery \<Rightarrow> delivery" where
  "broken i s = fail_transport (settle i Indeterminate s)"

lemma delivery_ok_broken:
  assumes ok: "delivery_ok s"
  shows "delivery_ok (broken i s)"
proof -
  let ?t = "settle i Indeterminate s"
  have t: "permits_pending ?t" "one_generation ?t" "within_limits ?t"
    using settle_wf [OF ok, of Indeterminate i] by simp_all
  have "permits_pending (fail_transport ?t)" "within_limits (fail_transport ?t)"
    using t unfolding fail_transport_shut by (simp_all add: permits_pending_def within_limits_def)
  moreover have "one_generation (fail_transport ?t)"
    using t(2) unfolding fail_transport_shut by (fastforce simp: one_generation_def dest: shut_authority)
  moreover have "closed_empty (fail_transport ?t)"
    by (simp add: closed_empty_def fail_transport_shut)
  ultimately show ?thesis by (simp add: delivery_ok_def broken_def)
qed

section \<open>Effects of the operations\<close>

text \<open>Admission records one new pending outcome and its permit.\<close>

definition admitted :: "u64 \<Rightarrow> policy \<Rightarrow> prepared \<Rightarrow> job list \<Rightarrow> delivery \<Rightarrow> delivery" where
  "admitted i pol p q s = s\<lparr>dl_next := i, dl_policy := pol,
     dl_outcomes := bt_insert i \<lparr>oc_authority = pr_authority p, oc_phase = Pending\<rparr> (dl_outcomes s),
     dl_permits := AList.update i (pr_key p) (dl_permits s), dl_queue := q\<rparr>"

lemma enqueue_cases:
  obtains (refused) e n where "enqueue env now1 now2 p s = (Err e, s\<lparr>dl_next := n\<rparr>)" "dl_next s \<le> n"
  | (accepted) i rs where "enqueue env now1 now2 p s =
        (Ok (), admitted i ((dl_policy s)\<lparr>pol_generation := Some (au_generation (pr_authority p))\<rparr>) p
           (dl_queue s @ [\<lparr>job_id = Some i, job_records = rs\<rparr>]) s)"
      "dl_next s < i" "allowed s (pr_authority p) now2" "length (dl_queue s) < QUEUED"
      "length (dl_permits s) < RESULTS" "length (dl_outcomes s) < OUTCOMES" "chunks env (Some i) (pr_encoded p) = Ok rs"
proof -
  consider "\<not> allowed s (pr_authority p) now1"
    | "allowed s (pr_authority p) now1"
      "QUEUED \<le> length (dl_queue s) \<or> RESULTS \<le> length (dl_permits s) \<or> OUTCOMES \<le> length (dl_outcomes s)"
    | "allowed s (pr_authority p) now1" "checked_add (dl_next s) 1 = None"
      "\<not> (QUEUED \<le> length (dl_queue s) \<or> RESULTS \<le> length (dl_permits s) \<or> OUTCOMES \<le> length (dl_outcomes s))"
    | i where "allowed s (pr_authority p) now1" "length (dl_queue s) < QUEUED"
      "length (dl_permits s) < RESULTS" "length (dl_outcomes s) < OUTCOMES" "checked_add (dl_next s) 1 = Some i"
    by force
  then show thesis
  proof cases
    case 1
    then show thesis by (intro refused [of Expired "dl_next s"]) (simp_all add: enqueue_def)
  next
    case 2
    then show thesis by (intro refused [of Limit "dl_next s"]) (simp_all add: enqueue_def)
  next
    case 3
    then show thesis by (intro refused [of Limit "dl_next s"]) (simp_all add: enqueue_def)
  next
    case 4
    then have i: "dl_next s < i"
      by (auto simp: checked_add_Some word_less_nat_alt)
    have window: "window_of (s\<lparr>dl_next := i\<rparr>) (pr_authority p) = window_of s (pr_authority p)"
      by (simp add: window_of_def)
    show thesis
    proof (cases "chunks env (Some i) (pr_encoded p)")
      case (Err e)
      with 4 i show thesis
        by (intro refused [of e i]) (auto simp: enqueue_def)
    next
      case (Ok rs)
      show thesis
      proof (cases "allows (dl_policy s) (window_of s (pr_authority p)) now2")
        case True
        with 4 i Ok show thesis
          by (intro accepted [of i rs])
            (auto simp: enqueue_def admit_def window allowed_def window_of_def admitted_def Let_def)
      next
        case False
        with 4 i Ok show thesis
          by (intro refused [of Expired i]) (auto simp: enqueue_def admit_def window Let_def)
      qed
    qed
  qed
qed

lemma delivery_ok_admitted:
  assumes ok: "delivery_ok s" and i: "dl_next s < i" and a: "allowed s (pr_authority p) now"
    and "length q \<le> QUEUED" and "length (dl_permits s) < RESULTS" and "length (dl_outcomes s) < OUTCOMES"
  shows "delivery_ok (admitted i ((dl_policy s)\<lparr>pol_generation := Some (au_generation (pr_authority p))\<rparr>) p q s)"
proof -
  let ?t = "admitted i ((dl_policy s)\<lparr>pol_generation := Some (au_generation (pr_authority p))\<rparr>) p q s"
  have fresh: "i \<notin> recorded s" "i \<notin> permitted s"
    using ok i by (auto simp: delivery_ok_def permits_pending_def pending_def phase_of_def recorded_def)
  then have new: "i \<notin> fst ` set (dl_outcomes s)" "i \<notin> fst ` set (dl_permits s)"
    by (simp_all add: recorded_def permitted_def dom_map_of_conv_image_fst)
  have sets: "recorded ?t = insert i (recorded s)" "permitted ?t = insert i (permitted s)"
    by (auto simp: admitted_def recorded_def permitted_def update_conv' split: if_splits)
  have phase: "phase_of ?t k = (if k = i then Some Pending else phase_of s k)" for k
    by (simp add: admitted_def phase_of_def)
  then have "pending ?t = insert i (pending s)"
    by (auto simp: pending_def)
  then have "permits_pending ?t"
    using ok i sets by (auto simp: delivery_ok_def permits_pending_def)
      (auto simp: admitted_def distinct_update)
  moreover have "one_generation ?t"
    using ok a by (auto simp: delivery_ok_def one_generation_def admitted_def allowed_def allows_def window_of_def
        split: option.splits if_splits)
  moreover have "closed_empty ?t"
    using ok a phase by (auto simp: delivery_ok_def closed_empty_def allowed_def allows_def split: if_splits)
      (auto simp: admitted_def)
  moreover have "within_limits ?t"
    using assms(4-6) le_trans [OF length_bt_insert_le [of i _ "dl_outcomes s"]]
      le_trans [OF length_update_le [of i "pr_key p" "dl_permits s"]]
    by (simp add: within_limits_def admitted_def)
  ultimately show ?thesis by (simp add: delivery_ok_def)
qed

lemma control_state: "\<exists>q. snd (control env value s) = s\<lparr>dl_queue := q\<rparr> \<and> (delivery_ok s \<longrightarrow> length q \<le> QUEUED)"
proof -
  have same: "s = s\<lparr>dl_queue := dl_queue s\<rparr>" by simp
  have "delivery_ok s \<longrightarrow> length (dl_queue s) \<le> QUEUED"
    by (simp add: delivery_ok_def within_limits_def)
  then show ?thesis
    by (auto simp: control_def Let_def split: option.splits result.splits
        intro: exI [of _ "dl_queue s"] exI [of _ "dl_queue s @ [_]"])
qed

lemma fence_state: "snd (snd (fence worker gen f x s)) = s \<or> snd (snd (fence worker gen f x s)) = sealed s"
  unfolding fence_def fence_sealed by (auto simp: Let_def split: prod.splits result.splits)

lemma fence_Ok:
  assumes "fence worker gen f x s = (Ok (obs, d), x', s')"
  shows "s' = sealed s" and "\<not> dl_faulted s" and "f x = (Ok obs, x')"
    and "\<not> list_ex (\<lambda>(_, oc). oc_phase oc \<in> {Pending, Indeterminate}) (dl_outcomes s')"
    and "d = Drained \<longleftrightarrow> \<not> list_ex (\<lambda>(_, oc). oc_phase oc = Suppressed) (dl_outcomes s')"
  using assms unfolding fence_def fence_sealed
  by (auto simp: Let_def sealed_def split: prod.splits result.splits if_splits)

lemma get_mut_same:
  assumes "bt_sorted m" and "map_of m k = Some v" and "f v = v"
  shows "get_mut k f m = m"
proof -
  have "v' = v" if "(k, v') \<in> set m" for v'
    using that assms(2) bt_sorted_distinct [OF assms(1)] by (simp add: map_of_is_SomeI)
  with assms(3) show ?thesis
    unfolding get_mut_def by (intro map_idI) auto
qed

lemma release_state:
  assumes "bt_sorted (dl_outcomes s)"
  obtains (same) "fst (snd (release env sink now1 now2 i s world)) = s"
  | (suppressed) "fst (snd (release env sink now1 now2 i s world)) = suppress i s"
  | (failed) "fst (snd (release env sink now1 now2 i s world)) = fail_transport s"
  | (settled) ph where "phase_of s i = Some Pending" "ph = Committed \<or> ph = Suppressed"
      "fst (snd (release env sink now1 now2 i s world)) = settle i ph s"
  | (broken) "phase_of s i = Some Pending" "fst (snd (release env sink now1 now2 i s world)) = broken i s"
proof -
  consider "map_of (dl_outcomes s) i = None"
    | oc where "map_of (dl_outcomes s) i = Some oc" "oc_phase oc \<noteq> Pending"
    | oc where "map_of (dl_outcomes s) i = Some oc" "oc_phase oc = Pending" "\<not> allowed s (oc_authority oc) now1"
    | oc where "map_of (dl_outcomes s) i = Some oc" "oc_phase oc = Pending" "allowed s (oc_authority oc) now1"
    by blast
  then show thesis
  proof cases
    case 1
    then show thesis by (intro same) (simp add: release_def)
  next
    case 2
    then show thesis by (intro same) (cases "oc_phase oc"; simp add: release_def)
  next
    case 3
    then show thesis by (intro suppressed) (simp add: release_def)
  next
    case (4 oc)
    then have pending: "phase_of s i = Some Pending" by (simp add: phase_of_def)
    show thesis
    proof (cases "map_of (dl_permits s) i")
      case None
      with 4 show thesis by (intro same) (simp add: release_def)
    next
      case (Some key)
      let ?capsule = "record_bytes (to_vec_capsule env (capsule_of env i (oc_authority oc) key))"
      show thesis
      proof (cases ?capsule)
        case (Err e)
        with 4 Some show thesis by (intro failed) (simp add: release_def)
      next
        case (Ok bytes)
        obtain r ph w where pr: "policy_release (dl_policy s) Pending (window_of s (oc_authority oc)) now2
            (atomic sink bytes) world = (r, ph, w)"
          by (cases "policy_release (dl_policy s) Pending (window_of s (oc_authority oc)) now2 (atomic sink bytes) world")
        then consider "r = Ok Pending" "ph = Pending" | "r = Ok ph" "ph = Committed \<or> ph = Suppressed"
          | e where "r = Err e" "ph = Indeterminate"
          by (auto simp: policy_release_def split: if_splits prod.splits result.splits bool.splits)
        then show thesis
        proof cases
          case 1
          with 4 Some Ok pr assms show thesis
            by (intro same) (simp add: release_def get_mut_same)
        next
          case 2
          with 4 Some Ok pr pending show thesis
            by (intro settled [of ph]) (auto simp: release_def settle_def)
        next
          case 3
          with 4 Some Ok pr pending show thesis
            by (intro broken) (simp_all add: release_def broken_def settle_def)
        qed
      qed
    qed
  qed
qed

section \<open>Interleavings\<close>

text \<open>
  One locked call of any method, with any arguments, clock readings and pipe behaviour. The writer
  thread and the request loop only ever act through these calls, so every interleaving of the two
  is a run.
\<close>

inductive delivery_step :: "delivery_env \<Rightarrow> delivery \<Rightarrow> delivery \<Rightarrow> bool" for env where
  enqueue: "delivery_step env s (snd (enqueue env now1 now2 p s))"
| control: "delivery_step env s (snd (control env value s))"
| fence: "delivery_step env s (snd (snd (fence worker gen (\<lambda>_. (r :: (unit, worker_error) result, ())) () s)))"
| stop: "delivery_step env s (stop s)"
| fail_transport: "delivery_step env s (fail_transport s)"
| expire: "expire tick s = Some s' \<Longrightarrow> delivery_step env s s'"
| pop_front: "dl_queue s = j # q \<Longrightarrow> delivery_step env s (s\<lparr>dl_queue := q\<rparr>)"
| active: "delivery_step env s (snd (active now i s))"
| release: "delivery_step env s (fst (snd (release env (\<lambda>_ _. (outcome, ())) now1 now2 i s ())))"

definition delivery_run :: "delivery_env \<Rightarrow> delivery \<Rightarrow> delivery \<Rightarrow> bool" where
  "delivery_run env = (delivery_step env)\<^sup>*\<^sup>*"

lemma delivery_run_induct [consumes 1, case_names refl step]:
  assumes "delivery_run env s t" and "P s" and "\<And>x y. delivery_step env x y \<Longrightarrow> P x \<Longrightarrow> P y"
  shows "P t"
  using assms unfolding delivery_run_def by (induction rule: rtranclp_induct) auto

lemma delivery_run_trans: "delivery_run env s t \<Longrightarrow> delivery_run env t u \<Longrightarrow> delivery_run env s u"
  unfolding delivery_run_def by simp

lemma delivery_run_step: "delivery_step env s t \<Longrightarrow> delivery_run env s t"
  unfolding delivery_run_def by simp

lemma delivery_run_refl [simp]: "delivery_run env s s"
  unfolding delivery_run_def by simp

text \<open>Every step is one of eight primitive changes of the gate.\<close>

lemma delivery_step_effect [consumes 2, case_names quiet admitted suppressed closed settled broken]:
  assumes "delivery_step env s t" and ok: "delivery_ok s"
  obtains (quiet) n q where "t = s\<lparr>dl_next := n, dl_queue := q\<rparr>" "dl_next s \<le> n" "length q \<le> QUEUED"
  | (admitted) i p q now where
      "t = admitted i ((dl_policy s)\<lparr>pol_generation := Some (au_generation (pr_authority p))\<rparr>) p q s"
      "dl_next s < i" "allowed s (pr_authority p) now" "length q \<le> QUEUED"
      "length (dl_permits s) < RESULTS" "length (dl_outcomes s) < OUTCOMES"
  | (suppressed) ids where "t = fold suppress ids s"
  | (closed) "t = sealed s \<or> t = stop s \<or> t = fail_transport s"
  | (settled) i ph where "t = settle i ph s" "phase_of s i = Some Pending" "ph = Committed \<or> ph = Suppressed"
  | (broken) i where "t = broken i s" "phase_of s i = Some Pending"
proof -
  have q: "length (dl_queue s) \<le> QUEUED" and sorted: "bt_sorted (dl_outcomes s)"
    using ok by (simp_all add: delivery_ok_def within_limits_def permits_pending_def)
  have self: thesis if "t = s"
    by (rule suppressed [of "[]"]) (simp add: that)
  from assms(1) show thesis
  proof cases
    case (enqueue now1 now2 p)
    show thesis
    proof (cases rule: enqueue_cases [of env now1 now2 p s])
      case (refused e n)
      with enqueue q show thesis by (intro quiet [of "dl_queue s" n]) auto
    next
      case (accepted i rs)
      with enqueue show thesis by (intro admitted [of i p _ now2]) auto
    qed
  next
    case (control v)
    then obtain q' where "t = s\<lparr>dl_queue := q'\<rparr>" "length q' \<le> QUEUED"
      using control_state [of env v s] ok by auto
    then show thesis by (intro quiet [of q' "dl_next s"]) auto
  next
    case (fence worker gen r)
    with fence_state [of worker gen "\<lambda>_. (r, ())" "()" s] show thesis
      using self closed by auto
  next
    case (expire tick)
    then show thesis by (auto simp: expire_def split: if_splits intro: suppressed)
  next
    case (pop_front j rest)
    with q show thesis by (intro quiet [of rest "dl_next s"]) auto
  next
    case (active now i)
    then have "t = s \<or> t = suppress i s"
      by (auto simp: active_def split: option.splits release_phase.splits if_splits)
    then show thesis
      using self suppressed [of "[i]"] by auto
  next
    case (release outcome now1 now2 i)
    show thesis
      by (cases rule: release_state [OF sorted, of env "\<lambda>_ _. (outcome, ())" now1 now2 i "()"])
        (use release self suppressed [of "[i]"] closed settled broken in auto)
  qed (use closed in auto)
qed

lemma delivery_step_ok: "delivery_step env s t \<Longrightarrow> delivery_ok s \<Longrightarrow> delivery_ok t"
  by (cases rule: delivery_step_effect)
    (auto intro: delivery_ok_quiet delivery_ok_admitted delivery_ok_suppress_all delivery_ok_closings
      delivery_ok_settle delivery_ok_broken)

lemma delivery_run_ok: "delivery_run env s t \<Longrightarrow> delivery_ok s \<Longrightarrow> delivery_ok t"
  by (induction rule: delivery_run_induct) (auto intro: delivery_step_ok)

definition gate_closed :: "delivery \<Rightarrow> bool" where
  "gate_closed s \<longleftrightarrow> pol_fenced (dl_policy s) \<or> pol_stopped (dl_policy s)"

lemma suppress_settled:
  "map_of (dl_outcomes s) i = Some oc \<Longrightarrow> oc_phase oc \<noteq> Pending \<Longrightarrow> map_of (dl_outcomes (suppress k s)) i = Some oc"
  by (auto simp: suppress_def map_of_get_mut suppress_outcome_id)

lemma fold_suppress_frame:
  "dl_policy (fold suppress ids s) = dl_policy s"
  "map_of (dl_outcomes s) i = Some oc \<Longrightarrow> oc_phase oc \<noteq> Pending \<Longrightarrow> map_of (dl_outcomes (fold suppress ids s)) i = Some oc"
  "recorded (fold suppress ids s) = recorded s"
proof -
  show "dl_policy (fold suppress ids s) = dl_policy s" "recorded (fold suppress ids s) = recorded s"
    by (induction ids arbitrary: s) auto
  show "map_of (dl_outcomes s) i = Some oc \<Longrightarrow> oc_phase oc \<noteq> Pending \<Longrightarrow>
      map_of (dl_outcomes (fold suppress ids s)) i = Some oc"
    by (induction ids arbitrary: s) (simp_all add: suppress_settled)
qed

lemma shut_settled:
  "map_of (dl_outcomes s) i = Some oc \<Longrightarrow> oc_phase oc \<noteq> Pending \<Longrightarrow>
     map_of (dl_outcomes (shut pol faulted q s)) i = Some oc"
  by (auto simp: shut_def suppress_pending_def fold_suppress_outcomes suppress_outcome_id)

lemma delivery_step_settled:
  assumes "delivery_step env s t" and ok: "delivery_ok s"
    and oc: "map_of (dl_outcomes s) i = Some oc" "oc_phase oc \<noteq> Pending"
  shows "map_of (dl_outcomes t) i = Some oc"
  using assms(1) ok
proof (cases rule: delivery_step_effect)
  case (admitted k p q now)
  then have "k \<noteq> i"
    using ok oc by (auto simp: delivery_ok_def permits_pending_def recorded_def)
  with admitted(1) oc show ?thesis by (simp add: admitted_def)
next
  case (suppressed ids)
  with oc show ?thesis by (simp add: fold_suppress_frame)
next
  case closed
  with oc show ?thesis by (auto simp: sealed_def stop_shut fail_transport_shut shut_settled)
next
  case (settled k ph)
  then have "k \<noteq> i" using oc by (auto simp: phase_of_def)
  with settled(1) oc show ?thesis by (simp add: settle_def map_of_get_mut)
next
  case (broken k)
  then have "k \<noteq> i" using oc by (auto simp: phase_of_def)
  with broken(1) oc show ?thesis
    by (simp add: broken_def fail_transport_shut shut_settled settle_def map_of_get_mut)
qed (use oc in auto)

lemma delivery_step_closed:
  assumes "delivery_step env s t" and ok: "delivery_ok s" and "gate_closed s"
  shows "gate_closed t" and "recorded t = recorded s"
proof -
  have "gate_closed t \<and> recorded t = recorded s"
    using assms(1) ok
  proof (cases rule: delivery_step_effect)
    case (admitted i p q now)
    with assms(3) show ?thesis by (simp add: gate_closed_def allowed_def allows_def)
  next
    case (quiet n q)
    with assms(3) show ?thesis by (simp add: gate_closed_def recorded_def)
  next
    case (suppressed ids)
    with assms(3) show ?thesis by (simp add: gate_closed_def fold_suppress_frame)
  next
    case closed
    with assms(3) show ?thesis
      by (auto simp: gate_closed_def sealed_def stop_shut fail_transport_shut)
  next
    case (settled i ph)
    with assms(3) show ?thesis by (simp add: gate_closed_def settle_sets) (simp add: settle_def)
  next
    case (broken i)
    then show ?thesis
      by (simp add: gate_closed_def broken_def fail_transport_shut settle_sets)
  qed
  then show "gate_closed t" "recorded t = recorded s" by simp_all
qed

lemma closed_settled: "delivery_ok s \<Longrightarrow> gate_closed s \<Longrightarrow> pending s = {}"
  by (auto simp: delivery_ok_def closed_empty_def gate_closed_def permits_pending_def simp flip: permitted_empty)

text \<open>Once the gate is closed, no outcome ever changes again.\<close>

lemma closed_run:
  assumes "delivery_run env s t" and "delivery_ok s" and "gate_closed s"
  shows "delivery_ok t \<and> gate_closed t \<and> map_of (dl_outcomes t) = map_of (dl_outcomes s)"
  using assms
proof (induction rule: delivery_run_induct)
  case (step x y)
  then have x: "delivery_ok x" "gate_closed x" "map_of (dl_outcomes x) = map_of (dl_outcomes s)" by simp_all
  note y = delivery_step_ok [OF step(1) x(1)] delivery_step_closed [OF step(1) x(1,2)]
  have "map_of (dl_outcomes y) i = map_of (dl_outcomes x) i" for i
  proof (cases "map_of (dl_outcomes x) i")
    case None
    with y(3) show ?thesis by (auto simp: recorded_def domIff dest: arg_cong [where f = "\<lambda>A. i \<in> A"])
  next
    case (Some oc)
    moreover have "oc_phase oc \<noteq> Pending"
      using closed_settled [OF x(1,2)] Some by (auto simp: pending_def phase_of_def)
    ultimately show ?thesis by (simp add: delivery_step_settled [OF step(1) x(1)])
  qed
  then have "map_of (dl_outcomes y) = map_of (dl_outcomes x)" by (rule ext)
  with x y show ?case by simp
qed simp

lemma settled_run:
  assumes "delivery_run env s t" and "delivery_ok s"
    and "map_of (dl_outcomes s) i = Some oc" and "oc_phase oc \<noteq> Pending"
  shows "map_of (dl_outcomes t) i = Some oc"
proof -
  have "delivery_ok t \<and> map_of (dl_outcomes t) i = Some oc"
    using assms by (induction rule: delivery_run_induct)
      (auto intro: delivery_step_ok delivery_step_settled)
  then show ?thesis by simp
qed

lemma release_settled_silent:
  "phase_of s i \<noteq> Some Pending \<Longrightarrow> snd (snd (release env sink now1 now2 i s world)) = world"
proof (cases "map_of (dl_outcomes s) i")
  case (Some oc)
  assume "phase_of s i \<noteq> Some Pending"
  with Some show ?thesis by (cases "oc_phase oc") (simp_all add: phase_of_def release_def)
qed (simp add: release_def)

section \<open>The writer thread\<close>

text \<open>What a release does to the gate depends on the pipe only through the outcome of one write.\<close>

lemma policy_release_sink:
  assumes "policy_release pol ph win now (atomic sink bytes) world = (r, ph', w)"
  shows "policy_release pol ph win now (atomic (\<lambda>_ _. (fst (sink bytes world), ())) bytes) () = (r, ph', ())"
proof (cases "sink bytes world")
  case (Pair outcome w')
  with assms show ?thesis
    by (cases outcome) (auto simp: policy_release_def atomic_def split: if_splits)
qed

lemma release_sink:
  "\<exists>outcome. fst (snd (release env sink now1 now2 i s world)) =
     fst (snd (release env (\<lambda>_ _. (outcome, ())) now1 now2 i s ()))"
proof (cases "map_of (dl_outcomes s) i")
  case (Some oc)
  show ?thesis
  proof (cases "map_of (dl_permits s) i")
    case permit: (Some key)
    show ?thesis
    proof (cases "record_bytes (to_vec_capsule env (capsule_of env i (oc_authority oc) key))")
      case (Ok bytes)
      obtain r ph w where pr: "policy_release (dl_policy s) (oc_phase oc) (window_of s (oc_authority oc)) now2
          (atomic sink bytes) world = (r, ph, w)"
        by (cases "policy_release (dl_policy s) (oc_phase oc) (window_of s (oc_authority oc)) now2 (atomic sink bytes) world")
      show ?thesis
        using Some permit Ok pr policy_release_sink [OF pr]
        by (intro exI [of _ "fst (sink bytes world)"]) (simp add: release_def Let_def)
    qed (use Some permit in \<open>simp add: release_def\<close>)
  qed (use Some in \<open>simp add: release_def\<close>)
qed (simp add: release_def)

lemma release_run: "delivery_run env s (fst (snd (release env sink now1 now2 i s world)))"
proof -
  obtain outcome where "fst (snd (release env sink now1 now2 i s world)) =
      fst (snd (release env (\<lambda>_ _. (outcome, ())) now1 now2 i s ()))"
    using release_sink [of env sink now1 now2 i s world] by (rule exE)
  then show ?thesis
    by (simp only:) (rule delivery_run_step [OF delivery_step.release])
qed

lemma write_current_run:
  "write_current env sink rd j s world = (r, c, t, w) \<Longrightarrow> delivery_run env s t"
proof -
  assume eq: "write_current env sink rd j s world = (r, c, t, w)"
  have "t = s \<or> (\<exists>i. t = fst (snd (release env sink (rd_allowed rd) (rd_release rd) i s world)))"
  proof (cases "job_records j")
    case Nil
    show ?thesis
    proof (cases "job_id j")
      case None
      with eq Nil show ?thesis by (simp add: write_current_def)
    next
      case (Some i)
      with eq Nil have "t = fst (snd (release env sink (rd_allowed rd) (rd_release rd) i s world))"
        by (auto simp: write_current_def split: prod.splits result.splits release_phase.splits)
      then show ?thesis by blast
    qed
  next
    case (Cons bytes rest)
    with eq show ?thesis
      by (auto simp: write_current_def split: prod.splits result.splits)
  qed
  then show ?thesis using release_run by auto
qed

lemma active_run: "delivery_run env s (snd (active now i s))"
  by (rule delivery_run_step [OF delivery_step.active])

lemma next_job_run: "delivery_run env s (snd (next_job c s))"
  by (auto simp: next_job_def split: option.splits list.splits intro!: delivery_run_step delivery_step.pop_front)

lemma serve_run:
  assumes "serve env sink rd j s world = (r, c, t, w)"
  shows "delivery_run env s t"
proof (cases "job_id j")
  case None
  with assms show ?thesis by (simp add: serve_def write_current_run)
next
  case (Some i)
  obtain a s1 where a: "active (rd_active rd) i s = (a, s1)" by (cases "active (rd_active rd) i s")
  then have run: "delivery_run env s s1"
    using active_run [of env s "rd_active rd" i] by simp
  have "t = s1 \<or> (\<exists>j'. write_current env sink rd j' s1 world = (r, c, t, w))"
    using assms Some a by (auto simp: serve_def split: result.splits bool.splits)
  then show ?thesis
    using run write_current_run delivery_run_trans by metis
qed

lemma step_inner_run:
  assumes "step_inner env sink rd c s world = Some (r, c', t, w)"
  shows "delivery_run env s t"
proof -
  obtain s1 where s1: "expire (rd_expire rd) s = Some s1"
    using assms by (auto simp: step_inner_def)
  then have run1: "delivery_run env s s1" by (intro delivery_run_step delivery_step.expire)
  obtain c2 s2 where c2: "next_job c s1 = (c2, s2)" by (cases "next_job c s1")
  have run2: "delivery_run env s1 s2" using next_job_run [of env s1 c] c2 by simp
  have "t = s1 \<or> t = s2 \<or> (\<exists>j. serve env sink rd j s2 world = (r, c', t, w))"
    using assms s1 c2 by (auto simp: step_inner_def split: if_splits option.splits)
  then show ?thesis
    using run1 run2 serve_run delivery_run_trans by metis
qed

lemma writer_step_run:
  assumes "writer_step env sink rd c s world = Some (r, c', t, w)"
  shows "delivery_run env s t"
proof -
  obtain r1 c1 s1 w1 where inner: "step_inner env sink rd c s world = Some (r1, c1, s1, w1)"
    using assms by (auto simp: writer_step_def)
  with assms have "t = s1 \<or> t = fail_transport s1"
    by (auto simp: writer_step_def split: if_splits)
  with step_inner_run [OF inner] show ?thesis
    using delivery_run_step [OF delivery_step.fail_transport] delivery_run_trans by auto
qed

text \<open>The gate after a successful fence and any later calls.\<close>

lemma fence_facts:
  assumes "delivery_run env (delivery_new worker) s"
    and "fence worker' gen apply_core x s = (Ok (obs, d), x', s')" and "delivery_run env s' t"
  shows "gate_closed t" and "dl_permits t = []" and "map_of (dl_outcomes t) = map_of (dl_outcomes s')"
    and "phase_of t i \<in> {None, Some Committed, Some Suppressed}"
    and "phase_of t i = Some Committed \<longleftrightarrow> phase_of s i = Some Committed"
    and "d = Drained \<longrightarrow> phase_of t i \<in> {None, Some Committed}"
proof -
  have ok: "delivery_ok s" using delivery_run_ok [OF assms(1) delivery_ok_new] .
  note F = fence_Ok [OF assms(2)]
  have closed: "gate_closed s'" by (simp add: F(1) gate_closed_def sealed_def)
  have ok': "delivery_ok s'" using ok by (simp add: F(1) delivery_ok_closings)
  note T = closed_run [OF assms(3) ok' closed]
  show "gate_closed t" "map_of (dl_outcomes t) = map_of (dl_outcomes s')" using T by simp_all
  then have phase: "phase_of t k = phase_of s' k" for k by (simp add: phase_of_def)
  show "dl_permits t = []"
    using T by (auto simp: delivery_ok_def closed_empty_def gate_closed_def)
  have "phase_of s' i \<noteq> Some Pending" "phase_of s' i \<noteq> Some Indeterminate"
    using F(4) by (auto simp: phase_of_def list_ex_iff dest!: map_of_SomeD)
  then show fate: "phase_of t i \<in> {None, Some Committed, Some Suppressed}"
    unfolding phase by (cases "phase_of s' i") (auto intro: release_phase.exhaust)
  show "phase_of t i = Some Committed \<longleftrightarrow> phase_of s i = Some Committed"
    unfolding phase F(1) by (simp add: sealed_def phase_shut)
  have "d = Drained \<longrightarrow> phase_of s' i \<noteq> Some Suppressed"
    using F(5) by (auto simp: phase_of_def list_ex_iff dest!: map_of_SomeD)
  with fate show "d = Drained \<longrightarrow> phase_of t i \<in> {None, Some Committed}"
    unfolding phase by auto
qed

section \<open>Record sizes\<close>

text \<open>A job is writable when each of its records fits one atomic write of the pipe.\<close>

definition fits :: "byte list \<Rightarrow> bool" where
  "fits bytes \<longleftrightarrow> bytes \<noteq> [] \<and> length bytes \<le> ATOMIC"

definition writable :: "job \<Rightarrow> bool" where
  "writable j \<longleftrightarrow> list_all fits (job_records j)"

lemma record_bytes_fits: "record_bytes v = Ok bytes \<Longrightarrow> fits bytes"
  by (auto simp: record_bytes_def fits_def Let_def split: if_splits)

lemma chunks_fit: "chunks env i encoded = Ok rs \<Longrightarrow> list_all fits rs"
  unfolding chunks_def try_map_Ok_iff
  by (auto simp: list_all_length list_all2_conv_all_nth split_beta dest!: record_bytes_fits)

lemma suppressed_notice_fits: "suppressed_notice env i = Ok rs \<Longrightarrow> list_all fits rs"
  by (auto simp: suppressed_notice_def dest: chunks_fit)

lemma fold_suppress_queue: "dl_queue (fold suppress ids s) = dl_queue s"
  by (induction ids arbitrary: s) auto

lemma release_queue: "set (dl_queue (fst (snd (release env sink now1 now2 i s world)))) \<subseteq> set (dl_queue s)"
  by (auto simp: release_def Let_def fail_transport_def split: option.splits result.splits prod.splits if_splits)

lemma delivery_step_writable:
  assumes "delivery_step env s t" and "list_all writable (dl_queue s)"
  shows "list_all writable (dl_queue t)"
  using assms(1)
proof cases
  case (enqueue now1 now2 p)
  with assms(2) show ?thesis
    by (cases rule: enqueue_cases [of env now1 now2 p s]) (auto simp: admitted_def writable_def dest: chunks_fit)
next
  case (control v)
  with assms(2) show ?thesis
    by (auto simp: control_def Let_def writable_def split: option.splits result.splits dest: chunks_fit)
next
  case (fence worker gen r)
  with fence_state [of worker gen "\<lambda>_. (r, ())" "()" s] assms(2) show ?thesis
    by (auto simp: sealed_def)
next
  case (expire tick)
  with assms(2) show ?thesis by (auto simp: expire_def fold_suppress_queue split: if_splits)
next
  case (active now i)
  with assms(2) show ?thesis by (auto simp: active_def split: option.splits release_phase.splits)
next
  case (release outcome now1 now2 i)
  with assms(2) release_queue [of env "\<lambda>_ _. (outcome, ())" now1 now2 i s "()"] show ?thesis
    by (auto simp: list_all_iff)
qed (use assms(2) in \<open>simp_all add: stop_def fail_transport_def\<close>)

lemma delivery_run_writable:
  "delivery_run env s t \<Longrightarrow> list_all writable (dl_queue s) \<Longrightarrow> list_all writable (dl_queue t)"
  by (induction rule: delivery_run_induct) (auto intro: delivery_step_writable)

text \<open>The size check of the pipe never refuses what the writer gives it.\<close>

lemma atomic_pipe: "fits bytes \<Longrightarrow> atomic (pipe_write os) bytes = atomic os bytes"
  by (auto simp: fits_def atomic_def pipe_write_def fun_eq_iff)

lemma release_pipe: "release env (pipe_write os) now1 now2 i s world = release env os now1 now2 i s world"
  by (auto simp: release_def atomic_pipe dest: record_bytes_fits split: option.splits result.splits)

lemma write_current_pipe:
  assumes "writable j"
  shows "write_current env (pipe_write os) rd j s world = write_current env os rd j s world"
    and "write_current env os rd j s world = (r, c, t, w) \<Longrightarrow> pred_option writable c"
proof -
  show "write_current env (pipe_write os) rd j s world = write_current env os rd j s world"
    using assms by (cases "job_records j"; cases "job_id j") (simp_all add: write_current_def writable_def release_pipe atomic_pipe)
  show "pred_option writable c" if "write_current env os rd j s world = (r, c, t, w)"
    using assms that by (auto simp: write_current_def writable_def
        split: list.splits prod.splits result.splits option.splits release_phase.splits if_splits
        dest: suppressed_notice_fits)
qed

lemma serve_pipe:
  assumes "writable j"
  shows "serve env (pipe_write os) rd j s world = serve env os rd j s world"
    and "serve env os rd j s world = (r, c, t, w) \<Longrightarrow> pred_option writable c"
proof -
  have notice: "writable \<lparr>job_id = None, job_records = rs\<rparr>" if "suppressed_notice env i = Ok rs" for i rs
    using suppressed_notice_fits [OF that] by (simp add: writable_def)
  then show "serve env (pipe_write os) rd j s world = serve env os rd j s world"
    using assms by (auto simp: serve_def write_current_pipe(1) split: option.splits prod.splits result.splits bool.splits)
  show "pred_option writable c" if "serve env os rd j s world = (r, c, t, w)"
  proof (cases "\<exists>j' s'. writable j' \<and> write_current env os rd j' s' world = (r, c, t, w)")
    case True
    then show ?thesis by (elim exE conjE) (rule write_current_pipe(2))
  next
    case False
    with that assms notice show ?thesis
      by (auto simp: serve_def split: option.splits prod.splits result.splits bool.splits) (auto simp: writable_def)
  qed
qed

lemma writer_step_pipe:
  assumes "list_all writable (dl_queue s)" and "pred_option writable c"
  shows "writer_step env (pipe_write os) rd c s world = writer_step env os rd c s world"
    and "writer_step env os rd c s world = Some (r, c', t, w) \<Longrightarrow> pred_option writable c'"
proof -
  have popped: "pred_option writable (fst (next_job c s1))" if "expire (rd_expire rd) s = Some s1" for s1
    using that assms by (auto simp: next_job_def expire_def fold_suppress_queue split: option.splits list.splits if_splits)
  have inner: "step_inner env (pipe_write os) rd c s world = step_inner env os rd c s world"
    using popped by (cases "expire (rd_expire rd) s")
      (auto simp: step_inner_def serve_pipe(1) split: prod.splits option.splits)
  then show "writer_step env (pipe_write os) rd c s world = writer_step env os rd c s world"
    by (simp add: writer_step_def)
  have "pred_option writable c2" if step: "step_inner env os rd c s world = Some (r2, c2, t2, w2)" for r2 c2 t2 w2
  proof -
    obtain s1 where s1: "expire (rd_expire rd) s = Some s1"
      using step by (auto simp: step_inner_def)
    show ?thesis
    proof (cases "next_job c s1")
      case (Pair c1 s2)
      with step s1 have "c2 = None \<or> (\<exists>j. c1 = Some j \<and> serve env os rd j s2 world = (r2, c2, t2, w2))"
        by (auto simp: step_inner_def split: if_splits option.splits)
      with popped [OF s1] Pair serve_pipe(2) show ?thesis by auto
    qed
  qed
  then show "pred_option writable c'" if "writer_step env os rd c s world = Some (r, c', t, w)"
    using that by (auto simp: writer_step_def split: if_splits)
qed

text \<open>The writer's answer to a delivery that is settled: at most one record of the suppression notice.\<close>

lemma serve_settled:
  assumes "phase_of s i \<noteq> Some Pending"
  shows "snd (snd (serve env sink rd \<lparr>job_id = Some i, job_records = rs\<rparr> s world)) = (s, world) \<or>
    (\<exists>notice rest. suppressed_notice env i = Ok (notice # rest) \<and>
       snd (snd (serve env sink rd \<lparr>job_id = Some i, job_records = rs\<rparr> s world)) = (s, snd (atomic sink notice world)))"
proof (cases "map_of (dl_outcomes s) i")
  case None
  then show ?thesis by (simp add: serve_def active_def)
next
  case (Some oc)
  show ?thesis
  proof (cases "oc_phase oc = Suppressed")
    case True
    with Some have serve: "serve env sink rd \<lparr>job_id = Some i, job_records = rs\<rparr> s world =
        (case suppressed_notice env i of
           Err e \<Rightarrow> (Err e, Some (\<lparr>job_id = Some i, job_records = rs\<rparr>\<lparr>job_id := None\<rparr>), s, world)
         | Ok records \<Rightarrow> write_current env sink rd \<lparr>job_id = None, job_records = records\<rparr> s world)"
      by (simp add: serve_def active_def)
    show ?thesis
      unfolding serve
      by (cases "suppressed_notice env i")
        (auto simp: write_current_def split: list.splits prod.splits result.splits)
  next
    case False
    with Some assms show ?thesis
      by (cases "oc_phase oc") (simp_all add: serve_def active_def phase_of_def)
  qed
qed

section \<open>Properties\<close>

text \<open>C28: Under every interleaving of the writer thread and the request loop the gate stays within
  its limits: at most three transport keys and four queued jobs are held, the ledger never exceeds
  4096 outcomes, exactly the pending deliveries hold a key, and the expiry scan never indexes a
  missing outcome. Every queued record is a nonempty string of at most 512 bytes, and a writer whose
  current job has such records keeps to them: its step is the same with and without the pipe's size
  check, so every record it writes fits one atomic write.\<close>

theorem delivery_bounded:
  assumes "delivery_run env (delivery_new worker) s"
  shows "length (dl_permits s) \<le> 3 \<and> length (dl_queue s) \<le> 4 \<and> length (dl_outcomes s) \<le> 4096 \<and>
    (map_of (dl_permits s) i \<noteq> None \<longleftrightarrow> phase_of s i = Some Pending) \<and>
    expire tick s \<noteq> None \<and>
    (j \<in> set (dl_queue s) \<and> bytes \<in> set (job_records j) \<longrightarrow> bytes \<noteq> [] \<and> length bytes \<le> 512) \<and>
    (pred_option writable current \<longrightarrow>
       writer_step env (pipe_write os) rd current s world = writer_step env os rd current s world \<and>
       pred_option (\<lambda>(_, current', _). pred_option writable current') (writer_step env os rd current s world))"
proof (intro conjI)
  have queue: "list_all writable (dl_queue s)"
    using delivery_run_writable [OF assms] by (simp add: delivery_new_def)
  then show "j \<in> set (dl_queue s) \<and> bytes \<in> set (job_records j) \<longrightarrow> bytes \<noteq> [] \<and> length bytes \<le> 512"
    by (auto simp: list_all_iff writable_def fits_def ATOMIC_def)
  show "pred_option writable current \<longrightarrow>
       writer_step env (pipe_write os) rd current s world = writer_step env os rd current s world \<and>
       pred_option (\<lambda>(_, current', _). pred_option writable current') (writer_step env os rd current s world)"
    using writer_step_pipe(1) [OF queue, of current env os rd world] writer_step_pipe(2) [OF queue, of current env os rd world]
    by (cases "writer_step env os rd current s world") auto
  have ok: "delivery_ok s" using delivery_run_ok [OF assms delivery_ok_new] .
  then show "length (dl_permits s) \<le> 3" "length (dl_queue s) \<le> 4" "length (dl_outcomes s) \<le> 4096"
    by (simp_all add: delivery_ok_def within_limits_def RESULTS_def QUEUED_def OUTCOMES_def)
  have held: "permitted s = pending s"
    using ok by (simp add: delivery_ok_def permits_pending_def)
  then show "map_of (dl_permits s) i \<noteq> None \<longleftrightarrow> phase_of s i = Some Pending"
    by (auto simp: permitted_def pending_def)
  have "map_of (dl_outcomes s) k \<noteq> None" if "(k, v) \<in> set (dl_permits s)" for k v
  proof -
    have "k \<in> permitted s" using that by (force simp: permitted_def dom_map_of_conv_image_fst)
    with held show ?thesis by (auto simp: pending_def phase_of_def)
  qed
  then show "expire tick s \<noteq> None" by (fastforce simp: expire_def list_ex_iff)
qed

text \<open>A delivery's fate is decided once. Whatever is done later, an outcome that is committed,
  suppressed or indeterminate keeps its phase and authority, and releasing it again never touches
  the pipe.\<close>

theorem outcome_settled_once:
  assumes "delivery_run env (delivery_new worker) s" and "map_of (dl_outcomes s) i = Some oc"
    and "oc_phase oc \<noteq> Pending" and "delivery_run env s t"
  shows "map_of (dl_outcomes t) i = Some oc \<and>
    snd (snd (release env sink now1 now2 i t world)) = world"
proof (intro conjI)
  show "map_of (dl_outcomes t) i = Some oc"
    using settled_run [OF assms(4) delivery_run_ok [OF assms(1) delivery_ok_new] assms(2,3)] .
  with assms(3) show "snd (snd (release env sink now1 now2 i t world)) = world"
    by (intro release_settled_silent) (simp add: phase_of_def)
qed

text \<open>C14: A fence that reports success is final. From then on no transport key is held, every
  delivery ever admitted is either committed or suppressed, those committed are exactly the ones
  committed before the fence, no later call changes any of it, no message is admitted, a release
  writes nothing, the writer writes no part of a delivery still queued but at most a record of the
  notice that it was suppressed, and \<open>Drained\<close> is reported only when every delivery was committed.\<close>

theorem fence_is_final:
  assumes "delivery_run env (delivery_new worker) s"
    and "fence worker' gen apply_core x s = (Ok (obs, d), x', s')" and "delivery_run env s' t"
  shows "dl_permits t = [] \<and> map_of (dl_outcomes t) = map_of (dl_outcomes s') \<and>
    phase_of t i \<in> {None, Some Committed, Some Suppressed} \<and>
    (phase_of t i = Some Committed \<longleftrightarrow> phase_of s i = Some Committed) \<and>
    fst (enqueue env now1 now2 p t) = Err Expired \<and>
    snd (snd (release env sink now1 now2 i t world)) = world \<and>
    snd (snd (serve env sink rd \<lparr>job_id = Some i, job_records = rs\<rparr> t world))
      \<in> {(t, world)} \<union> {(t, snd (atomic sink notice world)) | notice rest. suppressed_notice env i = Ok (notice # rest)} \<and>
    (d = Drained \<longrightarrow> phase_of t i \<in> {None, Some Committed})"
proof -
  note facts = fence_facts [OF assms]
  have "fst (enqueue env now1 now2 p t) = Err Expired"
    using facts(1) by (auto simp: enqueue_def allowed_def allows_def gate_closed_def)
  moreover have "snd (snd (release env sink now1 now2 i t world)) = world"
    using facts(4) [of i] by (intro release_settled_silent) auto
  moreover have "phase_of t i \<noteq> Some Pending" using facts(4) [of i] by auto
  note serve_settled [OF this, of env sink rd rs world]
  ultimately show ?thesis using facts(2,3) facts(4-6) [of i] by blast
qed

subsection \<open>A delivery held by the gate\<close>

definition sample_denv :: delivery_env where
  "sample_denv = \<lparr>to_vec_capsule = (\<lambda>_. Some [1]), to_vec_chunk = (\<lambda>_. Some [2]), to_vec_suppressed = (\<lambda>_. Some [3]),
     b64_encode = (\<lambda>_. [])\<rparr>"

definition sample_prepared :: prepared where
  "sample_prepared = \<lparr>pr_authority = \<lparr>au_worker = ''w'', au_generation = 1, au_sequence = 1, au_grant_sha256 = fill 0,
     au_not_before = 0, au_expires = 10\<rparr>, pr_key = fill 7, pr_encoded = []\<rparr>"

definition sample_held :: delivery where
  "sample_held = snd (enqueue sample_denv 5 5 sample_prepared (delivery_new ''w''))"

definition sample_fenced :: delivery where
  "sample_fenced = snd (snd (fence ''w'' 2 (\<lambda>_. (Ok (), ())) () sample_held))"

lemma sample_held_eq: "sample_held = \<lparr>dl_worker = ''w'',
    dl_policy = \<lparr>pol_generation = Some 1, pol_fenced = False, pol_stopped = False\<rparr>, dl_next = 1,
    dl_permits = [(1, fill 7)], dl_outcomes = [(1, \<lparr>oc_authority = pr_authority sample_prepared, oc_phase = Pending\<rparr>)],
    dl_faulted = False, dl_queue = [\<lparr>job_id = Some 1, job_records = []\<rparr>]\<rparr>"
  by (simp add: sample_held_def enqueue_def delivery_new_def policy_default_def allowed_def allows_def window_of_def
      sample_prepared_def QUEUED_def RESULTS_def OUTCOMES_def checked_add_def chunks_def slices.simps [of 256 "[]"]
      admit_def as_bytes_def)

lemma sample_fence_eq: "fence ''w'' 2 (\<lambda>_. (Ok (), ())) () sample_held = (Ok ((), FurtherReleaseBlocked), (), sample_fenced)"
  by (simp add: sample_fenced_def sample_held_eq fence_def suppress_pending_def get_mut_def suppress_outcome_def
      policy_fence_def sample_prepared_def Let_def) (simp add: word_le_nat_alt)

lemma sample_held_run: "delivery_run sample_denv (delivery_new ''w'') sample_held"
  unfolding sample_held_def by (rule delivery_run_step [OF delivery_step.enqueue])

lemma sample_fenced_phase: "map_of (dl_outcomes sample_fenced) 1 =
    Some \<lparr>oc_authority = pr_authority sample_prepared, oc_phase = Suppressed\<rparr>"
  by (simp add: sample_fenced_def sample_held_eq fence_def suppress_pending_def get_mut_def suppress_outcome_def
      policy_fence_def sample_prepared_def Let_def) (simp add: word_le_nat_alt)

definition sample_readings :: readings where
  "sample_readings = \<lparr>rd_expire = (\<lambda>_. 6), rd_active = 6, rd_allowed = 6, rd_release = 6\<rparr>"

theorem delivery_bounded_witness: "length (dl_permits sample_held) \<le> 3 \<and> map_of (dl_permits sample_held) 1 \<noteq> None \<and>
    expire (\<lambda>_. 99) sample_held \<noteq> None \<and>
    writer_step sample_denv (pipe_write (\<lambda>bytes log. (Wrote (length bytes), log @ [bytes]))) sample_readings None sample_held [] =
    writer_step sample_denv (\<lambda>bytes log. (Wrote (length bytes), log @ [bytes])) sample_readings None sample_held []"
  using delivery_bounded [OF sample_held_run, where i = 1 and tick = "\<lambda>_. 99" and rd = sample_readings and current = None
      and os = "\<lambda>bytes log. (Wrote (length bytes), log @ [bytes])" and world = "[]"]
  by (simp add: sample_held_eq phase_of_def)

theorem outcome_settled_once_witness: "map_of (dl_outcomes (stop sample_fenced)) 1 =
    Some \<lparr>oc_authority = pr_authority sample_prepared, oc_phase = Suppressed\<rparr>"
proof -
  have "delivery_run sample_denv sample_held sample_fenced"
    unfolding sample_fenced_def by (rule delivery_run_step [OF delivery_step.fence])
  then have "delivery_run sample_denv (delivery_new ''w'') sample_fenced"
    using sample_held_run delivery_run_trans by blast
  then show ?thesis
    using outcome_settled_once [OF _ sample_fenced_phase _ delivery_run_step [OF delivery_step.stop],
        where ?now1.0 = 0 and ?now2.0 = 0 and sink = "\<lambda>_ w. (WouldBlock, w)" and world = "()"] by simp
qed

theorem fence_is_final_witness: "phase_of sample_held 1 = Some Pending \<and> phase_of (stop sample_fenced) 1 \<noteq> Some Committed \<and>
    dl_permits (stop sample_fenced) = []"
proof -
  have held: "phase_of sample_held 1 = Some Pending" by (simp add: sample_held_eq phase_of_def)
  note final = fence_is_final [OF sample_held_run sample_fence_eq delivery_run_step [OF delivery_step.stop],
      where i = 1 and ?now1.0 = 0 and ?now2.0 = 0 and p = sample_prepared and sink = "\<lambda>_ w. (WouldBlock, w)" and world = "()"]
  from final have "phase_of (stop sample_fenced) 1 = Some Committed \<longleftrightarrow> phase_of sample_held 1 = Some Committed"
    by blast
  with final held show ?thesis by simp
qed

end
