(* ===== verification/Worker.thy ===== *)
theory Worker
  imports Delivery Evidence Material
begin

text \<open>
  The crypto worker (\<open>keyrack-crypto-worker\<close>: \<open>core.rs\<close>, \<open>core/creation.rs\<close>, \<open>core/revocation.rs\<close>,
  \<open>core/trust.rs\<close>, \<open>fixture.rs\<close> and the request dispatch of \<open>main.rs\<close>): grants and replay
  protection, resident keys and their leases, the one reserved creation, and revocation, which
  closes the release gate of \<open>Delivery\<close> in the same critical section. Signatures, hashing, base64,
  JSON, the cipher and the material source are parameters; \<open>tick n\<close> is the \<open>n\<close>-th clock reading
  of a call. Random values are arguments.
\<close>

section \<open>State\<close>

datatype ipc_operation = OpEncrypt | OpDecrypt

record signed =
  sg_body :: string
  sg_signature :: "byte list"

record use_grant =
  ug_worker :: string
  ug_principal :: string
  ug_context_sha256 :: "32 bytes"
  ug_operation :: ipc_operation
  ug_input_sha256 :: "32 bytes"
  ug_generation :: u64
  ug_sequence :: u64
  ug_not_before_ms :: u64
  ug_expires_ms :: u64
  ug_ancestor_expires_ms :: u64
  ug_residency_until_ms :: u64

record fence_message =
  fm_worker :: string
  fm_security_domain :: string
  fm_generation :: u64
  fm_expires_ms :: u64

datatype authority_message = GrantMessage use_grant | FenceMessage fence_message

record ('k, 's) worker_env =
  we_sha256 :: "byte list \<Rightarrow> 32 bytes"
  we_verify :: "'k \<Rightarrow> byte list \<Rightarrow> 64 bytes \<Rightarrow> bool"
  we_parse :: "string \<Rightarrow> authority_message option"
  we_b64_decode :: "string \<Rightarrow> byte list option"
  we_open :: "wrapping_context \<Rightarrow> 's \<Rightarrow> (byte list, worker_error) result \<times> 's"
  we_encrypt :: "byte list \<Rightarrow> 12 bytes \<Rightarrow> byte list \<Rightarrow> byte list \<Rightarrow> byte list option"
  we_decrypt :: "byte list \<Rightarrow> 12 bytes \<Rightarrow> byte list \<Rightarrow> byte list \<Rightarrow> byte list option"
  we_sign :: "byte list \<Rightarrow> 64 bytes"
  we_prepare :: "custody_context \<Rightarrow> 's \<Rightarrow> (unit, worker_error) result \<times> 's"
  we_generate :: "custody_context \<Rightarrow> wrapping_identifier \<Rightarrow> 's \<Rightarrow> (custody_material_descriptor, worker_error) result \<times> 's"
  we_activate :: "'s \<Rightarrow> 's"

record resident =
  rs_key :: "byte list"
  rs_lease :: lease_identity
  rs_until :: u64
  rs_uses :: u64

record limits =
  resident_keys :: nat
  residence_ms :: u64
  uses_per_residency :: u64
  authority_horizon_ms :: u64

record 'k trust_config =
  tc_authority :: "'k evidence_key"
  tc_initial_generation :: nonzero_u64
  tc_observer_issuer :: wrapping_identifier
  tc_observer_key_id :: wrapping_identifier

record creation_plan =
  pl_operation :: uuid
  pl_attempt :: uuid
  pl_owner :: creation_owner
  pl_envelope_ref :: string
  pl_principal :: string

datatype attempt_state = Ready | Consumed | Complete

record reservation =
  rv_plan :: creation_plan
  rv_context :: custody_context
  rv_expected :: request_binding
  rv_state :: attempt_state

record ('k, 's) worker =
  wk_instance :: string
  wk_provider_ref :: provider_ref
  wk_domain :: string
  wk_trust :: "'k trust_config"
  wk_source :: 's
  wk_limits :: limits
  wk_generation :: nonzero_u64
  wk_fenced :: bool
  wk_sequence :: u64
  wk_next_lease :: u64
  wk_resident :: "(32 bytes \<times> resident) list"
  wk_creation :: "reservation option"

record residency_cleanup =
  rcl_worker :: string
  rcl_context_sha256 :: "32 bytes"
  rcl_lease :: u64

definition MAX_INPUT :: nat where
  "MAX_INPUT = 16 * 1024"

definition SIGNING_DOMAIN :: "byte list" where
  "SIGNING_DOMAIN = as_bytes ''KeyRack:UNAPPROVED-worker-harness-authority'' @ [0]"

definition saturating_add :: "u64 \<Rightarrow> u64 \<Rightarrow> u64" where
  "saturating_add a b = (case checked_add a b of Some c \<Rightarrow> c | None \<Rightarrow> - 1)"

section \<open>Construction\<close>

definition match_descriptor :: "parent_wrapped_material \<Rightarrow> wrapping_context \<Rightarrow> (unit, worker_error) result" where
  "match_descriptor d c =
     (if pw_provider_ref d \<noteq> wc_provider_ref c \<or> pw_parent d \<noteq> wc_parent c \<or>
         pw_security_domain d \<noteq> wc_security_domain c \<or> pw_context_version d \<noteq> wc_version c \<or>
         pw_key_format d \<noteq> wc_key_format c \<or> pw_mechanism d \<noteq> wc_mechanism c
      then Err ContextE
      else and_then (map_err (\<lambda>_. ContextE) (context_canonical_bytes c)) (\<lambda>_. Ok ()))"

definition new_with_trust ::
  "string \<Rightarrow> 'k trust_config \<Rightarrow> provider_ref \<Rightarrow> string \<Rightarrow> 's \<Rightarrow> limits \<Rightarrow> (('k, 's) worker, worker_error) result" where
  "new_with_trust instance_id trust provider domain source l =
     and_then (map_err (\<lambda>_. ContextE) (identifier_new (provider_str provider))) (\<lambda>_.
     and_then (map_err (\<lambda>_. ContextE) (identifier_new domain)) (\<lambda>_.
     if resident_keys l = 0 \<or> residence_ms l = 0 \<or> uses_per_residency l = 0 \<or> authority_horizon_ms l = 0 \<or>
        nz_get (tc_initial_generation trust) = - 1
     then Err Limit
     else Ok \<lparr>wk_instance = instance_id, wk_provider_ref = provider, wk_domain = domain, wk_trust = trust,
       wk_source = source, wk_limits = l, wk_generation = tc_initial_generation trust, wk_fenced = False,
       wk_sequence = 0, wk_next_lease = 0, wk_resident = [], wk_creation = None\<rparr>))"

definition executor :: "('k, 's) worker_env \<Rightarrow> ('k, 's) worker \<Rightarrow> (executor_incarnation, worker_error) result" where
  "executor env w =
     and_then (ok_or ContextE (we_b64_decode env (wk_instance w))) (\<lambda>bytes.
     and_then (ok_or ContextE (try_into bytes)) (\<lambda>b. map_err (\<lambda>_. ContextE) (incarnation_new b)))"

section \<open>Resident keys\<close>

definition remove_resident :: "32 bytes \<Rightarrow> ('k, 's) worker \<Rightarrow> residency_cleanup option \<times> ('k, 's) worker" where
  "remove_resident b w =
     (map_option (\<lambda>r. \<lparr>rcl_worker = wk_instance w, rcl_context_sha256 = b, rcl_lease = nz_get (li_counter (rs_lease r))\<rparr>)
        (map_of (wk_resident w) b),
      w\<lparr>wk_resident := AList.delete b (wk_resident w)\<rparr>)"

definition close_residency ::
  "('k, 's) worker_env \<Rightarrow> lease_identity \<Rightarrow> 32 bytes \<Rightarrow> ('k, 's) worker \<Rightarrow>
     (residency_cleanup, worker_error) result \<times> ('k, 's) worker" where
  "close_residency env lease b w = (case executor env w of
       Err e \<Rightarrow> (Err e, w)
     | Ok i \<Rightarrow>
         if li_executor lease \<noteq> i \<or> map_option rs_lease (map_of (wk_resident w) b) \<noteq> Some lease then (Err Replay, w)
         else (case remove_resident b w of (cleanup, w) \<Rightarrow> (ok_or Replay cleanup, w)))"

fun remove_all :: "32 bytes list \<Rightarrow> ('k, 's) worker \<Rightarrow> residency_cleanup list \<times> ('k, 's) worker" where
  "remove_all [] w = ([], w)"
| "remove_all (b # bs) w =
     (let (c, w) = remove_resident b w; (cs, w) = remove_all bs w
      in ((case c of Some x \<Rightarrow> x # cs | None \<Rightarrow> cs), w))"

definition worker_expire :: "u64 \<Rightarrow> ('k, 's) worker \<Rightarrow> residency_cleanup list \<times> ('k, 's) worker" where
  "worker_expire now w = remove_all (map fst (filter (\<lambda>(_, r). rs_until r \<le> now) (wk_resident w))) w"

section \<open>Use\<close>

definition worker_verify ::
  "('k, 's) worker_env \<Rightarrow> ('k, 's) worker \<Rightarrow> signed \<Rightarrow> (authority_message, worker_error) result" where
  "worker_verify env w s =
     (if 4096 < length (sg_body s) then Err Limit
      else and_then (ok_or Authority (try_into (sg_signature s))) (\<lambda>signature.
        if \<not> we_verify env (ek_key (tc_authority (wk_trust w))) (SIGNING_DOMAIN @ as_bytes (sg_body s)) signature
        then Err Authority
        else ok_or Authority (we_parse env (sg_body s))))"

definition check_time :: "('k, 's) worker \<Rightarrow> use_grant \<Rightarrow> u64 \<Rightarrow> (unit, worker_error) result" where
  "check_time w g now =
     (if now < ug_not_before_ms g \<or> ug_expires_ms g \<le> now \<or> ug_ancestor_expires_ms g \<le> now \<or>
         ug_residency_until_ms g \<le> now \<or> saturating_add now (authority_horizon_ms (wk_limits w)) < ug_expires_ms g
      then Err Expired else Ok ())"

definition creation_allows_use :: "('k, 's) worker \<Rightarrow> bool" where
  "creation_allows_use w = (case wk_creation w of None \<Rightarrow> True | Some r \<Rightarrow> rv_state r = Complete)"

definition check_grant ::
  "('k, 's) worker_env \<Rightarrow> u64 \<Rightarrow> ('k, 's) worker \<Rightarrow> signed \<Rightarrow> string \<Rightarrow> wrapping_context \<Rightarrow> ipc_operation \<Rightarrow>
     byte list \<Rightarrow> (use_grant \<times> 32 bytes, worker_error) result" where
  "check_grant env now w s prin c operation input =
     (if (case operation of OpEncrypt \<Rightarrow> MAX_INPUT | OpDecrypt \<Rightarrow> MAX_INPUT + 28) < length input then Err Limit
      else and_then (worker_verify env w s) (\<lambda>message. case message of
        FenceMessage _ \<Rightarrow> Err Authority
      | GrantMessage g \<Rightarrow>
          and_then (map_err (\<lambda>_. ContextE) (context_sha256 (we_sha256 env) c)) (\<lambda>b.
          if ug_worker g \<noteq> wk_instance w \<or> ug_principal g \<noteq> prin \<or> prin = [] \<or> 256 < length prin \<or>
             ug_context_sha256 g \<noteq> b \<or> ug_operation g \<noteq> operation \<or> ug_input_sha256 g \<noteq> we_sha256 env input \<or>
             wc_provider_ref c \<noteq> wk_provider_ref w \<or> ident_str (wc_security_domain c) \<noteq> wk_domain w \<or>
             wc_child_spec c \<noteq> Aes256 \<or> wc_key_format c \<noteq> RawSecret \<or> wc_purpose c \<noteq> WEncryptDecrypt
          then Err Authority
          else and_then (check_time w g now) (\<lambda>_.
            if \<not> creation_allows_use w then Err MaterialE
            else if wk_fenced w \<or> ug_generation g \<noteq> nz_get (wk_generation w) \<or> ug_sequence g \<le> wk_sequence w
            then Err Replay
            else Ok (g, b)))))"

definition ensure_resident ::
  "('k, 's) worker_env \<Rightarrow> (nat \<Rightarrow> u64) \<Rightarrow> use_grant \<Rightarrow> wrapping_context \<Rightarrow> 32 bytes \<Rightarrow> ('k, 's) worker \<Rightarrow>
     (unit, worker_error) result \<times> ('k, 's) worker" where
  "ensure_resident env tick g c b w =
     (if map_of (wk_resident w) b \<noteq> None then (Ok (), w)
      else if resident_keys (wk_limits w) \<le> length (wk_resident w) then (Err Limit, w)
      else case we_open env c (wk_source w) of (opened, source) \<Rightarrow>
        let w = w\<lparr>wk_source := source\<rparr> in
        (case opened of
           Err e \<Rightarrow> (Err e, w)
         | Ok key \<Rightarrow>
             if length key \<noteq> 32 then (Err MaterialE, w)
             else (case check_time w g (tick 3) of
               Err e \<Rightarrow> (Err e, w)
             | Ok _ \<Rightarrow> (case checked_add (wk_next_lease w) 1 of
                 None \<Rightarrow> (Err Limit, w)
               | Some n \<Rightarrow>
                   (let w = w\<lparr>wk_next_lease := n\<rparr> in
                    case executor env w of
                      Err e \<Rightarrow> (Err e, w)
                    | Ok i \<Rightarrow> (case nonzero_new n of
                        None \<Rightarrow> (Err Limit, w)
                      | Some counter \<Rightarrow>
                          (Ok (), w\<lparr>wk_resident := AList.update b
                             \<lparr>rs_key = key, rs_lease = \<lparr>li_executor = i, li_counter = counter\<rparr>,
                              rs_until = min (ug_residency_until_ms g) (saturating_add (tick 2) (residence_ms (wk_limits w))),
                              rs_uses = 0\<rparr> (wk_resident w)\<rparr>)))))))"

definition expired_residency ::
  "('k, 's) worker_env \<Rightarrow> lease_identity \<Rightarrow> 32 bytes \<Rightarrow> ('k, 's) worker \<Rightarrow> (byte list, worker_error) result \<times> ('k, 's) worker" where
  "expired_residency env lease b w = (case close_residency env lease b w of
       (Err e, w) \<Rightarrow> (Err e, w)
     | (Ok _, w) \<Rightarrow> (Err Expired, w))"

definition run_cipher ::
  "('k, 's) worker_env \<Rightarrow> 12 bytes \<Rightarrow> byte list \<Rightarrow> byte list \<Rightarrow> ipc_operation \<Rightarrow> byte list \<Rightarrow> (byte list, worker_error) result" where
  "run_cipher env nonce key aad operation input = (case operation of
       OpEncrypt \<Rightarrow> and_then (ok_or CryptoE (we_encrypt env key nonce input aad)) (\<lambda>ct. Ok (bytes_list nonce @ ct))
     | OpDecrypt \<Rightarrow>
         if length input < 28 then Err CryptoE
         else and_then (ok_or CryptoE (try_into (take 12 input))) (\<lambda>nonce.
           ok_or CryptoE (we_decrypt env key nonce (drop 12 input) aad)))"

definition use_resident ::
  "('k, 's) worker_env \<Rightarrow> (nat \<Rightarrow> u64) \<Rightarrow> 12 bytes \<Rightarrow> use_grant \<Rightarrow> wrapping_context \<Rightarrow> ipc_operation \<Rightarrow> byte list \<Rightarrow>
     32 bytes \<Rightarrow> ('k, 's) worker \<Rightarrow> (byte list, worker_error) result \<times> ('k, 's) worker" where
  "use_resident env tick nonce g c operation input b w = (case map_of (wk_resident w) b of
       None \<Rightarrow> (Err MaterialE, w)
     | Some r \<Rightarrow>
         if rs_until r \<le> tick 4 then expired_residency env (rs_lease r) b w
         else if uses_per_residency (wk_limits w) \<le> rs_uses r then (Err Limit, w)
         else
           let w = w\<lparr>wk_resident := AList.update b (r\<lparr>rs_uses := rs_uses r + 1\<rparr>) (wk_resident w)\<rparr> in
           case and_then (map_err (\<lambda>_. ContextE) (context_canonical_bytes c)) (\<lambda>aad.
                run_cipher env nonce (rs_key r) aad operation input) of
             Err e \<Rightarrow> (Err e, w)
           | Ok out \<Rightarrow> (case check_time w g (tick 5) of
               Err e \<Rightarrow> (Err e, w)
             | Ok _ \<Rightarrow> if rs_until r \<le> tick 6 then expired_residency env (rs_lease r) b w else (Ok out, w)))"

definition execute ::
  "('k, 's) worker_env \<Rightarrow> (nat \<Rightarrow> u64) \<Rightarrow> 12 bytes \<Rightarrow> signed \<Rightarrow> string \<Rightarrow> wrapping_context \<Rightarrow> ipc_operation \<Rightarrow>
     byte list \<Rightarrow> ('k, 's) worker \<Rightarrow> (byte list, worker_error) result \<times> ('k, 's) worker" where
  "execute env tick nonce s prin c operation input w =
     (let w = snd (worker_expire (tick 0) w) in
      case check_grant env (tick 1) w s prin c operation input of
        Err e \<Rightarrow> (Err e, w)
      | Ok (g, b) \<Rightarrow>
          (case ensure_resident env tick g c b (w\<lparr>wk_sequence := ug_sequence g\<rparr>) of
             (Err e, w) \<Rightarrow> (Err e, w)
           | (Ok _, w) \<Rightarrow> use_resident env tick nonce g c operation input b w))"

definition execute_for_delivery ::
  "('k, 's) worker_env \<Rightarrow> (nat \<Rightarrow> u64) \<Rightarrow> 12 bytes \<Rightarrow> signed \<Rightarrow> string \<Rightarrow> wrapping_context \<Rightarrow> ipc_operation \<Rightarrow>
     byte list \<Rightarrow> ('k, 's) worker \<Rightarrow> (authority \<times> byte list, worker_error) result \<times> ('k, 's) worker" where
  "execute_for_delivery env tick nonce s prin c operation input w =
     (case execute env tick nonce s prin c operation input w of
        (Err e, w) \<Rightarrow> (Err e, w)
      | (Ok out, w) \<Rightarrow>
          (and_then (worker_verify env w s) (\<lambda>message. case message of
             FenceMessage _ \<Rightarrow> Err Authority
           | GrantMessage g \<Rightarrow>
               and_then (map_err (\<lambda>_. ContextE) (context_sha256 (we_sha256 env) c)) (\<lambda>b.
               and_then (ok_or Expired (map_of (wk_resident w) b)) (\<lambda>r.
               Ok (\<lparr>au_worker = ug_worker g, au_generation = ug_generation g, au_sequence = ug_sequence g,
                    au_grant_sha256 = we_sha256 env (as_bytes (sg_body s)), au_not_before = ug_not_before_ms g,
                    au_expires = min (min (min (ug_expires_ms g) (ug_ancestor_expires_ms g)) (ug_residency_until_ms g))
                      (rs_until r)\<rparr>, out)))), w))"

section \<open>The reserved creation\<close>

definition fixture_context :: wrapping_context where
  "fixture_context = \<lparr>wc_version = WV1,
     wc_child = \<lparr>vk_lid = Lid (fill 1), vk_version = NonZero 1\<rparr>,
     wc_parent = \<lparr>vk_lid = Lid (fill 2), vk_version = NonZero 1\<rparr>,
     wc_parent_spec = Aes256, wc_child_spec = Aes256, wc_key_format = RawSecret, wc_purpose = WEncryptDecrypt,
     wc_provider_ref = ProviderRef ''worker-development-fixture'',
     wc_security_domain = Ident ''development-only'',
     wc_mechanism = Ident ''unapproved-worker-test-adapter'', wc_public_material_sha256 = None\<rparr>"

definition fixture_custody_context :: "wrapping_context \<Rightarrow> custody_context" where
  "fixture_custody_context c = \<lparr>cc_wrapping = c,
     cc_profile = \<lparr>boundary = TrustedHostWorkerMemory, profile_id = Ident ''UNQUALIFIED-vault-derived-worker-fixture-v1''\<rparr>\<rparr>"

definition plan_binding ::
  "(byte list \<Rightarrow> 32 bytes) \<Rightarrow> creation_plan \<Rightarrow> executor_incarnation \<Rightarrow> custody_context \<Rightarrow> (request_binding, worker_error) result" where
  "plan_binding sha256 p i c =
     (if is_nil (pl_operation p) \<or> is_nil (pl_attempt p) \<or> is_nil (owner_instance (pl_owner p)) \<or>
         owner_generation (pl_owner p) = 0 then Err ContextE
      else and_then (map_err (\<lambda>_. ContextE) (identifier_new (pl_envelope_ref p))) (\<lambda>_.
      and_then (map_err (\<lambda>_. ContextE) (identifier_new (pl_principal p))) (\<lambda>_.
      and_then (map_err (\<lambda>_. ContextE) (custody_context_sha256 sha256 c)) (\<lambda>d.
      Ok \<lparr>rb_operation = pl_operation p, rb_attempt = pl_attempt p, rb_executor = i, rb_context_sha256 = d,
        rb_request_sha256 = sha256 (as_bytes ''KeyRack:PROPOSED-worker-generate-request-v1'' @ [0] @ bytes_list d @
          bytes_list (pl_operation p) @ bytes_list (pl_attempt p) @ bytes_list (owner_instance (pl_owner p)) @
          to_be_bytes (owner_generation (pl_owner p)) @
          concat (map (\<lambda>t. to_be_bytes (of_nat (length t) :: u32) @ as_bytes t) [pl_envelope_ref p, pl_principal p]) @
          to_be_bytes (256 :: u16))\<rparr>))))"

definition reserve_creation ::
  "('k, 's) worker_env \<Rightarrow> creation_plan \<Rightarrow> custody_context \<Rightarrow> ('k, 's) worker \<Rightarrow> (unit, worker_error) result \<times> ('k, 's) worker" where
  "reserve_creation env p c w =
     (if wk_creation w \<noteq> None \<or> wk_sequence w \<noteq> 0 \<or> wk_fenced w then (Err Replay, w)
      else case and_then (map_err (\<lambda>_. ContextE) (require_profile c [cc_profile (fixture_custody_context (cc_wrapping c))])) (\<lambda>_.
          if cc_wrapping c \<noteq> fixture_context \<or> wc_provider_ref (cc_wrapping c) \<noteq> wk_provider_ref w \<or>
             ident_str (wc_security_domain (cc_wrapping c)) \<noteq> wk_domain w
          then Err ContextE
          else and_then (executor env w) (\<lambda>i. plan_binding (we_sha256 env) p i c)) of
        Err e \<Rightarrow> (Err e, w)
      | Ok expected \<Rightarrow>
          (Ok (), w\<lparr>wk_creation := Some \<lparr>rv_plan = p, rv_context = c, rv_expected = expected, rv_state = Ready\<rparr>\<rparr>))"

definition check_creation ::
  "('k, 's) worker_env \<Rightarrow> u64 \<Rightarrow> u64 \<Rightarrow> authority_grant \<Rightarrow> ('k, 's) worker \<Rightarrow> (unit, worker_error) result" where
  "check_creation env now1 now2 g w =
     and_then (ok_or ContextE (wk_creation w)) (\<lambda>r.
     if ag_authority g \<noteq> \<lparr>issuer = ek_issuer (tc_authority (wk_trust w)),
          scope = SecurityDomain (wc_provider_ref (cc_wrapping (rv_context r))) (wc_security_domain (cc_wrapping (rv_context r))),
          generation = wk_generation w\<rparr>
     then Err Authority
     else and_then (map_err (\<lambda>_. ContextE) (identifier_new (pl_principal (rv_plan r)))) (\<lambda>prin.
     and_then (map_err (\<lambda>_. Authority) (check_request (we_sha256 env) g (rv_expected r) (rv_context r) prin GenerateWrapped
         \<lparr>clock_domain_of = ExecutorMonotonicMilliseconds (rb_executor (rv_expected r)), milliseconds = now1\<rparr>)) (\<lambda>_.
     if saturating_add now2 (authority_horizon_ms (wk_limits w)) < not_after (ag_validity g) then Err Expired
     else if wk_fenced w then Err Replay
     else Ok ())))"

record creation_evidence =
  ce_grant :: "authority_grant evidence"
  ce_result :: "creation_result evidence"
  ce_material :: custody_material_descriptor

definition observe ::
  "('k, 's) worker_env \<Rightarrow> ('k, 's) worker \<Rightarrow> byte \<Rightarrow> 'c writer \<Rightarrow> 'c \<Rightarrow> ('c evidence, worker_error) result" where
  "observe env w kind write_msg x =
     (let e = \<lparr>ev_issuer = tc_observer_issuer (wk_trust w), ev_key_id = tc_observer_key_id (wk_trust w),
                ev_claims = x, ev_signature = fill 0\<rparr>
      in and_then (map_err (\<lambda>_. MaterialE) (signing_bytes no_issuer kind write_msg e)) (\<lambda>bytes.
           Ok (e\<lparr>ev_signature := we_sign env bytes\<rparr>)))"

definition creation_claims_of ::
  "('k, 's) worker_env \<Rightarrow> ('k, 's) worker \<Rightarrow> custody_material_descriptor \<Rightarrow> (creation_result evidence, worker_error) result" where
  "creation_claims_of env w m =
     and_then (ok_or ContextE (wk_creation w)) (\<lambda>r.
     if md_context m \<noteq> rv_context r \<or> ident_str (envelope_ref m) \<noteq> pl_envelope_ref (rv_plan r) then Err MaterialE
     else and_then (map_err (\<lambda>_. MaterialE) (message_sha256 (we_sha256 env) 3 w_descriptor m)) (\<lambda>d.
     let c = \<lparr>cr_request = rv_expected r, cr_owner = pl_owner (rv_plan r), cr_material_sha256 = d,
              cr_outcome = NativeWrappedOnlyGenerated\<rparr>
     in and_then (map_err (\<lambda>_. MaterialE) (check_attempt (we_sha256 env) c (rv_expected r) (pl_owner (rv_plan r)) m)) (\<lambda>_.
        observe env w 9 w_creation_result c)))"

definition authenticated_grant ::
  "('k, 's) worker_env \<Rightarrow> ('k, 's) worker \<Rightarrow> byte list \<Rightarrow> (authority_grant evidence, worker_error) result" where
  "authenticated_grant env w bytes =
     and_then (map_err (\<lambda>_. Authority)
       (from_canonical_bytes 13 (w_evidence grant_issuer 6 w_grant) (r_evidence 6 w_grant r_grant) bytes)) (\<lambda>e.
     map_err (\<lambda>_. Authority) (authenticate (we_verify env) grant_issuer 6 w_grant e (tc_authority (wk_trust w))))"

text \<open>\<open>generate\<close> consumes the attempt before its first effect and completes it after the last check.\<close>

definition consume_attempt ::
  "('k, 's) worker_env \<Rightarrow> (nat \<Rightarrow> u64) \<Rightarrow> authority_grant evidence \<Rightarrow> ('k, 's) worker \<Rightarrow> (reservation, worker_error) result \<times> ('k, 's) worker" where
  "consume_attempt env tick e w =
     (case and_then (check_creation env (tick 0) (tick 1) (ev_claims e) w) (\<lambda>_. ok_or ContextE (wk_creation w)) of
        Err err \<Rightarrow> (Err err, w)
      | Ok r \<Rightarrow>
          if rv_state r \<noteq> Ready \<or> nz_get (ag_sequence (ev_claims e)) \<le> wk_sequence w then (Err Replay, w)
          else (Ok r, w\<lparr>wk_creation := Some (r\<lparr>rv_state := Consumed\<rparr>), wk_sequence := nz_get (ag_sequence (ev_claims e))\<rparr>))"

definition produce ::
  "('k, 's) worker_env \<Rightarrow> (nat \<Rightarrow> u64) \<Rightarrow> authority_grant \<Rightarrow> reservation \<Rightarrow> ('k, 's) worker \<Rightarrow>
     (custody_material_descriptor, worker_error) result \<times> ('k, 's) worker" where
  "produce env tick g r w =
     (case map_err (\<lambda>_. ContextE) (identifier_new (pl_envelope_ref (rv_plan r))) of
        Err e \<Rightarrow> (Err e, w)
      | Ok target \<Rightarrow> (case we_prepare env (rv_context r) (wk_source w) of (prepared, source) \<Rightarrow>
          let w = w\<lparr>wk_source := source\<rparr> in
          (case and_then prepared (\<lambda>_. check_creation env (tick 2) (tick 3) g w) of
             Err e \<Rightarrow> (Err e, w)
           | Ok _ \<Rightarrow> (case we_generate env (rv_context r) target (wk_source w) of (m, source) \<Rightarrow> (m, w\<lparr>wk_source := source\<rparr>)))))"

definition generate ::
  "('k, 's) worker_env \<Rightarrow> (nat \<Rightarrow> u64) \<Rightarrow> byte list \<Rightarrow> ('k, 's) worker \<Rightarrow> (creation_evidence, worker_error) result \<times> ('k, 's) worker" where
  "generate env tick bytes w = (case authenticated_grant env w bytes of
       Err e \<Rightarrow> (Err e, w)
     | Ok e \<Rightarrow> (case consume_attempt env tick e w of
         (Err err, w) \<Rightarrow> (Err err, w)
       | (Ok r, w) \<Rightarrow> (case produce env tick (ev_claims e) r w of
           (Err err, w) \<Rightarrow> (Err err, w)
         | (Ok m, w) \<Rightarrow>
             (case and_then (check_creation env (tick 4) (tick 5) (ev_claims e) w) (\<lambda>_.
                   and_then (creation_claims_of env w m) (\<lambda>observed.
                   and_then (check_creation env (tick 6) (tick 7) (ev_claims e) w) (\<lambda>_. Ok observed))) of
                Err err \<Rightarrow> (Err err, w)
              | Ok observed \<Rightarrow>
                  (Ok \<lparr>ce_grant = e, ce_result = observed, ce_material = m\<rparr>,
                   w\<lparr>wk_creation := map_option (\<lambda>r. r\<lparr>rv_state := Complete\<rparr>) (wk_creation w),
                     wk_source := we_activate env (wk_source w)\<rparr>)))))"

section \<open>Revocation\<close>

definition check_revocation ::
  "('k, 's) worker_env \<Rightarrow> u64 \<Rightarrow> revocation_command \<Rightarrow> ('k, 's) worker \<Rightarrow> (unit, worker_error) result" where
  "check_revocation env now c w =
     and_then (map_err (\<lambda>_. ContextE) (identifier_new (wk_domain w))) (\<lambda>domain.
     and_then (executor env w) (\<lambda>i.
     if rc_executor c \<noteq> i \<or> issuer (rc_authority c) \<noteq> ek_issuer (tc_authority (wk_trust w)) \<or>
        scope (rc_authority c) \<noteq> SecurityDomain (wk_provider_ref w) domain
     then Err Authority
     else and_then (map_err (\<lambda>_. Expired) (check_at (rc_validity c)
         \<lparr>clock_domain_of = ExecutorMonotonicMilliseconds i, milliseconds = now\<rparr>)) (\<lambda>_.
     if saturating_add now (authority_horizon_ms (wk_limits w)) < not_after (rc_validity c) then Err Expired
     else if wk_fenced w \<or> nz_get (generation (rc_authority c)) \<le> nz_get (wk_generation w) then Err Replay
     else Ok ())))"

definition apply_revocation ::
  "('k, 's) worker_env \<Rightarrow> u64 \<Rightarrow> revocation_command \<Rightarrow> ('k, 's) worker \<Rightarrow> (lease_identity list, worker_error) result \<times> ('k, 's) worker" where
  "apply_revocation env now c w = (case check_revocation env now c w of
       Err e \<Rightarrow> (Err e, w)
     | Ok _ \<Rightarrow>
         (Ok (take MAX_RECEIPT_LEASES (sort_key (\<lambda>l. nz_get (li_counter l)) (map (rs_lease \<circ> snd) (wk_resident w)))),
          w\<lparr>wk_generation := generation (rc_authority c), wk_fenced := True, wk_resident := []\<rparr>))"

definition authenticated_command ::
  "('k, 's) worker_env \<Rightarrow> ('k, 's) worker \<Rightarrow> byte list \<Rightarrow> (revocation_command evidence, worker_error) result" where
  "authenticated_command env w bytes =
     and_then (map_err (\<lambda>_. Authority)
       (from_canonical_bytes 13 (w_evidence command_issuer 11 w_command) (r_evidence 11 w_command r_command) bytes)) (\<lambda>e.
     map_err (\<lambda>_. Authority) (authenticate (we_verify env) command_issuer 11 w_command e (tc_authority (wk_trust w))))"

definition revocation_observed ::
  "('k, 's) worker_env \<Rightarrow> ('k, 's) worker \<Rightarrow> revocation_command \<Rightarrow> lease_identity list \<Rightarrow> in_flight_disposition \<Rightarrow>
     (revocation_result evidence, worker_error) result" where
  "revocation_observed env w c leases in_flight =
     and_then (executor env w) (\<lambda>i.
     and_then (map_err (\<lambda>_. Authority) (message_sha256 (we_sha256 env) 11 w_command c)) (\<lambda>digest.
     let x = \<lparr>rr_fence = rc_fence c, rr_executor = i, rr_authority = rc_authority c, rr_command_sha256 = digest,
              rr_in_flight = in_flight, observed_leases = leases\<rparr>
     in and_then (map_err (\<lambda>_. MaterialE) (check_command (we_sha256 env) x c)) (\<lambda>_.
        observe env w 12 w_revocation x)))"

definition revoke ::
  "('k, 's) worker_env \<Rightarrow> u64 \<Rightarrow> byte list \<Rightarrow> ('k, 's) worker \<Rightarrow> delivery \<Rightarrow>
     (revocation_result evidence, worker_error) result \<times> ('k, 's) worker \<times> delivery" where
  "revoke env now bytes w d = (case authenticated_command env w bytes of
       Err e \<Rightarrow> (Err e, w, d)
     | Ok e \<Rightarrow>
         (case fence (wk_instance w) (nz_get (generation (rc_authority (ev_claims e))))
             (apply_revocation env now (ev_claims e)) w d of
            (Err err, w, d) \<Rightarrow> (Err err, w, d)
          | (Ok (leases, in_flight), w, d) \<Rightarrow> (revocation_observed env w (ev_claims e) leases in_flight, w, d)))"

section \<open>The request loop\<close>

datatype request = GenerateRequest string | ExecuteRequest signed string ipc_operation string | FenceRequest string

record request_env =
  rq_delivery :: delivery_env
  rq_seal :: "32 bytes \<Rightarrow> byte list \<Rightarrow> byte list option"
  rq_creation_json :: "string \<Rightarrow> string \<Rightarrow> string \<Rightarrow> byte list option"
  rq_output_json :: "string \<Rightarrow> byte list option"
  rq_revocation_json :: "string \<Rightarrow> byte list option"
  rq_error_json :: "worker_error \<Rightarrow> byte list option"

record request_inputs =
  ri_tick :: "nat \<Rightarrow> u64"
  ri_nonce :: "12 bytes"
  ri_key :: "32 bytes"
  ri_allowed :: u64
  ri_admit :: u64

definition enqueue_message ::
  "request_env \<Rightarrow> request_inputs \<Rightarrow> (prepared, worker_error) result \<Rightarrow> delivery \<Rightarrow> (unit, worker_error) result \<times> delivery" where
  "enqueue_message q i p d = (case p of
       Err e \<Rightarrow> (Err e, d) | Ok p \<Rightarrow> enqueue (rq_delivery q) (ri_allowed i) (ri_admit i) p d)"

definition creation_message ::
  "('k, 's) worker_env \<Rightarrow> request_env \<Rightarrow> request_inputs \<Rightarrow> ('k, 's) worker \<Rightarrow> creation_evidence \<Rightarrow> (prepared, worker_error) result" where
  "creation_message env q i w ev =
     (let g = ev_claims (ce_grant ev);
          grant_bytes = canonical_bytes 13 (w_evidence grant_issuer 6 w_grant) (ce_grant ev);
          b64 = b64_encode (rq_delivery q)
      in and_then (map_err (\<lambda>_. Authority) grant_bytes) (\<lambda>gb.
         and_then (map_err (\<lambda>_. MaterialE) (canonical_bytes 13 (w_evidence no_issuer 9 w_creation_result) (ce_result ev))) (\<lambda>rb.
         and_then (map_err (\<lambda>_. MaterialE) grant_bytes) (\<lambda>ab.
         and_then (map_err (\<lambda>_. MaterialE) (canonical_bytes 3 w_descriptor (ce_material ev))) (\<lambda>mb.
         prepared_new (rq_delivery q) (rq_seal q) (ri_key i)
           \<lparr>au_worker = wk_instance w, au_generation = nz_get (generation (ag_authority g)),
            au_sequence = nz_get (ag_sequence g), au_grant_sha256 = we_sha256 env gb,
            au_not_before = not_before (ag_validity g),
            au_expires = min (not_after (ag_validity g)) (ancestor_not_after g)\<rparr>
           (rq_creation_json q (b64 rb) (b64 ab) (b64 mb)))))))"

definition handle_request ::
  "('k, 's) worker_env \<Rightarrow> request_env \<Rightarrow> request_inputs \<Rightarrow> request \<Rightarrow> ('k, 's) worker \<Rightarrow> delivery \<Rightarrow>
     (unit, worker_error) result \<times> ('k, 's) worker \<times> delivery" where
  "handle_request env q i r w d = (case r of
       GenerateRequest grant \<Rightarrow> (case we_b64_decode env grant of
           None \<Rightarrow> (Err Authority, w, d)
         | Some bytes \<Rightarrow> (case generate env (ri_tick i) bytes w of
             (Err e, w) \<Rightarrow> (Err e, w, d)
           | (Ok ev, w) \<Rightarrow> (case enqueue_message q i (creation_message env q i w ev) d of (x, d) \<Rightarrow> (x, w, d))))
     | ExecuteRequest s prin operation input \<Rightarrow> (case we_b64_decode env input of
           None \<Rightarrow> (Err ContextE, w, d)
         | Some bytes \<Rightarrow> (case execute_for_delivery env (ri_tick i) (ri_nonce i) s prin fixture_context operation bytes w of
             (Err e, w) \<Rightarrow> (Err e, w, d)
           | (Ok (a, out), w) \<Rightarrow>
               (case enqueue_message q i (prepared_new (rq_delivery q) (rq_seal q) (ri_key i) a
                   (rq_output_json q (b64_encode (rq_delivery q) out))) d of (x, d) \<Rightarrow> (x, w, d))))
     | FenceRequest ev \<Rightarrow> (case we_b64_decode env ev of
           None \<Rightarrow> (Err Authority, w, d)
         | Some bytes \<Rightarrow> (case revoke env (ri_tick i 0) bytes w d of
             (Err e, w, d) \<Rightarrow> (Err e, w, d)
           | (Ok observed, w, d) \<Rightarrow>
               (case map_err (\<lambda>_. MaterialE) (canonical_bytes 13 (w_evidence no_issuer 12 w_revocation) observed) of
                  Err e \<Rightarrow> (Err e, w, d)
                | Ok b \<Rightarrow>
                    (case control (rq_delivery q) (rq_revocation_json q (b64_encode (rq_delivery q) b)) d of
                       (x, d) \<Rightarrow> (x, w, d))))))"

text \<open>One iteration: a frame that does not parse or a failed request is answered by an error frame.\<close>

definition serve_frame ::
  "('k, 's) worker_env \<Rightarrow> request_env \<Rightarrow> request_inputs \<Rightarrow> request option \<Rightarrow> ('k, 's) worker \<Rightarrow> delivery \<Rightarrow>
     (unit, worker_error) result \<times> ('k, 's) worker \<times> delivery" where
  "serve_frame env q i frame w d =
     (case (case frame of None \<Rightarrow> (Err ContextE, w, d) | Some r \<Rightarrow> handle_request env q i r w d) of
        (Ok _, w, d) \<Rightarrow> (Ok (), w, d)
      | (Err e, w, d) \<Rightarrow> (case control (rq_delivery q) (rq_error_json q e) d of (x, d) \<Rightarrow> (x, w, d)))"

section \<open>Residency\<close>

definition resident_ok :: "('k, 's) worker \<Rightarrow> bool" where
  "resident_ok w \<longleftrightarrow> distinct (map fst (wk_resident w)) \<and> length (wk_resident w) \<le> resident_keys (wk_limits w) \<and>
     (\<forall>b r. map_of (wk_resident w) b = Some r \<longrightarrow> length (rs_key r) = 32 \<and>
        rs_uses r \<le> uses_per_residency (wk_limits w) \<and> nz_get (li_counter (rs_lease r)) \<le> wk_next_lease w) \<and>
     (\<forall>b r b' r'. map_of (wk_resident w) b = Some r \<longrightarrow> map_of (wk_resident w) b' = Some r' \<longrightarrow>
        li_counter (rs_lease r) = li_counter (rs_lease r') \<longrightarrow> b = b') \<and>
     (wk_fenced w \<longrightarrow> wk_resident w = [])"

text \<open>What no operation ever changes, and what only grows.\<close>

definition same_config :: "('k, 's) worker \<Rightarrow> ('k, 's) worker \<Rightarrow> bool" where
  "same_config w w' \<longleftrightarrow> wk_instance w' = wk_instance w \<and> wk_provider_ref w' = wk_provider_ref w \<and>
     wk_domain w' = wk_domain w \<and> wk_trust w' = wk_trust w \<and> wk_limits w' = wk_limits w"

definition attempt_left :: "('k, 's) worker \<Rightarrow> bool" where
  "attempt_left w \<longleftrightarrow> (case wk_creation w of None \<Rightarrow> False | Some r \<Rightarrow> rv_state r = Ready)"

definition advances :: "('k, 's) worker \<Rightarrow> ('k, 's) worker \<Rightarrow> bool" where
  "advances w w' \<longleftrightarrow> same_config w w' \<and> wk_sequence w \<le> wk_sequence w' \<and>
     (wk_fenced w \<longrightarrow> wk_fenced w' \<and> wk_generation w' = wk_generation w \<and> wk_creation w' = wk_creation w) \<and>
     (attempt_left w' \<longrightarrow> attempt_left w)"

lemma advances_refl [simp]: "advances w w"
  by (simp add: advances_def same_config_def)

lemma advances_trans: "advances w w' \<Longrightarrow> advances w' w'' \<Longrightarrow> advances w w''"
  by (auto simp: advances_def same_config_def)

lemma advances_update [simp]:
  "advances w (w'\<lparr>wk_resident := rs\<rparr>) = advances w w'" "advances w (w'\<lparr>wk_next_lease := n\<rparr>) = advances w w'"
  "advances w (w'\<lparr>wk_source := s\<rparr>) = advances w w'"
  by (simp_all add: advances_def same_config_def attempt_left_def)

lemma resident_ok_delete:
  assumes "resident_ok w"
  shows "resident_ok (w\<lparr>wk_resident := AList.delete b (wk_resident w)\<rparr>)"
  using assms AList.length_delete_le [of b "wk_resident w"]
  unfolding resident_ok_def by (auto simp: AList.distinct_delete AList.delete_conv' split: if_splits)

lemma remove_all_Cons: "snd (remove_all (b # bs) w) = snd (remove_all bs (w\<lparr>wk_resident := AList.delete b (wk_resident w)\<rparr>))"
  by (simp add: remove_resident_def split: prod.split)

declare remove_all.simps(2) [simp del]

lemma remove_all_state: "snd (remove_all bs w) = w\<lparr>wk_resident := fold AList.delete bs (wk_resident w)\<rparr>"
  by (induction bs arbitrary: w) (simp_all add: remove_all_Cons)

lemma resident_ok_remove_all: "resident_ok w \<Longrightarrow> resident_ok (snd (remove_all bs w))"
  by (induction bs arbitrary: w) (simp_all add: remove_all_Cons resident_ok_delete)

lemma worker_expire_state: "\<exists>rs. snd (worker_expire now w) = w\<lparr>wk_resident := rs\<rparr>"
  by (auto simp: worker_expire_def remove_all_state)

lemma worker_expire_ok [simp]: "resident_ok w \<Longrightarrow> resident_ok (snd (worker_expire now w))"
  by (simp add: worker_expire_def resident_ok_remove_all)

lemma worker_expire_advances [simp]: "advances w (snd (worker_expire now w))"
  using worker_expire_state [of now w] by auto

section \<open>What each operation does\<close>

lemma worker_verify_cong: "wk_trust w' = wk_trust w \<Longrightarrow> worker_verify env w' s = worker_verify env w s"
  by (simp add: worker_verify_def)

lemma check_grant_Ok:
  assumes "check_grant env now w s prin c operation input = Ok (g, b)"
  shows "worker_verify env w s = Ok (GrantMessage g)" and "\<not> wk_fenced w" and "wk_sequence w < ug_sequence g"
    and "creation_allows_use w" and "ug_generation g = nz_get (wk_generation w)"
    and "ug_worker g = wk_instance w" and "ug_principal g = prin" and "ug_operation g = operation"
    and "context_sha256 (we_sha256 env) c = Ok b" and "ug_context_sha256 g = b"
    and "ug_input_sha256 g = we_sha256 env input" and "check_time w g now = Ok ()"
    and "wc_provider_ref c = wk_provider_ref w" and "ident_str (wc_security_domain c) = wk_domain w"
proof -
  obtain m where m: "worker_verify env w s = Ok m"
    using assms by (cases "worker_verify env w s") (auto simp: check_grant_def split: if_splits)
  with assms obtain g' where g': "m = GrantMessage g'"
    by (cases m) (auto simp: check_grant_def split: if_splits)
  obtain b' where b': "context_sha256 (we_sha256 env) c = Ok b'"
    using assms m g' by (cases "context_sha256 (we_sha256 env) c") (auto simp: check_grant_def split: if_splits)
  have t: "check_time w g' now = Ok ()"
    using assms m g' b' by (cases "check_time w g' now") (auto simp: check_grant_def split: if_splits)
  note all = assms [unfolded check_grant_def m g' b' t and_then_simps map_err_simps authority_message.case]
  have eq: "g' = g" "b' = b" using all by (auto split: if_splits)
  show "worker_verify env w s = Ok (GrantMessage g)" "context_sha256 (we_sha256 env) c = Ok b" "check_time w g now = Ok ()"
    using m g' b' t eq by simp_all
  show "\<not> wk_fenced w" "wk_sequence w < ug_sequence g" "creation_allows_use w"
    "ug_generation g = nz_get (wk_generation w)" "ug_worker g = wk_instance w" "ug_principal g = prin"
    "ug_operation g = operation" "ug_context_sha256 g = b" "ug_input_sha256 g = we_sha256 env input"
    "wc_provider_ref c = wk_provider_ref w" "ident_str (wc_security_domain c) = wk_domain w"
    using all unfolding eq by (simp_all add: not_le split: if_splits)
qed

lemma close_residency_state:
  "snd (close_residency env lease b w) = w \<or>
   snd (close_residency env lease b w) = w\<lparr>wk_resident := AList.delete b (wk_resident w)\<rparr>"
  by (auto simp: close_residency_def remove_resident_def split: result.splits)

lemma expired_residency_state:
  "snd (expired_residency env lease b w) = w \<or>
   snd (expired_residency env lease b w) = w\<lparr>wk_resident := AList.delete b (wk_resident w)\<rparr>"
  "\<exists>e. fst (expired_residency env lease b w) = Err e"
  using close_residency_state [of env lease b w]
  by (auto simp: expired_residency_def split: prod.splits result.splits)

lemma length_update_new: "map_of al k = None \<Longrightarrow> length (AList.update k v al) = Suc (length al)"
  by (induction al) (auto split: if_splits)

lemma length_update_old: "map_of al k \<noteq> None \<Longrightarrow> length (AList.update k v al) = length al"
  by (induction al) (auto split: if_splits)

text \<open>A new lease takes a counter no earlier lease of this incarnation has.\<close>

lemma resident_ok_insert:
  assumes ok: "resident_ok w" and "map_of (wk_resident w) b = None" and "\<not> wk_fenced w"
    and "length (wk_resident w) < resident_keys (wk_limits w)" and "length key = 32"
    and n: "checked_add (wk_next_lease w) 1 = Some n" and counter: "nz_get counter = n"
  shows "resident_ok (w\<lparr>wk_source := source, wk_next_lease := n, wk_resident := AList.update b
     \<lparr>rs_key = key, rs_lease = \<lparr>li_executor = i, li_counter = counter\<rparr>, rs_until = until, rs_uses = 0\<rparr> (wk_resident w)\<rparr>)"
proof -
  have less: "wk_next_lease w < n"
    using n by (auto simp: checked_add_Some word_less_nat_alt)
  have fresh: "li_counter (rs_lease r) \<noteq> counter" if "map_of (wk_resident w) b' = Some r" for b' r
    using ok that less counter by (force simp: resident_ok_def)
  have old: "nz_get (li_counter (rs_lease r)) \<le> n" if "map_of (wk_resident w) b' = Some r" for b' r
    using ok that less by (force simp: resident_ok_def)
  show ?thesis
    using ok assms(2-5) fresh old counter
    unfolding resident_ok_def by (auto simp: update_conv' distinct_update length_update_new split: if_splits)
qed

lemma resident_ok_source [simp]: "resident_ok (w\<lparr>wk_source := s\<rparr>) = resident_ok w"
    "resident_ok (w\<lparr>wk_sequence := n\<rparr>) = resident_ok w" "resident_ok (w\<lparr>wk_creation := cr\<rparr>) = resident_ok w"
  by (simp_all add: resident_ok_def)

lemma resident_ok_lease: "resident_ok w \<Longrightarrow> wk_next_lease w \<le> n \<Longrightarrow> resident_ok (w\<lparr>wk_next_lease := n\<rparr>)"
  by (fastforce simp: resident_ok_def)

lemma ensure_resident_state:
  assumes "ensure_resident env tick g c b w = (r, w')" and "resident_ok w" and "\<not> wk_fenced w"
  shows "resident_ok w'" and "advances w w'" and "wk_fenced w' = wk_fenced w" and "wk_sequence w' = wk_sequence w"
proof -
  let ?good = "resident_ok w' \<and> advances w w' \<and> wk_fenced w' = wk_fenced w \<and> wk_sequence w' = wk_sequence w"
  have ?good
  proof (cases "map_of (wk_resident w) b \<noteq> None \<or> resident_keys (wk_limits w) \<le> length (wk_resident w)")
    case True
    with assms show ?thesis by (auto simp: ensure_resident_def split: if_splits)
  next
    case room: False
    obtain opened source where op: "we_open env c (wk_source w) = (opened, source)"
      by (cases "we_open env c (wk_source w)")
    let ?w = "w\<lparr>wk_source := source\<rparr>"
    show ?thesis
    proof (cases "\<exists>key. opened = Ok key \<and> length key = 32 \<and> is_ok (check_time ?w g (tick 3))")
      case False
      then have "w' = ?w"
        using assms(1) room op by (auto simp: ensure_resident_def Let_def is_ok_iff split: result.splits if_splits)
      with assms(2) show ?thesis by simp
    next
      case True
      then obtain key u where key: "opened = Ok key" "length key = 32" "check_time ?w g (tick 3) = Ok u"
        by (auto simp: is_ok_iff)
      show ?thesis
      proof (cases "checked_add (wk_next_lease w) 1")
        case None
        with assms(1,2) room op key show ?thesis by (auto simp: ensure_resident_def Let_def)
      next
        case (Some n)
        then have less: "wk_next_lease w \<le> n"
          by (auto simp: checked_add_Some word_le_nat_alt)
        show ?thesis
        proof (cases "executor env (?w\<lparr>wk_next_lease := n\<rparr>)")
          case (Err e)
          with assms(1,2) room op key Some less show ?thesis
            by (auto simp: ensure_resident_def Let_def resident_ok_lease)
        next
          case (Ok i)
          show ?thesis
          proof (cases "nonzero_new n")
            case None
            with assms(1,2) room op key Some Ok less show ?thesis
              by (auto simp: ensure_resident_def Let_def resident_ok_lease)
          next
            case counter: (Some k)
            then have "nz_get k = n" by (simp add: nonzero_new_Some_iff)
            with assms(1) room op key Some Ok counter show ?thesis
              using resident_ok_insert [OF assms(2) _ assms(3) _ key(2) Some, where b = b and counter = k and source = source and i = i]
              by (auto simp: ensure_resident_def Let_def)
          qed
        qed
      qed
    qed
  qed
  then show "resident_ok w'" "advances w w'" "wk_fenced w' = wk_fenced w" "wk_sequence w' = wk_sequence w" by simp_all
qed

lemma word_succ_le: "(u :: u64) < m \<Longrightarrow> u + 1 \<le> m"
  by (simp add: inc_le)

lemma resident_ok_use:
  assumes ok: "resident_ok w" and r: "map_of (wk_resident w) b = Some r"
    and "rs_uses r < uses_per_residency (wk_limits w)"
  shows "resident_ok (w\<lparr>wk_resident := AList.update b (r\<lparr>rs_uses := rs_uses r + 1\<rparr>) (wk_resident w)\<rparr>)"
proof -
  have nonempty: "\<not> wk_fenced w" using ok r by (auto simp: resident_ok_def)
  show ?thesis
    using ok r nonempty word_succ_le [OF assms(3)]
    unfolding resident_ok_def by (auto simp: update_conv' distinct_update length_update_old split: if_splits)
qed

lemma use_resident_state:
  assumes "use_resident env tick nonce g c operation input b w = (r, w')" and "resident_ok w"
  shows "resident_ok w'" and "advances w w'" and "wk_fenced w' = wk_fenced w" and "wk_sequence w' = wk_sequence w"
proof -
  let ?good = "\<lambda>w'. resident_ok w' \<and> advances w w' \<and> wk_fenced w' = wk_fenced w \<and> wk_sequence w' = wk_sequence w"
  have closed: "?good (snd (expired_residency env lease b v))"
    if "resident_ok v" "advances w v" "wk_fenced v = wk_fenced w" "wk_sequence v = wk_sequence w" for lease v
    using expired_residency_state(1) [of env lease b v] that by (auto simp: resident_ok_delete)
  have "?good w'"
  proof (cases "map_of (wk_resident w) b")
    case None
    with assms show ?thesis by (simp add: use_resident_def)
  next
    case (Some res)
    let ?w = "w\<lparr>wk_resident := AList.update b (res\<lparr>rs_uses := rs_uses res + 1\<rparr>) (wk_resident w)\<rparr>"
    show ?thesis
    proof (cases "rs_until res \<le> tick 4")
      case True
      with assms(1) Some have "w' = snd (expired_residency env (rs_lease res) b w)"
        by (simp add: use_resident_def)
      with closed [OF assms(2)] show ?thesis by simp
    next
      case live: False
      show ?thesis
      proof (cases "uses_per_residency (wk_limits w) \<le> rs_uses res")
        case True
        with assms live Some show ?thesis by (simp add: use_resident_def)
      next
        case False
        then have "?good ?w"
          using resident_ok_use [OF assms(2) Some] by (simp add: not_le)
        moreover have "w' = ?w \<or> w' = snd (expired_residency env (rs_lease res) b ?w)"
          using assms(1) live Some False
          by (auto simp: use_resident_def Let_def split: result.splits if_splits)
        ultimately show ?thesis using closed [of ?w] by blast
      qed
    qed
  qed
  then show "resident_ok w'" "advances w w'" "wk_fenced w' = wk_fenced w" "wk_sequence w' = wk_sequence w" by simp_all
qed

lemma advances_sequence: "advances w v \<Longrightarrow> wk_sequence v \<le> n \<Longrightarrow> advances w (v\<lparr>wk_sequence := n\<rparr>)"
  by (auto simp: advances_def same_config_def attempt_left_def)

lemma worker_expire_fields [simp]: "wk_fenced (snd (worker_expire now w)) = wk_fenced w"
    "wk_sequence (snd (worker_expire now w)) = wk_sequence w" "wk_trust (snd (worker_expire now w)) = wk_trust w"
    "wk_generation (snd (worker_expire now w)) = wk_generation w" "wk_instance (snd (worker_expire now w)) = wk_instance w"
    "wk_creation (snd (worker_expire now w)) = wk_creation w" "wk_limits (snd (worker_expire now w)) = wk_limits w"
  using worker_expire_state [of now w] by auto

lemma execute_state [consumes 2, case_names refused granted]:
  assumes "execute env tick nonce s prin c operation input w = (r, w')" and ok: "resident_ok w"
  obtains (refused) e where "r = Err e" "w' = snd (worker_expire (tick 0) w)"
  | (granted) g b where
      "check_grant env (tick 1) (snd (worker_expire (tick 0) w)) s prin c operation input = Ok (g, b)"
      "resident_ok w'" "advances w w'" "\<not> wk_fenced w'" "wk_sequence w' = ug_sequence g"
proof (cases "check_grant env (tick 1) (snd (worker_expire (tick 0) w)) s prin c operation input")
  case (Err e)
  with assms(1) show thesis by (intro refused [of e]) (simp_all add: execute_def Let_def)
next
  case (Ok gb)
  obtain g b where gb: "gb = (g, b)" by (cases gb)
  let ?w = "(snd (worker_expire (tick 0) w))\<lparr>wk_sequence := ug_sequence g\<rparr>"
  note grant = check_grant_Ok [OF Ok [unfolded gb]]
  have start: "resident_ok ?w" "advances w ?w" "\<not> wk_fenced ?w"
    using ok grant(2,3) by (auto intro!: advances_sequence simp: resident_ok_source)
  obtain r1 w1 where e1: "ensure_resident env tick g c b ?w = (r1, w1)"
    by (cases "ensure_resident env tick g c b ?w")
  note s1 = ensure_resident_state [OF e1 start(1,3)]
  have "resident_ok w' \<and> advances w w' \<and> \<not> wk_fenced w' \<and> wk_sequence w' = ug_sequence g"
  proof (cases r1)
    case (Err e)
    with assms(1) Ok gb e1 have "w' = w1" by (simp add: execute_def Let_def)
    moreover have "advances w w1" using s1(2) start(2) advances_trans by blast
    ultimately show ?thesis using s1 start(3) by simp
  next
    case r1: (Ok u)
    with assms(1) Ok gb e1 have use: "use_resident env tick nonce g c operation input b w1 = (r, w')"
      by (simp add: execute_def Let_def)
    note s2 = use_resident_state [OF use s1(1)]
    have "advances w w1" using s1(2) start(2) advances_trans by blast
    then have "advances w w'" using s2(2) advances_trans by blast
    with s1 s2 start(3) show ?thesis by simp
  qed
  then show thesis using granted [of g b] Ok gb by blast
qed

lemma check_creation_Ok:
  assumes "check_creation env now1 now2 g w = Ok u"
  shows "\<not> wk_fenced w" and "wk_creation w \<noteq> None"
  using assms by (cases "wk_creation w"; force simp: check_creation_def split: if_splits)+

lemma consume_attempt_state:
  assumes "consume_attempt env tick e w = (r, w')"
  obtains (refused) err where "r = Err err" "w' = w"
  | (consumed) rv where "r = Ok rv" "\<not> wk_fenced w" "attempt_left w" "wk_sequence w < nz_get (ag_sequence (ev_claims e))"
      "w' = w\<lparr>wk_creation := Some (rv\<lparr>rv_state := Consumed\<rparr>), wk_sequence := nz_get (ag_sequence (ev_claims e))\<rparr>"
proof (cases "check_creation env (tick 0) (tick 1) (ev_claims e) w")
  case (Err err)
  with assms show thesis by (intro refused) (auto simp: consume_attempt_def)
next
  case (Ok u)
  note ok = check_creation_Ok [OF this]
  then obtain rv where rv: "wk_creation w = Some rv" by auto
  show thesis
  proof (cases "rv_state rv \<noteq> Ready \<or> nz_get (ag_sequence (ev_claims e)) \<le> wk_sequence w")
    case True
    with assms Ok rv show thesis by (intro refused) (auto simp: consume_attempt_def)
  next
    case False
    then have "wk_sequence w < nz_get (ag_sequence (ev_claims e))" by (simp add: not_le)
    moreover from False assms Ok rv have "r = Ok rv"
      "w' = w\<lparr>wk_creation := Some (rv\<lparr>rv_state := Consumed\<rparr>), wk_sequence := nz_get (ag_sequence (ev_claims e))\<rparr>"
      by (auto simp: consume_attempt_def)
    moreover have "attempt_left w" using False rv by (simp add: attempt_left_def)
    ultimately show thesis using ok by (intro consumed [of rv]) auto
  qed
qed

lemma produce_state: "\<exists>s. snd (produce env tick g r w) = w\<lparr>wk_source := s\<rparr>"
proof -
  have "\<exists>s. w = w\<lparr>wk_source := s\<rparr>" by (rule exI [of _ "wk_source w"]) simp
  then show ?thesis
    by (auto simp: produce_def Let_def split: result.splits prod.splits)
qed

lemma generate_state:
  assumes "generate env tick bytes w = (r, w')"
  shows "advances w w'" and "resident_ok w \<Longrightarrow> resident_ok w'"
    and "r = Ok ev \<Longrightarrow> attempt_left w \<and> \<not> attempt_left w' \<and> \<not> wk_fenced w \<and> wk_sequence w < wk_sequence w'"
proof -
  let ?good = "advances w w' \<and> (resident_ok w \<longrightarrow> resident_ok w') \<and>
    (r = Ok ev \<longrightarrow> attempt_left w \<and> \<not> attempt_left w' \<and> \<not> wk_fenced w \<and> wk_sequence w < wk_sequence w')"
  have ?good
  proof (cases "authenticated_grant env w bytes")
    case (Err e)
    with assms show ?thesis by (auto simp: generate_def)
  next
    case (Ok e)
    obtain r1 w1 where c: "consume_attempt env tick e w = (r1, w1)" by (cases "consume_attempt env tick e w")
    from c show ?thesis
    proof (cases rule: consume_attempt_state)
      case (refused err)
      with assms Ok c show ?thesis by (auto simp: generate_def)
    next
      case (consumed rv)
      obtain s where s: "snd (produce env tick (ev_claims e) rv w1) = w1\<lparr>wk_source := s\<rparr>"
        using produce_state [of env tick "ev_claims e" rv w1] by (rule exE)
      then obtain r2 where p: "produce env tick (ev_claims e) rv w1 = (r2, w1\<lparr>wk_source := s\<rparr>)"
        by (cases "produce env tick (ev_claims e) rv w1") auto
      have "w' = w1\<lparr>wk_source := s\<rparr> \<or>
          w' = (w1\<lparr>wk_source := s\<rparr>)\<lparr>wk_creation := map_option (\<lambda>r. r\<lparr>rv_state := Complete\<rparr>) (wk_creation w1),
            wk_source := we_activate env s\<rparr>"
        using assms Ok c consumed(1) p by (auto simp: generate_def split: result.splits)
      then show ?thesis
        using consumed by (auto simp: advances_def same_config_def attempt_left_def resident_ok_def)
    qed
  qed
  then show "advances w w'" "resident_ok w \<Longrightarrow> resident_ok w'"
    "r = Ok ev \<Longrightarrow> attempt_left w \<and> \<not> attempt_left w' \<and> \<not> wk_fenced w \<and> wk_sequence w < wk_sequence w'" by simp_all
qed

lemma check_revocation_Ok:
  assumes "check_revocation env now c w = Ok u"
  shows "\<not> wk_fenced w" and "nz_get (wk_generation w) < nz_get (generation (rc_authority c))"
proof -
  have "\<not> wk_fenced w \<and> \<not> nz_get (generation (rc_authority c)) \<le> nz_get (wk_generation w)"
    using assms by (force simp: check_revocation_def split: if_splits)
  then show "\<not> wk_fenced w" "nz_get (wk_generation w) < nz_get (generation (rc_authority c))" by (simp_all add: not_le)
qed

lemma apply_revocation_state:
  assumes "apply_revocation env now c w = (r, w')"
  shows "advances w w'" and "resident_ok w \<Longrightarrow> resident_ok w'" and "r = Ok ls \<Longrightarrow> wk_fenced w' \<and> wk_resident w' = [] \<and> \<not> wk_fenced w"
proof -
  consider e where "check_revocation env now c w = Err e" | u where "check_revocation env now c w = Ok u"
    by (cases "check_revocation env now c w")
  then have "advances w w' \<and> (resident_ok w \<longrightarrow> resident_ok w') \<and> (r = Ok ls \<longrightarrow> wk_fenced w' \<and> wk_resident w' = [] \<and> \<not> wk_fenced w)"
  proof cases
    case 1
    with assms show ?thesis by (auto simp: apply_revocation_def)
  next
    case 2
    with assms check_revocation_Ok [OF 2] show ?thesis
      by (auto simp: apply_revocation_def advances_def same_config_def attempt_left_def resident_ok_def)
  qed
  then show "advances w w'" "resident_ok w \<Longrightarrow> resident_ok w'"
    "r = Ok ls \<Longrightarrow> wk_fenced w' \<and> wk_resident w' = [] \<and> \<not> wk_fenced w" by simp_all
qed

lemma fence_core: "fst (snd (fence worker gen f x s)) = x \<or> fst (snd (fence worker gen f x s)) = snd (f x)"
  by (auto simp: fence_def Let_def split: prod.splits result.splits)

section \<open>The running worker\<close>

text \<open>A launched worker: constructed, with at most one creation reserved before the first request.\<close>

definition launched :: "('k, 's) worker_env \<Rightarrow> ('k, 's) worker \<Rightarrow> bool" where
  "launched env w \<longleftrightarrow> (\<exists>i trust p domain source l v. new_with_trust i trust p domain source l = Ok v \<and>
     (w = v \<or> (\<exists>plan c. reserve_creation env plan c v = (Ok (), w))))"

text \<open>The request loop serves a frame or expires residencies; the writer thread acts on the gate.\<close>

inductive worker_step ::
  "('k, 's) worker_env \<Rightarrow> request_env \<Rightarrow> ('k, 's) worker \<times> delivery \<Rightarrow> ('k, 's) worker \<times> delivery \<Rightarrow> bool" for env q where
  frame: "worker_step env q (w, d) (snd (serve_frame env q i fr w d))"
| expire: "worker_step env q (w, d) (snd (worker_expire now w), d)"
| writer: "delivery_step (rq_delivery q) d d' \<Longrightarrow> worker_step env q (w, d) (w, d')"

definition worker_run ::
  "('k, 's) worker_env \<Rightarrow> request_env \<Rightarrow> ('k, 's) worker \<times> delivery \<Rightarrow> ('k, 's) worker \<times> delivery \<Rightarrow> bool" where
  "worker_run env q = (worker_step env q)\<^sup>*\<^sup>*"

lemma launched_ok: "launched env w \<Longrightarrow> resident_ok w \<and> wk_sequence w = 0 \<and> \<not> wk_fenced w"
proof -
  assume "launched env w"
  then obtain i trust p domain source l v where new: "new_with_trust i trust p domain source l = Ok v"
    and w: "w = v \<or> (\<exists>plan c. reserve_creation env plan c v = (Ok (), w))"
    unfolding launched_def by blast
  have v: "resident_ok v \<and> wk_sequence v = 0 \<and> \<not> wk_fenced v"
    using new by (auto simp: new_with_trust_def resident_ok_def split: if_splits)
  have "w = v \<or> (\<exists>cr. w = v\<lparr>wk_creation := cr\<rparr>)"
    using w by (auto simp: reserve_creation_def split: if_splits result.splits)
  with v show ?thesis by auto
qed

lemma fence_run: "delivery_run env s (snd (snd (fence worker gen f x s)))"
proof -
  let ?r = "case fst (f x) of Ok _ \<Rightarrow> Ok () | Err e \<Rightarrow> Err e"
  have "snd (snd (fence worker gen f x s)) = snd (snd (fence worker gen (\<lambda>_. (?r, ())) () s))"
    by (cases "f x"; cases "fst (f x)") (auto simp: fence_def Let_def)
  then show ?thesis by (simp only:) (rule delivery_run_step [OF delivery_step.fence])
qed

lemma revoke_state:
  assumes "revoke env now bytes w d = (r, w', d')"
  shows "advances w w'" and "resident_ok w \<Longrightarrow> resident_ok w'" and "delivery_run denv d d'"
proof -
  have "advances w w' \<and> (resident_ok w \<longrightarrow> resident_ok w') \<and> delivery_run denv d d'"
  proof (cases "authenticated_command env w bytes")
    case (Err e)
    with assms show ?thesis by (simp add: revoke_def)
  next
    case (Ok e)
    let ?f = "apply_revocation env now (ev_claims e)"
    obtain fr fw fd where f: "fence (wk_instance w) (nz_get (generation (rc_authority (ev_claims e)))) ?f w d = (fr, fw, fd)"
      by (cases "fence (wk_instance w) (nz_get (generation (rc_authority (ev_claims e)))) ?f w d")
    have "w' = fw" "d' = fd"
      using assms Ok f by (auto simp: revoke_def split: result.splits prod.splits)
    moreover have "fw = w \<or> fw = snd (?f w)"
      using fence_core [of "wk_instance w" "nz_get (generation (rc_authority (ev_claims e)))" ?f w d] f by simp
    moreover have "delivery_run denv d fd"
      using fence_run [of denv d "wk_instance w" "nz_get (generation (rc_authority (ev_claims e)))" ?f w] f by simp
    moreover obtain ar aw where "?f w = (ar, aw)" by (cases "?f w")
    ultimately show ?thesis using apply_revocation_state(1,2) [of env now "ev_claims e" w ar aw] by auto
  qed
  then show "advances w w'" "resident_ok w \<Longrightarrow> resident_ok w'" "delivery_run denv d d'" by simp_all
qed

lemma enqueue_message_run: "delivery_run (rq_delivery q) d (snd (enqueue_message q i p d))"
  by (cases p) (auto simp: enqueue_message_def intro: delivery_run_step delivery_step.enqueue)

lemma control_run: "delivery_run env d (snd (control env v d))"
  by (rule delivery_run_step [OF delivery_step.control])

lemma execute_for_delivery_worker:
  "snd (execute_for_delivery env tick nonce s prin c operation input w) = snd (execute env tick nonce s prin c operation input w)"
  by (auto simp: execute_for_delivery_def split: prod.splits result.splits)

lemma execute_ok_state:
  assumes "resident_ok w"
  shows "resident_ok (snd (execute env tick nonce s prin c operation input w)) \<and>
    advances w (snd (execute env tick nonce s prin c operation input w))"
proof -
  obtain r w' where e: "execute env tick nonce s prin c operation input w = (r, w')"
    by (cases "execute env tick nonce s prin c operation input w")
  from e assms show ?thesis
    by (cases rule: execute_state) (use assms e in auto)
qed

lemma handle_request_state:
  assumes "handle_request env q i r w d = (x, w', d')" and ok: "resident_ok w"
  shows "resident_ok w' \<and> advances w w' \<and> delivery_run (rq_delivery q) d d'"
proof (cases r)
  case (GenerateRequest grant)
  show ?thesis
  proof (cases "we_b64_decode env grant")
    case None
    with assms GenerateRequest show ?thesis by (simp add: handle_request_def)
  next
    case (Some bytes)
    obtain gr gw where g: "generate env (ri_tick i) bytes w = (gr, gw)" by (cases "generate env (ri_tick i) bytes w")
    have "w' = gw" "d' = d \<or> (\<exists>p. d' = snd (enqueue_message q i p d))"
      using assms(1) GenerateRequest Some g by (auto simp: handle_request_def split: result.splits prod.splits) (metis snd_conv)
    with generate_state(1,2) [OF g] ok enqueue_message_run [of q d i] show ?thesis by auto
  qed
next
  case (ExecuteRequest s prin operation input)
  show ?thesis
  proof (cases "we_b64_decode env input")
    case None
    with assms ExecuteRequest show ?thesis by (simp add: handle_request_def)
  next
    case (Some bytes)
    let ?x = "execute_for_delivery env (ri_tick i) (ri_nonce i) s prin fixture_context operation bytes w"
    obtain er ew where e: "?x = (er, ew)" by (cases ?x)
    have "w' = ew" "d' = d \<or> (\<exists>p. d' = snd (enqueue_message q i p d))"
      using assms(1) ExecuteRequest Some e by (auto simp: handle_request_def split: result.splits prod.splits) (metis snd_conv)
    moreover have "ew = snd (execute env (ri_tick i) (ri_nonce i) s prin fixture_context operation bytes w)"
      using execute_for_delivery_worker [of env "ri_tick i" "ri_nonce i" s prin fixture_context operation bytes w] e by simp
    ultimately show ?thesis
      using execute_ok_state [OF ok] enqueue_message_run [of q d i] by auto
  qed
next
  case (FenceRequest ev)
  show ?thesis
  proof (cases "we_b64_decode env ev")
    case None
    with assms FenceRequest show ?thesis by (simp add: handle_request_def)
  next
    case (Some bytes)
    obtain rr rw rd where r: "revoke env (ri_tick i 0) bytes w d = (rr, rw, rd)"
      by (cases "revoke env (ri_tick i 0) bytes w d")
    have "w' = rw" "d' = rd \<or> (\<exists>v. d' = snd (control (rq_delivery q) v rd))"
      using assms(1) FenceRequest Some r by (auto simp: handle_request_def split: result.splits prod.splits) (metis snd_conv)
    moreover note revoke_state(1,2) [OF r] revoke_state(3) [OF r, of "rq_delivery q"]
    ultimately show ?thesis
      using ok control_run [of "rq_delivery q" rd] delivery_run_trans [of "rq_delivery q" d rd] by auto
  qed
qed

lemma serve_frame_state:
  assumes "serve_frame env q i fr w d = (x, w', d')" and ok: "resident_ok w"
  shows "resident_ok w' \<and> advances w w' \<and> delivery_run (rq_delivery q) d d'"
proof -
  let ?h = "case fr of None \<Rightarrow> (Err ContextE, w, d) | Some r \<Rightarrow> handle_request env q i r w d"
  obtain hr hw hd' where h: "?h = (hr, hw, hd')" by (cases ?h)
  have state: "resident_ok hw \<and> advances w hw \<and> delivery_run (rq_delivery q) d hd'"
    using h ok handle_request_state [OF _ ok] by (cases fr) auto
  have "w' = hw" "d' = hd' \<or> (\<exists>v. d' = snd (control (rq_delivery q) v hd'))"
    using assms(1) h by (auto simp: serve_frame_def split: result.splits prod.splits) (metis snd_conv)
  with state show ?thesis
    using control_run [of "rq_delivery q" hd'] delivery_run_trans [of "rq_delivery q" d hd'] by auto
qed

lemma worker_step_state:
  assumes "worker_step env q s t" and "resident_ok (fst s)"
  shows "resident_ok (fst t) \<and> advances (fst s) (fst t) \<and> delivery_run (rq_delivery q) (snd s) (snd t)"
  using assms(1)
proof cases
  case (frame w d i fr)
  then show ?thesis
    using serve_frame_state [of env q i fr w d "fst (serve_frame env q i fr w d)" "fst t" "snd t"] assms(2) by simp
next
  case (expire w d now)
  with assms(2) show ?thesis by simp
next
  case (writer d d' w)
  with assms(2) show ?thesis by (simp add: delivery_run_step)
qed

lemma worker_run_state:
  assumes "worker_run env q s t" and "resident_ok (fst s)"
  shows "resident_ok (fst t) \<and> advances (fst s) (fst t) \<and> delivery_run (rq_delivery q) (snd s) (snd t)"
  using assms unfolding worker_run_def
proof (induction rule: rtranclp_induct)
  case (step x y)
  with worker_step_state [OF step(2)] show ?case
    using advances_trans delivery_run_trans by blast
qed simp

lemma execute_fenced: "wk_fenced w \<Longrightarrow> \<exists>e. fst (execute env tick nonce s prin c operation input w) = Err e"
  using check_grant_Ok(2) [of env "tick 1" "snd (worker_expire (tick 0) w)" s prin c operation input]
  by (auto simp: execute_def Let_def split: result.splits prod.splits)

lemma generate_refused:
  assumes "wk_fenced w \<or> \<not> attempt_left w"
  shows "\<exists>e. fst (generate env tick bytes w) = Err e"
proof -
  obtain r w' where g: "generate env tick bytes w = (r, w')" by (cases "generate env tick bytes w")
  with generate_state(3) [OF g] assms show ?thesis by (cases r) auto
qed

text \<open>A call that had an effect beyond expiry spent its sequence number or the creation attempt; a
  later call with a spent one is refused before any effect.\<close>

lemma execute_effect:
  assumes "execute env tick nonce s prin c operation input w = (r, w')" and "resident_ok w"
    and "is_ok r \<or> w' \<noteq> snd (worker_expire (tick 0) w)" and "worker_verify env w s = Ok (GrantMessage g)"
  shows "resident_ok w' \<and> advances w w' \<and> wk_sequence w' = ug_sequence g"
  using assms(1,2)
proof (cases rule: execute_state)
  case (refused e)
  with assms(3) show ?thesis by simp
next
  case (granted g' b)
  have "worker_verify env (snd (worker_expire (tick 0) w)) s = Ok (GrantMessage g)"
    using assms(4) worker_verify_cong [of "snd (worker_expire (tick 0) w)" w env s] by simp
  with check_grant_Ok(1) [OF granted(1)] have "g' = g" by simp
  with granted show ?thesis by simp
qed

lemma execute_replayed:
  assumes "worker_verify env (snd (worker_expire (tick 0) w)) s = Ok (GrantMessage g)" and "ug_sequence g \<le> wk_sequence w"
  shows "\<exists>e. execute env tick nonce s prin c operation input w = (Err e, snd (worker_expire (tick 0) w))"
proof (cases "check_grant env (tick 1) (snd (worker_expire (tick 0) w)) s prin c operation input")
  case (Err e)
  then show ?thesis by (simp add: execute_def Let_def)
next
  case (Ok gb)
  obtain g' b where "gb = (g', b)" by (cases gb)
  note grant = check_grant_Ok [OF Ok [unfolded this]]
  from grant(1) assms(1) have "g' = g" by simp
  with grant(3) assms(2) show ?thesis by simp
qed

lemma generate_effect:
  assumes "generate env tick bytes w = (r, w')" and "is_ok r \<or> w' \<noteq> w"
  shows "\<not> attempt_left w'"
proof (cases "authenticated_grant env w bytes")
  case (Err e)
  with assms show ?thesis by (auto simp: generate_def)
next
  case (Ok e)
  obtain r1 w1 where c: "consume_attempt env tick e w = (r1, w1)" by (cases "consume_attempt env tick e w")
  from c show ?thesis
  proof (cases rule: consume_attempt_state)
    case (refused err)
    with assms Ok c show ?thesis by (auto simp: generate_def)
  next
    case (consumed rv)
    obtain r2 s where p: "produce env tick (ev_claims e) rv w1 = (r2, w1\<lparr>wk_source := s\<rparr>)"
      using produce_state [of env tick "ev_claims e" rv w1] by (metis prod.collapse)
    have "w' = w1\<lparr>wk_source := s\<rparr> \<or>
        w' = (w1\<lparr>wk_source := s\<rparr>)\<lparr>wk_creation := map_option (\<lambda>r. r\<lparr>rv_state := Complete\<rparr>) (wk_creation w1),
          wk_source := we_activate env s\<rparr>"
      using assms(1) Ok c consumed(1) p by (auto simp: generate_def split: result.splits)
    then show ?thesis using consumed by (auto simp: attempt_left_def)
  qed
qed

lemma generate_spent:
  assumes "\<not> attempt_left w"
  shows "\<exists>e. generate env tick bytes w = (Err e, w)"
proof -
  have "\<exists>err. consume_attempt env tick e w = (Err err, w)" for e
  proof -
    obtain r w' where c: "consume_attempt env tick e w = (r, w')" by (cases "consume_attempt env tick e w")
    then show ?thesis using assms c by (cases rule: consume_attempt_state) auto
  qed
  then show ?thesis
    by (auto simp: generate_def split: result.splits prod.splits) (metis Pair_inject result.distinct(1))+
qed

lemma revoke_Ok:
  assumes "revoke env now bytes w d = (Ok ev, w', d')"
  obtains c gen leases where "fence (wk_instance w) gen (apply_revocation env now c) w d =
      (Ok (leases, rr_in_flight (ev_claims ev)), w', d')" "apply_revocation env now c w = (Ok leases, w')"
proof -
  obtain e where e: "authenticated_command env w bytes = Ok e"
    using assms by (cases "authenticated_command env w bytes") (auto simp: revoke_def)
  let ?gen = "nz_get (generation (rc_authority (ev_claims e)))"
  obtain fr fw fd where f: "fence (wk_instance w) ?gen (apply_revocation env now (ev_claims e)) w d = (fr, fw, fd)"
    by (cases "fence (wk_instance w) ?gen (apply_revocation env now (ev_claims e)) w d")
  with assms e obtain leases x where fr: "fr = Ok (leases, x)" "fw = w'" "fd = d'"
    "revocation_observed env w' (ev_claims e) leases x = Ok ev"
    by (cases fr) (auto simp: revoke_def)
  have "rr_in_flight (ev_claims ev) = x"
    using fr(4) by (auto simp: revocation_observed_def observe_def Let_def)
  then show thesis
    using that [of ?gen "ev_claims e" leases] f fr fence_Ok(3) [OF f [unfolded fr]] by simp
qed

section \<open>Properties\<close>

text \<open>C13: A worker that has reported a revocation is finished. Whatever requests, expiries and writer
  steps follow, it stays fenced, holds no key, refuses every use and every creation, holds no
  transport key, and the deliveries that reached the coordinator are exactly those already
  committed when the revocation was applied; a \<open>Drained\<close> report means all of them had.\<close>

theorem revocation_is_final:
  assumes "launched env w0" and "worker_run env q (w0, delivery_new (wk_instance w0)) (w, d)"
    and "revoke env now bytes w d = (Ok ev, w1, d1)" and "worker_run env q (w1, d1) (w2, d2)"
  shows "wk_fenced w2 \<and> wk_resident w2 = [] \<and>
    (\<exists>e. fst (execute env tick nonce s prin c operation input w2) = Err e) \<and>
    (\<exists>e. fst (generate env tick bytes' w2) = Err e) \<and> dl_permits d2 = [] \<and>
    (phase_of d2 i = Some Committed \<longleftrightarrow> phase_of d i = Some Committed) \<and>
    (rr_in_flight (ev_claims ev) = Drained \<longrightarrow> phase_of d2 i \<in> {None, Some Committed})"
proof -
  have ok0: "resident_ok w0" using launched_ok [OF assms(1)] by simp
  note run1 = worker_run_state [OF assms(2), simplified, OF ok0]
  obtain c' gen leases where f: "fence (wk_instance w) gen (apply_revocation env now c') w d =
      (Ok (leases, rr_in_flight (ev_claims ev)), w1, d1)" and a: "apply_revocation env now c' w = (Ok leases, w1)"
    using revoke_Ok [OF assms(3)] by metis
  have w1: "wk_fenced w1" "resident_ok w1"
    using apply_revocation_state(2) [OF a] apply_revocation_state(3) [OF a, of leases] run1 by auto
  note run2 = worker_run_state [OF assms(4), simplified, OF w1(2)]
  then have fenced: "wk_fenced w2" using w1(1) by (auto simp: advances_def)
  then have "wk_resident w2 = []" using run2 by (simp add: resident_ok_def)
  moreover note execute_fenced [OF fenced, of env tick nonce s prin c operation input]
  moreover have "\<exists>e. fst (generate env tick bytes' w2) = Err e" using generate_refused fenced by blast
  moreover have gate: "dl_permits d2 = []" "phase_of d2 i = Some Committed \<longleftrightarrow> phase_of d i = Some Committed"
    "rr_in_flight (ev_claims ev) = Drained \<longrightarrow> phase_of d2 i \<in> {None, Some Committed}"
    using run1 run2 fence_facts(2,5,6) [OF _ f, of "rq_delivery q" "wk_instance w0" d2] by blast+
  ultimately show ?thesis using fenced by blast
qed

text \<open>C29: A use grant spends its sequence number and a creation attempt is spent by its first effect.
  Once a call of \<open>execute\<close> did anything but expire residencies, whether the use then succeeded or
  failed, every later grant whose sequence number is not above that one, the same grant included,
  is refused before any effect, for any principal, context, operation or input. Once a call of
  \<open>generate\<close> changed the worker, whether or not a key was made, every later call is refused and
  changes nothing.\<close>

theorem grant_single_use:
  assumes "launched env w0" and "worker_run env q (w0, d0) (w, d)" and "worker_run env q (w1, d1) (w2, d2)"
  shows "(execute env tick nonce s prin c operation input w = (r, w1) \<and>
      (is_ok r \<or> w1 \<noteq> snd (worker_expire (tick 0) w)) \<and>
      worker_verify env w s = Ok (GrantMessage g) \<and> worker_verify env w s' = Ok (GrantMessage g') \<and>
      ug_sequence g' \<le> ug_sequence g \<longrightarrow>
      (\<exists>e. execute env tick' nonce' s' prin' c' operation' input' w2 = (Err e, snd (worker_expire (tick' 0) w2)))) \<and>
    (generate env tick bytes w = (made, w1) \<and> (is_ok made \<or> w1 \<noteq> w) \<longrightarrow>
      (\<exists>e. generate env tick' bytes' w2 = (Err e, w2)))"
proof (intro conjI impI; elim conjE)
  have ok: "resident_ok w"
    using worker_run_state [OF assms(2)] launched_ok [OF assms(1)] by simp
  show "\<exists>e. execute env tick' nonce' s' prin' c' operation' input' w2 = (Err e, snd (worker_expire (tick' 0) w2))"
    if used: "execute env tick nonce s prin c operation input w = (r, w1)" "is_ok r \<or> w1 \<noteq> snd (worker_expire (tick 0) w)"
      and signed: "worker_verify env w s = Ok (GrantMessage g)" "worker_verify env w s' = Ok (GrantMessage g')"
      and spent: "ug_sequence g' \<le> ug_sequence g"
  proof -
    have w1: "resident_ok w1" "advances w w1" "wk_sequence w1 = ug_sequence g"
      using execute_effect [OF used(1) ok used(2) signed(1)] by simp_all
    have w2: "advances w1 w2" using worker_run_state [OF assms(3)] w1(1) by simp
    then have "worker_verify env (snd (worker_expire (tick' 0) w2)) s' = Ok (GrantMessage g')"
      using w1(2) signed(2) worker_verify_cong [of "snd (worker_expire (tick' 0) w2)" w env s']
      by (simp add: advances_def same_config_def)
    moreover have "ug_sequence g' \<le> wk_sequence w2" using w1(3) w2 spent by (auto simp: advances_def)
    ultimately show ?thesis by (intro execute_replayed) auto
  qed
  show "\<exists>e. generate env tick' bytes' w2 = (Err e, w2)"
    if made: "generate env tick bytes w = (made, w1)" "is_ok made \<or> w1 \<noteq> w"
  proof -
    have "resident_ok w1" "\<not> attempt_left w1"
      using generate_state(2) [OF made(1)] generate_effect [OF made] ok by auto
    then have "\<not> attempt_left w2"
      using worker_run_state [OF assms(3)] by (auto simp: advances_def)
    then show ?thesis by (rule generate_spent)
  qed
qed

text \<open>C30: In every reachable state a worker holds at most the configured number of keys, each of 256
  bits, each used at most the configured number of times, under distinct leases; a fenced worker
  holds none.\<close>

theorem worker_within_limits:
  assumes "launched env w0" and "worker_run env q (w0, d0) (w, d)"
  shows "length (wk_resident w) \<le> resident_keys (wk_limits w0) \<and>
    (\<forall>b r b' r'. map_of (wk_resident w) b = Some r \<longrightarrow> length (rs_key r) = 32 \<and> rs_uses r \<le> uses_per_residency (wk_limits w0) \<and>
      (map_of (wk_resident w) b' = Some r' \<longrightarrow> rs_lease r' = rs_lease r \<longrightarrow> b' = b)) \<and>
    (wk_fenced w \<longrightarrow> wk_resident w = [])"
proof -
  have "resident_ok w" "wk_limits w = wk_limits w0"
    using worker_run_state [OF assms(2)] launched_ok [OF assms(1)] by (auto simp: advances_def same_config_def)
  then show ?thesis unfolding resident_ok_def by metis
qed

subsection \<open>A small worker\<close>

definition sample_use_grant :: use_grant where
  "sample_use_grant = \<lparr>ug_worker = ''w'', ug_principal = ''p'', ug_context_sha256 = fill 7, ug_operation = OpEncrypt,
     ug_input_sha256 = fill 7, ug_generation = 1, ug_sequence = 1, ug_not_before_ms = 0, ug_expires_ms = 50,
     ug_ancestor_expires_ms = 50, ug_residency_until_ms = 50\<rparr>"

definition sample_wenv :: "(unit, unit) worker_env" where
  "sample_wenv = \<lparr>we_sha256 = (\<lambda>_. fill 7), we_verify = (\<lambda>_ _ _. True), we_parse = (\<lambda>_. Some (GrantMessage sample_use_grant)),
     we_b64_decode = (\<lambda>_. Some (bytes_list (fill 3 :: 32 bytes))), we_open = (\<lambda>_ s. (Ok (replicate 32 0), s)),
     we_encrypt = (\<lambda>_ _ _ _. Some [9]), we_decrypt = (\<lambda>_ _ _ _. None), we_sign = (\<lambda>_. fill 5),
     we_prepare = (\<lambda>_ s. (Err MaterialE, s)), we_generate = (\<lambda>_ _ s. (Err MaterialE, s)), we_activate = id\<rparr>"

definition sample_renv :: request_env where
  "sample_renv = \<lparr>rq_delivery = sample_denv, rq_seal = (\<lambda>_ _. Some []), rq_creation_json = (\<lambda>_ _ _. Some []),
     rq_output_json = (\<lambda>_. Some []), rq_revocation_json = (\<lambda>_. Some []), rq_error_json = (\<lambda>_. Some [])\<rparr>"

definition sample_worker :: "(unit, unit) worker" where
  "sample_worker = \<lparr>wk_instance = ''w'', wk_provider_ref = ProviderRef ''p'', wk_domain = ''i'',
     wk_trust = \<lparr>tc_authority = \<lparr>ek_issuer = Ident ''i'', ek_key_id = Ident ''k'', ek_key = ()\<rparr>,
       tc_initial_generation = NonZero 1, tc_observer_issuer = Ident ''i'', tc_observer_key_id = Ident ''k''\<rparr>,
     wk_source = (), wk_limits = \<lparr>resident_keys = 1, residence_ms = 100, uses_per_residency = 5, authority_horizon_ms = 100\<rparr>,
     wk_generation = NonZero 1, wk_fenced = False, wk_sequence = 0, wk_next_lease = 0, wk_resident = [], wk_creation = None\<rparr>"

lemma sample_launched: "launched sample_wenv sample_worker"
proof -
  have "new_with_trust ''w'' (wk_trust sample_worker) (ProviderRef ''p'') ''i'' () (wk_limits sample_worker) = Ok sample_worker"
    by (simp add: new_with_trust_def sample_worker_def identifier_new_def validate_identifier_def
        MAX_WRAPPING_IDENTIFIER_BYTES_def as_bytes_def is_ascii_graphic_def NonZero_inverse)
  then show ?thesis unfolding launched_def by blast
qed

lemma worker_run_refl [simp]: "worker_run env q s s"
  by (simp add: worker_run_def)

definition sample_signed :: signed where
  "sample_signed = \<lparr>sg_body = ''g'', sg_signature = bytes_list (fill 1 :: 64 bytes)\<rparr>"

lemma sample_context_digest: "context_sha256 (\<lambda>_. fill 7) sample_wrapping = Ok (fill 7)" 
  "\<exists>aad. context_canonical_bytes sample_wrapping = Ok aad"
  by (simp_all add: context_sha256_def custody_eval sample_wrapping_def)

lemma sample_wenv_simps:
  "we_open sample_wenv c s = (Ok (replicate 32 0), s)" "we_encrypt sample_wenv k n m a = Some [9]"
  "we_sha256 sample_wenv = (\<lambda>_. fill 7)" "we_verify sample_wenv u m sg" "we_sign sample_wenv m = fill 5"
  "ug_residency_until_ms sample_use_grant = 50" "ug_sequence sample_use_grant = 1"
  by (simp_all add: sample_wenv_def sample_use_grant_def)

lemma sample_verify: "worker_verify sample_wenv w sample_signed = Ok (GrantMessage sample_use_grant)"
proof -
  have "try_into (bytes_list (fill 1 :: 64 bytes)) = Some (fill 1 :: 64 bytes)" by (simp only: try_into_Some_iff)
  then show ?thesis unfolding worker_verify_def sample_signed_def by (simp add: sample_wenv_def)
qed

lemma sample_executor: "executor sample_wenv w = Ok (Incarnation (fill 3))"
proof -
  have "try_into (bytes_list (fill 3 :: 32 bytes)) = Some (fill 3 :: 32 bytes)" by (simp only: try_into_Some_iff)
  then show ?thesis unfolding executor_def sample_wenv_def by (simp add: incarnation_new_def)
qed

lemma sample_expire: "snd (worker_expire now sample_worker) = sample_worker"
  by (simp add: worker_expire_def sample_worker_def)

lemma sample_time: "check_time w sample_use_grant 5 = Ok ()" if "authority_horizon_ms (wk_limits w) = 100"
  using that by (simp add: check_time_def sample_use_grant_def saturating_add_def checked_add_def)

lemma sample_check: "check_grant sample_wenv 5 sample_worker sample_signed ''p'' sample_wrapping OpEncrypt [] =
    Ok (sample_use_grant, fill 7)"
  unfolding check_grant_def sample_verify
  using sample_context_digest(1) sample_time [of sample_worker]
  by (simp add: sample_wenv_def sample_worker_def creation_allows_use_def NonZero_inverse)
    (simp add: sample_use_grant_def sample_wrapping_def)

lemma sample_execute: "fst (execute sample_wenv (\<lambda>_. 5) (fill 0) sample_signed ''p'' sample_wrapping OpEncrypt [] sample_worker) =
    Ok (bytes_list (fill 0 :: 12 bytes) @ [9])"
proof -
  obtain aad where aad: "context_canonical_bytes sample_wrapping = Ok aad" using sample_context_digest(2) by blast
  show ?thesis
    unfolding execute_def Let_def sample_expire sample_check
    using aad
    by (simp add: ensure_resident_def use_resident_def sample_executor sample_time run_cipher_def sample_worker_def
        checked_add_def nonzero_new_def saturating_add_def sample_wenv_simps Let_def)
qed

theorem grant_single_use_witness:
  "fst (execute sample_wenv (\<lambda>_. 5) (fill 0) sample_signed ''p'' sample_wrapping OpEncrypt [] sample_worker) =
     Ok (bytes_list (fill 0 :: 12 bytes) @ [9]) \<and>
   (\<exists>e. fst (execute sample_wenv (\<lambda>_. 6) (fill 1) sample_signed ''p'' sample_wrapping OpEncrypt []
      (snd (execute sample_wenv (\<lambda>_. 5) (fill 0) sample_signed ''p'' sample_wrapping OpEncrypt [] sample_worker))) = Err e)"
proof -
  obtain w1 where e: "execute sample_wenv (\<lambda>_. 5) (fill 0) sample_signed ''p'' sample_wrapping OpEncrypt [] sample_worker =
      (Ok (bytes_list (fill 0 :: 12 bytes) @ [9]), w1)"
    using sample_execute by (metis prod.collapse)
  then show ?thesis
    using grant_single_use [OF sample_launched worker_run_refl worker_run_refl,
        where ?w1.0 = w1 and tick = "\<lambda>_. 5" and nonce = "fill 0" and s = sample_signed and prin = "''p''" and c = sample_wrapping
          and operation = OpEncrypt and input = "[]" and tick' = "\<lambda>_. 6" and nonce' = "fill 1" and s' = sample_signed
          and prin' = "''p''" and c' = sample_wrapping and operation' = OpEncrypt and input' = "[]"
          and g = sample_use_grant and g' = sample_use_grant and r = "Ok (bytes_list (fill 0 :: 12 bytes) @ [9])",
        THEN conjunct1]
    by (auto simp: sample_verify)
qed

theorem worker_within_limits_witness:
  "length (wk_resident sample_worker) \<le> resident_keys (wk_limits sample_worker) \<and> resident_keys (wk_limits sample_worker) = 1"
  using worker_within_limits [OF sample_launched worker_run_refl] by (simp add: sample_worker_def)

definition sample_command :: revocation_command where
  "sample_command = \<lparr>rc_fence = fill 1, rc_executor = Incarnation (fill 3),
     rc_authority = \<lparr>issuer = Ident ''i'', scope = SecurityDomain (ProviderRef ''p'') (Ident ''i''), generation = NonZero 2\<rparr>,
     rc_validity = \<lparr>clock = ExecutorMonotonicMilliseconds (Incarnation (fill 3)), not_before = 0, not_after = 50\<rparr>\<rparr>"

definition sample_command_evidence :: "revocation_command evidence" where
  "sample_command_evidence = \<lparr>ev_issuer = Ident ''i'', ev_key_id = Ident ''k'', ev_claims = sample_command, ev_signature = fill 0\<rparr>"

lemmas revoke_eval = custody_eval w_evidence_def signing_bytes_def w_command_def w_authority_def w_uuid_def w_executor_def
  w_validity_def command_issuer_def no_issuer_def EVIDENCE_DOMAIN_def sample_command_def sample_command_evidence_def
  w_revocation_def MAX_RECEIPT_LEASES_def NonZero_inverse identifier_new_def

lemma sample_command_encodes: "\<exists>bs. canonical_bytes 13 (w_evidence command_issuer 11 w_command) sample_command_evidence = Ok bs"
  unfolding is_ok_iff [symmetric] by (simp add: revoke_eval)

lemma sample_authenticated:
  assumes "canonical_bytes 13 (w_evidence command_issuer 11 w_command) sample_command_evidence = Ok bs"
  shows "authenticated_command sample_wenv sample_worker bs = Ok sample_command_evidence"
proof -
  have "is_ok (signing_bytes command_issuer 11 w_command sample_command_evidence)"
    by (simp add: revoke_eval)
  then have "authenticate (we_verify sample_wenv) command_issuer 11 w_command sample_command_evidence
      (tc_authority (wk_trust sample_worker)) = Ok sample_command_evidence"
    by (auto simp: authenticate_def is_ok_iff sample_worker_def sample_wenv_simps) (simp_all add: sample_command_evidence_def)
  then show ?thesis
    using command_claims.evidence_wire.decode_encode_msg [OF assms] by (simp add: authenticated_command_def)
qed

lemma sample_check_revocation: "check_revocation sample_wenv 5 sample_command sample_worker = Ok ()"
  by (simp add: check_revocation_def sample_executor sample_worker_def sample_command_def identifier_new_def
      validate_identifier_def MAX_WRAPPING_IDENTIFIER_BYTES_def as_bytes_def is_ascii_graphic_def check_at_def
      validate_validity_def saturating_add_def checked_add_def NonZero_inverse word_le_nat_alt)

lemma sample_revoked:
  assumes "canonical_bytes 13 (w_evidence command_issuer 11 w_command) sample_command_evidence = Ok bs"
  shows "\<exists>ev w1 d1. revoke sample_wenv 5 bs sample_worker (delivery_new ''w'') = (Ok ev, w1, d1)"
proof -
  let ?w = "sample_worker\<lparr>wk_generation := NonZero 2, wk_fenced := True, wk_resident := []\<rparr>"
  have f: "fence ''w'' 2 (apply_revocation sample_wenv 5 sample_command) sample_worker (delivery_new ''w'') =
      (Ok ([], Drained), ?w, sealed (delivery_new ''w''))"
    by (simp add: fence_def fence_sealed apply_revocation_def sample_check_revocation)
      (simp add: sample_worker_def delivery_new_def sealed_def shut_def suppress_pending_def sample_command_def)
  have "is_ok (revocation_observed sample_wenv ?w sample_command [] Drained)"
    by (simp add: revocation_observed_def sample_executor check_command_def observe_def sample_wenv_simps revoke_eval)
      (simp add: sample_worker_def)
  with assms f show ?thesis
    by (auto simp: revoke_def sample_authenticated is_ok_iff sample_command_evidence_def)
      (auto simp: sample_worker_def sample_command_def NonZero_inverse)
qed

theorem revocation_is_final_witness:
  "\<exists>bs ev w1 d1. revoke sample_wenv 5 bs sample_worker (delivery_new ''w'') = (Ok ev, w1, d1) \<and> wk_fenced w1 \<and>
     (\<exists>e. fst (execute sample_wenv (\<lambda>_. 5) (fill 0) sample_signed ''p'' sample_wrapping OpEncrypt [] w1) = Err e)"
proof -
  obtain bs ev w1 d1 where r: "revoke sample_wenv 5 bs sample_worker (delivery_new ''w'') = (Ok ev, w1, d1)"
    using sample_command_encodes sample_revoked by blast
  have "delivery_new ''w'' = delivery_new (wk_instance sample_worker)" by (simp add: sample_worker_def)
  then have r': "revoke sample_wenv 5 bs sample_worker (delivery_new (wk_instance sample_worker)) = (Ok ev, w1, d1)"
    using r by simp
  note final = revocation_is_final [OF sample_launched worker_run_refl r' worker_run_refl, where tick = "\<lambda>_. 5" and
      nonce = "fill 0" and s = sample_signed and prin = "''p''" and c = sample_wrapping and operation = OpEncrypt and
      input = "[]" and bytes' = "[]" and i = 0]
  with r show ?thesis by blast
qed

end
