(* ===== verification/Ipc.thy ===== *)
theory Ipc
  imports Bytes
begin

text \<open>
  Framing on the crypto worker's private channel (\<open>keyrack-crypto-worker/src/ipc.rs\<close>). A \<open>BufRead\<close> is
  the list of what successive calls of \<open>fill_buf\<close> return while nothing is consumed: a piece of the
  stream or an error; an empty piece, or none left, is the end of the stream.
\<close>

definition MAX_FRAME :: nat where
  "MAX_FRAME = 65536"

datatype frame_error = FrameIo | FrameTruncated | FrameLimit

type_synonym reader_state = "byte list option list"

text \<open>\<open>BufRead::consume\<close>.\<close>

definition consume :: "nat \<Rightarrow> byte list \<Rightarrow> reader_state \<Rightarrow> reader_state" where
  "consume n piece rest = (if n < length piece then Some (drop n piece) # rest else rest)"

lemma consume_all [simp]: "consume (length piece) piece rest = rest"
  by (simp add: consume_def)

definition newline :: byte where
  "newline = 10"

text \<open>The index after the first newline, and the loop.\<close>

definition frame_end :: "byte list \<Rightarrow> nat option" where
  "frame_end bytes = (if newline \<in> set bytes then Some (length (takeWhile (\<lambda>b. b \<noteq> newline) bytes) + 1) else None)"

fun read_frame :: "reader_state \<Rightarrow> byte list \<Rightarrow> (byte list \<times> reader_state, frame_error) result" where
  "read_frame [] acc = (if acc = [] then Ok (acc, []) else Err FrameTruncated)"
| "read_frame (None # r) acc = Err FrameIo"
| "read_frame (Some bytes # r) acc =
     (if bytes = [] then (if acc = [] then Ok (acc, Some bytes # r) else Err FrameTruncated)
      else let count = (case frame_end bytes of Some n \<Rightarrow> n | None \<Rightarrow> length bytes) in
        if length acc + count > MAX_FRAME then Err FrameLimit
        else if frame_end bytes \<noteq> None then Ok (acc @ take count bytes, consume count bytes r)
        else read_frame (consume count bytes r) (acc @ take count bytes))"

text \<open>\<open>decode\<close> over the JSON parser \<open>from_slice\<close>.\<close>

definition decode_frame :: "(byte list \<Rightarrow> 'r option) \<Rightarrow> byte list \<Rightarrow> 'r option" where
  "decode_frame from_slice frame = (if length frame > MAX_FRAME then None else from_slice frame)"

section \<open>Framing does not depend on the pieces\<close>

text \<open>What a frame of a byte stream is: up to and including the first newline.\<close>

definition stream_frame :: "byte list \<Rightarrow> (byte list \<times> byte list, frame_error) result" where
  "stream_frame s = (let line = takeWhile (\<lambda>b. b \<noteq> newline) s in
     if newline \<in> set s
     then (if length line + 1 > MAX_FRAME then Err FrameLimit else Ok (line @ [newline], tl (dropWhile (\<lambda>b. b \<noteq> newline) s)))
     else if s = [] then Ok ([], [])
     else if length s > MAX_FRAME then Err FrameLimit else Err FrameTruncated)"

definition stream_of :: "reader_state \<Rightarrow> byte list" where
  "stream_of r = concat (map (case_option [] id) r)"

definition pieces_ok :: "reader_state \<Rightarrow> bool" where
  "pieces_ok r \<longleftrightarrow> list_all (\<lambda>p. p \<noteq> None \<and> p \<noteq> Some []) r"

lemma stream_of_simps [simp]: "stream_of [] = []" "stream_of (Some b # r) = b @ stream_of r"
  by (simp_all add: stream_of_def)

lemma take_frame_end:
  "newline \<in> set bytes \<Longrightarrow> take (Suc (length (takeWhile (\<lambda>b. b \<noteq> newline) bytes))) bytes = takeWhile (\<lambda>b. b \<noteq> newline) bytes @ [newline]"
  by (induction bytes) auto

lemma drop_frame_end:
  "drop (Suc (length (takeWhile (\<lambda>b. b \<noteq> newline) bytes))) bytes = tl (dropWhile (\<lambda>b. b \<noteq> newline) bytes)"
  by (induction bytes) auto

lemma stream_of_consume:
  "stream_of (consume n piece r) = drop n piece @ stream_of r"
  "pieces_ok r \<Longrightarrow> pieces_ok (consume n piece r)"
  by (simp_all add: consume_def pieces_ok_def)

text \<open>The state of the loop: \<open>acc\<close> holds newline-free bytes within the limit.\<close>

lemma read_frame_stream:
  assumes "pieces_ok r" "newline \<notin> set acc" "length acc \<le> MAX_FRAME"
  shows "map_result (map_prod id stream_of) id (read_frame r acc) =
     (if acc = [] \<and> stream_of r = [] then Ok ([], []) else stream_frame (acc @ stream_of r))"
  using assms
proof (induction r acc rule: read_frame.induct)
  case (3 bytes r acc)
  then have ne: "bytes \<noteq> []" and r: "pieces_ok r" by (simp_all add: pieces_ok_def)
  show ?case
  proof (cases "newline \<in> set bytes")
    case True
    then show ?thesis
      using 3(3) ne take_frame_end [OF True]
      by (auto simp: frame_end_def Let_def stream_frame_def stream_of_consume drop_frame_end takeWhile_append dropWhile_append
          intro!: arg_cong [of _ _ tl])
  next
    case False
    show ?thesis
    proof (cases "length acc + length bytes > MAX_FRAME")
      case True
      have "length (takeWhile (\<lambda>b. b \<noteq> newline) (acc @ bytes @ stream_of r)) \<ge> length acc + length bytes"
        using False 3(3) by (simp add: takeWhile_append)
      then show ?thesis using True False ne by (auto simp: frame_end_def stream_frame_def Let_def)
    next
      case fits: False
      then show ?thesis
        using 3(1) [OF ne refl] False ne r 3(3) by (simp add: frame_end_def)
    qed
  qed
qed (auto simp: pieces_ok_def stream_frame_def Let_def)

text \<open>
  C31: A frame does not depend on how the bytes arrive. Whatever the pieces in which a stream is
  delivered, reading a frame gives the bytes up to and including the first newline and leaves exactly
  the bytes after it, refuses a frame longer than 64 KiB, and reports a stream that ends inside a
  frame as truncated.
\<close>

theorem read_frame_refines_stream:
  assumes "pieces_ok r"
  shows "map_result (map_prod id stream_of) id (read_frame r []) = stream_frame (stream_of r)"
  using read_frame_stream [OF assms, of "[]"] by (simp add: stream_frame_def)

theorem read_frame_refines_stream_witness:
  "map_result (map_prod id stream_of) id (read_frame [Some [1, 2], Some [3, 10, 4]] []) = stream_frame [1, 2, 3, 10, 4]"
  using read_frame_refines_stream [of "[Some [1, 2], Some [3, 10, 4]]"] by (simp add: pieces_ok_def)

end
