(* ===== verification/Ttlv.thy ===== *)
theory Ttlv
  imports Codec
begin

text \<open>
  The TTLV codec of the KMIP client (\<open>keyrack-kmip/src/ttlv.rs\<close>). A \<open>BytesMut\<close> being written is
  the bytes appended so far. Reading goes through the \<open>bytes\<close> crate's \<open>Buf\<close> for slices, which is
  the parameter \<open>split\<close>: it takes the next \<open>n\<close> bytes off the slice, and \<open>None\<close> is a panic;
  \<open>slice_buf\<close> states its documented behaviour. Decoding recurses as deep as the input nests, so it is
  a partial function whose termination is a theorem.
\<close>

section \<open>Items\<close>

datatype ttlv_type =
  TStructure | TInteger | TLongInteger | TBigInteger | TEnumeration | TBoolean | TTextString | TByteString | TDateTime | TInterval

fun type_byte :: "ttlv_type \<Rightarrow> byte" where
  "type_byte TStructure = 0x01"
| "type_byte TInteger = 0x02"
| "type_byte TLongInteger = 0x03"
| "type_byte TBigInteger = 0x04"
| "type_byte TEnumeration = 0x05"
| "type_byte TBoolean = 0x06"
| "type_byte TTextString = 0x07"
| "type_byte TByteString = 0x08"
| "type_byte TDateTime = 0x09"
| "type_byte TInterval = 0x0A"

definition type_from_u8 :: "byte \<Rightarrow> ttlv_type option" where
  "type_from_u8 v =
     (if v = 0x01 then Some TStructure else if v = 0x02 then Some TInteger else if v = 0x03 then Some TLongInteger
      else if v = 0x04 then Some TBigInteger else if v = 0x05 then Some TEnumeration else if v = 0x06 then Some TBoolean
      else if v = 0x07 then Some TTextString else if v = 0x08 then Some TByteString else if v = 0x09 then Some TDateTime
      else if v = 0x0A then Some TInterval else None)"

type_synonym i32 = "32 word"
type_synonym i64 = "64 word"

datatype ttlv_item = TtlvItem (it_tag: u32) (it_typ: ttlv_type) (it_value: ttlv_value)
  and ttlv_value =
    Structure "ttlv_item list" | Integer i32 | LongInteger i64 | Enumeration u32 | Boolean bool
  | TextString string | ByteString "byte list"

definition find_item :: "u32 \<Rightarrow> ttlv_item \<Rightarrow> ttlv_item option" where
  "find_item tag item = (case it_value item of Structure cs \<Rightarrow> List.find (\<lambda>c. it_tag c = tag) cs | _ \<Rightarrow> None)"

definition as_text :: "ttlv_item \<Rightarrow> string option" where
  "as_text item = (case it_value item of TextString s \<Rightarrow> Some s | _ \<Rightarrow> None)"

definition item_bytes :: "ttlv_item \<Rightarrow> byte list option" where
  "item_bytes item = (case it_value item of ByteString b \<Rightarrow> Some b | _ \<Rightarrow> None)"

definition as_enum :: "ttlv_item \<Rightarrow> u32 option" where
  "as_enum item = (case it_value item of Enumeration v \<Rightarrow> Some v | _ \<Rightarrow> None)"

definition as_integer :: "ttlv_item \<Rightarrow> i32 option" where
  "as_integer item = (case it_value item of Integer v \<Rightarrow> Some v | _ \<Rightarrow> None)"

definition structure_item :: "u32 \<Rightarrow> ttlv_item list \<Rightarrow> ttlv_item" where
  "structure_item tag children = TtlvItem tag TStructure (Structure children)"

definition integer_item :: "u32 \<Rightarrow> i32 \<Rightarrow> ttlv_item" where
  "integer_item tag v = TtlvItem tag TInteger (Integer v)"

definition enumeration_item :: "u32 \<Rightarrow> u32 \<Rightarrow> ttlv_item" where
  "enumeration_item tag v = TtlvItem tag TEnumeration (Enumeration v)"

definition text_item :: "u32 \<Rightarrow> string \<Rightarrow> ttlv_item" where
  "text_item tag s = TtlvItem tag TTextString (TextString s)"

definition byte_item :: "u32 \<Rightarrow> byte list \<Rightarrow> ttlv_item" where
  "byte_item tag b = TtlvItem tag TByteString (ByteString b)"

section \<open>Encoding\<close>

definition pad_len :: "nat \<Rightarrow> nat" where
  "pad_len n = (8 - n mod 8) mod 8"

definition write_tag :: "u32 \<Rightarrow> byte list" where
  "write_tag tag = [ucast (drop_bit 16 tag), ucast (drop_bit 8 tag), ucast tag]"

definition put_u32 :: "u32 \<Rightarrow> byte list" where
  "put_u32 n = to_be_bytes n"

definition put_u64 :: "u64 \<Rightarrow> byte list" where
  "put_u64 n = to_be_bytes n"

definition put_padded :: "byte list \<Rightarrow> byte list" where
  "put_padded b = put_u32 (of_nat (length b)) @ b @ replicate (pad_len (length b)) 0"

fun encode_item :: "ttlv_item \<Rightarrow> byte list" where
  "encode_item (TtlvItem tag _ (Structure cs)) =
     (let content = concat (map encode_item cs)
      in write_tag tag @ type_byte TStructure # put_u32 (of_nat (length content)) @ content)"
| "encode_item (TtlvItem tag _ (Integer v)) = write_tag tag @ type_byte TInteger # put_u32 4 @ put_u32 v @ put_u32 0"
| "encode_item (TtlvItem tag _ (LongInteger v)) = write_tag tag @ type_byte TLongInteger # put_u32 8 @ put_u64 v"
| "encode_item (TtlvItem tag _ (Enumeration v)) = write_tag tag @ type_byte TEnumeration # put_u32 4 @ put_u32 v @ put_u32 0"
| "encode_item (TtlvItem tag _ (Boolean v)) = write_tag tag @ type_byte TBoolean # put_u32 8 @ put_u64 (if v then 1 else 0)"
| "encode_item (TtlvItem tag _ (TextString s)) = write_tag tag @ type_byte TTextString # put_padded (as_bytes s)"
| "encode_item (TtlvItem tag _ (ByteString b)) = write_tag tag @ type_byte TByteString # put_padded b"

section \<open>Decoding\<close>

datatype ttlv_error = ShortHeader | UnknownType byte | Underflow nat nat nat | InvalidUtf8

text \<open>What a call of \<open>decode\<close> does: return an item and the rest, return an error, or panic.\<close>

datatype 'a decoded = Decoded 'a "byte list" | Refused ttlv_error | Panic

type_synonym splitter = "nat \<Rightarrow> byte list \<Rightarrow> (byte list \<times> byte list) option"

definition slice_buf :: "splitter \<Rightarrow> bool" where
  "slice_buf split \<longleftrightarrow> (\<forall>n b. split n b = (if n \<le> length b then Some (take n b, drop n b) else None))"

definition get_bytes :: "splitter \<Rightarrow> nat \<Rightarrow> byte list \<Rightarrow> (byte list \<Rightarrow> byte list \<Rightarrow> 'a decoded) \<Rightarrow> 'a decoded" where
  "get_bytes split n b k = (case split n b of None \<Rightarrow> Panic | Some (head, rest) \<Rightarrow> k head rest)"

text \<open>The eight-byte header: tag, type and length.\<close>

definition ttlv_header :: "splitter \<Rightarrow> byte list \<Rightarrow> (u32 \<times> ttlv_type \<times> nat) decoded" where
  "ttlv_header split b =
     (if length b < 8 then Refused ShortHeader
      else get_bytes split 1 b (\<lambda>b0 b. get_bytes split 1 b (\<lambda>b1 b. get_bytes split 1 b (\<lambda>b2 b.
        let tag = or (or (push_bit 16 (ucast (hd b0))) (push_bit 8 (ucast (hd b1)))) (ucast (hd b2)) in
        get_bytes split 1 b (\<lambda>ty b. case type_from_u8 (hd ty) of
          None \<Rightarrow> Refused (UnknownType (hd ty))
        | Some typ \<Rightarrow> get_bytes split 4 b (\<lambda>len b.
            let n = unat (from_be_bytes len :: u32);
                padded = (if typ = TStructure then n else n + pad_len n)
            in if length b < padded then Refused (Underflow padded n (length b)) else Decoded (tag, typ, n) b))))))"

definition get_padded :: "splitter \<Rightarrow> nat \<Rightarrow> byte list \<Rightarrow> (byte list \<Rightarrow> ttlv_value) \<Rightarrow> ttlv_value decoded" where
  "get_padded split n b f = get_bytes split n b (\<lambda>d b. get_bytes split (pad_len n) b (\<lambda>_ b. Decoded (f d) b))"

text \<open>The values that do not nest. A fixed-width value is read at its width, whatever length the
  header states.\<close>

definition decode_value :: "splitter \<Rightarrow> ttlv_type \<Rightarrow> nat \<Rightarrow> byte list \<Rightarrow> ttlv_value decoded" where
  "decode_value split typ n b = (case typ of
       TInteger \<Rightarrow> get_bytes split 4 b (\<lambda>v b. get_bytes split (pad_len 4) b (\<lambda>_ b. Decoded (Integer (from_be_bytes v)) b))
     | TLongInteger \<Rightarrow> get_bytes split 8 b (\<lambda>v b. Decoded (LongInteger (from_be_bytes v)) b)
     | TDateTime \<Rightarrow> get_bytes split 8 b (\<lambda>v b. Decoded (LongInteger (from_be_bytes v)) b)
     | TBigInteger \<Rightarrow> get_padded split n b ByteString
     | TByteString \<Rightarrow> get_padded split n b ByteString
     | TEnumeration \<Rightarrow> get_bytes split 4 b (\<lambda>v b. get_bytes split (pad_len 4) b (\<lambda>_ b. Decoded (Enumeration (from_be_bytes v)) b))
     | TBoolean \<Rightarrow> get_bytes split 8 b (\<lambda>v b. Decoded (Boolean ((from_be_bytes v :: u64) \<noteq> 0)) b)
     | TTextString \<Rightarrow> get_bytes split n b (\<lambda>d b. get_bytes split (pad_len n) b (\<lambda>_ b.
         case from_utf8 d of None \<Rightarrow> Refused InvalidUtf8 | Some s \<Rightarrow> Decoded (TextString s) b))
     | TInterval \<Rightarrow> get_bytes split 4 b (\<lambda>v b. get_bytes split (pad_len 4) b (\<lambda>_ b. Decoded (Integer (from_be_bytes v)) b))
     | TStructure \<Rightarrow> Panic)"

text \<open>One call of \<open>decode\<close>; \<open>children end b\<close> is the loop that decodes items while more than \<open>end\<close>
  bytes remain.\<close>

definition decode_item :: "splitter \<Rightarrow> (nat \<Rightarrow> byte list \<Rightarrow> ttlv_item list decoded option) \<Rightarrow> byte list \<Rightarrow> ttlv_item decoded option" where
  "decode_item split children b = (case ttlv_header split b of
       Panic \<Rightarrow> Some Panic
     | Refused e \<Rightarrow> Some (Refused e)
     | Decoded (tag, typ, n) b \<Rightarrow>
         if typ = TStructure
         then Option.bind (children (length b - n) b) (\<lambda>r. Some (case r of
             Decoded cs b \<Rightarrow> Decoded (TtlvItem tag typ (Structure cs)) b | Refused e \<Rightarrow> Refused e | Panic \<Rightarrow> Panic))
         else Some (case decode_value split typ n b of
             Decoded v b \<Rightarrow> Decoded (TtlvItem tag typ v) b | Refused e \<Rightarrow> Refused e | Panic \<Rightarrow> Panic))"

lemma decode_item_mono [partial_function_mono]:
  assumes [partial_function_mono]: "\<And>n b. mono_option (\<lambda>f. C f n b)"
  shows "mono_option (\<lambda>f. decode_item split (C f) b)"
proof (cases "ttlv_header split b")
  case (Decoded hd b')
  then show ?thesis unfolding decode_item_def
    by (cases hd) (auto intro!: partial_function_mono)
qed (auto simp: decode_item_def intro: partial_function_mono)

partial_function (option) decode_children :: "splitter \<Rightarrow> nat \<Rightarrow> byte list \<Rightarrow> ttlv_item list decoded option" where
  "decode_children split stop b =
     (if length b \<le> stop then Some (Decoded [] b)
      else Option.bind (decode_item split (\<lambda>n b. decode_children split n b) b) (\<lambda>r. case r of
          Panic \<Rightarrow> Some Panic
        | Refused e \<Rightarrow> Some (Refused e)
        | Decoded c b \<Rightarrow> Option.bind (decode_children split stop b) (\<lambda>r. Some (case r of
            Decoded cs b \<Rightarrow> Decoded (c # cs) b | Refused e \<Rightarrow> Refused e | Panic \<Rightarrow> Panic))))"

definition decode :: "splitter \<Rightarrow> byte list \<Rightarrow> ttlv_item decoded option" where
  "decode split b = decode_item split (decode_children split) b"

section \<open>The codec laws\<close>

named_theorems ttlv_simps

lemma pad_len_bounds: "pad_len n < 8" "(n + pad_len n) mod 8 = 0"
proof -
  show "pad_len n < 8" by (simp add: pad_len_def)
  have "n mod 8 < 8" by simp
  then have "n mod 8 \<in> {0, 1, 2, 3, 4, 5, 6, 7}" by auto
  then show "(n + pad_len n) mod 8 = 0"
    unfolding pad_len_def by (subst mod_add_left_eq [symmetric]) auto
qed

lemma pad_len_4 [simp]: "pad_len 4 = 4" by (simp add: pad_len_def)

lemma length_put [simp]: "length (put_u32 v) = 4" "length (put_u64 w) = 8" "length (write_tag t) = 3"
  by (simp_all add: put_u32_def put_u64_def write_tag_def)

lemma get_put [simp]: "from_be_bytes (put_u32 v) = v" "from_be_bytes (put_u64 w) = w"
  by (simp_all add: put_u32_def put_u64_def)

lemma type_from_type_byte [simp]: "type_from_u8 (type_byte t) = Some t"
  by (cases t) (simp_all add: type_from_u8_def)

lemma get_bytes_slice:
  assumes "slice_buf split"
  shows "get_bytes split n b k = (if n \<le> length b then k (take n b) (drop n b) else Panic)"
  using assms by (simp add: slice_buf_def get_bytes_def)

lemma get_bytes_append:
  assumes "slice_buf split" "length a = n"
  shows "get_bytes split n (a @ b) k = k a b"
  using assms(2) by (simp add: get_bytes_slice [OF assms(1)])

lemma get_bytes_one:
  assumes "slice_buf split"
  shows "get_bytes split (Suc 0) (x # b) k = k [x] b"
  by (simp add: get_bytes_slice [OF assms(1)])

lemma tag_bytes:
  fixes t :: u32
  assumes "drop_bit 24 t = 0"
  shows "or (or (push_bit 16 (ucast (ucast (drop_bit 16 t) :: byte))) (push_bit 8 (ucast (ucast (drop_bit 8 t) :: byte))))
           (ucast (ucast t :: byte)) = t"
proof (rule bit_word_eqI)
  fix n assume n: "n < LENGTH(32)"
  have high: "\<not> bit t n" if "24 \<le> n"
    using arg_cong [OF assms, of "\<lambda>w. bit w (n - 24)"] that by (simp add: bit_drop_bit_eq)
  consider "n < 8" | "8 \<le> n" "n < 16" | "16 \<le> n" "n < 24" | "24 \<le> n" by linarith
  then show "bit (or (or (push_bit 16 (ucast (ucast (drop_bit 16 t) :: byte))) (push_bit 8 (ucast (ucast (drop_bit 8 t) :: byte))))
           (ucast (ucast t :: byte)) :: u32) n = bit t n"
    using n high by cases (auto simp: bit_or_iff bit_push_bit_iff bit_ucast_iff bit_drop_bit_eq)
qed

lemma ttlv_header_decoded:
  assumes "slice_buf split" "ttlv_header split b = Decoded (tag, typ, n) b'"
  shows "length b = length b' + 8" "if typ = TStructure then n \<le> length b' else n + pad_len n \<le> length b'"
  using assms(2) by (auto simp: ttlv_header_def get_bytes_slice [OF assms(1)] Let_def split: if_splits option.splits)

lemma ttlv_header_no_panic: "slice_buf split \<Longrightarrow> ttlv_header split b \<noteq> Panic"
  by (auto simp: ttlv_header_def get_bytes_slice Let_def split: option.splits)

lemma ttlv_header_encoded:
  assumes "slice_buf split" "drop_bit 24 tag = 0"
      and "(if typ = TStructure then unat n else unat n + pad_len (unat n)) \<le> length b"
  shows "ttlv_header split (write_tag tag @ type_byte typ # put_u32 n @ b) = Decoded (tag, typ, unat n) b"
  using assms(3) by (simp add: ttlv_header_def write_tag_def Let_def get_bytes_one [OF assms(1)]
    get_bytes_append [OF assms(1)] tag_bytes [OF assms(2)] not_less split: if_splits)

lemma decode_value_length:
  assumes "slice_buf split" "decode_value split typ n b = Decoded v b'"
  shows "length b' \<le> length b"
  using assms(2) by (auto simp: decode_value_def get_padded_def get_bytes_slice [OF assms(1)]
    split: ttlv_type.splits if_splits option.splits)

lemma decode_item_decoded:
  assumes "slice_buf split" "decode_item split children b = Some (Decoded c b')"
      and "\<And>n d cs d'. length d < length b \<Longrightarrow> children n d = Some (Decoded cs d') \<Longrightarrow> length d' \<le> length d"
  shows "length b' < length b"
proof (cases "ttlv_header split b")
  case (Decoded h d)
  obtain tag ty n where h: "h = (tag, ty, n)" by (cases h)
  have d: "length d < length b" using ttlv_header_decoded(1) [OF assms(1)] Decoded h by fastforce
  have "length b' \<le> length d"
  proof (cases "ty = TStructure")
    case True
    then obtain r where "children (length d - n) d = Some r"
        "(case r of Decoded cs b \<Rightarrow> Decoded (TtlvItem tag ty (Structure cs)) b | Refused e \<Rightarrow> Refused e | Panic \<Rightarrow> Panic) = Decoded c b'"
      using assms(2) Decoded h by (auto simp: decode_item_def Option.bind_eq_Some_conv)
    then obtain cs where "children (length d - n) d = Some (Decoded cs b')" by (cases r) auto
    then show ?thesis using assms(3) [OF d] by blast
  next
    case False
    then obtain v where "decode_value split ty n d = Decoded v b'"
      using assms(2) Decoded h by (auto simp: decode_item_def split: decoded.splits)
    then show ?thesis by (rule decode_value_length [OF assms(1)])
  qed
  with d show ?thesis by simp
qed (use assms(2) in \<open>auto simp: decode_item_def\<close>)

lemma decode_item_returns:
  assumes "slice_buf split"
      and "\<And>n d. length d < length b \<Longrightarrow> \<exists>r. children n d = Some r"
  shows "\<exists>r. decode_item split children b = Some r"
proof (cases "ttlv_header split b")
  case (Decoded h d)
  obtain tag ty n where h: "h = (tag, ty, n)" by (cases h)
  have d: "length d < length b" using ttlv_header_decoded(1) [OF assms(1)] Decoded h by fastforce
  obtain r where "children (length d - n) d = Some r" using assms(2) [OF d] by blast
  then show ?thesis by (simp add: decode_item_def Decoded h)
qed (simp_all add: decode_item_def)

text \<open>The loop over the children ends, and leaves no more bytes than it was given.\<close>

lemma decode_children_returns:
  assumes "slice_buf split"
  shows "\<exists>r. decode_children split stop b = Some r \<and> (\<forall>cs b'. r = Decoded cs b' \<longrightarrow> length b' \<le> length b)"
proof (induction b arbitrary: stop rule: measure_induct_rule [of length])
  case (less b)
  note IH = less.IH
  show ?case
  proof (cases "length b \<le> stop")
    case True
    then show ?thesis by (subst decode_children.simps) simp
  next
    case False
    obtain r where r: "decode_item split (\<lambda>n b. decode_children split n b) b = Some r"
      using decode_item_returns [OF assms, of b "\<lambda>n b. decode_children split n b"] IH by blast
    show ?thesis
    proof (cases r)
      case (Decoded c b')
      have lt: "length b' < length b"
        by (rule decode_item_decoded [OF assms r [unfolded Decoded]]) (metis IH option.inject)
      obtain q where "decode_children split stop b' = Some q" "\<forall>cs d. q = Decoded cs d \<longrightarrow> length d \<le> length b'"
        using IH [OF lt] by blast
      then show ?thesis using False r Decoded lt
        by (subst decode_children.simps) (auto split: decoded.splits intro: order_trans less_imp_le)
    qed (use False r in \<open>subst decode_children.simps; simp\<close>)+
  qed
qed

section \<open>The round trip\<close>

text \<open>The items the builders make: a three-byte tag, the type of the value, text that is UTF-8, and a
  length that fits the \<open>u32\<close> of the header.\<close>

fun value_type :: "ttlv_value \<Rightarrow> ttlv_type" where
  "value_type (Structure _) = TStructure"
| "value_type (Integer _) = TInteger"
| "value_type (LongInteger _) = TLongInteger"
| "value_type (Enumeration _) = TEnumeration"
| "value_type (Boolean _) = TBoolean"
| "value_type (TextString _) = TTextString"
| "value_type (ByteString _) = TByteString"

fun ttlv_ok :: "ttlv_item \<Rightarrow> bool" where
  "ttlv_ok (TtlvItem tag ty v) \<longleftrightarrow> drop_bit 24 tag = 0 \<and> ty = value_type v \<and> (case v of
       Structure cs \<Rightarrow> list_all ttlv_ok cs \<and> length (concat (map encode_item cs)) < 2 ^ 32
     | TextString s \<Rightarrow> utf8_valid (as_bytes s) \<and> length s < 2 ^ 32
     | ByteString b \<Rightarrow> length b < 2 ^ 32
     | _ \<Rightarrow> True)"

lemma length_put_padded [simp]: "length (put_padded b) = 4 + length b + pad_len (length b)"
  by (simp add: put_padded_def)

lemma unat_length: "n < 2 ^ 32 \<Longrightarrow> unat (of_nat n :: u32) = n"
  by (simp add: unsigned_of_nat take_bit_nat_eq_self)

lemma length_encode_item: "8 \<le> length (encode_item item) \<and> length (encode_item item) mod 8 = 0"
proof (induction item rule: encode_item.induct)
  case (1 tag ty cs)
  have "length (concat (map encode_item cs)) mod 8 = 0"
    using 1 by (induction cs) (auto simp: mod_add_eq [symmetric] dvd_eq_mod_eq_0 [symmetric])
  then show ?case by (simp add: Let_def dvd_eq_mod_eq_0 [symmetric])
qed (simp_all add: pad_len_bounds add.assoc dvd_eq_mod_eq_0 [symmetric] del: dvd_imp_mod_0)

lemma decode_value_encoded:
  assumes "slice_buf split"
  shows "decode_value split TInteger n (put_u32 v @ put_u32 0 @ b) = Decoded (Integer v) b"
    and "decode_value split TEnumeration n (put_u32 v @ put_u32 0 @ b) = Decoded (Enumeration v) b"
    and "decode_value split TLongInteger n (put_u64 w @ b) = Decoded (LongInteger w) b"
    and "decode_value split TBoolean n (put_u64 w @ b) = Decoded (Boolean (w \<noteq> 0)) b"
    and "decode_value split TByteString (length d) (d @ replicate (pad_len (length d)) 0 @ b) = Decoded (ByteString d) b"
    and "utf8_valid (as_bytes s) \<Longrightarrow>
         decode_value split TTextString (length s) (as_bytes s @ replicate (pad_len (length s)) 0 @ b) = Decoded (TextString s) b"
  by (simp_all add: decode_value_def get_padded_def get_bytes_append [OF assms] from_utf8_def char_of_as_bytes)

lemma decode_leaf:
  assumes "slice_buf split" "drop_bit 24 tag = 0" "ty \<noteq> TStructure"
      and "unat n + pad_len (unat n) \<le> length b" "decode_value split ty (unat n) b = Decoded v b'"
  shows "decode split (write_tag tag @ type_byte ty # put_u32 n @ b) = Some (Decoded (TtlvItem tag ty v) b')"
  using assms(3-5) ttlv_header_encoded [OF assms(1,2), of ty n b] by (simp add: decode_def decode_item_def)

lemma decode_children_encoded:
  assumes "\<And>c rest. c \<in> set cs \<Longrightarrow> decode split (encode_item c @ rest) = Some (Decoded c rest)"
  shows "decode_children split (length rest) (concat (map encode_item cs) @ rest) = Some (Decoded cs rest)"
  using assms
proof (induction cs)
  case Nil
  then show ?case by (subst decode_children.simps) simp
next
  case (Cons c cs)
  have "\<not> length (concat (map encode_item (c # cs)) @ rest) \<le> length rest"
    using length_encode_item [of c] by auto
  moreover have "decode split (concat (map encode_item (c # cs)) @ rest) = Some (Decoded c (concat (map encode_item cs) @ rest))"
    using Cons.prems [of c "concat (map encode_item cs) @ rest"] by simp
  ultimately show ?case
    using Cons by (subst decode_children.simps) (simp add: decode_def eta_contract_eq)
qed

lemma decode_encode_item:
  assumes "slice_buf split"
  shows "ttlv_ok item \<Longrightarrow> decode split (encode_item item @ rest) = Some (Decoded item rest)"
proof (induction item arbitrary: rest rule: encode_item.induct)
  case (1 tag ty cs)
  let ?content = "concat (map encode_item cs)"
  have "decode_children split (length rest) (?content @ rest) = Some (Decoded cs rest)"
    using 1 by (intro decode_children_encoded) (auto simp: list_all_iff)
  moreover have "unat (of_nat (length ?content) :: u32) = length ?content"
    using 1(2) by (intro unat_length) simp
  ultimately show ?case
    using 1(2) ttlv_header_encoded [OF assms, of tag TStructure "of_nat (length ?content)" "?content @ rest"]
    by (simp add: decode_def decode_item_def Let_def)
next
  case (6 tag ty s)
  then show ?case
    using decode_leaf [OF assms, of tag TTextString "of_nat (length s)"
        "as_bytes s @ replicate (pad_len (length s)) 0 @ rest" "TextString s" rest]
    by (simp add: put_padded_def unat_length decode_value_encoded [OF assms])
next
  case (7 tag ty b)
  then show ?case
    using decode_leaf [OF assms, of tag TByteString "of_nat (length b)"
        "b @ replicate (pad_len (length b)) 0 @ rest" "ByteString b" rest]
    by (simp add: put_padded_def unat_length decode_value_encoded [OF assms])
next
  case (2 tag ty v)
  then show ?case
    using decode_leaf [OF assms, of tag TInteger 4 "put_u32 v @ put_u32 0 @ rest" "Integer v" rest]
    by (simp add: decode_value_encoded [OF assms])
next
  case (3 tag ty v)
  then show ?case
    using decode_leaf [OF assms, of tag TLongInteger 8 "put_u64 v @ rest" "LongInteger v" rest]
    by (simp add: decode_value_encoded [OF assms] pad_len_def)
next
  case (4 tag ty v)
  then show ?case
    using decode_leaf [OF assms, of tag TEnumeration 4 "put_u32 v @ put_u32 0 @ rest" "Enumeration v" rest]
    by (simp add: decode_value_encoded [OF assms])
next
  case (5 tag ty v)
  then show ?case
    using decode_leaf [OF assms, of tag TBoolean 8 "put_u64 (if v then 1 else 0) @ rest" "Boolean v" rest]
    by (simp add: decode_value_encoded [OF assms] pad_len_def)
qed

section \<open>Truncated input\<close>

text \<open>An encoding is a header whose length accounts for everything after it.\<close>

lemma encode_item_shape:
  assumes "ttlv_ok item"
  obtains tag ty n body where "encode_item item = write_tag tag @ type_byte ty # put_u32 n @ body"
    "drop_bit 24 tag = 0" "length body = (if ty = TStructure then unat n else unat n + pad_len (unat n))"
proof (cases item)
  case (TtlvItem tag ty v)
  have "\<exists>n body. encode_item item = write_tag tag @ type_byte ty # put_u32 n @ body
      \<and> length body = (if ty = TStructure then unat n else unat n + pad_len (unat n))"
  proof (cases v)
    case (Structure cs)
    with TtlvItem assms show ?thesis
      by (intro exI [of _ "of_nat (length (concat (map encode_item cs)))"] exI [of _ "concat (map encode_item cs)"])
        (simp add: Let_def unat_length)
  next
    case (TextString s)
    with TtlvItem assms show ?thesis
      by (intro exI [of _ "of_nat (length s)"] exI [of _ "as_bytes s @ replicate (pad_len (length s)) 0"])
        (simp add: put_padded_def unat_length)
  next
    case (ByteString b)
    with TtlvItem assms show ?thesis
      by (intro exI [of _ "of_nat (length b)"] exI [of _ "b @ replicate (pad_len (length b)) 0"])
        (simp add: put_padded_def unat_length)
  qed (use TtlvItem assms in \<open>force simp: pad_len_def\<close>)+
  then show ?thesis using that TtlvItem assms by auto
qed

lemma ttlv_header_truncated:
  assumes "slice_buf split" "ttlv_ok item" "k < length (encode_item item)"
  shows "\<exists>e. ttlv_header split (take k (encode_item item)) = Refused e"
proof -
  obtain tag ty n body where enc: "encode_item item = write_tag tag @ type_byte ty # put_u32 n @ body"
    and len: "length body = (if ty = TStructure then unat n else unat n + pad_len (unat n))"
    by (rule encode_item_shape [OF assms(2)])
  show ?thesis
  proof (cases "k < 8")
    case True
    then show ?thesis by (simp add: ttlv_header_def min.strict_coboundedI2)
  next
    case False
    have "take k (encode_item item) = write_tag tag @ type_byte ty # put_u32 n @ take (k - 8) body"
      using False by (simp add: enc take_Cons' take_append)
    moreover have "k - 8 < length body" using assms(3) False by (simp add: enc)
    ultimately show ?thesis
      using len by (simp add: ttlv_header_def write_tag_def Let_def get_bytes_one [OF assms(1)]
        get_bytes_append [OF assms(1)] min.strict_coboundedI2 min_def split: if_splits)
  qed
qed

section \<open>Panics\<close>

text \<open>The types whose value is read at a width of eight bytes, padding included, whatever the header
  states.\<close>

definition fixed_width :: "ttlv_type \<Rightarrow> bool" where
  "fixed_width ty \<longleftrightarrow> ty \<in> {TInteger, TLongInteger, TEnumeration, TBoolean, TDateTime, TInterval}"

lemma decode_value_panics:
  assumes "slice_buf split" "ty \<noteq> TStructure" "n + pad_len n \<le> length d"
  shows "decode_value split ty n d = Panic \<longleftrightarrow> fixed_width ty \<and> n = 0 \<and> length d < 8"
proof -
  have "8 \<le> n + pad_len n" if "0 < n"
    using that pad_len_bounds(2) [of n] by (metis add_gr_0 mod_less not_le less_numeral_extra(3))
  then have wide: "n = 0 \<or> 8 \<le> length d" using assms(3) by fastforce
  show ?thesis
    using assms(2,3) wide
    by (cases ty) (auto simp: decode_value_def get_padded_def fixed_width_def get_bytes_slice [OF assms(1)] split: option.splits)
qed

text \<open>The positions the loop over the children of a structure goes through.\<close>

inductive decodes_to :: "splitter \<Rightarrow> nat \<Rightarrow> byte list \<Rightarrow> byte list \<Rightarrow> bool" for split stop where
  start: "decodes_to split stop b b"
| item: "stop < length b \<Longrightarrow> decode split b = Some (Decoded c b') \<Longrightarrow> decodes_to split stop b' d \<Longrightarrow> decodes_to split stop b d"

text \<open>Decoding arrives, at some nesting, at a fixed-width item of stated length zero with fewer than
  eight bytes left.\<close>

inductive reaches_stub :: "splitter \<Rightarrow> byte list \<Rightarrow> bool" for split where
  here: "ttlv_header split b = Decoded (tag, ty, 0) d \<Longrightarrow> fixed_width ty \<Longrightarrow> length d < 8 \<Longrightarrow> reaches_stub split b"
| inside: "ttlv_header split b = Decoded (tag, TStructure, n) d \<Longrightarrow> decodes_to split (length d - n) d d' \<Longrightarrow>
    length d - n < length d' \<Longrightarrow> reaches_stub split d' \<Longrightarrow> reaches_stub split b"

lemma map_decoded_panics:
  "(case r of Decoded x b \<Rightarrow> Decoded (f x) b | Refused e \<Rightarrow> Refused e | Panic \<Rightarrow> Panic) = Panic \<longleftrightarrow> r = Panic"
  by (cases r) simp_all

lemma decode_children_step:
  "decode_children split stop b =
     (if length b \<le> stop then Some (Decoded [] b)
      else Option.bind (decode split b) (\<lambda>r. case r of
          Panic \<Rightarrow> Some Panic
        | Refused e \<Rightarrow> Some (Refused e)
        | Decoded c b \<Rightarrow> Option.bind (decode_children split stop b) (\<lambda>r. Some (case r of
            Decoded cs b \<Rightarrow> Decoded (c # cs) b | Refused e \<Rightarrow> Refused e | Panic \<Rightarrow> Panic))))"
  by (subst decode_children.simps) (simp add: decode_def)

lemma decode_shorter:
  assumes "slice_buf split" "decode split b = Some (Decoded c b')"
  shows "length b' < length b"
  using assms(2) unfolding decode_def
  by (rule decode_item_decoded [OF assms(1)]) (metis decode_children_returns [OF assms(1)] option.inject)

lemma decodes_to_shorter:
  assumes "decodes_to split stop b d" and "slice_buf split"
  shows "length d \<le> length b"
  using assms(1) by induction (auto dest: decode_shorter [OF assms(2)])

lemma decode_children_panics:
  assumes "slice_buf split"
  shows "decode_children split stop b = Some Panic \<longleftrightarrow>
    (\<exists>d. decodes_to split stop b d \<and> stop < length d \<and> decode split d = Some Panic)"
proof
  show "decode_children split stop b = Some Panic \<Longrightarrow>
    \<exists>d. decodes_to split stop b d \<and> stop < length d \<and> decode split d = Some Panic"
  proof (induction b rule: measure_induct_rule [of length])
    case (less b)
    from less.prems have b: "stop < length b"
      by (subst (asm) decode_children_step) (auto split: if_splits)
    from less.prems b consider "decode split b = Some Panic"
      | c b' where "decode split b = Some (Decoded c b')" "decode_children split stop b' = Some Panic"
      unfolding decode_children_step [of split stop b]
      by (cases "the (decode split b)") (auto simp: Option.bind_eq_Some_conv map_decoded_panics)
    then show ?case
    proof cases
      case 1
      with b show ?thesis by (blast intro: decodes_to.start)
    next
      case (2 c b')
      with less.IH [OF decode_shorter [OF assms 2(1)]] b show ?thesis by (blast intro: decodes_to.item)
    qed
  qed
  have "decode_children split stop b = Some Panic"
    if "decodes_to split stop b d" "stop < length d" "decode split d = Some Panic" for d
    using that
  proof induction
    case (start b)
    then show ?case by (subst decode_children_step) simp
  next
    case (item b c b' d)
    then show ?case by (subst decode_children_step) simp
  qed
  then show "\<exists>d. decodes_to split stop b d \<and> stop < length d \<and> decode split d = Some Panic \<Longrightarrow>
    decode_children split stop b = Some Panic" by blast
qed

lemma decode_panics:
  assumes "slice_buf split"
  shows "decode split b = Some Panic \<longleftrightarrow> reaches_stub split b"
proof
  show "reaches_stub split b" if "decode split b = Some Panic"
    using that
  proof (induction b rule: measure_induct_rule [of length])
    case (less b)
    then obtain tag ty n d where h: "ttlv_header split b = Decoded (tag, ty, n) d"
      using ttlv_header_no_panic [OF assms, of b] by (auto simp: decode_def decode_item_def split: decoded.splits)
    note header = ttlv_header_decoded [OF assms h]
    show ?case
    proof (cases "ty = TStructure")
      case True
      with less.prems h have "decode_children split (length d - n) d = Some Panic"
        by (auto simp: decode_def decode_item_def Option.bind_eq_Some_conv map_decoded_panics)
      then obtain d' where d': "decodes_to split (length d - n) d d'" "length d - n < length d'" "decode split d' = Some Panic"
        by (auto simp: decode_children_panics [OF assms])
      have "length d' < length b" using decodes_to_shorter [OF d'(1) assms] header(1) by simp
      with less.IH d' h True show ?thesis by (blast intro: reaches_stub.inside)
    next
      case False
      with less.prems h have "decode_value split ty n d = Panic"
        by (auto simp: decode_def decode_item_def split: decoded.splits)
      with False header(2) h show ?thesis
        by (auto simp: decode_value_panics [OF assms] intro: reaches_stub.here)
    qed
  qed
  show "decode split b = Some Panic" if "reaches_stub split b"
    using that
  proof induction
    case (here b tag ty d)
    then have "ty \<noteq> TStructure" by (auto simp: fixed_width_def)
    with here decode_value_panics [OF assms this, of 0 d] show ?case
      by (simp add: decode_def decode_item_def pad_len_def)
  next
    case (inside b tag n d d')
    then have "decode_children split (length d - n) d = Some Panic" by (auto simp: decode_children_panics [OF assms])
    with inside(1) show ?case by (simp add: decode_def decode_item_def)
  qed
qed

lemma decode_stub:
  assumes "slice_buf split" "ty \<noteq> TStructure" "drop_bit 24 tag = 0"
  shows "decode split (write_tag tag @ type_byte ty # put_u32 n @ b) = Some Panic \<longleftrightarrow>
    fixed_width ty \<and> n = 0 \<and> length b < 8"
proof (cases "unat n + pad_len (unat n) \<le> length b")
  case True
  with ttlv_header_encoded [OF assms(1,3), of ty n b] assms(2) decode_value_panics [OF assms(1,2) True] show ?thesis
    by (auto simp: decode_def decode_item_def unat_eq_zero split: decoded.splits)
next
  case False
  then have "n \<noteq> 0" by (auto simp: pad_len_def)
  moreover have "ttlv_header split (write_tag tag @ type_byte ty # put_u32 n @ b) =
      Refused (Underflow (unat n + pad_len (unat n)) (unat n) (length b))"
    using False assms(2) by (simp add: ttlv_header_def write_tag_def Let_def get_bytes_one [OF assms(1)]
        get_bytes_append [OF assms(1)])
  ultimately show ?thesis by (simp add: decode_def decode_item_def)
qed

lemma decodes_to_items:
  assumes "slice_buf split" "list_all ttlv_ok cs" "stop \<le> length rest"
  shows "decodes_to split stop (concat (map encode_item cs) @ rest) rest"
  using assms(2)
proof (induction cs)
  case (Cons c cs)
  let ?b = "concat (map encode_item cs) @ rest"
  have "decode split (encode_item c @ ?b) = Some (Decoded c ?b)"
    using Cons.prems by (intro decode_encode_item [OF assms(1)]) simp
  moreover have "stop < length (encode_item c @ ?b)"
    using assms(3) decode_shorter [OF assms(1) calculation] by (simp only: length_append)
  ultimately show ?case using Cons by (simp add: decodes_to.item)
qed (simp add: decodes_to.start)

section \<open>Properties\<close>

definition slice_split :: splitter where
  "slice_split n b = (if n \<le> length b then Some (take n b, drop n b) else None)"

lemma slice_split_buf: "slice_buf slice_split"
  by (simp add: slice_buf_def slice_split_def)

definition sample_item :: ttlv_item where
  "sample_item = structure_item 0x420069 [integer_item 0x42006A 1, text_item 0x420094 ''uid'', byte_item 0x4200C2 [7, 8, 9]]"

lemma sample_item_ok: "ttlv_ok sample_item"
  by (simp add: sample_item_def structure_item_def integer_item_def text_item_def byte_item_def Let_def put_padded_def
    pad_len_def utf8_valid_ascii as_bytes_def)

text \<open>
  C16: Decoding inverts encoding. For an item whose tags have three bytes, whose types match their
  values, whose texts are UTF-8 and whose lengths fit a \<open>u32\<close>, at every level of nesting,
  decoding its encoding followed by anything returns the item and leaves exactly what followed.
\<close>

theorem ttlv_round_trip:
  assumes "slice_buf split" "ttlv_ok item"
  shows "decode split (encode_item item @ rest) = Some (Decoded item rest)"
  using assms by (rule decode_encode_item)

theorem ttlv_round_trip_witness:
  "decode slice_split (encode_item sample_item @ [1, 2]) = Some (Decoded sample_item [1, 2])"
  by (rule ttlv_round_trip [OF slice_split_buf sample_item_ok])

text \<open>
  C32: A message cut short is refused. When any proper prefix of the encoding of such an item is
  decoded, the result is an error: it is neither accepted as a shorter message nor a panic.
\<close>

theorem truncated_refused:
  assumes "slice_buf split" "ttlv_ok item" "k < length (encode_item item)"
  shows "\<exists>e. decode split (take k (encode_item item)) = Some (Refused e)"
  using ttlv_header_truncated [OF assms] by (auto simp: decode_def decode_item_def)

theorem truncated_refused_witness:
  "\<exists>e. decode slice_split (take 5 (encode_item sample_item)) = Some (Refused e)"
  using length_encode_item [of sample_item] by (intro truncated_refused slice_split_buf sample_item_ok) simp

text \<open>
  C33: Decoding ends on every input: the recursion over nested structures and the loop over their
  children stop. The call returns an item or an error, except that it panics exactly on the inputs
  where it arrives, at some nesting, at a fixed-width item of stated length zero with fewer than
  eight bytes left. The call stack is unbounded here.
\<close>

theorem decode_terminates:
  assumes "slice_buf split"
  shows "(\<exists>r. decode split b = Some r) \<and> (decode split b = Some Panic \<longleftrightarrow> reaches_stub split b)"
proof
  show "\<exists>r. decode split b = Some r"
    unfolding decode_def
    by (rule decode_item_returns [OF assms]) (use decode_children_returns [OF assms] in blast)
qed (rule decode_panics [OF assms])

theorem decode_terminates_witness:
  "\<exists>r. decode slice_split (encode_item sample_item) = Some r \<and> r \<noteq> Panic \<and> \<not> reaches_stub slice_split (encode_item sample_item)"
  using decode_terminates [OF slice_split_buf, of "encode_item sample_item"]
    decode_encode_item [OF slice_split_buf sample_item_ok, of "[]"] by auto

text \<open>
  C34: The decoder trusts the width of a type over the length the header states. An item of any
  type but a structure, whatever its tag, its stated length and the bytes after it, panics exactly
  when its type has a fixed width, the stated length is zero and fewer than eight bytes follow; a
  structure that starts with well-formed items and continues with such an item panics too.
\<close>

theorem short_fixed_width_panics:
  assumes "slice_buf split" "ty \<noteq> TStructure" "drop_bit 24 tag = 0"
  shows "(decode split (write_tag tag @ type_byte ty # put_u32 n @ b) = Some Panic \<longleftrightarrow>
      fixed_width ty \<and> n = 0 \<and> length b < 8) \<and>
    (fixed_width ty \<and> length b < 8 \<and> drop_bit 24 outer = 0 \<and> list_all ttlv_ok cs \<and>
      length (concat (map encode_item cs)) < unat m \<and> unat m \<le> length (concat (map encode_item cs)) + 8 + length b \<longrightarrow>
      decode split (write_tag outer @ type_byte TStructure # put_u32 m @ concat (map encode_item cs) @
        write_tag tag @ type_byte ty # put_u32 0 @ b) = Some Panic)"
proof (intro conjI impI; (elim conjE)?)
  show "decode split (write_tag tag @ type_byte ty # put_u32 n @ b) = Some Panic \<longleftrightarrow>
      fixed_width ty \<and> n = 0 \<and> length b < 8"
    by (rule decode_stub [OF assms])
  assume stub: "fixed_width ty" "length b < 8" and outer: "drop_bit 24 outer = 0" and cs: "list_all ttlv_ok cs"
    and m: "length (concat (map encode_item cs)) < unat m" "unat m \<le> length (concat (map encode_item cs)) + 8 + length b"
  let ?stub = "write_tag tag @ type_byte ty # put_u32 0 @ b"
  let ?body = "concat (map encode_item cs) @ ?stub"
  have "ttlv_header split (write_tag outer @ type_byte TStructure # put_u32 m @ ?body) = Decoded (outer, TStructure, unat m) ?body"
    using m by (intro ttlv_header_encoded [OF assms(1) outer]) simp
  moreover have "decodes_to split (length ?body - unat m) ?body ?stub"
    using m by (intro decodes_to_items [OF assms(1) cs]) simp
  moreover have "reaches_stub split ?stub"
    using stub decode_stub [OF assms, of 0 b] by (simp add: decode_panics [OF assms(1)])
  moreover have "length ?body - unat m < length ?stub" using m by simp
  ultimately have "reaches_stub split (write_tag outer @ type_byte TStructure # put_u32 m @ ?body)"
    by (blast intro: reaches_stub.inside)
  then show "decode split (write_tag outer @ type_byte TStructure # put_u32 m @ ?body) = Some Panic"
    by (simp add: decode_panics [OF assms(1)])
qed

theorem short_fixed_width_panics_witness:
  "decode slice_split (write_tag 0x42000D @ type_byte TBoolean # put_u32 0 @ [1, 2, 3]) = Some Panic \<and>
   decode slice_split (write_tag 0x42007B @ type_byte TStructure # put_u32 (of_nat (length (encode_item sample_item)) + 8) @
     encode_item sample_item @ write_tag 0x42000D @ type_byte TBoolean # put_u32 0 @ [1, 2, 3]) = Some Panic"
proof -
  have "length (encode_item sample_item) = 56"
    by (simp add: sample_item_def structure_item_def integer_item_def text_item_def byte_item_def Let_def put_padded_def
        pad_len_def as_bytes_def)
  then show ?thesis
    using short_fixed_width_panics [OF slice_split_buf, where ty = TBoolean and tag = "0x42000D" and n = 0
        and b = "[1, 2, 3]" and outer = "0x42007B" and cs = "[sample_item]" and m = 64] sample_item_ok
    by (simp add: fixed_width_def)
qed

end
