(* ===== verification/Kmip.thy ===== *)
theory Kmip
  imports Ttlv Decimal
begin

text \<open>
  The KMIP client: requests and responses (\<open>keyrack-kmip/src/messages.rs\<close>), the connection
  (\<open>connection.rs\<close>) and the provider (\<open>provider.rs\<close>). TLS, TCP, the timer and the server are not under
  \<open>src\<close>: they are the record \<open>kmip_net\<close>, functions on a world \<open>'w\<close> that connect, write and read. A call
  of the provider returns \<open>None\<close> where the decoder panics.
\<close>

section \<open>Protocol constants\<close>

definition REQUEST_MESSAGE :: u32 where "REQUEST_MESSAGE = 0x420078"
definition RESPONSE_MESSAGE :: u32 where "RESPONSE_MESSAGE = 0x42007B"
definition REQUEST_HEADER :: u32 where "REQUEST_HEADER = 0x420077"
definition PROTOCOL_VERSION :: u32 where "PROTOCOL_VERSION = 0x420069"
definition PROTOCOL_VERSION_MAJOR :: u32 where "PROTOCOL_VERSION_MAJOR = 0x42006A"
definition PROTOCOL_VERSION_MINOR :: u32 where "PROTOCOL_VERSION_MINOR = 0x42006B"
definition BATCH_COUNT :: u32 where "BATCH_COUNT = 0x42000D"
definition BATCH_ITEM :: u32 where "BATCH_ITEM = 0x42000F"
definition OPERATION :: u32 where "OPERATION = 0x42005C"
definition RESULT_MESSAGE :: u32 where "RESULT_MESSAGE = 0x42007D"
definition RESULT_REASON :: u32 where "RESULT_REASON = 0x42007E"
definition RESULT_STATUS :: u32 where "RESULT_STATUS = 0x42007F"
definition REQUEST_PAYLOAD :: u32 where "REQUEST_PAYLOAD = 0x420079"
definition RESPONSE_PAYLOAD :: u32 where "RESPONSE_PAYLOAD = 0x42007C"
definition UNIQUE_ID :: u32 where "UNIQUE_ID = 0x420094"
definition OBJECT_TYPE :: u32 where "OBJECT_TYPE = 0x420057"
definition TEMPLATE_ATTRIBUTE :: u32 where "TEMPLATE_ATTRIBUTE = 0x420091"
definition ATTRIBUTE :: u32 where "ATTRIBUTE = 0x420008"
definition ATTRIBUTE_NAME :: u32 where "ATTRIBUTE_NAME = 0x42000A"
definition ATTRIBUTE_VALUE :: u32 where "ATTRIBUTE_VALUE = 0x42000B"
definition CRYPTOGRAPHIC_ALGORITHM :: u32 where "CRYPTOGRAPHIC_ALGORITHM = 0x420028"
definition DATA :: u32 where "DATA = 0x4200C2"
definition IV_COUNTER_NONCE :: u32 where "IV_COUNTER_NONCE = 0x42003D"
definition CRYPTOGRAPHIC_PARAMETERS :: u32 where "CRYPTOGRAPHIC_PARAMETERS = 0x42002B"
definition BLOCK_CIPHER_MODE :: u32 where "BLOCK_CIPHER_MODE = 0x420011"
definition DIGITAL_SIGNATURE_ALGORITHM :: u32 where "DIGITAL_SIGNATURE_ALGORITHM = 0x4200AE"
definition SIGNATURE_DATA :: u32 where "SIGNATURE_DATA = 0x4200C3"
definition AUTHENTICATED_ENCRYPTION_TAG :: u32 where "AUTHENTICATED_ENCRYPTION_TAG = 0x4200FF"
definition AUTHENTICATED_ENCRYPTION_ADDITIONAL_DATA :: u32 where "AUTHENTICATED_ENCRYPTION_ADDITIONAL_DATA = 0x4200FE"
definition DATA_LENGTH :: u32 where "DATA_LENGTH = 0x4200C4"
definition TAG_LENGTH :: u32 where "TAG_LENGTH = 0x4200CE"
definition REVOCATION_REASON :: u32 where "REVOCATION_REASON = 0x420081"
definition REVOCATION_REASON_CODE :: u32 where "REVOCATION_REASON_CODE = 0x420082"

lemmas tag_defs =
  REQUEST_MESSAGE_def RESPONSE_MESSAGE_def REQUEST_HEADER_def PROTOCOL_VERSION_def PROTOCOL_VERSION_MAJOR_def
  PROTOCOL_VERSION_MINOR_def BATCH_COUNT_def BATCH_ITEM_def OPERATION_def RESULT_MESSAGE_def RESULT_REASON_def
  RESULT_STATUS_def REQUEST_PAYLOAD_def RESPONSE_PAYLOAD_def UNIQUE_ID_def OBJECT_TYPE_def TEMPLATE_ATTRIBUTE_def
  ATTRIBUTE_def ATTRIBUTE_NAME_def ATTRIBUTE_VALUE_def CRYPTOGRAPHIC_ALGORITHM_def DATA_def IV_COUNTER_NONCE_def
  CRYPTOGRAPHIC_PARAMETERS_def BLOCK_CIPHER_MODE_def DIGITAL_SIGNATURE_ALGORITHM_def SIGNATURE_DATA_def
  AUTHENTICATED_ENCRYPTION_TAG_def AUTHENTICATED_ENCRYPTION_ADDITIONAL_DATA_def DATA_LENGTH_def TAG_LENGTH_def
  REVOCATION_REASON_def REVOCATION_REASON_CODE_def

definition SUCCESS :: u32 where "SUCCESS = 0"
definition OPERATION_FAILED :: u32 where "OPERATION_FAILED = 1"

section \<open>Requests\<close>

definition request_header :: ttlv_item where
  "request_header = structure_item REQUEST_HEADER
     [structure_item PROTOCOL_VERSION [integer_item PROTOCOL_VERSION_MAJOR 1, integer_item PROTOCOL_VERSION_MINOR 4],
      integer_item BATCH_COUNT 1]"

definition wrap_request :: "u32 \<Rightarrow> ttlv_item \<Rightarrow> ttlv_item" where
  "wrap_request operation payload = structure_item REQUEST_MESSAGE
     [request_header, structure_item BATCH_ITEM [enumeration_item OPERATION operation, payload]]"

definition kmip_attribute :: "string \<Rightarrow> ttlv_value \<Rightarrow> ttlv_item" where
  "kmip_attribute name v = structure_item ATTRIBUTE
     [text_item ATTRIBUTE_NAME name,
      TtlvItem ATTRIBUTE_VALUE
        (case v of Enumeration _ \<Rightarrow> TEnumeration | Integer _ \<Rightarrow> TInteger | TextString _ \<Rightarrow> TTextString | _ \<Rightarrow> TByteString) v]"

definition create_symmetric_key :: "u32 \<Rightarrow> i32 \<Rightarrow> ttlv_item" where
  "create_symmetric_key algorithm key_length = wrap_request 0x01 (structure_item REQUEST_PAYLOAD
     [enumeration_item OBJECT_TYPE 0x02,
      structure_item TEMPLATE_ATTRIBUTE
        [kmip_attribute ''Cryptographic Algorithm'' (Enumeration algorithm),
         kmip_attribute ''Cryptographic Length'' (Integer key_length),
         kmip_attribute ''Cryptographic Usage Mask'' (Integer 0x0C)]])"

definition create_asymmetric_key :: "u32 \<Rightarrow> i32 \<Rightarrow> ttlv_item" where
  "create_asymmetric_key algorithm key_length = wrap_request 0x01 (structure_item REQUEST_PAYLOAD
     [enumeration_item OBJECT_TYPE 0x04,
      structure_item TEMPLATE_ATTRIBUTE
        [kmip_attribute ''Cryptographic Algorithm'' (Enumeration algorithm),
         kmip_attribute ''Cryptographic Length'' (Integer key_length),
         kmip_attribute ''Cryptographic Usage Mask'' (Integer 0x03)]])"

definition aes_gcm_parameters :: ttlv_item where
  "aes_gcm_parameters = structure_item CRYPTOGRAPHIC_PARAMETERS
     [enumeration_item BLOCK_CIPHER_MODE 0x09, enumeration_item CRYPTOGRAPHIC_ALGORITHM 0x03, integer_item TAG_LENGTH 16]"

definition optional_bytes :: "u32 \<Rightarrow> byte list option \<Rightarrow> ttlv_item list" where
  "optional_bytes tag b = (case b of None \<Rightarrow> [] | Some b \<Rightarrow> [byte_item tag b])"

definition additional_data :: "byte list \<Rightarrow> ttlv_item list" where
  "additional_data aad = (if aad = [] then [] else [byte_item AUTHENTICATED_ENCRYPTION_ADDITIONAL_DATA aad])"

definition encrypt_request :: "string \<Rightarrow> byte list \<Rightarrow> byte list option \<Rightarrow> byte list \<Rightarrow> ttlv_item" where
  "encrypt_request unique_id plaintext iv aad = wrap_request 0x1F (structure_item REQUEST_PAYLOAD
     ([text_item UNIQUE_ID unique_id, aes_gcm_parameters, byte_item DATA plaintext]
      @ optional_bytes IV_COUNTER_NONCE iv @ additional_data aad))"

definition decrypt_request :: "string \<Rightarrow> byte list \<Rightarrow> byte list option \<Rightarrow> byte list option \<Rightarrow> byte list \<Rightarrow> ttlv_item" where
  "decrypt_request unique_id ciphertext iv auth_tag aad = wrap_request 0x20 (structure_item REQUEST_PAYLOAD
     ([text_item UNIQUE_ID unique_id, aes_gcm_parameters, byte_item DATA ciphertext]
      @ optional_bytes IV_COUNTER_NONCE iv @ additional_data aad @ optional_bytes AUTHENTICATED_ENCRYPTION_TAG auth_tag))"

definition activate_request :: "string \<Rightarrow> ttlv_item" where
  "activate_request unique_id = wrap_request 0x12 (structure_item REQUEST_PAYLOAD [text_item UNIQUE_ID unique_id])"

definition revoke_request :: "string \<Rightarrow> ttlv_item" where
  "revoke_request unique_id = wrap_request 0x13 (structure_item REQUEST_PAYLOAD
     [text_item UNIQUE_ID unique_id, structure_item REVOCATION_REASON [enumeration_item REVOCATION_REASON_CODE 0x06]])"

definition signature_parameters :: "u32 option \<Rightarrow> ttlv_item list" where
  "signature_parameters alg = (case alg of None \<Rightarrow> []
     | Some alg \<Rightarrow> [structure_item CRYPTOGRAPHIC_PARAMETERS [enumeration_item DIGITAL_SIGNATURE_ALGORITHM alg]])"

definition sign_request :: "string \<Rightarrow> byte list \<Rightarrow> u32 option \<Rightarrow> ttlv_item" where
  "sign_request unique_id message alg = wrap_request 0x21 (structure_item REQUEST_PAYLOAD
     ([text_item UNIQUE_ID unique_id, byte_item DATA message] @ signature_parameters alg))"

definition verify_request :: "string \<Rightarrow> byte list \<Rightarrow> byte list \<Rightarrow> u32 option \<Rightarrow> ttlv_item" where
  "verify_request unique_id message signature alg = wrap_request 0x22 (structure_item REQUEST_PAYLOAD
     ([text_item UNIQUE_ID unique_id, byte_item DATA message, byte_item SIGNATURE_DATA signature] @ signature_parameters alg))"

definition destroy_request :: "string \<Rightarrow> ttlv_item" where
  "destroy_request unique_id = wrap_request 0x14 (structure_item REQUEST_PAYLOAD [text_item UNIQUE_ID unique_id])"

definition rng_retrieve_request :: "i32 \<Rightarrow> ttlv_item" where
  "rng_retrieve_request n = wrap_request 0x25 (structure_item REQUEST_PAYLOAD [integer_item DATA_LENGTH n])"

section \<open>Responses\<close>

record kmip_response =
  result_status :: u32
  result_reason :: "u32 option"
  result_message :: "string option"
  payload :: "ttlv_item option"

datatype kmip_error =
    ConnectError string | WriteFailed string | ReadFailed string | ResponseTooLarge nat | DecodeError ttlv_error
  | ParseError string | OperationFailed u32 string | ActivateFailed string kmip_error | UnsupportedSpec key_spec
  | MissingInResponse string | TooLongToFrame nat nat | NotABlob string | InvalidEndpoint string | InvalidPort string

definition parse_response :: "ttlv_item \<Rightarrow> (kmip_response, string) result" where
  "parse_response msg =
     and_then (ok_or ''no BatchItem in response'' (find_item BATCH_ITEM msg)) (\<lambda>batch.
     and_then (ok_or ''no ResultStatus in response'' (Option.bind (find_item RESULT_STATUS batch) as_enum)) (\<lambda>status.
       Ok \<lparr>result_status = status, result_reason = Option.bind (find_item RESULT_REASON batch) as_enum,
          result_message = Option.bind (find_item RESULT_MESSAGE batch) as_text,
          payload = find_item RESPONSE_PAYLOAD batch\<rparr>))"

section \<open>The connection\<close>

record 'w kmip_net =
  net_connect :: "'w \<Rightarrow> (unit, string) result \<times> 'w"
  net_write :: "byte list \<Rightarrow> 'w \<Rightarrow> (unit, string) result \<times> 'w"
  net_read :: "nat \<Rightarrow> 'w \<Rightarrow> (byte list, string) result \<times> 'w"
  net_split :: splitter

definition MAX_RESPONSE_SIZE :: nat where "MAX_RESPONSE_SIZE = 16 * 1024 * 1024"

definition decoded_response :: "ttlv_item decoded option \<Rightarrow> 'w \<Rightarrow> ((ttlv_item, kmip_error) result \<times> 'w) option" where
  "decoded_response d w = (case d of
       Some (Decoded item _) \<Rightarrow> Some (Ok item, w)
     | Some (Refused e) \<Rightarrow> Some (Err (DecodeError e), w)
     | _ \<Rightarrow> None)"

definition round_trip :: "'w kmip_net \<Rightarrow> ttlv_item \<Rightarrow> 'w \<Rightarrow> ((ttlv_item, kmip_error) result \<times> 'w) option" where
  "round_trip net request w = (case net_write net (encode_item request) w of
       (Err e, w) \<Rightarrow> Some (Err (WriteFailed e), w)
     | (Ok _, w) \<Rightarrow> (case net_read net 8 w of
         (Err e, w) \<Rightarrow> Some (Err (ReadFailed e), w)
       | (Ok header, w) \<Rightarrow>
           let content_length = unat (from_be_bytes (drop 4 header) :: u32)
           in if MAX_RESPONSE_SIZE < content_length then Some (Err (ResponseTooLarge content_length), w)
              else (case net_read net content_length w of
                  (Err e, w) \<Rightarrow> Some (Err (ReadFailed e), w)
                | (Ok body, w) \<Rightarrow> decoded_response (decode (net_split net) (header @ body)) w)))"

definition parse_u16 :: "string \<Rightarrow> u16 option" where
  "parse_u16 s = (let t = (case s of [] \<Rightarrow> [] | c # cs \<Rightarrow> if c = CHR ''+'' then cs else s) in
     if t = [] then None
     else case digits_value 0 t of
         None \<Rightarrow> None
       | Some n \<Rightarrow> if n < 2 ^ 16 then Some (of_nat n) else None)"

definition parse_endpoint :: "string \<Rightarrow> (string \<times> u16, kmip_error) result" where
  "parse_endpoint endpoint =
     (let stripped = (case strip_prefix ''kmip://'' endpoint of
          Some s \<Rightarrow> s | None \<Rightarrow> (case strip_prefix ''kmips://'' endpoint of Some s \<Rightarrow> s | None \<Rightarrow> endpoint))
      in and_then (ok_or (InvalidEndpoint endpoint) (rsplit_once (CHR '':'') stripped)) (\<lambda>(host, port).
         and_then (ok_or (InvalidPort port) (parse_u16 port)) (\<lambda>port. Ok (host, port))))"

section \<open>The ciphertext blob\<close>

definition BLOB_VERSION :: byte where "BLOB_VERSION = 1"

definition frame_blob :: "byte list \<Rightarrow> byte list \<Rightarrow> byte list \<Rightarrow> (byte list, kmip_error) result" where
  "frame_blob nonce tag ciphertext =
     (if length nonce > 255 \<or> length tag > 255 then Err (TooLongToFrame (length nonce) (length tag))
      else Ok (BLOB_VERSION # of_nat (length nonce) # nonce @ of_nat (length tag) # tag @ ciphertext))"

definition unframe_blob :: "byte list \<Rightarrow> (byte list \<times> byte list \<times> byte list, kmip_error) result" where
  "unframe_blob blob = (case blob of
       [] \<Rightarrow> Err (NotABlob ''it is empty'')
     | version # rest \<Rightarrow> if version \<noteq> BLOB_VERSION then Err (NotABlob ''unknown framing version'')
         else (case rest of
             [] \<Rightarrow> Err (NotABlob ''no nonce length'')
           | nonce_len # rest \<Rightarrow> if length rest < unat nonce_len then Err (NotABlob ''nonce is shorter than its stated length'')
               else (case drop (unat nonce_len) rest of
                   [] \<Rightarrow> Err (NotABlob ''no tag length'')
                 | tag_len # rest' \<Rightarrow> if length rest' < unat tag_len then Err (NotABlob ''tag is shorter than its stated length'')
                     else if take (unat tag_len) rest' = [] then Err (NotABlob ''no authentication tag'')
                     else Ok (take (unat nonce_len) rest, take (unat tag_len) rest', drop (unat tag_len) rest'))))"

section \<open>The provider\<close>

record 'w kmip_provider =
  kp_open :: bool
  kp_world :: 'w

type_synonym ('w, 'a) kmip_call = "'w kmip_provider \<Rightarrow> (('a, kmip_error) result \<times> 'w kmip_provider) option"

text \<open>The \<open>?\<close> operator between two calls, and on a result that needs no call.\<close>

definition kmip_bind :: "('w, 'a) kmip_call \<Rightarrow> ('a \<Rightarrow> ('w, 'b) kmip_call) \<Rightarrow> ('w, 'b) kmip_call" where
  "kmip_bind m f p = (case m p of
       None \<Rightarrow> None
     | Some (Err e, p) \<Rightarrow> Some (Err e, p)
     | Some (Ok x, p) \<Rightarrow> f x p)"

definition kmip_lift :: "('a, kmip_error) result \<Rightarrow> ('w, 'a) kmip_call" where
  "kmip_lift r p = Some (r, p)"

definition kmip_connect :: "'w kmip_net \<Rightarrow> ('w, unit) kmip_call" where
  "kmip_connect net p = (case net_connect net (kp_world p) of
       (Err e, w) \<Rightarrow> Some (Err (ConnectError e), p\<lparr>kp_world := w\<rparr>)
     | (Ok _, w) \<Rightarrow> Some (Ok (), p\<lparr>kp_open := True, kp_world := w\<rparr>))"

definition get_connection :: "'w kmip_net \<Rightarrow> ('w, unit) kmip_call" where
  "get_connection net p = (if kp_open p then Some (Ok (), p) else kmip_connect net p)"

definition exchange :: "'w kmip_net \<Rightarrow> ttlv_item \<Rightarrow> ('w, ttlv_item) kmip_call" where
  "exchange net request p =
     map_option (\<lambda>(r, w). (r, p\<lparr>kp_world := w\<rparr>)) (round_trip net request (kp_world p))"

definition send_request :: "'w kmip_net \<Rightarrow> ttlv_item \<Rightarrow> ('w, kmip_response) kmip_call" where
  "send_request net request =
     kmip_bind (get_connection net) (\<lambda>_.
     kmip_bind (\<lambda>p. case exchange net request p of
         None \<Rightarrow> None
       | Some (Ok item, p) \<Rightarrow> Some (Ok item, p)
       | Some (Err _, p) \<Rightarrow> kmip_bind (kmip_connect net) (\<lambda>_. exchange net request) p) (\<lambda>item.
     kmip_lift (map_err ParseError (parse_response item))))"

definition check_response :: "kmip_response \<Rightarrow> (unit, kmip_error) result" where
  "check_response resp =
     (if result_status resp \<noteq> SUCCESS
      then Err (OperationFailed (result_status resp) (case result_message resp of None \<Rightarrow> ''unknown error'' | Some m \<Rightarrow> m))
      else Ok ())"

datatype destroy_key_outcome = Completed | AlreadyAbsent

definition check_destroy_response :: "kmip_response \<Rightarrow> (destroy_key_outcome, kmip_error) result" where
  "check_destroy_response resp =
     (if result_status resp = OPERATION_FAILED \<and> result_reason resp = Some 1 then Ok AlreadyAbsent
      else and_then (check_response resp) (\<lambda>_. Ok Completed))"

definition key_spec_to_kmip :: "key_spec \<Rightarrow> (u32 \<times> i32 \<times> bool, kmip_error) result" where
  "key_spec_to_kmip spec = (case spec of
       Aes256 \<Rightarrow> Ok (0x03, 256, True)
     | Ed25519 \<Rightarrow> Ok (0x37, 256, False)
     | EcdsaP256Sha256 \<Rightarrow> Ok (0x06, 256, False)
     | RsaPkcs1v15Sha256 n \<Rightarrow> Ok (0x04, n, False)
     | RsaPssSha256 n \<Rightarrow> Ok (0x04, n, False)
     | _ \<Rightarrow> Err (UnsupportedSpec spec))"

definition checked_request :: "'w kmip_net \<Rightarrow> ttlv_item \<Rightarrow> ('w, kmip_response) kmip_call" where
  "checked_request net request = kmip_bind (send_request net request) (\<lambda>resp. kmip_lift (and_then (check_response resp) (\<lambda>_. Ok resp)))"

definition response_text :: "u32 \<Rightarrow> kmip_response \<Rightarrow> string option" where
  "response_text tag resp = Option.bind (Option.bind (payload resp) (find_item tag)) as_text"

definition response_bytes :: "u32 \<Rightarrow> kmip_response \<Rightarrow> byte list option" where
  "response_bytes tag resp = Option.bind (Option.bind (payload resp) (find_item tag)) item_bytes"

definition kmip_generate_key :: "'w kmip_net \<Rightarrow> key_spec \<Rightarrow> ('w, key_handle) kmip_call" where
  "kmip_generate_key net spec =
     kmip_bind (kmip_lift (key_spec_to_kmip spec)) (\<lambda>(algorithm, key_length, is_symmetric).
     kmip_bind (checked_request net (if is_symmetric then create_symmetric_key algorithm key_length
                                     else create_asymmetric_key algorithm key_length)) (\<lambda>resp.
     kmip_bind (kmip_lift (ok_or (MissingInResponse ''UniqueIdentifier'') (response_text UNIQUE_ID resp))) (\<lambda>unique_id.
     kmip_bind (send_request net (activate_request unique_id)) (\<lambda>activate.
     kmip_bind (kmip_lift (map_err (ActivateFailed unique_id) (check_response activate))) (\<lambda>_.
     kmip_lift (Ok \<lparr>key_id = unique_id, handle_spec = spec\<rparr>))))))"

definition encrypt_output :: "kmip_response \<Rightarrow> (byte list, kmip_error) result" where
  "encrypt_output resp = (case payload resp of
       None \<Rightarrow> Err (MissingInResponse ''payload'')
     | Some _ \<Rightarrow>
         and_then (ok_or (MissingInResponse ''Data'') (response_bytes DATA resp)) (\<lambda>ciphertext.
         let iv = (case response_bytes IV_COUNTER_NONCE resp of None \<Rightarrow> [] | Some b \<Rightarrow> b)
         in if iv = [] then Err (MissingInResponse ''IVCounterNonce'')
            else and_then (ok_or (MissingInResponse ''AuthenticatedEncryptionTag'') (response_bytes AUTHENTICATED_ENCRYPTION_TAG resp))
              (\<lambda>tag. frame_blob iv tag ciphertext)))"

definition kmip_encrypt :: "'w kmip_net \<Rightarrow> key_handle \<Rightarrow> byte list \<Rightarrow> byte list \<Rightarrow> ('w, byte list) kmip_call" where
  "kmip_encrypt net handle plaintext aad =
     kmip_bind (checked_request net (encrypt_request (key_id handle) plaintext None aad)) (\<lambda>resp.
     kmip_lift (encrypt_output resp))"

definition kmip_decrypt :: "'w kmip_net \<Rightarrow> key_handle \<Rightarrow> byte list \<Rightarrow> byte list \<Rightarrow> ('w, byte list) kmip_call" where
  "kmip_decrypt net handle ciphertext aad =
     kmip_bind (kmip_lift (unframe_blob ciphertext)) (\<lambda>(iv, tag, ct).
     kmip_bind (checked_request net (decrypt_request (key_id handle) ct (Some iv) (Some tag) aad)) (\<lambda>resp.
     kmip_lift (ok_or (MissingInResponse ''Data'') (response_bytes DATA resp))))"

definition kmip_sign :: "'w kmip_net \<Rightarrow> key_handle \<Rightarrow> byte list \<Rightarrow> ('w, byte list) kmip_call" where
  "kmip_sign net handle message =
     kmip_bind (checked_request net (sign_request (key_id handle) message None)) (\<lambda>resp.
     kmip_lift (ok_or (MissingInResponse ''SignatureData'') (response_bytes SIGNATURE_DATA resp)))"

definition kmip_verify :: "'w kmip_net \<Rightarrow> key_handle \<Rightarrow> byte list \<Rightarrow> byte list \<Rightarrow> ('w, bool) kmip_call" where
  "kmip_verify net handle message signature =
     kmip_bind (send_request net (verify_request (key_id handle) message signature None)) (\<lambda>resp.
     kmip_lift (Ok (result_status resp = SUCCESS)))"

definition kmip_generate_random :: "'w kmip_net \<Rightarrow> nat \<Rightarrow> ('w, byte list) kmip_call" where
  "kmip_generate_random net n =
     kmip_bind (checked_request net (rng_retrieve_request (of_nat n))) (\<lambda>resp.
     kmip_lift (ok_or (MissingInResponse ''Data'') (response_bytes DATA resp)))"

definition kmip_destroy_key_with_outcome :: "'w kmip_net \<Rightarrow> key_handle \<Rightarrow> ('w, destroy_key_outcome) kmip_call" where
  "kmip_destroy_key_with_outcome net handle p =
     (case checked_request net (revoke_request (key_id handle)) p of
        None \<Rightarrow> None
      | Some (_, p) \<Rightarrow>
          kmip_bind (send_request net (destroy_request (key_id handle))) (\<lambda>resp. kmip_lift (check_destroy_response resp)) p)"

definition kmip_destroy_key :: "'w kmip_net \<Rightarrow> key_handle \<Rightarrow> ('w, unit) kmip_call" where
  "kmip_destroy_key net handle =
     kmip_bind (kmip_destroy_key_with_outcome net handle) (\<lambda>_. kmip_lift (Ok ()))"

section \<open>Framing\<close>

lemma unat_of_nat_byte: "n \<le> 255 \<Longrightarrow> unat (of_nat n :: byte) = n"
  by (simp add: unsigned_of_nat take_bit_nat_eq_self)

lemma unframe_frame:
  assumes "frame_blob nonce tag ct = Ok blob"
  shows "unframe_blob blob = (if tag = [] then Err (NotABlob ''no authentication tag'') else Ok (nonce, tag, ct))"
  using assms by (auto simp: frame_blob_def unframe_blob_def BLOB_VERSION_def unat_of_nat_byte split: if_splits)

lemma frame_unframe:
  assumes "unframe_blob blob = Ok (nonce, tag, ct)"
  shows "frame_blob nonce tag ct = Ok blob \<and> tag \<noteq> []"
proof -
  obtain n rest m rest' where b: "blob = BLOB_VERSION # n # rest" "unat n \<le> length rest" "drop (unat n) rest = m # rest'"
      "unat m \<le> length rest'" "take (unat m) rest' \<noteq> []" "nonce = take (unat n) rest" "tag = take (unat m) rest'"
      "ct = drop (unat m) rest'"
    using assms by (auto simp: unframe_blob_def split: list.splits if_splits)
  have "rest = nonce @ m # tag @ ct" using b append_take_drop_id [of "unat n" rest] by simp
  moreover have "length nonce = unat n" "length tag = unat m" using b by simp_all
  moreover have "unat n \<le> 255" "unat m \<le> 255" using unat_byte_less [of n] unat_byte_less [of m] by simp_all
  ultimately show ?thesis using b by (simp add: frame_blob_def)
qed

section \<open>Well-formed requests\<close>

abbreviation wire :: "ttlv_item \<Rightarrow> nat" where
  "wire item \<equiv> length (encode_item item)"

lemmas item_defs = structure_item_def integer_item_def enumeration_item_def text_item_def byte_item_def

lemma length_concat_encode: "length (concat (map encode_item cs)) = sum_list (map (\<lambda>c. wire c) cs)"
  by (simp add: length_concat comp_def)

lemma wire_simps [simp]:
  "wire (structure_item t cs) = 8 + sum_list (map (\<lambda>c. wire c) cs)"
  "wire (integer_item t v) = 16" "wire (enumeration_item t w) = 16"
  "wire (text_item t s) = 8 + length s + pad_len (length s)"
  "wire (byte_item t b) = 8 + length b + pad_len (length b)"
  by (simp_all add: item_defs Let_def length_concat_encode)

lemma ok_simps [simp]:
  "ttlv_ok (structure_item t cs) \<longleftrightarrow> drop_bit 24 t = 0 \<and> list_all ttlv_ok cs \<and> sum_list (map (\<lambda>c. wire c) cs) < 2 ^ 32"
  "ttlv_ok (integer_item t v) \<longleftrightarrow> drop_bit 24 t = 0"
  "ttlv_ok (enumeration_item t w) \<longleftrightarrow> drop_bit 24 t = 0"
  "ttlv_ok (text_item t s) \<longleftrightarrow> drop_bit 24 t = 0 \<and> utf8_valid (as_bytes s) \<and> length s < 2 ^ 32"
  "ttlv_ok (byte_item t b) \<longleftrightarrow> drop_bit 24 t = 0 \<and> length b < 2 ^ 32"
  by (simp_all add: item_defs length_concat_encode)

lemma wire_request_header [simp]: "wire request_header = 64" "ttlv_ok request_header"
  by (simp_all add: request_header_def tag_defs)

lemma wire_gcm_parameters [simp]: "wire aes_gcm_parameters = 56" "ttlv_ok aes_gcm_parameters"
  by (simp_all add: aes_gcm_parameters_def tag_defs)

lemma wrap_request_ok:
  assumes "ttlv_ok p" "wire p < 2 ^ 31"
  shows "ttlv_ok (wrap_request n p)"
  using assms by (simp add: wrap_request_def tag_defs)

lemma pad_len_le: "pad_len n \<le> 7"
  using pad_len_bounds(1) [of n] by simp

lemma encrypt_request_ok:
  assumes "utf8_valid (as_bytes uid)" "length uid + length pt + length aad < 2 ^ 30"
  shows "ttlv_ok (encrypt_request uid pt None aad)"
  unfolding encrypt_request_def
  using assms pad_len_le [of "length uid"] pad_len_le [of "length pt"] pad_len_le [of "length aad"]
  by (intro wrap_request_ok) (simp_all add: tag_defs optional_bytes_def additional_data_def)

lemma decrypt_request_ok:
  assumes "utf8_valid (as_bytes uid)" "length uid + length ct + length aad + length iv + length tag < 2 ^ 30"
  shows "ttlv_ok (decrypt_request uid ct (Some iv) (Some tag) aad)"
  unfolding decrypt_request_def
  using assms pad_len_le [of "length uid"] pad_len_le [of "length ct"] pad_len_le [of "length aad"]
    pad_len_le [of "length iv"] pad_len_le [of "length tag"]
  by (intro wrap_request_ok) (simp_all add: tag_defs optional_bytes_def additional_data_def)

lemma create_request_ok: "ttlv_ok (create_symmetric_key alg n)" "ttlv_ok (create_asymmetric_key alg n)"
  unfolding create_symmetric_key_def create_asymmetric_key_def
  by (intro wrap_request_ok; simp add: tag_defs kmip_attribute_def pad_len_def utf8_valid_ascii as_bytes_def)+

section \<open>An exchange with a server\<close>

text \<open>
  What the provider relies on. \<open>serves\<close>: the transport delivers a well-formed request and, to the two
  reads that follow, the header and the body of the response \<open>respond\<close> gives, a TTLV structure of at
  most 16 MiB. \<open>gcm_server\<close>: the documented contract of the Encrypt and Decrypt operations of AES-GCM,
  stated on the fields a server reads out of a request by their tags: an Encrypt request for the
  plaintext \<open>pt\<close> is answered with ciphertext, nonce and tag, and a Decrypt request that returns the three with the same
  additional data is answered with the plaintext.
\<close>

definition serves :: "'w kmip_net \<Rightarrow> (ttlv_item \<Rightarrow> 'w \<Rightarrow> ttlv_item list \<times> 'w) \<Rightarrow> bool" where
  "serves net respond \<longleftrightarrow> slice_buf (net_split net) \<and> (\<forall>q w. ttlv_ok q \<longrightarrow>
     (let r = structure_item RESPONSE_MESSAGE (fst (respond q w)); body = concat (map encode_item (fst (respond q w)))
      in ttlv_ok r \<and> length body \<le> MAX_RESPONSE_SIZE \<and>
         (\<exists>w1 w2. net_write net (encode_item q) w = (Ok (), w1)
            \<and> net_read net 8 w1 = (Ok (write_tag RESPONSE_MESSAGE @ type_byte TStructure # put_u32 (of_nat (length body))), w2)
            \<and> net_read net (length body) w2 = (Ok body, snd (respond q w)))))"

record kmip_fields =
  f_operation :: "u32 option"
  f_uid :: "string option"
  f_data :: "byte list option"
  f_iv :: "byte list option"
  f_tag :: "byte list option"
  f_aad :: "byte list option"

definition fields_of :: "ttlv_item \<Rightarrow> kmip_fields" where
  "fields_of q =
     (let batch = find_item BATCH_ITEM q; body = Option.bind batch (find_item REQUEST_PAYLOAD)
      in \<lparr>f_operation = Option.bind (Option.bind batch (find_item OPERATION)) as_enum,
          f_uid = Option.bind (Option.bind body (find_item UNIQUE_ID)) as_text,
          f_data = Option.bind (Option.bind body (find_item DATA)) item_bytes,
          f_iv = Option.bind (Option.bind body (find_item IV_COUNTER_NONCE)) item_bytes,
          f_tag = Option.bind (Option.bind body (find_item AUTHENTICATED_ENCRYPTION_TAG)) item_bytes,
          f_aad = Option.bind (Option.bind body (find_item AUTHENTICATED_ENCRYPTION_ADDITIONAL_DATA)) item_bytes\<rparr>)"

definition aad_field :: "byte list \<Rightarrow> byte list option" where
  "aad_field aad = (if aad = [] then None else Some aad)"

definition gcm_server :: "(ttlv_item \<Rightarrow> 'w \<Rightarrow> ttlv_item list \<times> 'w) \<Rightarrow> string \<Rightarrow> byte list \<Rightarrow> bool" where
  "gcm_server respond uid pt \<longleftrightarrow> (\<forall>q w aad.
     fields_of q = \<lparr>f_operation = Some 0x1F, f_uid = Some uid, f_data = Some pt, f_iv = None, f_tag = None, f_aad = aad\<rparr> \<longrightarrow>
     (\<exists>resp ct iv tag. parse_response (structure_item RESPONSE_MESSAGE (fst (respond q w))) = Ok resp
        \<and> result_status resp = SUCCESS \<and> response_bytes DATA resp = Some ct
        \<and> response_bytes IV_COUNTER_NONCE resp = Some iv \<and> iv \<noteq> [] \<and> length iv \<le> 255
        \<and> response_bytes AUTHENTICATED_ENCRYPTION_TAG resp = Some tag \<and> tag \<noteq> [] \<and> length tag \<le> 255
        \<and> (\<forall>q' w'. fields_of q' = \<lparr>f_operation = Some 0x20, f_uid = Some uid, f_data = Some ct, f_iv = Some iv,
                                   f_tag = Some tag, f_aad = aad\<rparr> \<longrightarrow>
             (\<exists>resp'. parse_response (structure_item RESPONSE_MESSAGE (fst (respond q' w'))) = Ok resp'
                \<and> result_status resp' = SUCCESS \<and> response_bytes DATA resp' = Some pt))))"

lemma find_structure [simp]: "find_item t (structure_item t' cs) = List.find (\<lambda>c. it_tag c = t) cs"
  by (simp add: find_item_def structure_item_def)

lemma it_tag_simps [simp]:
  "it_tag (structure_item t cs) = t" "it_tag (integer_item t v) = t" "it_tag (enumeration_item t w) = t"
  "it_tag (text_item t s) = t" "it_tag (byte_item t b) = t"
  by (simp_all add: item_defs)

lemma as_simps [simp]:
  "as_enum (enumeration_item t w) = Some w" "as_text (text_item t s) = Some s" "item_bytes (byte_item t b) = Some b"
  by (simp_all add: item_defs as_enum_def as_text_def item_bytes_def)

lemma it_tag_constants [simp]: "it_tag request_header = REQUEST_HEADER" "it_tag aes_gcm_parameters = CRYPTOGRAPHIC_PARAMETERS"
  by (simp_all add: request_header_def aes_gcm_parameters_def)

lemma fields_of_encrypt_request:
  "fields_of (encrypt_request uid pt None aad) =
     \<lparr>f_operation = Some 0x1F, f_uid = Some uid, f_data = Some pt, f_iv = None, f_tag = None, f_aad = aad_field aad\<rparr>"
  by (simp add: fields_of_def encrypt_request_def wrap_request_def optional_bytes_def additional_data_def aad_field_def tag_defs)

lemma fields_of_decrypt_request:
  "fields_of (decrypt_request uid ct (Some iv) (Some tag) aad) =
     \<lparr>f_operation = Some 0x20, f_uid = Some uid, f_data = Some ct, f_iv = Some iv, f_tag = Some tag, f_aad = aad_field aad\<rparr>"
  by (simp add: fields_of_def decrypt_request_def wrap_request_def optional_bytes_def additional_data_def aad_field_def tag_defs)

lemma round_trip_served:
  assumes "serves net respond" "ttlv_ok q"
  shows "round_trip net q w = Some (Ok (structure_item RESPONSE_MESSAGE (fst (respond q w))), snd (respond q w))"
proof -
  define r where "r = structure_item RESPONSE_MESSAGE (fst (respond q w))"
  define body where "body = concat (map encode_item (fst (respond q w)))"
  define header where "header = write_tag RESPONSE_MESSAGE @ type_byte TStructure # put_u32 (of_nat (length body))"
  obtain w1 w2 where io: "net_write net (encode_item q) w = (Ok (), w1)" "net_read net 8 w1 = (Ok header, w2)"
      "net_read net (length body) w2 = (Ok body, snd (respond q w))" "ttlv_ok r" "length body \<le> MAX_RESPONSE_SIZE"
      "slice_buf (net_split net)"
    using conjunct2 [OF assms(1) [unfolded serves_def Let_def], THEN spec, THEN spec, THEN mp, OF assms(2)] assms(1)
    unfolding r_def body_def header_def serves_def by blast
  have len: "unat (from_be_bytes (drop 4 header) :: u32) = length body"
    using io(5) by (simp add: header_def unat_length MAX_RESPONSE_SIZE_def write_tag_def)
  have "header @ body = encode_item r @ []"
    by (simp add: header_def body_def r_def structure_item_def Let_def)
  then have "decode (net_split net) (header @ body) = Some (Decoded r [])"
    using decode_encode_item [OF io(6,4), of "[]"] by metis
  then show ?thesis
    using io(1-3,5) len by (simp add: round_trip_def Let_def decoded_response_def r_def)
qed

lemma checked_request_served:
  assumes "serves net respond" "ttlv_ok q" "kp_open p"
      and "parse_response (structure_item RESPONSE_MESSAGE (fst (respond q (kp_world p)))) = Ok resp" "result_status resp = SUCCESS"
  shows "checked_request net q p = Some (Ok resp, p\<lparr>kp_world := snd (respond q (kp_world p))\<rparr>)"
  using assms(3-5) by (simp add: checked_request_def send_request_def kmip_bind_def get_connection_def exchange_def
    round_trip_served [OF assms(1,2)] kmip_lift_def check_response_def)

lemma find_item_wire:
  assumes "find_item t item = Some c"
  shows "wire c \<le> wire item"
proof (cases item)
  case (TtlvItem tag ty v)
  with assms obtain cs where v: "v = Structure cs" and "List.find (\<lambda>c. it_tag c = t) cs = Some c"
    by (auto simp: find_item_def split: ttlv_value.splits)
  then have "c \<in> set cs" by (auto simp: find_Some_iff)
  then have "wire c \<le> sum_list (map (\<lambda>c. wire c) cs)" by (intro member_le_sum_list) simp_all
  then show ?thesis by (simp add: TtlvItem v Let_def length_concat_encode)
qed

lemma item_bytes_wire: "item_bytes c = Some b \<Longrightarrow> length b \<le> wire c"
  by (cases c) (auto simp: item_bytes_def split: ttlv_value.splits)

lemma response_bytes_wire:
  assumes "parse_response item = Ok resp" "response_bytes t resp = Some b"
  shows "length b \<le> wire item"
proof -
  obtain pl c where pl: "payload resp = Some pl" "find_item t pl = Some c" "item_bytes c = Some b"
    using assms(2) by (auto simp: response_bytes_def Option.bind_eq_Some_conv)
  obtain batch where batch: "find_item BATCH_ITEM item = Some batch" "find_item RESPONSE_PAYLOAD batch = payload resp"
  proof (cases "find_item BATCH_ITEM item")
    case (Some batch)
    then show ?thesis using assms(1) that
      by (cases "Option.bind (find_item RESULT_STATUS batch) as_enum") (auto simp: parse_response_def ok_or_def)
  qed (use assms(1) in \<open>simp add: parse_response_def ok_or_def\<close>)
  show ?thesis
    using item_bytes_wire [OF pl(3)] find_item_wire [OF pl(2)] find_item_wire [OF batch(1)]
      find_item_wire [OF batch(2) [unfolded pl(1)]] by linarith
qed

lemma response_small:
  assumes "serves net respond" "ttlv_ok q"
      and "parse_response (structure_item RESPONSE_MESSAGE (fst (respond q w))) = Ok resp" "response_bytes t resp = Some b"
  shows "length b \<le> 2 ^ 25"
proof -
  have "length (concat (map encode_item (fst (respond q w)))) \<le> MAX_RESPONSE_SIZE"
    using assms(1,2) unfolding serves_def Let_def by blast
  then show ?thesis
    using response_bytes_wire [OF assms(3,4)] by (simp add: length_concat_encode MAX_RESPONSE_SIZE_def)
qed

lemmas gcm_server_encrypt = gcm_server_def [THEN iffD1, rule_format]

section \<open>Properties\<close>

text \<open>
  C15: What KMIP encrypts, KMIP decrypts. Over a transport that delivers messages and a server that
  keeps the AES-GCM contract, encrypting returns a blob, and decrypting that blob with the same
  additional data, on any later open connection and in any later state of the server, returns the
  plaintext: the request encoding, the response parsing and the framing of nonce, tag and
  ciphertext lose nothing on the way.
\<close>

theorem kmip_encrypt_decrypt:
  assumes "serves net respond" "gcm_server respond (key_id h) pt"
      and "utf8_valid (as_bytes (key_id h))" "length (key_id h) + length pt + length aad < 2 ^ 29"
      and "kp_open p" "kp_open p'"
  shows "\<exists>blob q q'. kmip_encrypt net h pt aad p = Some (Ok blob, q) \<and> kmip_decrypt net h blob aad p' = Some (Ok pt, q')"
proof -
  let ?e = "encrypt_request (key_id h) pt None aad"
  have e: "ttlv_ok ?e" using assms(3,4) by (intro encrypt_request_ok) simp_all
  obtain resp ct iv tag where r: "parse_response (structure_item RESPONSE_MESSAGE (fst (respond ?e (kp_world p)))) = Ok resp"
      "result_status resp = SUCCESS" "response_bytes DATA resp = Some ct" "response_bytes IV_COUNTER_NONCE resp = Some iv"
      "iv \<noteq> []" "length iv \<le> 255" "response_bytes AUTHENTICATED_ENCRYPTION_TAG resp = Some tag" "tag \<noteq> []" "length tag \<le> 255"
    and dec: "\<forall>q' w'. fields_of q' = \<lparr>f_operation = Some 0x20, f_uid = Some (key_id h), f_data = Some ct, f_iv = Some iv,
           f_tag = Some tag, f_aad = aad_field aad\<rparr> \<longrightarrow>
         (\<exists>resp'. parse_response (structure_item RESPONSE_MESSAGE (fst (respond q' w'))) = Ok resp'
           \<and> result_status resp' = SUCCESS \<and> response_bytes DATA resp' = Some pt)"
    using gcm_server_encrypt [OF assms(2) fields_of_encrypt_request [of "key_id h" pt aad], of "kp_world p"]
    by (elim exE conjE) (rule that)
  let ?d = "decrypt_request (key_id h) ct (Some iv) (Some tag) aad"
  have "length ct \<le> 2 ^ 25" by (rule response_small [OF assms(1) e r(1,3)])
  then have d: "ttlv_ok ?d" using assms(3,4) r(6,9) by (intro decrypt_request_ok) simp_all
  obtain resp' where r': "parse_response (structure_item RESPONSE_MESSAGE (fst (respond ?d (kp_world p')))) = Ok resp'"
      "result_status resp' = SUCCESS" "response_bytes DATA resp' = Some pt"
    using dec [rule_format, OF fields_of_decrypt_request, of "kp_world p'"] by (elim exE conjE) (rule that)
  obtain blob where blob: "frame_blob iv tag ct = Ok blob" using r(6,9) by (simp add: frame_blob_def)
  have "payload resp \<noteq> None" using r(3) by (cases "payload resp") (simp_all add: response_bytes_def)
  then have "kmip_encrypt net h pt aad p = Some (Ok blob, p\<lparr>kp_world := snd (respond ?e (kp_world p))\<rparr>)"
    using r blob by (auto simp: kmip_encrypt_def kmip_bind_def kmip_lift_def encrypt_output_def ok_or_def
      checked_request_served [OF assms(1) e assms(5) r(1,2)])
  moreover have "kmip_decrypt net h blob aad p' = Some (Ok pt, p'\<lparr>kp_world := snd (respond ?d (kp_world p'))\<rparr>)"
    using r(8) r' unframe_frame [OF blob] by (simp add: kmip_decrypt_def kmip_bind_def kmip_lift_def ok_or_def
      checked_request_served [OF assms(1) d assms(6) r'(1,2)])
  ultimately show ?thesis by blast
qed

text \<open>A server whose cipher is the identity, for data of up to 1000 bytes, behind a transport that
  buffers its response.\<close>

definition echo_respond :: "ttlv_item \<Rightarrow> byte list \<Rightarrow> ttlv_item list \<times> byte list" where
  "echo_respond q w = (case f_data (fields_of q) of
       Some b \<Rightarrow> ([structure_item BATCH_ITEM
           (if length b \<le> 1000
            then [enumeration_item RESULT_STATUS SUCCESS,
                  structure_item RESPONSE_PAYLOAD [byte_item DATA b, byte_item IV_COUNTER_NONCE [1], byte_item AUTHENTICATED_ENCRYPTION_TAG [2]]]
            else [enumeration_item RESULT_STATUS OPERATION_FAILED])], [])
     | None \<Rightarrow> ([structure_item BATCH_ITEM [enumeration_item RESULT_STATUS OPERATION_FAILED]], []))"

definition echo_net :: "byte list kmip_net" where
  "echo_net = \<lparr>net_connect = \<lambda>w. (Ok (), w),
     net_write = \<lambda>b w. (case decode slice_split b of
         Some (Decoded q _) \<Rightarrow> (Ok (), encode_item (structure_item RESPONSE_MESSAGE (fst (echo_respond q w))))
       | _ \<Rightarrow> (Err ''refused'', w)),
     net_read = \<lambda>n w. if n \<le> length w then (Ok (take n w), drop n w) else (Err ''eof'', w),
     net_split = slice_split\<rparr>"

lemma echo_respond_bounded:
  "list_all ttlv_ok (fst (echo_respond q w)) \<and> sum_list (map (\<lambda>c. wire c) (fst (echo_respond q w))) \<le> 2000
   \<and> snd (echo_respond q w) = []"
proof (cases "f_data (fields_of q)")
  case (Some b)
  then show ?thesis using pad_len_le [of "length b"]
    by (simp add: echo_respond_def tag_defs SUCCESS_def OPERATION_FAILED_def pad_len_def [of "Suc 0"])
qed (simp add: echo_respond_def tag_defs)

lemma echo_serves: "serves echo_net echo_respond"
  unfolding serves_def Let_def
proof (intro conjI allI impI)
  show "slice_buf (net_split echo_net)" by (simp add: echo_net_def slice_split_buf)
  fix q w assume q: "ttlv_ok q"
  let ?cs = "fst (echo_respond q w)" let ?body = "concat (map encode_item ?cs)"
  let ?header = "write_tag RESPONSE_MESSAGE @ type_byte TStructure # put_u32 (of_nat (length ?body))"
  show "ttlv_ok (structure_item RESPONSE_MESSAGE ?cs)" and "length ?body \<le> MAX_RESPONSE_SIZE"
    using echo_respond_bounded [of q w] by (simp_all add: tag_defs MAX_RESPONSE_SIZE_def length_concat_encode)
  have enc: "encode_item (structure_item RESPONSE_MESSAGE ?cs) = ?header @ ?body"
    by (simp add: structure_item_def Let_def)
  have "decode slice_split (encode_item q) = Some (Decoded q [])"
    using decode_encode_item [OF slice_split_buf q, of "[]"] by simp
  then have "net_write echo_net (encode_item q) w = (Ok (), ?header @ ?body)"
    using enc by (simp add: echo_net_def)
  moreover have "length ?header = 8" by simp
  then have "net_read echo_net 8 (?header @ ?body) = (Ok ?header, ?body)" by (simp add: echo_net_def)
  moreover have "net_read echo_net (length ?body) ?body = (Ok ?body, snd (echo_respond q w))"
    using echo_respond_bounded [of q w] by (simp add: echo_net_def)
  ultimately show "\<exists>w1 w2. net_write echo_net (encode_item q) w = (Ok (), w1) \<and> net_read echo_net 8 w1 = (Ok ?header, w2)
      \<and> net_read echo_net (length ?body) w2 = (Ok ?body, snd (echo_respond q w))" by blast
qed

lemma echo_gcm: "length pt \<le> 1000 \<Longrightarrow> gcm_server echo_respond uid pt"
  unfolding gcm_server_def
  by (auto simp: echo_respond_def parse_response_def response_bytes_def tag_defs)

theorem kmip_encrypt_decrypt_witness:
  "\<exists>blob q q'. kmip_encrypt echo_net \<lparr>key_id = ''k'', handle_spec = Aes256\<rparr> [1, 2] [3] \<lparr>kp_open = True, kp_world = []\<rparr> = Some (Ok blob, q)
     \<and> kmip_decrypt echo_net \<lparr>key_id = ''k'', handle_spec = Aes256\<rparr> blob [3] \<lparr>kp_open = True, kp_world = []\<rparr> = Some (Ok [1, 2], q')"
  by (rule kmip_encrypt_decrypt [OF echo_serves echo_gcm]) (simp_all add: utf8_valid_ascii as_bytes_def)

text \<open>
  C35: The ciphertext blob is unambiguous: splitting a blob yields nonce, tag and ciphertext exactly
  when framing the three yields that blob and the tag is not empty, so nothing that the provider did
  not frame is ever split, and no two framings share a blob.
\<close>

theorem unframe_blob_iff:
  "unframe_blob blob = Ok (nonce, tag, ct) \<longleftrightarrow> frame_blob nonce tag ct = Ok blob \<and> tag \<noteq> []"
  using frame_unframe [of blob nonce tag ct] unframe_frame [of nonce tag ct blob] by auto

text \<open>
  C36: An authentication tag that is present but empty gets past encryption: for such a response
  \<open>encrypt\<close> returns a blob, and \<open>decrypt\<close> refuses that blob without contacting the server, whatever
  the server, the key and the additional data.
\<close>

theorem empty_tag_accepted:
  "\<exists>blob. encrypt_output \<lparr>result_status = SUCCESS, result_reason = None, result_message = None,
       payload = Some (structure_item RESPONSE_PAYLOAD
         [byte_item DATA ct, byte_item IV_COUNTER_NONCE [n], byte_item AUTHENTICATED_ENCRYPTION_TAG []])\<rparr> = Ok blob
     \<and> (\<forall>(net :: 'w kmip_net) h aad p. kmip_decrypt net h blob aad p = Some (Err (NotABlob ''no authentication tag''), p))"
proof -
  obtain blob where blob: "frame_blob [n] [] ct = Ok blob" by (simp add: frame_blob_def)
  then show ?thesis using unframe_frame [OF blob]
    by (intro exI [of _ blob]) (simp add: encrypt_output_def response_bytes_def tag_defs kmip_decrypt_def kmip_bind_def kmip_lift_def)
qed

end
