(* ===== verification/Ecdsa_Der.thy ===== *)
theory Ecdsa_Der
  imports Key_State Decimal
begin

text \<open>
  ECDSA signatures of PKCS#11 tokens (\<open>keyrack-pkcs11/src/ecdsa_der.rs\<close>): conversion between the raw form
  \<open>r || s\<close> and DER. A \<open>usize\<close> is a natural number; the cast of a length to \<open>u8\<close> wraps, as in the source.
  Every index of the source is guarded, so the functions have no panic.
\<close>

section \<open>Conversions\<close>

definition encode_integer :: "byte list \<Rightarrow> byte list" where
  "encode_integer val =
     (let start = (if list_ex (\<lambda>b. b \<noteq> 0) val then length (takeWhile (\<lambda>b. b = 0) val) else length val - 1);
          trimmed = drop start val;
          needs_pad = (trimmed \<noteq> [] \<and> bit (hd trimmed) 7);
          len = length trimmed + (if needs_pad then 1 else 0)
      in [0x02, of_nat len] @ (if needs_pad then [0] else []) @ trimmed)"

definition raw_to_der :: "byte list \<Rightarrow> nat \<Rightarrow> (byte list, keyrack_error) result" where
  "raw_to_der raw component_len =
     (if length raw \<noteq> component_len * 2
      then Err (Provider (''expected '' @ show_nat (component_len * 2) @ '' bytes for raw ECDSA sig, got '' @ show_nat (length raw)))
      else let r_enc = encode_integer (take component_len raw);
               s_enc = encode_integer (drop component_len raw)
           in Ok ([0x30, of_nat (length r_enc + length s_enc)] @ r_enc @ s_enc))"

definition read_integer :: "byte list \<Rightarrow> nat \<Rightarrow> nat \<Rightarrow> (byte list \<times> nat, keyrack_error) result" where
  "read_integer der pos pad_to =
     (if length der \<le> pos \<or> der ! pos \<noteq> 0x02 then Err (Provider ''expected INTEGER tag in DER'')
      else if length der \<le> pos + 1 then Err (Provider ''truncated DER'')
      else let len = unat (der ! (pos + 1)); pos = pos + 2 in
        if length der < pos + len then Err (Provider ''truncated DER integer'')
        else let bytes = take len (drop pos der);
                 bytes = (if 1 < length bytes \<and> hd bytes = 0 then tl bytes else bytes) in
          if pad_to < length bytes then Err (Provider ''DER integer too large for curve'')
          else Ok (replicate (pad_to - length bytes) 0 @ bytes, pos + len))"

definition der_to_raw :: "byte list \<Rightarrow> nat \<Rightarrow> (byte list, keyrack_error) result" where
  "der_to_raw der component_len =
     (if length der < 6 \<or> der ! 0 \<noteq> 0x30 then Err (Provider ''invalid DER ECDSA signature'')
      else and_then (read_integer der 2 component_len) (\<lambda>(r, pos).
           and_then (read_integer der pos component_len) (\<lambda>(s, _). Ok (r @ s))))"

section \<open>The integer encoding\<close>

fun be_value :: "byte list \<Rightarrow> nat" where
  "be_value [] = 0"
| "be_value (b # bs) = unat b * 256 ^ length bs + be_value bs"

text \<open>The contents of a non-negative DER integer: not empty, sign bit clear, no redundant zero in front.\<close>

definition der_unsigned :: "byte list \<Rightarrow> bool" where
  "der_unsigned c \<longleftrightarrow> c \<noteq> [] \<and> \<not> bit (hd c) 7 \<and> (1 < length c \<and> hd c = 0 \<longrightarrow> bit (c ! 1) 7)"

lemma be_value_zeros: "be_value (replicate n 0 @ bs) = be_value bs"
  by (induction n) simp_all

lemma split_zeros:
  "\<exists>z t. val = replicate z 0 @ t \<and> (t \<noteq> [] \<longrightarrow> hd t \<noteq> 0) \<and> z = length (takeWhile (\<lambda>b. b = (0 :: byte)) val)"
proof (intro exI conjI)
  show "val = replicate (length (takeWhile (\<lambda>b. b = 0) val)) 0 @ dropWhile (\<lambda>b. b = 0) val"
    by (induction val) simp_all
  show "dropWhile (\<lambda>b. b = 0) val \<noteq> [] \<longrightarrow> hd (dropWhile (\<lambda>b. b = 0) val) \<noteq> 0"
    using hd_dropWhile by blast
qed simp

text \<open>The magnitude a component is encoded with: without leading zeros, or a single zero.\<close>

definition magnitude :: "byte list \<Rightarrow> byte list" where
  "magnitude val = drop (if list_ex (\<lambda>b. b \<noteq> 0) val then length (takeWhile (\<lambda>b. b = 0) val) else length val - 1) val"

definition der_content :: "byte list \<Rightarrow> byte list" where
  "der_content t = (if bit (hd t) 7 then [0] else []) @ t"

lemma encode_integer_content:
  assumes "magnitude val \<noteq> []"
  shows "encode_integer val = [0x02, of_nat (length (der_content (magnitude val)))] @ der_content (magnitude val)"
  unfolding encode_integer_def Let_def magnitude_def [symmetric] using assms by (simp add: der_content_def)

lemma magnitude_shape:
  assumes "val \<noteq> []"
  shows "magnitude val \<noteq> [] \<and> val = replicate (length val - length (magnitude val)) 0 @ magnitude val \<and>
    length (magnitude val) \<le> length val \<and> (1 < length (magnitude val) \<longrightarrow> hd (magnitude val) \<noteq> 0)"
proof (cases "list_ex (\<lambda>b. b \<noteq> 0) val")
  case True
  obtain z t where z: "val = replicate z 0 @ t" "t \<noteq> [] \<longrightarrow> hd t \<noteq> 0" "z = length (takeWhile (\<lambda>b. b = 0) val)"
    using split_zeros by blast
  have "t \<noteq> []" using True z(1) by (auto simp: list_ex_iff)
  moreover have "magnitude val = t"
    using arg_cong [OF z(1), of "drop z"] True z(3) by (simp add: magnitude_def)
  moreover have "length val = z + length t" using arg_cong [OF z(1), of length] by simp
  ultimately show ?thesis using z(1,2) by simp
next
  case False
  then have "val = replicate (length val) 0" by (auto simp: list_ex_iff intro: replicate_eqI)
  then obtain n where n: "val = replicate n 0 @ [0]"
    using assms by (cases "length val") (simp_all add: replicate_append_same)
  then have "magnitude val = [0]" using False by (simp add: magnitude_def)
  then show ?thesis using n by simp
qed

lemma der_content_unsigned:
  "t \<noteq> [] \<Longrightarrow> (1 < length t \<longrightarrow> hd t \<noteq> 0) \<Longrightarrow> der_unsigned (der_content t) \<and> be_value (der_content t) = be_value t"
  by (cases t) (auto simp: der_content_def der_unsigned_def)

lemma strip_content:
  assumes "t \<noteq> []" "1 < length t \<longrightarrow> hd t \<noteq> 0"
  shows "(if 1 < length (der_content t) \<and> hd (der_content t) = 0 then tl (der_content t) else der_content t) = t"
  using assms by (cases t) (auto simp: der_content_def)

lemma read_integer_content:
  assumes "t \<noteq> []" "1 < length t \<longrightarrow> hd t \<noteq> 0" "length (der_content t) < 256" "length t \<le> n"
  shows "read_integer (pre @ [0x02, of_nat (length (der_content t))] @ der_content t @ rest) (length pre) n =
    Ok (replicate (n - length t) 0 @ t, length pre + 2 + length (der_content t))"
proof -
  let ?c = "der_content t"
  have len: "unat (of_nat (length ?c) :: byte) = length ?c" using assms(3) by (simp add: unat_of_nat)
  show ?thesis
    using strip_content [OF assms(1,2)] assms(4) len by (simp add: read_integer_def Let_def nth_append)
qed

section \<open>Properties\<close>

text \<open>
  C40: Converting a raw ECDSA signature to DER and back returns it. For components of 1 to 60 bytes the
  DER form is canonical: a sequence in the short length form of two integers, each minimal, not negative
  and equal in value to its component; and decoding it with the component length gives the raw bytes,
  leading zeros included.
\<close>

theorem ecdsa_der_round_trip:
  assumes "length raw = n * 2" "0 < n" "n \<le> 60"
  shows "\<exists>r s. der_unsigned r \<and> der_unsigned s \<and> be_value r = be_value (take n raw) \<and> be_value s = be_value (drop n raw) \<and>
    4 + length r + length s < 128 \<and>
    raw_to_der raw n = Ok ([0x30, of_nat (4 + length r + length s), 0x02, of_nat (length r)] @ r @ [0x02, of_nat (length s)] @ s) \<and>
    and_then (raw_to_der raw n) (\<lambda>der. der_to_raw der n) = Ok raw"
proof -
  let ?a = "take n raw" and ?b = "drop n raw"
  have len: "length ?a = n" "length ?b = n" "?a \<noteq> []" "?b \<noteq> []" using assms by auto
  define r where "r = magnitude ?a"
  define s where "s = magnitude ?b"
  have r: "r \<noteq> []" "?a = replicate (n - length r) 0 @ r" "length r \<le> n" "1 < length r \<longrightarrow> hd r \<noteq> 0"
    using magnitude_shape [OF len(3)] unfolding len(1) r_def by blast+
  have s: "s \<noteq> []" "?b = replicate (n - length s) 0 @ s" "length s \<le> n" "1 < length s \<longrightarrow> hd s \<noteq> 0"
    using magnitude_shape [OF len(4)] unfolding len(2) s_def by blast+
  let ?r = "der_content r" and ?s = "der_content s"
  have bound: "length ?r \<le> n + 1" "length ?s \<le> n + 1" "0 < length ?r" "0 < length ?s" using r(1,3) s(1,3) by (simp_all add: der_content_def)
  let ?der = "[0x30, of_nat (4 + length ?r + length ?s), 0x02, of_nat (length ?r)] @ ?r @ [0x02, of_nat (length ?s)] @ ?s"
  have enc: "raw_to_der raw n = Ok ?der"
    using assms(1) encode_integer_content [of ?a] encode_integer_content [of ?b] r(1) s(1)
    by (simp add: raw_to_der_def Let_def flip: r_def s_def)
  have first: "read_integer ?der 2 n = Ok (?a, 2 + 2 + length ?r)"
    using read_integer_content [OF r(1,4) _ r(3), of "[0x30, of_nat (4 + length ?r + length ?s)]" "[0x02, of_nat (length ?s)] @ ?s"] bound assms(3) r(2)
    by (simp add: numeral_2_eq_2)
  have second: "read_integer ?der (2 + 2 + length ?r) n = Ok (?b, 2 + 2 + length ?r + 2 + length ?s)"
    using read_integer_content [OF s(1,4) _ s(3), of "[0x30, of_nat (4 + length ?r + length ?s), 0x02, of_nat (length ?r)] @ ?r" "[]"] bound assms(3) s(2)
    by (simp add: eval_nat_numeral)
  have "der_to_raw ?der n = Ok raw"
    using first second bound unfolding der_to_raw_def by simp
  moreover have "be_value ?r = be_value ?a" "be_value ?s = be_value ?b"
    using der_content_unsigned [OF r(1,4)] der_content_unsigned [OF s(1,4)] be_value_zeros [of "n - length r" r]
      be_value_zeros [of "n - length s" s] r(2) s(2) by simp_all
  moreover have "4 + length ?r + length ?s < 128" using bound assms(3) by simp
  ultimately show ?thesis
    using enc der_content_unsigned [OF r(1,4)] der_content_unsigned [OF s(1,4)] by (intro exI [of _ ?r] exI [of _ ?s]) simp
qed

theorem ecdsa_der_round_trip_witness:
  "\<exists>r s. raw_to_der [0, 5, 200, 1] 2 = Ok ([0x30, of_nat (4 + length r + length s), 0x02, of_nat (length r)] @ r @ [0x02, of_nat (length s)] @ s) \<and>
     and_then (raw_to_der [0, 5, 200, 1] 2) (\<lambda>der. der_to_raw der 2) = Ok [0, 5, 200, 1]"
  using ecdsa_der_round_trip [of "[0, 5, 200, 1]" 2] by auto

end
