(* ===== verification/Spec2Isabelle.thy ===== *)
theory Spec2Isabelle
  imports Tags Header Evidence Lint Rotate_Key Deletion_Scan Worker Ipc Kmip Ecdsa_Der
begin

text \<open>
  KeyRack, verified: a key-management service in Rust (\<open>src/crates\<close>) that names keys by a hash of their
  attributes, arranges them in a hierarchy by rules, wraps child keys under parent keys, and keeps
  records and journals in an SQL store. This library models the core crate, the SQLite store, the
  lifecycle operations and background workers of the service, the crypto worker process and the KMIP
  provider, and proves the properties that make them correct.

  \<^bold>\<open>The program and its parts.\<close> A caller's attributes are normalized and encoded canonically; their hash
  is the logical identifier of the key. The resolver walks the namespace rules from the attributes to
  the identifiers of the ancestors; the linter checks a rule set offline. A key record holds the
  lifecycle state and the versions of the key, whose material is a handle of a provider or an
  envelope wrapped under a parent version. Creations, migrations and destructions of wrapped keys run
  through journals: a durable intent, one dispatch to a provider, a closure with evidence, and one
  publication. The store carries each out as transactions guarded against the others. The service
  chooses a provider by routing rules and changes keys through the store; its workers destroy due keys
  and expire rotation jobs. Wrapped keys are used in a separate worker process, under signed grants,
  over framed messages, and their results leave it through a release gate. The KMIP provider speaks TTLV
  to a hardware module.

  \<^bold>\<open>Theories and sources\<close> (under \<open>keyrack-core/src\<close> unless a crate is named).
  \<^item> \<open>Prelude\<close>, \<open>Bytes\<close>, \<open>Decimal\<close>: Rust's \<open>Result\<close> and \<open>?\<close>, byte arrays, integer text; shared lemmas.
  \<^item> \<open>Identity\<close> (\<open>attr.rs\<close>, \<open>canon.rs\<close>), \<open>Lid\<close> (\<open>lid.rs\<close>), \<open>Tags\<close> (\<open>tags.rs\<close>): identity.
  \<^item> \<open>Header\<close> (\<open>encryption_context.rs\<close>, \<open>header.rs\<close>), \<open>Wrapping\<close> (\<open>wrapping.rs\<close>), \<open>Codec\<close>, \<open>Custody\<close>, \<open>Evidence\<close>
    (\<open>custody/codec.rs\<close>, \<open>custody/mod.rs\<close>, \<open>custody/evidence.rs\<close>): the byte formats.
  \<^item> \<open>Key_State\<close>, \<open>Key_Record\<close> (\<open>key.rs\<close>, \<open>error.rs\<close>), \<open>Material\<close> (\<open>material.rs\<close>): key records.
  \<^item> \<open>Creation\<close>, \<open>Migration\<close>, \<open>Destruction\<close> (\<open>creation.rs\<close>, \<open>migration.rs\<close>, \<open>migration/wrapped.rs\<close>,
    \<open>destruction.rs\<close>): the journals and their checks.
  \<^item> \<open>Rules\<close>, \<open>Resolver\<close>, \<open>Lint\<close> (\<open>rule.rs\<close>, \<open>resolver.rs\<close>, \<open>lint.rs\<close>): the hierarchy.
  \<^item> \<open>Provider_Registry\<close>, \<open>Provider_Routing\<close> (\<open>registry.rs\<close>, \<open>routing.rs\<close>, \<open>keyrack-service/src/domain.rs\<close>):
    which provider serves a key.
  \<^item> \<open>Database\<close>, \<open>Store_Keys\<close>, \<open>Store_Creation\<close>, \<open>Store_Migration\<close>, \<open>Store_Destruction\<close>
    (\<open>keyrack-sqlite/src\<close>): tables, guards and transactions; \<open>Store\<close>, \<open>Store_Invariants\<close>: the store as a
    transition system and its invariants.
  \<^item> \<open>Rotation\<close> (\<open>rotation.rs\<close>, \<open>cascade.rs\<close>, the job table, the job calls of \<open>domain.rs\<close> and the expiry scan
    of \<open>keyrack-service/src/workers.rs\<close>), \<open>Lifecycle\<close>, \<open>Disabling\<close>, \<open>Rotate_Key\<close> (\<open>domain.rs\<close> over \<open>storage.rs\<close>),
    \<open>Deletion_Scan\<close> (\<open>workers.rs\<close>): the service.
  \<^item> \<open>Delivery\<close>, \<open>Worker\<close>, \<open>Ipc\<close> (\<open>keyrack-crypto-worker/src\<close>): the crypto worker.
  \<^item> \<open>Ttlv\<close>, \<open>Kmip\<close> (\<open>keyrack-kmip/src\<close>): the KMIP client.
  \<^item> \<open>Ecdsa_Der\<close> (\<open>keyrack-pkcs11/src/ecdsa_der.rs\<close>): signatures of PKCS#11 tokens.

  \<^bold>\<open>How code becomes HOL.\<close> A struct is a record, an enum a datatype, a method a function that returns the
  updated value; an early return is \<open>Err\<close>; a panic is \<open>None\<close>. \<open>u64\<close> and \<open>u32\<close> are machine words;
  timestamps are integers and a clock reading is an argument. A string is its UTF-8 bytes. Hash maps and
  SQL tables are association lists; a SQL transaction or a locked section is one call. Strings of a
  derived \<open>Display\<close>, hashes, signatures, ciphers, Unicode normalization, JSON text, TLS, pipes, the server
  and the providers are parameters, with what the code relies on as named hypotheses; each property
  with such a hypothesis has a witness that instantiates it. Small helpers of an operation are covered
  by the source lines of the operation.

  \<^bold>\<open>What is proved.\<close>
  \<^item> Identity: the canonical form is injective up to normalization, an identifier determines its
    attributes or exhibits a hash collision, byte formats have one encoding per value and authenticated
    data binds header and context.
  \<^item> Hierarchy: rule selection is the first best match, parents are the substituted patterns, the resolver
    refines the walk the rules define, and lint-clean rules resolve.
  \<^item> Journals: at most one dispatch, publication only against a verified closure, migrations change only
    wrapping, and a claimed destruction completes.
  \<^item> Store: over every interleaving of its operations a record only advances, compromise history stays, a
    claimed key is frozen, the dependency census lists each live wrapping edge once, and a destruction
    loses only what the operator approved.
  \<^item> Service: the routing policy, the exact effect of the disable cascade on every store (cycles
    included) with the keys it does not reach, a rotation that keeps every old version and counts every
    descendant, the job graph with the write that breaks it, and that
    the deletion worker reports a key destroyed only when its material is gone and its record final,
    whatever other callers do between its calls, the provider registry being fixed, with the rows it
    never visits.
  \<^item> Crypto worker: a grant's sequence number and the creation attempt are spent by their first effect,
    bounded residency, final revocation, a bounded release gate whose records fit one atomic write, and
    a final fence; frames depend only on the byte stream.
  \<^item> KMIP: the TTLV codec round-trips, refuses truncation and terminates, and panics exactly on the
    inputs that reach an empty fixed-width item near their end; encryption and decryption through the server are inverse.
  \<^item> PKCS#11: the DER form of a signature is canonical and converts back.

  \<^bold>\<open>Interfaces.\<close> Locales state what a client relies on: the codec laws of \<open>Codec\<close>, the registry of
  \<open>Provider_Registry\<close>, the key storage of \<open>Lifecycle\<close> and the destruction storage of \<open>Deletion_Scan\<close>, among
  others. Each is interpreted on the model's own definitions, and the properties use the resulting facts.

  \<^bold>\<open>Loops and bounds.\<close> Structural recursion throughout, with termination proofs where the recursion is
  on a remaining input. The cascade of \<open>disable_key\<close> and the traversal of \<open>rotate_key\<close> are partial functions in the
  option monad and are proved to return, because each round disables or visits new keys of a finite
  table. Timer loops are lists of
  ticks. No fuel is used where a property states that a call returns, except as the source has it (the
  depth limit of the resolver).

  \<^bold>\<open>Not modelled.\<close> The gRPC, REST, AWS and command-line surfaces, start-up, configuration, TLS, metrics and
  notifications are I/O around the modelled operations. Authentication, the policy decision point, the
  audit signer and the software, PKCS#11, Vault and Parsec providers are calls of cryptographic
  libraries and external services. The PostgreSQL store repeats the SQLite transactions in another
  dialect. The creation driver, the service's wrapped-key hierarchy (an argument of \<open>rotate_key\<close>), its lease table and its cache
  compose modelled transactions with provider calls, timers and concurrent maps and are not modelled.
  Log lines, notifications and the outcome of audit emission, which the code ignores, are left out.
  Row order of an unordered SQL listing is the order of the table. The call stack is unbounded: the TTLV
  decoder recurses as deep as its input nests. The provider registry is fixed over a run of the deletion
  worker.
\<close>

end
